(* ===== verification/RtPrelude.thy ===== *)
theory RtPrelude
  imports Complex_Main "HOL-Library.AList" "HOL-Library.Multiset"
begin

text \<open>
  Shared vocabulary of the development: Python exceptions as values of a sum, the dynamic values
  the runtime exchanges as JSON documents, the built-in conversions the sources apply to them
  (truth value, \<open>or\<close>, \<open>str\<close>, \<open>int\<close>, \<open>float\<close>, iteration), insertion-ordered dictionaries as
  association lists, and the generic list and dictionary lemmas the components share.

  A Python string is a list of characters; a character of the model stands for a code point below
  256. A Python \<open>int\<close> is an \<open>int\<close>. A Python \<open>float\<close> is its exact rational value: the rounding of
  IEEE arithmetic is not modelled, and no property speaks about it.
\<close>

named_theorems rt_simps \<open>unfolding rules shared by the components\<close>
named_theorems rt_inv \<open>preservation of component invariants\<close>

section \<open>Errors as values\<close>

datatype exn =
    ValueError string
  | TypeError
  | KeyError string
  | AssertionError
  | OverflowError
  | RuntimeError string
  | RunError string string
  | RpcError string string
  | RuntimeFailure string string
  | InferenceError string string bool "int option"
  | OtherError string string
  | CancelledError
  | OutOfFuel

text \<open>\<open>except Exception\<close> catches every error but the cancellation of the task; \<open>OutOfFuel\<close> is no
  error of the program but the value of a loop that has not ended within its fuel.\<close>

fun is_exception :: "exn \<Rightarrow> bool" where
  "is_exception CancelledError = False"
| "is_exception OutOfFuel = False"
| "is_exception _ = True"

text \<open>
  \<open>type(exc).__name__\<close> and \<open>str(exc)\<close>. An \<open>InferenceError\<close> carries its code, message, retryable flag
  and the provider's retry delay; \<open>OtherError\<close> the name of its class and its text. The texts of the
  interpreter's own errors are left empty.
\<close>

fun exn_type_name :: "exn \<Rightarrow> string" where
  "exn_type_name (ValueError _) = ''ValueError''"
| "exn_type_name TypeError = ''TypeError''"
| "exn_type_name (KeyError _) = ''KeyError''"
| "exn_type_name AssertionError = ''AssertionError''"
| "exn_type_name OverflowError = ''OverflowError''"
| "exn_type_name (RuntimeError _) = ''RuntimeError''"
| "exn_type_name (RunError _ _) = ''RunError''"
| "exn_type_name (RpcError _ _) = ''RpcError''"
| "exn_type_name (RuntimeFailure _ _) = ''RuntimeFailure''"
| "exn_type_name (InferenceError _ _ _ _) = ''InferenceError''"
| "exn_type_name (OtherError n _) = n"
| "exn_type_name CancelledError = ''CancelledError''"
| "exn_type_name OutOfFuel = []"

fun exn_str :: "exn \<Rightarrow> string" where
  "exn_str (ValueError s) = s"
| "exn_str (KeyError s) = s"
| "exn_str (RuntimeError s) = s"
| "exn_str (RunError _ s) = s"
| "exn_str (RpcError _ s) = s"
| "exn_str (RuntimeFailure _ s) = s"
| "exn_str (InferenceError _ s _ _) = s"
| "exn_str (OtherError _ s) = s"
| "exn_str _ = []"

definition exn_describe :: "exn \<Rightarrow> string" where
  "exn_describe e = exn_type_name e @ '': '' @ exn_str e"

definition bind_res :: "'e + 'a \<Rightarrow> ('a \<Rightarrow> 'e + 'b) \<Rightarrow> 'e + 'b" where
  "bind_res r f = (case r of Inl e \<Rightarrow> Inl e | Inr x \<Rightarrow> f x)"

lemma bind_res_simps [simp, rt_simps]:
  "bind_res (Inl e) f = Inl e"
  "bind_res (Inr x) f = f x"
  by (simp_all add: bind_res_def)

lemma bind_res_Inr_iff:
  "bind_res r f = Inr y \<longleftrightarrow> (\<exists>x. r = Inr x \<and> f x = Inr y)"
  by (cases r) simp_all

lemma bind_res_InrE:
  assumes "bind_res r f = Inr y"
  obtains x where "r = Inr x" and "f x = Inr y"
  using assms by (cases r) simp_all

lemma bind_res_cong [fundef_cong]:
  "r = r' \<Longrightarrow> (\<And>x. r' = Inr x \<Longrightarrow> f x = f' x) \<Longrightarrow> bind_res r f = bind_res r' f'"
  by (cases r') simp_all

fun map_res :: "('a \<Rightarrow> 'e + 'b) \<Rightarrow> 'a list \<Rightarrow> 'e + 'b list" where
  "map_res f [] = Inr []"
| "map_res f (x # xs) = bind_res (f x) (\<lambda>y. bind_res (map_res f xs) (\<lambda>ys. Inr (y # ys)))"

lemma map_res_cong [fundef_cong]:
  "xs = ys \<Longrightarrow> (\<And>x. x \<in> set ys \<Longrightarrow> f x = g x) \<Longrightarrow> map_res f xs = map_res g ys"
  by (induction xs arbitrary: ys) (auto intro!: bind_res_cong)

lemma map_res_Inr [simp]: "map_res (\<lambda>x. Inr (f x)) xs = Inr (map f xs)"
  by (induction xs) simp_all

lemma map_res_all_Inr: "(\<And>x. x \<in> set xs \<Longrightarrow> f x = Inr (g x)) \<Longrightarrow> map_res f xs = Inr (map g xs)"
  by (induction xs) simp_all

lemma map_res_length: "map_res f xs = Inr ys \<Longrightarrow> length ys = length xs"
  by (induction xs arbitrary: ys) (auto elim!: bind_res_InrE)

lemma map_res_append:
  "map_res f (xs @ ys) = bind_res (map_res f xs) (\<lambda>as. bind_res (map_res f ys) (\<lambda>bs. Inr (as @ bs)))"
  by (induction xs) (auto simp: bind_res_def split: sum.splits)

section \<open>Insertion-ordered dictionaries\<close>

text \<open>
  A dictionary is an association list: \<open>AList.update\<close> overwrites in place or appends at the end,
  \<open>AList.delete\<close> removes, and \<open>map_of\<close> looks up, as a Python dictionary does.
\<close>

type_synonym ('k, 'v) dict = "('k \<times> 'v) list"

definition dict_get :: "('k, 'v) dict \<Rightarrow> 'k \<Rightarrow> 'v \<Rightarrow> 'v" where
  "dict_get d k v = (case map_of d k of None \<Rightarrow> v | Some x \<Rightarrow> x)"

definition dict_merge :: "('k, 'v) dict \<Rightarrow> ('k, 'v) dict \<Rightarrow> ('k, 'v) dict" where
  "dict_merge d e = fold (\<lambda>(k, v). AList.update k v) e d"

lemma dict_get_simps [simp, rt_simps]:
  "map_of d k = Some x \<Longrightarrow> dict_get d k v = x"
  "map_of d k = None \<Longrightarrow> dict_get d k v = v"
  by (simp_all add: dict_get_def)

lemma map_of_update [simp]: "map_of (AList.update k v d) = (map_of d)(k \<mapsto> v)"
  by (rule AList.update_conv')

lemma map_of_delete [simp]: "map_of (AList.delete k d) = (map_of d)(k := None)"
  by (rule AList.delete_conv')

lemma keys_update [simp]: "fst ` set (AList.update k v d) = insert k (fst ` set d)"
  by (induction d) auto

lemma distinct_keys_update [simp]: "distinct (map fst d) \<Longrightarrow> distinct (map fst (AList.update k v d))"
  by (rule AList.distinct_update)

lemma distinct_keys_delete [simp]: "distinct (map fst d) \<Longrightarrow> distinct (map fst (AList.delete k d))"
  by (rule AList.distinct_delete)

lemma map_of_map_pairs: "map_of (map (\<lambda>(k, v). (k, f k v)) d) k = map_option (f k) (map_of d k)"
  by (induction d) auto

section \<open>Strings and decimal numbers\<close>

definition is_space :: "char \<Rightarrow> bool" where
  "is_space c = (let n = (of_char c :: nat) in
     (9 \<le> n \<and> n \<le> 13) \<or> (28 \<le> n \<and> n \<le> 32) \<or> n = 133 \<or> n = 160)"

definition str_lstrip :: "string \<Rightarrow> string" where
  "str_lstrip s = dropWhile is_space s"

definition str_strip :: "string \<Rightarrow> string" where
  "str_strip s = rev (dropWhile is_space (rev (str_lstrip s)))"

definition digit_char :: "nat \<Rightarrow> char" where
  "digit_char d = char_of (48 + d)"

fun show_nat :: "nat \<Rightarrow> string" where
  "show_nat n = (if n < 10 then [digit_char n] else show_nat (n div 10) @ [digit_char (n mod 10)])"

declare show_nat.simps [simp del]

definition show_int :: "int \<Rightarrow> string" where
  "show_int i = (if i < 0 then CHR ''-'' # show_nat (nat (- i)) else show_nat (nat i))"

definition digit_of :: "char \<Rightarrow> nat option" where
  "digit_of c = (let n = (of_char c :: nat) in if 48 \<le> n \<and> n \<le> 57 then Some (n - 48) else None)"

text \<open>Digits with single underscores between them, as \<open>int()\<close> accepts them.\<close>

fun parse_digits :: "nat \<Rightarrow> bool \<Rightarrow> string \<Rightarrow> nat option" where
  "parse_digits acc prev [] = (if prev then Some acc else None)"
| "parse_digits acc prev (c # cs) =
     (case digit_of c of
        Some d \<Rightarrow> parse_digits (10 * acc + d) True cs
      | None \<Rightarrow> if c = CHR ''_'' \<and> prev then parse_digits acc False cs else None)"

definition split_sign :: "string \<Rightarrow> int \<times> string" where
  "split_sign s = (case s of
      [] \<Rightarrow> (1, [])
    | c # cs \<Rightarrow> if c = CHR ''-'' then (-1, cs) else if c = CHR ''+'' then (1, cs) else (1, s))"

definition parse_int :: "string \<Rightarrow> int option" where
  "parse_int s = (let (sg, ds) = split_sign (str_strip s) in
     map_option (\<lambda>n. sg * int n) (parse_digits 0 False ds))"

lemma digit_of_digit_char [simp]: "d < 10 \<Longrightarrow> digit_of (digit_char d) = Some d"
  by (simp add: digit_of_def digit_char_def)

lemma parse_digits_show_nat:
  "parse_digits acc p (show_nat n) = Some (acc * 10 ^ length (show_nat n) + n)"
proof -
  have gen: "parse_digits acc p (show_nat n @ cs)
      = parse_digits (acc * 10 ^ length (show_nat n) + n) True cs" for cs
  proof (induction n arbitrary: cs rule: show_nat.induct)
    case (1 n)
    show ?case
    proof (cases "n < 10")
      case True
      then show ?thesis by (simp add: show_nat.simps [of n] algebra_simps)
    next
      case False
      with 1 [of "digit_char (n mod 10) # cs"] show ?thesis
        by (simp add: show_nat.simps [of n] algebra_simps)
    qed
  qed
  from gen [of "[]"] show ?thesis by simp
qed

section \<open>Rational text: repr of a float\<close>

text \<open>
  \<open>repr\<close> of a float shows the decimal number with at most seventeen significant digits the float
  stands for: in fixed notation when its decimal point is near its digits, and with an exponent
  otherwise. A value with more digits, which no float has, is cut to seventeen.
\<close>

definition scale_ten :: "rat \<Rightarrow> int \<Rightarrow> rat" where
  "scale_ten q e = (if e < 0 then q / 10 ^ nat (- e) else q * 10 ^ nat e)"

text \<open>Decimal digits of an integer that may have many; \<open>show_nat\<close> on binary numbers.\<close>

function show_digits :: "int \<Rightarrow> string" where
  "show_digits i = (if i < 10 then [digit_char (nat i)] else show_digits (i div 10) @ [digit_char (nat (i mod 10))])"
  by auto
termination by (relation "measure nat") auto

declare show_digits.simps [simp del]

lemma show_digits_nat: "0 \<le> i \<Longrightarrow> show_digits i = show_nat (nat i)"
proof (induction i rule: show_digits.induct)
  case (1 i)
  then show ?case
    by (cases "i < 10") (simp_all add: show_digits.simps [of i] show_nat.simps [of "nat i"] nat_less_iff nat_div_distrib nat_mod_distrib)
qed

text \<open>The number of digits before the decimal point of a positive number, from the lengths of its
  numerator and denominator.\<close>

definition decimal_point :: "rat \<Rightarrow> int" where
  "decimal_point q = (let (a, b) = quotient_of q; k = int (length (show_digits a)) - int (length (show_digits b))
     in if scale_ten 1 k \<le> q then k + 1 else k)"

definition significand :: "rat \<Rightarrow> int" where
  "significand q = \<lfloor>scale_ten q (17 - decimal_point q)\<rfloor>"

definition strip_zeros :: "string \<Rightarrow> string" where
  "strip_zeros ds = rev (dropWhile (\<lambda>c. c = CHR ''0'') (rev ds))"

definition float_text :: "int \<Rightarrow> string \<Rightarrow> string" where
  "float_text k ds =
     (if - 4 < k \<and> k \<le> 16 then
        (if k \<le> 0 then ''0.'' @ replicate (nat (- k)) CHR ''0'' @ ds
         else if length ds \<le> nat k then ds @ replicate (nat k - length ds) CHR ''0'' @ ''.0''
         else take (nat k) ds @ CHR ''.'' # drop (nat k) ds)
      else take 1 ds @ (if length ds \<le> 1 then [] else CHR ''.'' # drop 1 ds)
        @ CHR ''e'' # (if k \<le> 0 then CHR ''-'' else CHR ''+'')
        # (let x = show_nat (nat \<bar>k - 1\<bar>) in if length x < 2 then CHR ''0'' # x else x))"

definition float_repr :: "rat \<Rightarrow> string" where
  "float_repr q =
     (if q = 0 then ''0.0''
      else let ds = show_digits (significand \<bar>q\<bar>) in
        (if q < 0 then ''-'' else []) @ float_text (decimal_point \<bar>q\<bar> + int (length ds) - 17) (strip_zeros ds))"

text \<open>A value a float can have: its seventeen digits are all of it.\<close>

definition exact_float :: "rat \<Rightarrow> bool" where
  "exact_float q \<longleftrightarrow> q = 0 \<or> scale_ten \<bar>q\<bar> (17 - decimal_point \<bar>q\<bar>) = of_int (significand \<bar>q\<bar>)"

end
