(* ===== verification/RunMonad.thy ===== *)
theory RunMonad
  imports RtPrelude
begin

text \<open>
  Sequential composition of effects with exceptions. A computation takes the state and returns an
  error or a value together with the state it leaves, so that an exception never rolls back what
  was done before it. The combinators mirror the statements of the sources: sequencing, reading and
  writing the state, \<open>raise\<close>, \<open>try/except Exception\<close>, \<open>try/finally\<close>, and loops over a list. Two
  proof notions carry the components: \<open>steps R m\<close>, every execution of \<open>m\<close> relates its initial and
  final states by the preorder \<open>R\<close> whatever its outcome; and \<open>wp m Q E s\<close>, the outcome satisfies
  \<open>Q\<close> or, with an error, \<open>E\<close>.
\<close>

type_synonym ('s, 'a) comp = "'s \<Rightarrow> (exn + 'a) \<times> 's"

definition ret :: "'a \<Rightarrow> ('s, 'a) comp" where
  "ret x = (\<lambda>s. (Inr x, s))"

definition throw :: "exn \<Rightarrow> ('s, 'a) comp" where
  "throw e = (\<lambda>s. (Inl e, s))"

definition seqc :: "('s, 'a) comp \<Rightarrow> ('a \<Rightarrow> ('s, 'b) comp) \<Rightarrow> ('s, 'b) comp" where
  "seqc m f = (\<lambda>s. case m s of (Inl e, t) \<Rightarrow> (Inl e, t) | (Inr x, t) \<Rightarrow> f x t)"

definition reads :: "('s \<Rightarrow> 'a) \<Rightarrow> ('s, 'a) comp" where
  "reads f = (\<lambda>s. (Inr (f s), s))"

definition modifies :: "('s \<Rightarrow> 's) \<Rightarrow> ('s, unit) comp" where
  "modifies f = (\<lambda>s. (Inr (), f s))"

definition lift_res :: "exn + 'a \<Rightarrow> ('s, 'a) comp" where
  "lift_res r = (\<lambda>s. (r, s))"

definition try_except :: "('s, 'a) comp \<Rightarrow> (exn \<Rightarrow> ('s, 'a) comp) \<Rightarrow> ('s, 'a) comp" where
  "try_except m h = (\<lambda>s. case m s of
      (Inl e, t) \<Rightarrow> if is_exception e then h e t else (Inl e, t)
    | (Inr x, t) \<Rightarrow> (Inr x, t))"

text \<open>\<open>try: m except CancelledError: c except Exception as e: h e\<close>\<close>

definition try_cancel :: "('s, 'a) comp \<Rightarrow> ('s, 'a) comp \<Rightarrow> (exn \<Rightarrow> ('s, 'a) comp) \<Rightarrow> ('s, 'a) comp" where
  "try_cancel m c h = (\<lambda>s. case m s of
      (Inl e, t) \<Rightarrow> if e = CancelledError then c t else if is_exception e then h e t else (Inl e, t)
    | (Inr x, t) \<Rightarrow> (Inr x, t))"

definition try_finally :: "('s, 'a) comp \<Rightarrow> ('s, unit) comp \<Rightarrow> ('s, 'a) comp" where
  "try_finally m c = (\<lambda>s. case m s of (r, t) \<Rightarrow>
     (case c t of (Inl e, u) \<Rightarrow> (Inl e, u) | (Inr _, u) \<Rightarrow> (r, u)))"

fun for_each :: "('a \<Rightarrow> ('s, unit) comp) \<Rightarrow> 'a list \<Rightarrow> ('s, unit) comp" where
  "for_each f [] = ret ()"
| "for_each f (x # xs) = seqc (f x) (\<lambda>_. for_each f xs)"

fun map_each :: "('a \<Rightarrow> ('s, 'b) comp) \<Rightarrow> 'a list \<Rightarrow> ('s, 'b list) comp" where
  "map_each f [] = ret []"
| "map_each f (x # xs) = seqc (f x) (\<lambda>y. seqc (map_each f xs) (\<lambda>ys. ret (y # ys)))"

lemmas comp_defs = ret_def throw_def seqc_def reads_def modifies_def lift_res_def
  try_except_def try_finally_def

section \<open>State relations kept by every execution\<close>

definition steps :: "('s \<Rightarrow> 's \<Rightarrow> bool) \<Rightarrow> ('s, 'a) comp \<Rightarrow> bool" where
  "steps R m = (\<forall>s. R s (snd (m s)))"

text \<open>The relations used with \<open>steps\<close> are preorders.\<close>

locale state_preorder =
  fixes R :: "'s \<Rightarrow> 's \<Rightarrow> bool"
  assumes refl: "R s s"
    and trans: "R s t \<Longrightarrow> R t u \<Longrightarrow> R s u"
begin

lemma steps_ret: "steps R (ret x)"
  by (simp add: steps_def ret_def refl)

lemma steps_throw: "steps R (throw e)"
  by (simp add: steps_def throw_def refl)

lemma steps_reads: "steps R (reads f)"
  by (simp add: steps_def reads_def refl)

lemma steps_lift: "steps R (lift_res r)"
  by (simp add: steps_def lift_res_def refl)

lemma steps_modifies: "(\<And>s. R s (f s)) \<Longrightarrow> steps R (modifies f)"
  by (simp add: steps_def modifies_def)

lemma steps_seqc:
  assumes "steps R m" and "\<And>x. steps R (f x)"
  shows "steps R (seqc m f)"
  unfolding steps_def
proof
  fix s
  have "R s (snd (m s))" using assms(1) by (simp add: steps_def)
  then show "R s (snd (seqc m f s))"
    using assms(2) by (auto simp: steps_def seqc_def split: prod.split sum.split intro: trans)
qed

lemma steps_try_except:
  assumes "steps R m" and "\<And>e. steps R (h e)"
  shows "steps R (try_except m h)"
  unfolding steps_def
proof
  fix s
  have "R s (snd (m s))" using assms(1) by (simp add: steps_def)
  then show "R s (snd (try_except m h s))"
    using assms(2) by (auto simp: steps_def try_except_def split: prod.split sum.split intro: trans)
qed

lemma steps_try_cancel:
  assumes "steps R m" and "steps R c" and "\<And>e. steps R (h e)"
  shows "steps R (try_cancel m c h)"
  unfolding steps_def
proof
  fix s
  have "R s (snd (m s))" using assms(1) by (simp add: steps_def)
  then show "R s (snd (try_cancel m c h s))"
    using assms(2,3) by (auto simp: steps_def try_cancel_def split: prod.split sum.split intro: trans)
qed

lemma steps_try_finally:
  assumes "steps R m" and "steps R c"
  shows "steps R (try_finally m c)"
  unfolding steps_def
proof
  fix s
  obtain r t where m: "m s = (r, t)" by (cases "m s")
  obtain r' u where c: "c t = (r', u)" by (cases "c t")
  have "R s t" "R t u" using assms m c unfolding steps_def by (metis snd_conv)+
  then show "R s (snd (try_finally m c s))"
    by (cases r') (auto simp: try_finally_def m c intro: trans)
qed

lemma steps_for_each: "(\<And>x. x \<in> set xs \<Longrightarrow> steps R (f x)) \<Longrightarrow> steps R (for_each f xs)"
  by (induction xs) (auto intro!: steps_ret steps_seqc)

lemma steps_map_each: "(\<And>x. x \<in> set xs \<Longrightarrow> steps R (f x)) \<Longrightarrow> steps R (map_each f xs)"
  by (induction xs) (auto intro!: steps_ret steps_seqc)

lemma steps_if: "steps R a \<Longrightarrow> steps R b \<Longrightarrow> steps R (if c then a else b)"
  by simp

lemma steps_option: "steps R a \<Longrightarrow> (\<And>x. steps R (b x)) \<Longrightarrow> steps R (case y of None \<Rightarrow> a | Some x \<Rightarrow> b x)"
  by (cases y) simp_all

lemmas steps_rules = steps_ret steps_throw steps_reads steps_lift steps_modifies steps_seqc
  steps_try_except steps_try_cancel steps_try_finally steps_for_each steps_map_each steps_if steps_option

end

section \<open>Outcomes\<close>

definition wp :: "('s, 'a) comp \<Rightarrow> ('a \<Rightarrow> 's \<Rightarrow> bool) \<Rightarrow> (exn \<Rightarrow> 's \<Rightarrow> bool) \<Rightarrow> 's \<Rightarrow> bool" where
  "wp m Q E s = (case m s of (Inl e, t) \<Rightarrow> E e t | (Inr x, t) \<Rightarrow> Q x t)"

named_theorems wp_rules \<open>weakest preconditions of the combinators\<close>

lemma wp_basic [simp, wp_rules]:
  "wp (ret x) Q E s = Q x s"
  "wp (throw e) Q E s = E e s"
  "wp (reads f) Q E s = Q (f s) s"
  "wp (modifies g) Q' E s = Q' () (g s)"
  "wp (lift_res r) Q E s = (case r of Inl e \<Rightarrow> E e s | Inr x \<Rightarrow> Q x s)"
  by (simp_all add: wp_def comp_defs split: sum.split)

lemma wp_seqc [simp, wp_rules]: "wp (seqc m f) Q E s = wp m (\<lambda>x. wp (f x) Q E) E s"
  by (auto simp: wp_def seqc_def split: prod.split sum.split)

lemma wp_try_except [simp, wp_rules]:
  "wp (try_except m h) Q E s = wp m Q (\<lambda>e t. if is_exception e then wp (h e) Q E t else E e t) s"
  by (auto simp: wp_def try_except_def split: prod.split sum.split)

lemma wp_try_cancel [simp, wp_rules]:
  "wp (try_cancel m c h) Q E s = wp m Q (\<lambda>e t. if e = CancelledError then wp c Q E t
     else if is_exception e then wp (h e) Q E t else E e t) s"
  by (auto simp: wp_def try_cancel_def split: prod.split sum.split)

lemma wp_try_finally [simp, wp_rules]:
  "wp (try_finally m c) Q E s = wp m (\<lambda>x. wp c (\<lambda>_. Q x) E) (\<lambda>e. wp c (\<lambda>_. E e) E) s"
  by (auto simp: wp_def try_finally_def split: prod.split sum.split)

lemma wp_mono:
  "wp m Q E s \<Longrightarrow> (\<And>x t. Q x t \<Longrightarrow> Q' x t) \<Longrightarrow> (\<And>e t. E e t \<Longrightarrow> E' e t) \<Longrightarrow> wp m Q' E' s"
  by (auto simp: wp_def split: prod.splits sum.splits)

lemma wp_conj: "wp m Q E s \<Longrightarrow> wp m Q' E' s \<Longrightarrow> wp m (\<lambda>x t. Q x t \<and> Q' x t) (\<lambda>e t. E e t \<and> E' e t) s"
  by (auto simp: wp_def split: prod.splits sum.splits)

lemma wp_outcome: "wp m Q E s \<longleftrightarrow> (\<forall>t. (\<forall>x. m s = (Inr x, t) \<longrightarrow> Q x t) \<and> (\<forall>e. m s = (Inl e, t) \<longrightarrow> E e t))"
  by (auto simp: wp_def split: prod.splits sum.splits)

lemma steps_wp: "steps R m \<longleftrightarrow> (\<forall>s. wp m (\<lambda>_. R s) (\<lambda>_. R s) s)"
proof -
  have "R s (snd (m s)) \<longleftrightarrow> wp m (\<lambda>_. R s) (\<lambda>_. R s) s" for s
    by (cases "m s"; cases "fst (m s)") (simp_all add: wp_def)
  then show ?thesis by (simp add: steps_def)
qed

lemma wp_for_each:
  assumes "\<And>x t. x \<in> set xs \<Longrightarrow> I t \<Longrightarrow> wp (f x) (\<lambda>_. I) E t" and "I s"
  shows "wp (for_each f xs) (\<lambda>_. I) E s"
  using assms
proof (induction xs arbitrary: s)
  case Nil
  then show ?case by simp
next
  case (Cons x xs)
  have "wp (f x) (\<lambda>_. I) E s" using Cons.prems by simp
  then have "wp (f x) (\<lambda>_. wp (for_each f xs) (\<lambda>_. I) E) E s"
    by (rule wp_mono) (use Cons in auto)
  then show ?case by simp
qed

end
