(* ===== verification/PyValues.thy ===== *)
theory PyValues
  imports RtPrelude
begin

text \<open>
  Dynamic values. \<open>json\<close> is the type of the documents the runtime parses, stores and sends;
  an object keeps its keys in insertion order. The built-in operations the sources apply to such
  values are defined here: truth value, \<open>or\<close>, \<open>str\<close> with \<open>repr\<close>, \<open>int\<close>, iteration, and
  \<open>json.dumps(value, ensure_ascii=False)\<close>.
\<close>

datatype json =
    JNull
  | JBool bool
  | JInt int
  | JFloat rat
  | JStr string
  | JList "json list"
  | JObj "(string \<times> json) list"

section \<open>Tests and truth value\<close>

fun is_obj :: "json \<Rightarrow> bool" where
  "is_obj (JObj _) = True"
| "is_obj _ = False"

fun obj_of :: "json \<Rightarrow> (string, json) dict" where
  "obj_of (JObj d) = d"
| "obj_of _ = []"

fun truthy :: "json \<Rightarrow> bool" where
  "truthy JNull = False"
| "truthy (JBool b) = b"
| "truthy (JInt i) = (i \<noteq> 0)"
| "truthy (JFloat q) = (q \<noteq> 0)"
| "truthy (JStr s) = (s \<noteq> [])"
| "truthy (JList xs) = (xs \<noteq> [])"
| "truthy (JObj d) = (d \<noteq> [])"

definition py_or :: "json \<Rightarrow> json \<Rightarrow> json" where
  "py_or a b = (if truthy a then a else b)"

text \<open>\<open>value.get(k)\<close>: the missing key gives \<open>None\<close>.\<close>

definition jget :: "(string, json) dict \<Rightarrow> string \<Rightarrow> json" where
  "jget d k = dict_get d k JNull"

section \<open>str and repr\<close>

definition hex_digit :: "nat \<Rightarrow> char" where
  "hex_digit n = (if n < 10 then char_of (48 + n) else char_of (87 + n))"

definition repr_char :: "char \<Rightarrow> char \<Rightarrow> string" where
  "repr_char q c =
     (let n = (of_char c :: nat) in
      if c = q \<or> n = 92 then [char_of (92::nat), c]
      else if n = 9 then [char_of (92::nat), CHR ''t'']
      else if n = 10 then [char_of (92::nat), CHR ''n'']
      else if n = 13 then [char_of (92::nat), CHR ''r'']
      else if n < 32 \<or> (127 \<le> n \<and> n \<le> 160) \<or> n = 173
        then [char_of (92::nat), CHR ''x'', hex_digit (n div 16), hex_digit (n mod 16)]
      else [c])"

definition repr_str :: "string \<Rightarrow> string" where
  "repr_str s =
     (let dq = char_of (34::nat); sq = char_of (39::nat);
          q = (if sq \<in> set s \<and> dq \<notin> set s then dq else sq)
      in [q] @ concat (map (repr_char q) s) @ [q])"

definition comma_sep :: "string list \<Rightarrow> string" where
  "comma_sep xs = concat (case xs of [] \<Rightarrow> [] | y # ys \<Rightarrow> y # map (\<lambda>z. '', '' @ z) ys)"

fun py_repr :: "json \<Rightarrow> string" where
  "py_repr JNull = ''None''"
| "py_repr (JBool b) = (if b then ''True'' else ''False'')"
| "py_repr (JInt i) = show_int i"
| "py_repr (JFloat q) = float_repr q"
| "py_repr (JStr s) = repr_str s"
| "py_repr (JList xs) = ''['' @ comma_sep (map py_repr xs) @ '']''"
| "py_repr (JObj d) =
     ''{'' @ comma_sep (map (\<lambda>kv. repr_str (fst kv) @ '': '' @ py_repr (snd kv)) d) @ ''}''"

definition py_str :: "json \<Rightarrow> string" where
  "py_str v = (case v of JStr s \<Rightarrow> s | _ \<Rightarrow> py_repr v)"

lemma py_str_JStr [simp]: "py_str (JStr s) = s"
  by (simp add: py_str_def)

section \<open>int and iteration\<close>

text \<open>\<open>int(value)\<close>: truncation for floats, a decimal parse for strings, an error otherwise.\<close>

definition trunc_rat :: "rat \<Rightarrow> int" where
  "trunc_rat q = (if q < 0 then - \<lfloor>- q\<rfloor> else \<lfloor>q\<rfloor>)"

fun py_int :: "json \<Rightarrow> exn + int" where
  "py_int (JInt i) = Inr i"
| "py_int (JBool b) = Inr (if b then 1 else 0)"
| "py_int (JFloat q) = Inr (trunc_rat q)"
| "py_int (JStr s) = (case parse_int s of Some i \<Rightarrow> Inr i
     | None \<Rightarrow> Inl (ValueError ''invalid literal for int() with base 10''))"
| "py_int _ = Inl TypeError"

definition int_or_zero :: "json \<Rightarrow> exn + int" where
  "int_or_zero v = py_int (py_or v (JInt 0))"

lemma int_or_zero_simps [simp]:
  "int_or_zero (JInt i) = Inr i"
  "int_or_zero JNull = Inr 0"
  by (simp_all add: int_or_zero_def py_or_def)

text \<open>\<open>float(value)\<close>. A string is read as a decimal literal with an optional exponent; the spellings
  of infinity and NaN, and underscores between digits, are not read.\<close>

definition decimal_digit :: "char \<Rightarrow> bool" where
  "decimal_digit c = (digit_of c \<noteq> None)"

definition digits_value :: "string \<Rightarrow> nat" where
  "digits_value ds = foldl (\<lambda>a c. 10 * a + the (digit_of c)) 0 ds"

definition parse_exponent :: "string \<Rightarrow> int option" where
  "parse_exponent s = (let (sg, ds) = split_sign s in
     if ds \<noteq> [] \<and> list_all decimal_digit ds then Some (sg * int (digits_value ds)) else None)"

definition parse_float :: "string \<Rightarrow> rat option" where
  "parse_float s =
     (let (sg, r) = split_sign (str_strip s);
          ip = takeWhile decimal_digit r; r1 = dropWhile decimal_digit r;
          (fp, r2) = (case r1 of c # r' \<Rightarrow> if c = CHR ''.'' then (takeWhile decimal_digit r', dropWhile decimal_digit r') else ([], r1)
            | [] \<Rightarrow> ([], []));
          mant = of_int sg * (of_nat (digits_value (ip @ fp)) / 10 ^ length fp)
      in if ip = [] \<and> fp = [] then None
         else (case r2 of [] \<Rightarrow> Some mant
           | c # r3 \<Rightarrow> if c = CHR ''e'' \<or> c = CHR ''E'' then map_option (scale_ten mant) (parse_exponent r3) else None))"

fun py_float :: "json \<Rightarrow> exn + rat" where
  "py_float (JInt i) = Inr (of_int i)"
| "py_float (JBool b) = Inr (if b then 1 else 0)"
| "py_float (JFloat q) = Inr q"
| "py_float (JStr s) = (case parse_float s of Some q \<Rightarrow> Inr q
     | None \<Rightarrow> Inl (ValueError ''could not convert string to float''))"
| "py_float _ = Inl TypeError"

text \<open>Iterating a value: a list's items, a string's characters, an object's keys.\<close>

fun py_iter :: "json \<Rightarrow> exn + json list" where
  "py_iter (JList xs) = Inr xs"
| "py_iter (JStr s) = Inr (map (\<lambda>c. JStr [c]) s)"
| "py_iter (JObj d) = Inr (map (\<lambda>kv. JStr (fst kv)) d)"
| "py_iter _ = Inl TypeError"

definition str_or :: "json \<Rightarrow> string \<Rightarrow> string" where
  "str_or v s = py_str (py_or v (JStr s))"

lemma str_or_simps [simp]:
  "str_or (JStr s) [] = s"
  "s \<noteq> [] \<Longrightarrow> str_or (JStr s) t = s"
  "str_or (JStr []) t = t"
  "str_or JNull t = t"
  by (simp_all add: str_or_def py_or_def)

section \<open>json.dumps\<close>

definition dumps_char :: "char \<Rightarrow> string" where
  "dumps_char c =
     (let n = (of_char c :: nat) in
      if n = 34 \<or> n = 92 then [char_of (92::nat), c]
      else if n = 8 then [char_of (92::nat), CHR ''b'']
      else if n = 9 then [char_of (92::nat), CHR ''t'']
      else if n = 10 then [char_of (92::nat), CHR ''n'']
      else if n = 12 then [char_of (92::nat), CHR ''f'']
      else if n = 13 then [char_of (92::nat), CHR ''r'']
      else if n < 32
        then [char_of (92::nat)] @ ''u00'' @ [hex_digit (n div 16), hex_digit (n mod 16)]
      else [c])"

definition dumps_str :: "string \<Rightarrow> string" where
  "dumps_str s = [char_of (34::nat)] @ concat (map dumps_char s) @ [char_of (34::nat)]"

fun json_dumps :: "json \<Rightarrow> string" where
  "json_dumps JNull = ''null''"
| "json_dumps (JBool b) = (if b then ''true'' else ''false'')"
| "json_dumps (JInt i) = show_int i"
| "json_dumps (JFloat q) = float_repr q"
| "json_dumps (JStr s) = dumps_str s"
| "json_dumps (JList xs) = ''['' @ comma_sep (map json_dumps xs) @ '']''"
| "json_dumps (JObj d) =
     ''{'' @ comma_sep (map (\<lambda>kv. dumps_str (fst kv) @ '': '' @ json_dumps (snd kv)) d) @ ''}''"

end
