(* ===== verification/CoreTypes.thy ===== *)
theory CoreTypes
  imports PyValues
begin

text \<open>
  \<^verbatim>\<open>core/types.py\<close>: token usage, message content, the three message kinds, the model and
  stream-option records, and the dictionary codec that carries messages through events, the
  session log and the wire. Every message the agent persists goes through
  \<open>message_to_dict\<close> and back through \<open>message_from_dict\<close>; the lemmas compute that composition
  exactly (\<open>persist_message\<close>) and show that it is idempotent.
\<close>

section \<open>Data\<close>

record usage =
  u_input :: int
  u_output :: int
  u_cache_read :: int
  u_cache_write :: int
  u_total_tokens :: int
  u_reasoning :: "int option"
  u_cost :: "(string, json) dict"

definition zero_cost :: "(string, json) dict" where
  "zero_cost = [(''input'', JFloat 0), (''output'', JFloat 0), (''cacheRead'', JFloat 0),
     (''cacheWrite'', JFloat 0), (''total'', JFloat 0)]"

definition empty_usage :: usage where
  "empty_usage = \<lparr>u_input = 0, u_output = 0, u_cache_read = 0, u_cache_write = 0,
     u_total_tokens = 0, u_reasoning = None, u_cost = zero_cost\<rparr>"

datatype content =
    TextContent string
  | ThinkingContent string
  | ImageContent string string
  | ToolCall string string "(string, json) dict"

datatype user_body = UserText string | UserParts "content list"

record user_message =
  um_content :: user_body
  um_timestamp :: int

record assistant_message =
  am_content :: "content list"
  am_provider :: string
  am_model :: string
  am_usage :: usage
  am_stop_reason :: string
  am_error :: "string option"
  am_timestamp :: int

record tool_result_message =
  tm_call_id :: string
  tm_tool_name :: string
  tm_content :: "content list"
  tm_is_error :: bool
  tm_usage :: "usage option"
  tm_timestamp :: int

datatype message =
    UserMessage user_message
  | AssistantMessage assistant_message
  | ToolResultMessage tool_result_message

fun is_assistant :: "message \<Rightarrow> bool" where
  "is_assistant (AssistantMessage _) = True"
| "is_assistant _ = False"

fun is_user :: "message \<Rightarrow> bool" where
  "is_user (UserMessage _) = True"
| "is_user _ = False"

fun is_tool_result :: "message \<Rightarrow> bool" where
  "is_tool_result (ToolResultMessage _) = True"
| "is_tool_result _ = False"

fun message_timestamp :: "message \<Rightarrow> int" where
  "message_timestamp (UserMessage u) = um_timestamp u"
| "message_timestamp (AssistantMessage a) = am_timestamp a"
| "message_timestamp (ToolResultMessage t) = tm_timestamp t"

text \<open>\<open>AssistantMessage.text\<close> and \<open>AssistantMessage.tool_calls\<close>.\<close>

definition assistant_text :: "assistant_message \<Rightarrow> string" where
  "assistant_text a = concat (map (\<lambda>p. case p of TextContent t \<Rightarrow> t | _ \<Rightarrow> []) (am_content a))"

record tool_call =
  tc_id :: string
  tc_name :: string
  tc_arguments :: "(string, json) dict"

definition tool_calls :: "assistant_message \<Rightarrow> tool_call list" where
  "tool_calls a = concat (map (\<lambda>p. case p of
       ToolCall i n args \<Rightarrow> [\<lparr>tc_id = i, tc_name = n, tc_arguments = args\<rparr>] | _ \<Rightarrow> []) (am_content a))"

text \<open>The stop reasons \<open>{"error", "aborted"}\<close> the runtime treats as a failed attempt.\<close>

definition failed_stop :: "string \<Rightarrow> bool" where
  "failed_stop r = (r = ''error'' \<or> r = ''aborted'')"

record model_info =
  mi_id :: string
  mi_name :: string
  mi_provider :: string
  mi_reasoning :: bool
  mi_input :: "string list"
  mi_context_window :: int
  mi_max_output_tokens :: int
  mi_cost :: "(string, rat) dict"

record stream_options =
  so_timeout_ms :: "int option"
  so_max_tokens :: "int option"
  so_temperature :: "rat option"
  so_thinking_level :: string
  so_max_retries :: "int option"
  so_base_delay_ms :: int
  so_max_retry_delay_ms :: int
  so_headers :: "(string, string) dict"
  so_metadata :: "(string, json) dict"

section \<open>Usage codec\<close>

definition usage_from_dict :: "(string, json) dict \<Rightarrow> exn + usage" where
  "usage_from_dict raw =
     bind_res (int_or_zero (dict_get raw ''input'' (dict_get raw ''prompt_tokens'' (JInt 0)))) (\<lambda>prompt.
     bind_res (int_or_zero (dict_get raw ''output'' (dict_get raw ''completion_tokens'' (JInt 0)))) (\<lambda>completion.
     let prompt_details = jget raw ''prompt_tokens_details'';
         completion_details = jget raw ''completion_tokens_details'' in
     bind_res (int_or_zero (dict_get raw ''cacheRead'' (dict_get raw ''cache_read''
         (dict_get raw ''prompt_cache_hit_tokens''
           (if is_obj prompt_details
            then dict_get (obj_of prompt_details) ''cached_tokens'' (JInt 0) else JInt 0))))) (\<lambda>cache_read.
     bind_res (int_or_zero (dict_get raw ''cacheWrite'' (dict_get raw ''cache_write'' (JInt 0)))) (\<lambda>cache_write.
     bind_res (int_or_zero (dict_get raw ''totalTokens'' (dict_get raw ''total_tokens'' (JInt 0)))) (\<lambda>total.
     let has_input = (map_of raw ''input'' \<noteq> None);
         input_tokens = (if has_input then prompt else max 0 (prompt - cache_read));
         reasoning0 = jget raw ''reasoning'';
         reasoning = (if reasoning0 = JNull \<and> is_obj completion_details
           then jget (obj_of completion_details) ''reasoning_tokens'' else reasoning0);
         cost = jget raw ''cost'' in
     bind_res (if reasoning = JNull then Inr None else bind_res (py_int reasoning) (\<lambda>i. Inr (Some i))) (\<lambda>reason.
     Inr \<lparr>u_input = input_tokens, u_output = completion, u_cache_read = cache_read,
          u_cache_write = cache_write,
          u_total_tokens = (if total \<noteq> 0 then total
            else prompt + completion + cache_write + (if has_input then cache_read else 0)),
          u_reasoning = reason,
          u_cost = (if is_obj cost then obj_of cost else zero_cost)\<rparr>))))))"

definition usage_to_dict :: "usage \<Rightarrow> (string, json) dict" where
  "usage_to_dict u =
     [(''input'', JInt (u_input u)), (''output'', JInt (u_output u)),
      (''cacheRead'', JInt (u_cache_read u)), (''cacheWrite'', JInt (u_cache_write u)),
      (''totalTokens'', JInt (u_total_tokens u)), (''cost'', JObj (u_cost u))]
     @ (case u_reasoning u of None \<Rightarrow> [] | Some r \<Rightarrow> [(''reasoning'', JInt r)])"

section \<open>Content codec\<close>

fun content_to_dict :: "content \<Rightarrow> (string, json) dict" where
  "content_to_dict (ImageContent d m) =
     [(''type'', JStr ''image''), (''data'', JStr d), (''mimeType'', JStr m)]"
| "content_to_dict (ToolCall i n args) =
     [(''type'', JStr ''toolCall''), (''id'', JStr i), (''name'', JStr n), (''arguments'', JObj args)]"
| "content_to_dict (TextContent t) = [(''text'', JStr t), (''type'', JStr ''text'')]"
| "content_to_dict (ThinkingContent t) = [(''thinking'', JStr t), (''type'', JStr ''thinking'')]"

definition content_from_dict :: "(string, json) dict \<Rightarrow> exn + content" where
  "content_from_dict d =
     (let kind = jget d ''type'' in
      if kind = JStr ''text'' then Inr (TextContent (str_or (jget d ''text'') []))
      else if kind = JStr ''thinking'' then Inr (ThinkingContent (str_or (jget d ''thinking'') []))
      else if kind = JStr ''image'' then
        Inr (ImageContent (str_or (jget d ''data'') [])
          (py_str (dict_get d ''mimeType'' (dict_get d ''mime_type'' (JStr ''image/png'')))))
      else if kind = JStr ''toolCall'' then
        Inr (ToolCall (str_or (jget d ''id'') ''tool-call'') (str_or (jget d ''name'') ''tool'')
          (obj_of (jget d ''arguments'')))
      else Inl (ValueError (''unsupported content type: '' @ py_repr kind)))"

definition contents_from :: "json list \<Rightarrow> exn + content list" where
  "contents_from xs = map_res (\<lambda>v. content_from_dict (obj_of v)) (filter is_obj xs)"

section \<open>Message codec\<close>

fun message_to_dict :: "message \<Rightarrow> (string, json) dict" where
  "message_to_dict (UserMessage u) =
     [(''role'', JStr ''user''),
      (''content'', case um_content u of UserText s \<Rightarrow> JStr s
         | UserParts ps \<Rightarrow> JList (map (\<lambda>p. JObj (content_to_dict p)) ps)),
      (''timestamp'', JInt (um_timestamp u))]"
| "message_to_dict (AssistantMessage a) =
     [(''role'', JStr ''assistant''),
      (''content'', JList (map (\<lambda>p. JObj (content_to_dict p)) (am_content a))),
      (''provider'', JStr (am_provider a)), (''model'', JStr (am_model a)),
      (''usage'', JObj (usage_to_dict (am_usage a))),
      (''stopReason'', JStr (am_stop_reason a)), (''timestamp'', JInt (am_timestamp a))]
     @ (case am_error a of None \<Rightarrow> []
        | Some e \<Rightarrow> if e = [] then [] else [(''errorMessage'', JStr e)])"
| "message_to_dict (ToolResultMessage t) =
     [(''role'', JStr ''toolResult''), (''toolCallId'', JStr (tm_call_id t)),
      (''toolName'', JStr (tm_tool_name t)),
      (''content'', JList (map (\<lambda>p. JObj (content_to_dict p)) (tm_content t))),
      (''isError'', JBool (tm_is_error t)), (''timestamp'', JInt (tm_timestamp t))]
     @ (case tm_usage t of None \<Rightarrow> [] | Some u \<Rightarrow> [(''usage'', JObj (usage_to_dict u))])"

definition user_from_dict :: "(string, json) dict \<Rightarrow> exn + message" where
  "user_from_dict d =
     (let raw_content = dict_get d ''content'' (JStr []) in
      bind_res (case raw_content of
          JStr s \<Rightarrow> Inr (UserText s)
        | JList xs \<Rightarrow> bind_res (contents_from xs) (\<lambda>ps. Inr (UserParts ps))
        | v \<Rightarrow> Inr (UserText (py_str v))) (\<lambda>content.
      bind_res (int_or_zero (jget d ''timestamp'')) (\<lambda>ts.
      Inr (UserMessage \<lparr>um_content = content, um_timestamp = ts\<rparr>))))"

definition assistant_from_dict :: "(string, json) dict \<Rightarrow> exn + message" where
  "assistant_from_dict d =
     bind_res (py_iter (py_or (jget d ''content'') (JList []))) (\<lambda>raw_content.
     bind_res (contents_from raw_content) (\<lambda>content.
     bind_res (usage_from_dict (obj_of (jget d ''usage''))) (\<lambda>us.
     bind_res (int_or_zero (jget d ''timestamp'')) (\<lambda>ts.
     Inr (AssistantMessage \<lparr>am_content = content,
       am_provider = str_or (jget d ''provider'') ''unknown'',
       am_model = str_or (jget d ''model'') ''unknown'',
       am_usage = us,
       am_stop_reason = str_or (jget d ''stopReason'') ''stop'',
       am_error = (if truthy (jget d ''errorMessage'') then Some (py_str (jget d ''errorMessage''))
         else None),
       am_timestamp = ts\<rparr>)))))"

definition tool_result_from_dict :: "(string, json) dict \<Rightarrow> exn + message" where
  "tool_result_from_dict d =
     bind_res (py_iter (py_or (jget d ''content'') (JList []))) (\<lambda>raw_content.
     bind_res (contents_from raw_content) (\<lambda>content.
     bind_res (if is_obj (jget d ''usage'')
       then bind_res (usage_from_dict (obj_of (jget d ''usage''))) (\<lambda>u. Inr (Some u))
       else Inr None) (\<lambda>us.
     bind_res (int_or_zero (jget d ''timestamp'')) (\<lambda>ts.
     Inr (ToolResultMessage \<lparr>tm_call_id = str_or (jget d ''toolCallId'') ''tool-call'',
       tm_tool_name = str_or (jget d ''toolName'') ''tool'',
       tm_content = content,
       tm_is_error = truthy (dict_get d ''isError'' (JBool False)),
       tm_usage = us,
       tm_timestamp = ts\<rparr>)))))"

definition message_from_dict :: "(string, json) dict \<Rightarrow> exn + message" where
  "message_from_dict d =
     (let role = jget d ''role'' in
      if role = JStr ''user'' then user_from_dict d
      else if role = JStr ''assistant'' then assistant_from_dict d
      else if role = JStr ''toolResult'' then tool_result_from_dict d
      else Inl (ValueError (''unsupported message role: '' @ py_repr role)))"

section \<open>What the codec preserves\<close>

text \<open>The explicit effect of one trip through the codec.\<close>

definition persist_usage :: "usage \<Rightarrow> usage" where
  "persist_usage u = u\<lparr>u_total_tokens := (if u_total_tokens u \<noteq> 0 then u_total_tokens u
     else u_input u + u_output u + u_cache_write u + u_cache_read u)\<rparr>"

definition nonempty_or :: "string \<Rightarrow> string \<Rightarrow> string" where
  "nonempty_or s t = (if s = [] then t else s)"

fun persist_content :: "content \<Rightarrow> content" where
  "persist_content (ToolCall i n args) =
     ToolCall (nonempty_or i ''tool-call'') (nonempty_or n ''tool'') args"
| "persist_content c = c"

fun persist_message :: "message \<Rightarrow> message" where
  "persist_message (UserMessage u) = UserMessage (u\<lparr>um_content := (case um_content u of
       UserText s \<Rightarrow> UserText s | UserParts ps \<Rightarrow> UserParts (map persist_content ps))\<rparr>)"
| "persist_message (AssistantMessage a) = AssistantMessage
     (a\<lparr>am_content := map persist_content (am_content a),
        am_provider := nonempty_or (am_provider a) ''unknown'',
        am_model := nonempty_or (am_model a) ''unknown'',
        am_usage := persist_usage (am_usage a),
        am_stop_reason := nonempty_or (am_stop_reason a) ''stop'',
        am_error := (if am_error a = Some [] then None else am_error a)\<rparr>)"
| "persist_message (ToolResultMessage t) = ToolResultMessage
     (t\<lparr>tm_call_id := nonempty_or (tm_call_id t) ''tool-call'',
        tm_tool_name := nonempty_or (tm_tool_name t) ''tool'',
        tm_content := map persist_content (tm_content t),
        tm_usage := map_option persist_usage (tm_usage t)\<rparr>)"

lemma str_or_JStr [simp]: "str_or (JStr s) t = nonempty_or s t"
  by (simp add: str_or_def py_or_def nonempty_or_def)

lemma nonempty_or_Nil [simp]: "nonempty_or s [] = s"
  by (simp add: nonempty_or_def)

lemma nonempty_or_idem [simp]: "nonempty_or (nonempty_or s t) t = nonempty_or s t"
  by (simp add: nonempty_or_def)

lemmas codec_simps = jget_def dict_get_def Let_def

lemma usage_codec: "usage_from_dict (usage_to_dict u) = Inr (persist_usage u)"
  by (cases "u_reasoning u"; cases u)
     (simp_all add: usage_from_dict_def usage_to_dict_def persist_usage_def codec_simps)

lemma content_codec: "content_from_dict (content_to_dict c) = Inr (persist_content c)"
  by (cases c) (simp_all add: content_from_dict_def codec_simps)

lemma contents_codec:
  "contents_from (map (\<lambda>p. JObj (content_to_dict p)) ps) = Inr (map persist_content ps)"
proof -
  have f: "filter is_obj (map (\<lambda>p. JObj (content_to_dict p)) ps)
      = map (\<lambda>p. JObj (content_to_dict p)) ps"
    by (induction ps) simp_all
  have "map_res (\<lambda>v. content_from_dict (obj_of v)) (map (\<lambda>p. JObj (content_to_dict p)) ps)
      = Inr (map persist_content ps)"
    by (induction ps) (simp_all add: content_codec)
  then show ?thesis by (simp add: contents_from_def f)
qed

lemma py_iter_contents [simp]:
  "py_iter (py_or (JList xs) (JList [])) = Inr xs"
  by (simp add: py_or_def)

lemma user_codec: "user_from_dict (message_to_dict (UserMessage u)) = Inr (persist_message (UserMessage u))"
  by (cases "um_content u"; cases u) (simp_all add: user_from_dict_def contents_codec codec_simps)

lemma assistant_codec:
  "assistant_from_dict (message_to_dict (AssistantMessage a)) = Inr (persist_message (AssistantMessage a))"
  by (cases "am_error a"; cases a)
     (simp_all add: assistant_from_dict_def contents_codec usage_codec codec_simps)

lemma tool_result_codec:
  "tool_result_from_dict (message_to_dict (ToolResultMessage t)) = Inr (persist_message (ToolResultMessage t))"
  by (cases "tm_usage t"; cases t)
     (simp_all add: tool_result_from_dict_def contents_codec usage_codec codec_simps)

lemma persist_usage_idem: "persist_usage (persist_usage u) = persist_usage u"
  by (simp add: persist_usage_def)

lemma persist_content_idem: "persist_content (persist_content c) = persist_content c"
  by (cases c) simp_all

lemma persist_message_idem: "persist_message (persist_message m) = persist_message m"
  by (cases m) (auto simp: persist_usage_idem persist_content_idem option.map_comp comp_def
      split: user_body.splits)

text \<open>
  C19. Persisting a message and reading it back succeeds for every message and changes exactly the
  empty fields the decoder replaces by defaults (empty ids, names, provider, model and stop reason,
  an empty error text, a missing token total); everything else, the tool-call arguments included,
  survives unchanged, and a second trip changes nothing.
\<close>

theorem message_codec_roundtrip:
  "message_from_dict (message_to_dict m) = Inr (persist_message m)
   \<and> message_from_dict (message_to_dict (persist_message m)) = Inr (persist_message m)"
proof -
  have one: "message_from_dict (message_to_dict m) = Inr (persist_message m)" for m
  proof (cases m)
    case (UserMessage u)
    then have "message_from_dict (message_to_dict m) = user_from_dict (message_to_dict m)"
      by (simp add: message_from_dict_def jget_def dict_get_def)
    with UserMessage show ?thesis by (simp only: user_codec)
  next
    case (AssistantMessage a)
    then have "message_from_dict (message_to_dict m) = assistant_from_dict (message_to_dict m)"
      by (simp add: message_from_dict_def jget_def dict_get_def)
    with AssistantMessage show ?thesis by (simp only: assistant_codec)
  next
    case (ToolResultMessage t)
    then have "message_from_dict (message_to_dict m) = tool_result_from_dict (message_to_dict m)"
      by (simp add: message_from_dict_def jget_def dict_get_def)
    with ToolResultMessage show ?thesis by (simp only: tool_result_codec)
  qed
  show ?thesis using one [of m] one [of "persist_message m"] by (simp add: persist_message_idem)
qed

end
