(* ===== verification/RunEvents.thy ===== *)
theory RunEvents
  imports RunMonad CoreTypes "HOL-Library.Sublist"
begin

text \<open>
  \<^verbatim>\<open>core/events.py\<close>: publication of run events to the authoritative sink and to listeners, and the
  hooks that take part in a run. What the sink, the listeners and the hook handlers do is code the
  caller supplies: they are functions of an environment record, indexed by the number of events
  published so far, so that any stateful behaviour of them is covered. The dispatcher keeps the
  identities of its listeners and handlers; the trace records what was offered to the sink and to
  each listener.
\<close>

section \<open>Events and the environment\<close>

record event =
  ev_type :: string
  ev_data :: "(string, json) dict"

text \<open>A value returned by a hook handler: a document, or Python objects of the core types.\<close>

datatype hval =
    HVal json
  | HMsgs "message list"
  | HParts "content list"
  | HUsage usage

type_synonym hook_dict = "(string, hval) dict"

text \<open>
  \<open>env_sink t e = Some x\<close>: the sink raises \<open>x\<close> on event \<open>e\<close>; likewise for listeners. A handler
  raises, or returns a dictionary (\<open>Some\<close>) or anything else (\<open>None\<close>).
\<close>

record env =
  env_sink :: "nat \<Rightarrow> event \<Rightarrow> exn option"
  env_listener :: "nat \<Rightarrow> nat \<Rightarrow> event \<Rightarrow> exn option"
  env_handler :: "nat \<Rightarrow> nat \<Rightarrow> event \<Rightarrow> exn + hook_dict option"

record dispatcher_state =
  ds_listeners :: "nat list"
  ds_handlers :: "(string, nat list) dict"
  ds_trace :: "event list"
  ds_heard :: "(nat \<times> event) list"

definition ds_clock :: "'z dispatcher_state_scheme \<Rightarrow> nat" where
  "ds_clock s = length (ds_trace s)"

section \<open>Subscriptions\<close>

text \<open>\<open>subscribe\<close> and the closure it returns; \<open>on\<close> and the closure it returns.\<close>

definition subscribe :: "nat \<Rightarrow> 'z dispatcher_state_scheme \<Rightarrow> 'z dispatcher_state_scheme" where
  "subscribe l s = s\<lparr>ds_listeners := ds_listeners s @ [l]\<rparr>"

definition unsubscribe :: "nat \<Rightarrow> 'z dispatcher_state_scheme \<Rightarrow> 'z dispatcher_state_scheme" where
  "unsubscribe l s = s\<lparr>ds_listeners := remove1 l (ds_listeners s)\<rparr>"

definition on_event :: "string \<Rightarrow> nat \<Rightarrow> 'z dispatcher_state_scheme \<Rightarrow> 'z dispatcher_state_scheme" where
  "on_event ty h s = s\<lparr>ds_handlers := AList.update ty (dict_get (ds_handlers s) ty [] @ [h]) (ds_handlers s)\<rparr>"

definition off_event :: "string \<Rightarrow> nat \<Rightarrow> 'z dispatcher_state_scheme \<Rightarrow> 'z dispatcher_state_scheme" where
  "off_event ty h s = s\<lparr>ds_handlers := AList.update ty (remove1 h (dict_get (ds_handlers s) ty [])) (ds_handlers s)\<rparr>"

section \<open>emit and hook\<close>

text \<open>The event is offered to the sink, whose errors interrupt the run, then to every listener.\<close>

definition notify :: "'e env_scheme \<Rightarrow> event \<Rightarrow> nat \<Rightarrow> ('z dispatcher_state_scheme, unit) comp" where
  "notify \<E> e l =
     try_except
       (seqc (modifies (\<lambda>s. s\<lparr>ds_heard := ds_heard s @ [(l, e)]\<rparr>)) (\<lambda>_.
        seqc (reads ds_clock) (\<lambda>t.
        case env_listener \<E> t l e of None \<Rightarrow> ret () | Some x \<Rightarrow> throw x)))
       (\<lambda>_. ret ())"

definition emit_raw :: "'e env_scheme \<Rightarrow> string \<Rightarrow> (string, json) dict \<Rightarrow> ('z dispatcher_state_scheme, unit) comp" where
  "emit_raw \<E> ty data =
     (let e = \<lparr>ev_type = ty, ev_data = data\<rparr> in
      seqc (modifies (\<lambda>s. s\<lparr>ds_trace := ds_trace s @ [e]\<rparr>)) (\<lambda>_.
      seqc (reads ds_clock) (\<lambda>t.
      seqc (case env_sink \<E> t e of None \<Rightarrow> ret () | Some x \<Rightarrow> throw x) (\<lambda>_.
      seqc (reads ds_listeners) (\<lambda>ls. for_each (notify \<E> e) ls)))))"

text \<open>The results of the handlers, merged in order: a later handler overrides an earlier one.\<close>

definition merge_hook :: "hook_dict \<Rightarrow> hook_dict option \<Rightarrow> hook_dict" where
  "merge_hook merged r = (case r of None \<Rightarrow> merged | Some d \<Rightarrow> dict_merge merged d)"

fun run_handlers :: "'e env_scheme \<Rightarrow> event \<Rightarrow> nat list \<Rightarrow> hook_dict \<Rightarrow> ('z dispatcher_state_scheme, hook_dict) comp" where
  "run_handlers \<E> e [] merged = ret merged"
| "run_handlers \<E> e (h # hs) merged =
     seqc (reads ds_clock) (\<lambda>t.
     seqc (lift_res (env_handler \<E> t h e)) (\<lambda>r. run_handlers \<E> e hs (merge_hook merged r)))"

definition handlers_of :: "string \<Rightarrow> 'z dispatcher_state_scheme \<Rightarrow> nat list" where
  "handlers_of ty s = dict_get (ds_handlers s) ty []"

section \<open>Facts\<close>

text \<open>What publication leaves alone, and what it only extends.\<close>

definition ds_extends :: "'z dispatcher_state_scheme \<Rightarrow> 'z dispatcher_state_scheme \<Rightarrow> bool" where
  "ds_extends s t \<longleftrightarrow> t = s\<lparr>ds_trace := ds_trace t, ds_heard := ds_heard t\<rparr>
     \<and> prefix (ds_trace s) (ds_trace t) \<and> prefix (ds_heard s) (ds_heard t)"

lemma ds_extends_trans:
  assumes "ds_extends s t" and "ds_extends t u"
  shows "ds_extends s u"
proof -
  have "u = t\<lparr>ds_trace := ds_trace u, ds_heard := ds_heard u\<rparr>"
    and "t = s\<lparr>ds_trace := ds_trace t, ds_heard := ds_heard t\<rparr>"
    using assms by (simp_all add: ds_extends_def)
  then have "u = s\<lparr>ds_trace := ds_trace t, ds_heard := ds_heard t\<rparr>\<lparr>ds_trace := ds_trace u, ds_heard := ds_heard u\<rparr>"
    by simp
  then have "u = s\<lparr>ds_trace := ds_trace u, ds_heard := ds_heard u\<rparr>" by simp
  moreover have "prefix (ds_trace s) (ds_trace u)" "prefix (ds_heard s) (ds_heard u)"
    using assms by (auto simp: ds_extends_def)
  ultimately show ?thesis by (simp add: ds_extends_def)
qed

interpretation ds: state_preorder "ds_extends :: 'z dispatcher_state_scheme \<Rightarrow> _"
  by unfold_locales (simp add: ds_extends_def, rule ds_extends_trans)

lemma notify_extends: "steps ds_extends (notify \<E> e l)"
  unfolding notify_def
  by (intro ds.steps_rules) (auto simp: ds_extends_def)

lemma emit_raw_extends: "steps ds_extends (emit_raw \<E> ty data)"
  unfolding emit_raw_def Let_def
  by (intro ds.steps_rules notify_extends) (auto simp: ds_extends_def)

lemma run_handlers_same: "snd (run_handlers \<E> e hs merged s) = s"
  by (induction hs arbitrary: merged)
     (auto simp: comp_defs split: prod.split sum.split)

text \<open>A listener never interrupts a publication.\<close>

lemma notify_ok:
  assumes "\<And>t l e x. env_listener \<E> t l e = Some x \<Longrightarrow> is_exception x"
  shows "wp (notify \<E> e l) (\<lambda>_ u. ds_trace u = ds_trace s \<and> ds_listeners u = ds_listeners s
      \<and> ds_heard u = ds_heard s @ [(l, e)]) (\<lambda>_ _. False) s"
  using assms by (auto simp: notify_def ds_clock_def split: option.split)

lemma notify_all_ok:
  assumes "\<And>t l e x. env_listener \<E> t l e = Some x \<Longrightarrow> is_exception x"
  shows "wp (for_each (notify \<E> e) ls) (\<lambda>_ u. ds_trace u = ds_trace s \<and> ds_listeners u = ds_listeners s
      \<and> ds_heard u = ds_heard s @ map (\<lambda>l. (l, e)) ls) (\<lambda>_ _. False) s"
proof (induction ls arbitrary: s)
  case Nil
  then show ?case by simp
next
  case (Cons l ls)
  show ?case
    unfolding for_each.simps wp_seqc
    by (rule wp_mono [OF notify_ok [OF assms]], assumption)
       (auto intro!: wp_mono [OF Cons])
qed

lemma emit_raw_ok:
  assumes "\<And>t l e x. env_listener \<E> t l e = Some x \<Longrightarrow> is_exception x"
    and "env_sink \<E> (Suc (ds_clock s)) \<lparr>ev_type = ty, ev_data = data\<rparr> = None"
  obtains u where "emit_raw \<E> ty data s = (Inr (), u)"
    and "ds_trace u = ds_trace s @ [\<lparr>ev_type = ty, ev_data = data\<rparr>]"
    and "ds_heard u = ds_heard s @ map (\<lambda>l. (l, \<lparr>ev_type = ty, ev_data = data\<rparr>)) (ds_listeners s)"
proof -
  let ?e = "\<lparr>ev_type = ty, ev_data = data\<rparr>"
  have "wp (emit_raw \<E> ty data) (\<lambda>_ u. ds_trace u = ds_trace s @ [?e]
      \<and> ds_heard u = ds_heard s @ map (\<lambda>l. (l, ?e)) (ds_listeners s)) (\<lambda>_ _. False) s"
    using assms(2)
    by (auto simp: emit_raw_def Let_def ds_clock_def intro!: wp_mono [OF notify_all_ok [OF assms(1)]])
  then show thesis using that by (auto simp: wp_def split: prod.splits sum.splits)
qed

text \<open>
  C20. A broken listener cannot interrupt a run: as long as listeners raise only exceptions, an
  event the sink accepts is published without an error, is recorded once, and reaches every
  subscribed listener exactly once, in the order of subscription, whichever of them raise.
\<close>

theorem broken_listeners_are_isolated:
  assumes "\<And>t l e x. env_listener \<E> t l e = Some x \<Longrightarrow> is_exception x"
    and "env_sink \<E> (Suc (ds_clock s)) \<lparr>ev_type = ty, ev_data = data\<rparr> = None"
  shows "\<exists>u. emit_raw \<E> ty data s = (Inr (), u)
    \<and> ds_trace u = ds_trace s @ [\<lparr>ev_type = ty, ev_data = data\<rparr>]
    \<and> ds_heard u = ds_heard s @ map (\<lambda>l. (l, \<lparr>ev_type = ty, ev_data = data\<rparr>)) (ds_listeners s)"
  by (rule emit_raw_ok [OF assms]) blast+

definition example_env :: env where
  "example_env = \<lparr>env_sink = \<lambda>_ _. None,
     env_listener = \<lambda>_ l _. if l = 1 then Some (ValueError ''listener'') else None,
     env_handler = \<lambda>_ _ _. Inr None\<rparr>"

theorem broken_listeners_are_isolated_witness:
  "\<exists>u. emit_raw example_env ''settled'' []
        \<lparr>ds_listeners = [1, 2], ds_handlers = [], ds_trace = [], ds_heard = []\<rparr> = (Inr (), u)
     \<and> map fst (ds_heard u) = [1, 2]"
proof -
  have "env_listener example_env t l e = Some x \<Longrightarrow> is_exception x" for t l e x
    by (auto simp: example_env_def split: if_splits)
  then show ?thesis
    using broken_listeners_are_isolated [of example_env
      "\<lparr>ds_listeners = [1, 2], ds_handlers = [], ds_trace = [], ds_heard = []\<rparr>" "''settled''" "[]"]
    by (fastforce simp: example_env_def)
qed

end
