(* ===== verification/RunControl.thy ===== *)
theory RunControl
  imports RunEvents
begin

text \<open>
  \<^verbatim>\<open>core/control.py\<close>: the two queues of input for the active run, its cancellation flag, and
  the binding of the controller to one run at a time. Other tasks call the public methods while the
  run is suspended: a command that arrives is taken from the environment at each point where the
  run awaits (\<open>await_point\<close>), so that every interleaving of commands with the run is an environment.
  A command is atomic with respect to the run; its own errors go to its caller, not to the run.
\<close>

section \<open>State and commands\<close>

datatype ctl_cmd =
    CmdSteer string "content list"
  | CmdFollowUp string "content list"
  | CmdCancel
  | CmdClear

record ctl_env = env +
  env_commands :: "nat \<Rightarrow> ctl_cmd list"
  env_now :: "nat \<Rightarrow> int"

record ctl_state = dispatcher_state +
  ct_steering_mode :: string
  ct_follow_up_mode :: string
  ct_steer :: "user_message list"
  ct_follow_up :: "user_message list"
  ct_active :: bool
  ct_abort :: bool

definition validate_mode :: "string \<Rightarrow> exn + string" where
  "validate_mode mode =
     (if mode = ''all'' \<or> mode = ''one-at-a-time'' then Inr mode
      else Inl (RunError ''invalid_argument'' (''Invalid queue mode: '' @ mode)))"

definition new_controller :: "string \<Rightarrow> string \<Rightarrow> exn + ctl_state" where
  "new_controller steering_mode follow_up_mode =
     bind_res (validate_mode steering_mode) (\<lambda>sm.
     bind_res (validate_mode follow_up_mode) (\<lambda>fm.
     Inr \<lparr>ds_listeners = [], ds_handlers = [], ds_trace = [], ds_heard = [],
       ct_steering_mode = sm, ct_follow_up_mode = fm, ct_steer = [], ct_follow_up = [],
       ct_active = False, ct_abort = False\<rparr>))"

section \<open>Public methods\<close>

definition user_dicts :: "user_message list \<Rightarrow> json" where
  "user_dicts us = JList (map (\<lambda>u. JObj (message_to_dict (UserMessage u))) us)"

definition snapshot :: "'z ctl_state_scheme \<Rightarrow> (string, json) dict" where
  "snapshot s = [(''steer'', user_dicts (ct_steer s)), (''followUp'', user_dicts (ct_follow_up s)),
     (''nextTurn'', JList [])]"

definition require_active :: "string \<Rightarrow> ('z ctl_state_scheme, unit) comp" where
  "require_active operation =
     seqc (reads ct_active) (\<lambda>a. if a then ret ()
       else throw (RunError ''invalid_state'' (''Cannot '' @ operation @ '': run is not active'')))"

definition emit_update :: "'e env_scheme \<Rightarrow> ('z ctl_state_scheme, unit) comp" where
  "emit_update \<E> = seqc (reads ct_active) (\<lambda>a. if a
     then seqc (reads snapshot) (emit_raw \<E> ''queue_update'') else ret ())"

datatype input_kind = Steer | FollowUp

fun kind_name :: "input_kind \<Rightarrow> string" where
  "kind_name Steer = ''steer''"
| "kind_name FollowUp = ''follow_up''"

fun queue_of :: "input_kind \<Rightarrow> 'z ctl_state_scheme \<Rightarrow> user_message list" where
  "queue_of Steer s = ct_steer s"
| "queue_of FollowUp s = ct_follow_up s"

fun set_queue :: "input_kind \<Rightarrow> user_message list \<Rightarrow> 'z ctl_state_scheme \<Rightarrow> 'z ctl_state_scheme" where
  "set_queue Steer q s = s\<lparr>ct_steer := q\<rparr>"
| "set_queue FollowUp q s = s\<lparr>ct_follow_up := q\<rparr>"

definition enqueue ::
  "'e ctl_env_scheme \<Rightarrow> input_kind \<Rightarrow> string \<Rightarrow> content list \<Rightarrow> ('z ctl_state_scheme, unit) comp" where
  "enqueue \<E> kind txt images =
     seqc (require_active (kind_name kind)) (\<lambda>_.
     if str_strip txt = [] \<and> images = []
     then throw (RunError ''invalid_argument'' ''Queued input must not be empty'')
     else
       seqc (modifies (\<lambda>s. set_queue kind (queue_of kind s @
         [\<lparr>um_content = (if images = [] then UserText txt else UserParts (TextContent txt # images)),
           um_timestamp = env_now \<E> (ds_clock s)\<rparr>]) s)) (\<lambda>_.
       emit_update \<E>))"

definition clear_queues :: "('z ctl_state_scheme, (string, json) dict) comp" where
  "clear_queues =
     seqc (reads ct_steer) (\<lambda>steer. seqc (reads ct_follow_up) (\<lambda>follow_up.
     seqc (modifies (\<lambda>s. s\<lparr>ct_steer := [], ct_follow_up := []\<rparr>)) (\<lambda>_.
     ret [(''clearedSteer'', user_dicts steer), (''clearedFollowUp'', user_dicts follow_up)])))"

text \<open>\<open>cancel\<close>. What cancelling the active tasks does to them is part of what the environment
  returns for them.\<close>

definition cancel :: "'e env_scheme \<Rightarrow> ('z ctl_state_scheme, (string, json) dict) comp" where
  "cancel \<E> =
     seqc (require_active ''cancel'') (\<lambda>_.
     seqc (modifies (\<lambda>s. s\<lparr>ct_abort := True\<rparr>)) (\<lambda>_.
     seqc clear_queues (\<lambda>cleared.
     seqc (emit_raw \<E> ''abort'' cleared) (\<lambda>_. ret cleared))))"

definition discard :: "('z, 'a) comp \<Rightarrow> ('z, unit) comp" where
  "discard m = (\<lambda>s. (Inr (), snd (m s)))"

fun run_command :: "'e ctl_env_scheme \<Rightarrow> ctl_cmd \<Rightarrow> ('z ctl_state_scheme, unit) comp" where
  "run_command \<E> (CmdSteer t i) = discard (enqueue \<E> Steer t i)"
| "run_command \<E> (CmdFollowUp t i) = discard (enqueue \<E> FollowUp t i)"
| "run_command \<E> CmdCancel = discard (cancel \<E>)"
| "run_command \<E> CmdClear = discard clear_queues"

definition await_point :: "'e ctl_env_scheme \<Rightarrow> ('z ctl_state_scheme, unit) comp" where
  "await_point \<E> = seqc (reads ds_clock) (\<lambda>t. for_each (run_command \<E>) (env_commands \<E> t))"

section \<open>Publication from the run\<close>

definition emit :: "'e ctl_env_scheme \<Rightarrow> string \<Rightarrow> (string, json) dict \<Rightarrow> ('z ctl_state_scheme, unit) comp" where
  "emit \<E> ty data = seqc (emit_raw \<E> ty data) (\<lambda>_. await_point \<E>)"

definition hook :: "'e ctl_env_scheme \<Rightarrow> string \<Rightarrow> (string, json) dict \<Rightarrow> ('z ctl_state_scheme, hook_dict) comp" where
  "hook \<E> ty data =
     seqc (emit \<E> ty data) (\<lambda>_.
     seqc (reads (handlers_of ty)) (\<lambda>hs.
     run_handlers \<E> \<lparr>ev_type = ty, ev_data = data\<rparr> hs []))"

section \<open>Methods the run itself uses\<close>

definition bind_controller :: "('z ctl_state_scheme, unit) comp" where
  "bind_controller = seqc (reads ct_active) (\<lambda>a.
     if a then throw (RunError ''busy'' ''RunController is already bound to an active run'')
     else modifies (\<lambda>s. s\<lparr>ct_active := True, ct_abort := False\<rparr>))"

definition release_controller :: "('z ctl_state_scheme, unit) comp" where
  "release_controller = modifies (\<lambda>s. s\<lparr>ct_active := False, ct_steer := [], ct_follow_up := [], ct_abort := False\<rparr>)"

definition drain :: "'e ctl_env_scheme \<Rightarrow> input_kind \<Rightarrow> string \<Rightarrow> ('z ctl_state_scheme, user_message list) comp" where
  "drain \<E> kind mode =
     seqc (reads (queue_of kind)) (\<lambda>queue.
     if queue = [] then ret []
     else
       let count = (if mode = ''all'' then length queue else 1) in
       seqc (modifies (set_queue kind (drop count queue))) (\<lambda>_.
       seqc (emit_update \<E>) (\<lambda>_.
       seqc (await_point \<E>) (\<lambda>_.
       ret (take count queue)))))"

definition drain_steering :: "'e ctl_env_scheme \<Rightarrow> ('z ctl_state_scheme, user_message list) comp" where
  "drain_steering \<E> = seqc (reads ct_steering_mode) (drain \<E> Steer)"

definition drain_follow_up :: "'e ctl_env_scheme \<Rightarrow> ('z ctl_state_scheme, user_message list) comp" where
  "drain_follow_up \<E> = seqc (reads ct_follow_up_mode) (drain \<E> FollowUp)"

lemma steps_to_wp: "steps R m \<Longrightarrow> wp m (\<lambda>_. R s) (\<lambda>_. R s) s"
  by (simp add: steps_wp)

section \<open>What control never touches\<close>

text \<open>
  Seen from the run, publication and arriving commands extend the trace, may fill or clear the
  queues and may request the abort, and change nothing else; a requested abort stays requested.
\<close>

definition ct_extends :: "'z ctl_state_scheme \<Rightarrow> 'z ctl_state_scheme \<Rightarrow> bool" where
  "ct_extends s t \<longleftrightarrow>
     t = s\<lparr>ds_trace := ds_trace t, ds_heard := ds_heard t, ct_steer := ct_steer t,
        ct_follow_up := ct_follow_up t, ct_abort := ct_abort t\<rparr>
     \<and> prefix (ds_trace s) (ds_trace t) \<and> prefix (ds_heard s) (ds_heard t)
     \<and> (ct_abort s \<longrightarrow> ct_abort t)"

lemma ct_extends_trans:
  assumes "ct_extends s t" and "ct_extends t u"
  shows "ct_extends s u"
proof -
  have "u = t\<lparr>ds_trace := ds_trace u, ds_heard := ds_heard u, ct_steer := ct_steer u,
        ct_follow_up := ct_follow_up u, ct_abort := ct_abort u\<rparr>"
    and "t = s\<lparr>ds_trace := ds_trace t, ds_heard := ds_heard t, ct_steer := ct_steer t,
        ct_follow_up := ct_follow_up t, ct_abort := ct_abort t\<rparr>"
    using assms by (simp_all add: ct_extends_def)
  then have "u = s\<lparr>ds_trace := ds_trace t, ds_heard := ds_heard t, ct_steer := ct_steer t,
        ct_follow_up := ct_follow_up t, ct_abort := ct_abort t\<rparr>
      \<lparr>ds_trace := ds_trace u, ds_heard := ds_heard u, ct_steer := ct_steer u,
        ct_follow_up := ct_follow_up u, ct_abort := ct_abort u\<rparr>"
    by simp
  then have "u = s\<lparr>ds_trace := ds_trace u, ds_heard := ds_heard u, ct_steer := ct_steer u,
        ct_follow_up := ct_follow_up u, ct_abort := ct_abort u\<rparr>" by simp
  then show ?thesis using assms by (auto simp: ct_extends_def)
qed

interpretation ct: state_preorder "ct_extends :: 'z ctl_state_scheme \<Rightarrow> _"
  by unfold_locales (simp add: ct_extends_def, rule ct_extends_trans)

lemma ct_extendsD:
  assumes "ct_extends s t"
  shows "ct_active t = ct_active s" "ct_steering_mode t = ct_steering_mode s"
    "ct_follow_up_mode t = ct_follow_up_mode s" "ds_listeners t = ds_listeners s"
    "ds_handlers t = ds_handlers s" "ctl_state.more t = ctl_state.more s"
    "ct_abort s \<Longrightarrow> ct_abort t" "prefix (ds_trace s) (ds_trace t)"
proof -
  have t: "t = s\<lparr>ds_trace := ds_trace t, ds_heard := ds_heard t, ct_steer := ct_steer t,
        ct_follow_up := ct_follow_up t, ct_abort := ct_abort t\<rparr>"
    using assms by (simp add: ct_extends_def)
  show "ct_active t = ct_active s" "ct_steering_mode t = ct_steering_mode s"
    "ct_follow_up_mode t = ct_follow_up_mode s" "ds_listeners t = ds_listeners s"
    "ds_handlers t = ds_handlers s" "ctl_state.more t = ctl_state.more s"
    by (subst t, simp)+
  show "ct_abort s \<Longrightarrow> ct_abort t" "prefix (ds_trace s) (ds_trace t)"
    using assms by (simp_all add: ct_extends_def)
qed

lemma ds_ct_extends: "ds_extends s t \<Longrightarrow> ct_extends s t"
proof -
  assume d: "ds_extends s t"
  then have "t = s\<lparr>ds_trace := ds_trace t, ds_heard := ds_heard t\<rparr>" by (simp add: ds_extends_def)
  then obtain tr h where "t = s\<lparr>ds_trace := tr, ds_heard := h\<rparr>" by blast
  with d show ?thesis by (simp add: ct_extends_def ds_extends_def)
qed

lemma steps_weaken: "steps R m \<Longrightarrow> (\<And>s t. R s t \<Longrightarrow> R' s t) \<Longrightarrow> steps R' m"
  by (simp add: steps_def)

lemma emit_raw_ct: "steps ct_extends (emit_raw \<E> ty data)"
  by (rule steps_weaken [OF emit_raw_extends ds_ct_extends])

lemma steps_discard: "steps R m \<Longrightarrow> steps R (discard m)"
  by (simp add: steps_def discard_def)

lemma set_queue_ct: "ct_extends s (set_queue k q s)"
  by (cases k) (simp_all add: ct_extends_def)

lemma emit_update_ct: "steps ct_extends (emit_update \<E>)"
  unfolding emit_update_def by (intro ct.steps_rules emit_raw_ct)

lemma enqueue_ct: "steps ct_extends (enqueue \<E> k txt i)"
  unfolding enqueue_def require_active_def
  by (intro ct.steps_rules set_queue_ct emit_update_ct)

lemma clear_queues_ct: "steps ct_extends clear_queues"
  unfolding clear_queues_def by (intro ct.steps_rules) (simp add: ct_extends_def)

lemma cancel_ct: "steps ct_extends (cancel \<E>)"
  unfolding cancel_def require_active_def
  by (intro ct.steps_rules clear_queues_ct emit_raw_ct) (simp add: ct_extends_def)

lemma run_command_ct: "steps ct_extends (run_command \<E> c)"
  by (cases c) (simp_all add: steps_discard enqueue_ct cancel_ct clear_queues_ct)

lemma await_point_ct: "steps ct_extends (await_point \<E>)"
  unfolding await_point_def by (intro ct.steps_rules run_command_ct)

lemma emit_ct: "steps ct_extends (emit \<E> ty data)"
  unfolding emit_def by (intro ct.steps_rules emit_raw_ct await_point_ct)

lemma run_handlers_ct: "steps ct_extends (run_handlers \<E> e hs merged)"
  by (simp add: steps_def run_handlers_same ct.refl)

lemma hook_ct: "steps ct_extends (hook \<E> ty data)"
  unfolding hook_def by (intro ct.steps_rules emit_ct run_handlers_ct)

lemma drain_ct: "steps ct_extends (drain \<E> k mode)"
  unfolding drain_def Let_def by (intro ct.steps_rules set_queue_ct emit_update_ct await_point_ct)

lemmas control_steps = emit_ct hook_ct drain_ct await_point_ct

section \<open>When publication succeeds\<close>

definition sink_ok :: "'e env_scheme \<Rightarrow> bool" where
  "sink_ok \<E> \<longleftrightarrow> (\<forall>t e. env_sink \<E> t e = None) \<and> (\<forall>t l e x. env_listener \<E> t l e = Some x \<longrightarrow> is_exception x)"

lemma await_point_ok: "wp (await_point \<E>) (\<lambda>_. ct_extends s) (\<lambda>_ _. False) s"
proof -
  have cmd: "\<exists>u. run_command \<E> c t = (Inr (), u)" for c and t :: "'a ctl_state_scheme"
    by (cases c) (simp_all add: discard_def)
  have "wp (for_each (run_command \<E>) cs) (\<lambda>_ _. True) (\<lambda>_ _. False) t" for cs and t :: "'a ctl_state_scheme"
  proof (rule wp_for_each)
    fix c and u :: "'a ctl_state_scheme"
    show "wp (run_command \<E> c) (\<lambda>_ _. True) (\<lambda>_ _. False) u"
      using cmd [of c u] by (auto simp: wp_def)
  qed simp
  then have "wp (await_point \<E>) (\<lambda>_ _. True) (\<lambda>_ _. False) s"
    by (simp add: await_point_def)
  from wp_conj [OF this steps_to_wp [OF await_point_ct, of \<E> s]] show ?thesis by simp
qed

lemma emit_raw_wp:
  "wp (emit_raw \<E> ty data) (\<lambda>_. ct_extends s) (\<lambda>_ t. \<not> sink_ok \<E> \<and> ct_extends s t) s"
proof -
  have "wp (emit_raw \<E> ty data) (\<lambda>_ _. True) (\<lambda>_ t. \<not> sink_ok \<E>) s"
  proof (cases "sink_ok \<E>")
    case True
    then obtain u where "emit_raw \<E> ty data s = (Inr (), u)"
      by (metis emit_raw_ok sink_ok_def)
    then show ?thesis by (simp add: wp_def)
  next
    case False
    then show ?thesis by (auto simp: wp_def split: prod.split sum.split)
  qed
  from wp_conj [OF this steps_to_wp [OF emit_raw_ct]] show ?thesis by simp
qed

lemma emit_wp:
  "wp (emit \<E> ty data) (\<lambda>_. ct_extends s) (\<lambda>_ t. \<not> sink_ok \<E> \<and> ct_extends s t) s"
  unfolding emit_def wp_seqc
  by (rule wp_mono [OF emit_raw_wp]) (auto intro!: wp_mono [OF await_point_ok] intro: ct.trans)

section \<open>The events of the run itself\<close>

text \<open>Commands only publish queue updates and aborts; every other event is the run's own.\<close>

definition own_event :: "event \<Rightarrow> bool" where
  "own_event e \<longleftrightarrow> ev_type e \<noteq> ''queue_update'' \<and> ev_type e \<noteq> ''abort''"

definition own :: "'z dispatcher_state_scheme \<Rightarrow> event list" where
  "own s = filter own_event (ds_trace s)"

definition own_same :: "'z dispatcher_state_scheme \<Rightarrow> 'z dispatcher_state_scheme \<Rightarrow> bool" where
  "own_same s t \<longleftrightarrow> own t = own s"

interpretation os: state_preorder "own_same :: 'z dispatcher_state_scheme \<Rightarrow> _"
  by unfold_locales (simp_all add: own_same_def)

lemma notify_trace: "steps (\<lambda>s t. ds_trace t = ds_trace s) (notify \<E> e l)"
  unfolding steps_wp by (auto simp: notify_def split: option.split)

lemma notify_all_trace: "steps (\<lambda>s t. ds_trace t = ds_trace s) (for_each (notify \<E> e) ls)"
proof (induction ls)
  case Nil
  then show ?case by (simp add: steps_def ret_def)
next
  case (Cons l ls)
  show ?case
    unfolding for_each.simps steps_wp wp_seqc
    by (intro allI, rule wp_mono [OF steps_to_wp [OF notify_trace]])
       (auto intro!: wp_mono [OF steps_to_wp [OF Cons]])
qed

lemma emit_raw_trace_steps:
  "steps (\<lambda>s t. ds_trace t = ds_trace s @ [\<lparr>ev_type = ty, ev_data = data\<rparr>]) (emit_raw \<E> ty data)"
  unfolding steps_wp emit_raw_def Let_def
  by (auto split: option.split intro!: wp_mono [OF steps_to_wp [OF notify_all_trace]])

lemma emit_raw_trace:
  "ds_trace (snd (emit_raw \<E> ty data s)) = ds_trace s @ [\<lparr>ev_type = ty, ev_data = data\<rparr>]"
  by (rule emit_raw_trace_steps [unfolded steps_def, rule_format])

lemma emit_raw_own_same: "\<not> own_event \<lparr>ev_type = ty, ev_data = data\<rparr> \<Longrightarrow> steps own_same (emit_raw \<E> ty data)"
  by (simp add: steps_def own_same_def own_def emit_raw_trace)

lemma emit_update_own: "steps own_same (emit_update \<E>)"
  unfolding emit_update_def
  by (intro os.steps_rules emit_raw_own_same) (simp add: own_event_def)

lemma set_queue_own: "own_same s (set_queue k q s)"
  by (cases k) (simp_all add: own_same_def own_def)

lemma run_command_own: "steps own_same (run_command \<E> c)"
proof -
  have enq: "steps own_same (enqueue \<E> k tx i :: ('a ctl_state_scheme, unit) comp)" for k tx i
    unfolding enqueue_def require_active_def by (intro os.steps_rules set_queue_own emit_update_own)
  have clr: "steps own_same (clear_queues :: ('a ctl_state_scheme, _) comp)"
    unfolding clear_queues_def by (intro os.steps_rules) (simp add: own_same_def own_def)
  have "steps own_same (cancel \<E> :: ('a ctl_state_scheme, _) comp)"
    unfolding cancel_def require_active_def
    by (intro os.steps_rules emit_raw_own_same clr) (simp_all add: own_same_def own_def own_event_def)
  with enq clr show ?thesis by (cases c) (simp_all add: steps_discard)
qed

lemma await_point_own: "steps own_same (await_point \<E>)"
  unfolding await_point_def by (intro os.steps_rules run_command_own)

lemma drain_own: "steps own_same (drain \<E> k mode)"
  unfolding drain_def Let_def by (intro os.steps_rules set_queue_own emit_update_own await_point_own)

lemma await_point_own_eq: "own (snd (await_point \<E> s)) = own s"
  by (rule await_point_own [unfolded steps_def own_same_def, rule_format])

lemma emit_own:
  assumes "own_event \<lparr>ev_type = ty, ev_data = data\<rparr>"
  shows "own (snd (emit \<E> ty data s)) = own s @ [\<lparr>ev_type = ty, ev_data = data\<rparr>]"
proof -
  have r: "own (snd (emit_raw \<E> ty data s)) = own s @ [\<lparr>ev_type = ty, ev_data = data\<rparr>]"
    using assms by (simp add: own_def emit_raw_trace)
  then show ?thesis
    by (auto simp: emit_def seqc_def await_point_own_eq split: prod.split sum.split)
qed

lemma hook_own:
  assumes "own_event \<lparr>ev_type = ty, ev_data = data\<rparr>"
  shows "own (snd (hook \<E> ty data s)) = own s @ [\<lparr>ev_type = ty, ev_data = data\<rparr>]"
  using emit_own [OF assms, of \<E> s]
  by (auto simp: hook_def seqc_def reads_def run_handlers_same split: prod.split sum.split)

section \<open>The queues are first-in first-out\<close>

text \<open>A history of the controller: commands from other tasks and drains by the run.\<close>

datatype ctl_op = OpCommand ctl_cmd | OpDrain input_kind

fun mode_of :: "input_kind \<Rightarrow> 'z ctl_state_scheme \<Rightarrow> string" where
  "mode_of Steer s = ct_steering_mode s"
| "mode_of FollowUp s = ct_follow_up_mode s"

fun run_ops :: "'e ctl_env_scheme \<Rightarrow> input_kind \<Rightarrow> ctl_op list \<Rightarrow> 'z ctl_state_scheme \<Rightarrow> user_message list \<times> 'z ctl_state_scheme" where
  "run_ops \<E> k [] s = ([], s)"
| "run_ops \<E> k (OpCommand c # ops) s = run_ops \<E> k ops (snd (run_command \<E> c s))"
| "run_ops \<E> k (OpDrain j # ops) s =
     (case drain \<E> j (mode_of j s) s of
        (Inl _, t) \<Rightarrow> run_ops \<E> k ops t
      | (Inr xs, t) \<Rightarrow> (let (ys, u) = run_ops \<E> k ops t in ((if j = k then xs @ ys else ys), u)))"

fun input_body :: "string \<Rightarrow> content list \<Rightarrow> user_body list" where
  "input_body txt images =
     (if str_strip txt = [] \<and> images = [] then []
      else [if images = [] then UserText txt else UserParts (TextContent txt # images)])"

fun accepted_input :: "input_kind \<Rightarrow> ctl_op \<Rightarrow> user_body list" where
  "accepted_input Steer (OpCommand (CmdSteer t i)) = input_body t i"
| "accepted_input FollowUp (OpCommand (CmdFollowUp t i)) = input_body t i"
| "accepted_input _ _ = []"

fun keeps_queues :: "ctl_op \<Rightarrow> bool" where
  "keeps_queues (OpCommand CmdCancel) = False"
| "keeps_queues (OpCommand CmdClear) = False"
| "keeps_queues _ = True"

definition quiet_env :: "'e ctl_env_scheme \<Rightarrow> bool" where
  "quiet_env \<E> \<longleftrightarrow> (\<forall>t e. env_sink \<E> t e = None)
     \<and> (\<forall>t l e x. env_listener \<E> t l e = Some x \<longrightarrow> is_exception x) \<and> (\<forall>t. env_commands \<E> t = [])"

lemma quiet_emit_update:
  assumes "quiet_env \<E>"
  obtains tr h where "emit_update \<E> s = (Inr (), s\<lparr>ds_trace := tr, ds_heard := h\<rparr>)"
proof (cases "ct_active s")
  case False
  then have "emit_update \<E> s = (Inr (), s\<lparr>ds_trace := ds_trace s, ds_heard := ds_heard s\<rparr>)"
    by (simp add: emit_update_def comp_defs)
  then show thesis by (rule that)
next
  case True
  obtain u where u: "emit_raw \<E> ''queue_update'' (snapshot s) s = (Inr (), u)"
    using assms by (metis emit_raw_ok quiet_env_def)
  then have "ds_extends s u" using emit_raw_extends by (metis snd_conv steps_def)
  then have "u = s\<lparr>ds_trace := ds_trace u, ds_heard := ds_heard u\<rparr>" by (simp add: ds_extends_def)
  moreover have "emit_update \<E> s = (Inr (), u)"
    using True u by (simp add: emit_update_def comp_defs)
  ultimately show thesis using that by metis
qed

lemma queue_of_trace [simp]:
  "queue_of k (s\<lparr>ds_trace := tr, ds_heard := h\<rparr>) = queue_of k s"
  "queue_of k (set_queue j q s) = (if j = k then q else queue_of k s)"
  "ct_active (set_queue j q s) = ct_active s"
  by (cases k; cases j; simp)+

lemma quiet_drain:
  assumes q: "quiet_env \<E>"
  obtains xs t where "drain \<E> j m s = (Inr xs, t)" and "xs @ queue_of j t = queue_of j s"
    and "\<And>k. k \<noteq> j \<Longrightarrow> queue_of k t = queue_of k s" and "ct_active t = ct_active s"
proof (cases "queue_of j s = []")
  case True
  then show thesis using that [of "[]" s] by (simp add: drain_def comp_defs)
next
  case False
  let ?n = "if m = ''all'' then length (queue_of j s) else 1"
  obtain tr h where u: "emit_update \<E> (set_queue j (drop ?n (queue_of j s)) s)
      = (Inr (), (set_queue j (drop ?n (queue_of j s)) s)\<lparr>ds_trace := tr, ds_heard := h\<rparr>)"
    using quiet_emit_update [OF q] by metis
  have "drain \<E> j m s = (Inr (take ?n (queue_of j s)),
      (set_queue j (drop ?n (queue_of j s)) s)\<lparr>ds_trace := tr, ds_heard := h\<rparr>)"
    using False u q by (simp add: drain_def comp_defs Let_def await_point_def quiet_env_def del: append_take_drop_id)
  then show thesis by (rule that) auto
qed

lemma quiet_command:
  assumes q: "quiet_env \<E>" and a: "ct_active s" and k: "keeps_queues (OpCommand c)"
  shows "map um_content (queue_of k (snd (run_command \<E> c s)))
     = map um_content (queue_of k s) @ accepted_input k (OpCommand c)"
    and "ct_active (snd (run_command \<E> c s))"
proof -
  have enq: "map um_content (queue_of k (snd (enqueue \<E> j t i s)))
      = map um_content (queue_of k s) @ (if j = k then input_body t i else [])" for j t i
  proof (cases "str_strip t = [] \<and> i = []")
    case True
    then show ?thesis using a by (simp add: enqueue_def require_active_def comp_defs)
  next
    case False
    obtain q' where q': "q' = queue_of j s @ [\<lparr>um_content = (if i = [] then UserText t else
        UserParts (TextContent t # i)), um_timestamp = env_now \<E> (ds_clock s)\<rparr>]" by blast
    obtain tr h where "emit_update \<E> (set_queue j q' s)
        = (Inr (), (set_queue j q' s)\<lparr>ds_trace := tr, ds_heard := h\<rparr>)"
      using quiet_emit_update [OF q] by metis
    then have "snd (enqueue \<E> j t i s) = (set_queue j q' s)\<lparr>ds_trace := tr, ds_heard := h\<rparr>"
      using a False q' by (auto simp: enqueue_def require_active_def comp_defs)
    then show ?thesis using False q' by auto
  qed
  show "map um_content (queue_of k (snd (run_command \<E> c s)))
     = map um_content (queue_of k s) @ accepted_input k (OpCommand c)"
    using k enq [of Steer] enq [of FollowUp] by (cases c; cases k) (simp_all add: discard_def)
  show "ct_active (snd (run_command \<E> c s))"
    using run_command_ct [of \<E> c] a ct_extendsD(1) by (metis steps_def)
qed


definition quiet_example :: "ctl_env" where
  "quiet_example = \<lparr>env_sink = \<lambda>_ _. None, env_listener = \<lambda>_ _ _. None,
     env_handler = \<lambda>_ _ _. Inr None, env_commands = \<lambda>_. [], env_now = \<lambda>t. int t\<rparr>"

definition active_example :: ctl_state where
  "active_example = \<lparr>ds_listeners = [], ds_handlers = [], ds_trace = [], ds_heard = [],
     ct_steering_mode = ''one-at-a-time'', ct_follow_up_mode = ''all'', ct_steer = [],
     ct_follow_up = [], ct_active = True, ct_abort = False\<rparr>"


end
