(* ===== verification/Projection.thy ===== *)
theory Projection
  imports CoreTypes "HOL-Library.Sublist"
begin

text \<open>
  \<^verbatim>\<open>normalize_inference_messages\<close> and \<^verbatim>\<open>project_inference_messages\<close> of
  \<^verbatim>\<open>core/inference_runtime.py\<close>: the projection of the durable history to what a provider accepts.
  Failed assistant attempts are dropped, calls without a result get a synthetic one, and every
  projected message keeps the index of the durable message it comes from, so that a compaction
  boundary can be rebased. The protocol a provider expects is stated by the automaton
  \<open>open_after\<close>.
\<close>

section \<open>The projection\<close>

record projection_state =
  ps_out :: "(nat \<times> message) list"
  ps_pending :: "(string, string \<times> nat) dict"
  ps_resolved :: "string set"

definition synthetic_result :: "int \<Rightarrow> string \<Rightarrow> string \<Rightarrow> message" where
  "synthetic_result now call_id tool_name = ToolResultMessage
     \<lparr>tm_call_id = call_id, tm_tool_name = tool_name,
      tm_content = [TextContent ''No result provided''], tm_is_error = True, tm_usage = None,
      tm_timestamp = now\<rparr>"

definition orphans :: "int \<Rightarrow> projection_state \<Rightarrow> (nat \<times> message) list" where
  "orphans now st = map (\<lambda>(call_id, tool_name, src). (src, synthetic_result now call_id tool_name))
     (filter (\<lambda>p. fst p \<notin> ps_resolved st) (ps_pending st))"

definition flush_orphans :: "int \<Rightarrow> projection_state \<Rightarrow> projection_state" where
  "flush_orphans now st =
     \<lparr>ps_out = ps_out st @ orphans now st, ps_pending = [], ps_resolved = {}\<rparr>"

definition pending_of :: "nat \<Rightarrow> tool_call list \<Rightarrow> (string, string \<times> nat) dict" where
  "pending_of i calls = fold (\<lambda>c. AList.update (tc_id c) (tc_name c, i)) calls []"

fun project_step :: "int \<Rightarrow> nat \<times> message \<Rightarrow> projection_state \<Rightarrow> projection_state" where
  "project_step now (i, AssistantMessage a) st =
     (let st' = flush_orphans now st in
      if failed_stop (am_stop_reason a) then st'
      else \<lparr>ps_out = ps_out st' @ [(i, AssistantMessage a)],
            ps_pending = pending_of i (tool_calls a), ps_resolved = ps_resolved st'\<rparr>)"
| "project_step now (i, ToolResultMessage t) st =
     st\<lparr>ps_out := ps_out st @ [(i, ToolResultMessage t)],
        ps_resolved := insert (tm_call_id t) (ps_resolved st)\<rparr>"
| "project_step now (i, UserMessage u) st =
     (let st' = flush_orphans now st in st'\<lparr>ps_out := ps_out st' @ [(i, UserMessage u)]\<rparr>)"

definition project_state :: "int \<Rightarrow> (nat \<times> message) list \<Rightarrow> projection_state" where
  "project_state now ims =
     fold (project_step now) ims \<lparr>ps_out = [], ps_pending = [], ps_resolved = {}\<rparr>"

definition project_entries :: "int \<Rightarrow> message list \<Rightarrow> (nat \<times> message) list" where
  "project_entries now ms = ps_out (flush_orphans now (project_state now (enumerate 0 ms)))"

text \<open>\<open>max((index for index, source in enumerate(origins) if source <= boundary), default=-1)\<close>\<close>

definition last_at_most :: "nat list \<Rightarrow> int \<Rightarrow> int" where
  "last_at_most origins b =
     foldl (\<lambda>acc (p, org). if int org \<le> b then max acc (int p) else acc) (-1) (enumerate 0 origins)"

definition project_inference_messages ::
  "int \<Rightarrow> message list \<Rightarrow> int option \<Rightarrow> message list \<times> int option" where
  "project_inference_messages now ms boundary_index =
     (let es = project_entries now ms in
      (map snd es, map_option (last_at_most (map fst es)) boundary_index))"

definition normalize_inference_messages :: "int \<Rightarrow> message list \<Rightarrow> message list" where
  "normalize_inference_messages now ms = fst (project_inference_messages now ms None)"

section \<open>The provider's protocol\<close>

text \<open>
  The calls still open after a conversation, or \<open>None\<close> when it breaks the protocol: a user or
  assistant message may only start when no call is open, and a failed attempt must not occur.
\<close>

definition call_ids :: "assistant_message \<Rightarrow> string set" where
  "call_ids a = tc_id ` set (tool_calls a)"

fun protocol_step :: "message \<Rightarrow> string set option \<Rightarrow> string set option" where
  "protocol_step m None = None"
| "protocol_step (UserMessage u) (Some S) = (if S = {} then Some {} else None)"
| "protocol_step (AssistantMessage a) (Some S) =
     (if S = {} \<and> \<not> failed_stop (am_stop_reason a) then Some (call_ids a) else None)"
| "protocol_step (ToolResultMessage t) (Some S) = Some (S - {tm_call_id t})"

definition open_after :: "message list \<Rightarrow> string set option" where
  "open_after ms = fold protocol_step ms (Some {})"

definition provider_safe :: "message list \<Rightarrow> bool" where
  "provider_safe ms \<longleftrightarrow> open_after ms = Some {}"

lemma open_after_snoc: "open_after (ms @ [m]) = protocol_step m (open_after ms)"
  by (simp add: open_after_def)

lemma protocol_None [simp]: "fold protocol_step ms None = None"
  by (induction ms) simp_all

lemma fold_tool_results:
  "fold protocol_step (map (\<lambda>(c, n, i). synthetic_result now c n) ps) (Some S) = Some (S - fst ` set ps)"
  by (induction ps arbitrary: S) (auto simp: synthetic_result_def)

section \<open>Facts about the state\<close>

lemma pending_keys: "fst ` set (pending_of i calls) = tc_id ` set calls"
proof -
  have "fst ` set (fold (\<lambda>c. AList.update (tc_id c) (tc_name c, i)) calls d) = tc_id ` set calls \<union> fst ` set d" for d
    by (induction calls arbitrary: d) auto
  from this [of "[]"] show ?thesis by (simp add: pending_of_def)
qed

lemma pending_from:
  assumes "(c, n, j) \<in> set (pending_of i calls)"
  shows "j = i" and "\<exists>x \<in> set calls. tc_id x = c \<and> tc_name x = n"
proof -
  have "set (fold (\<lambda>c. AList.update (tc_id c) (tc_name c, i)) calls d)
      \<subseteq> set d \<union> (\<lambda>c. (tc_id c, tc_name c, i)) ` set calls" for d
  proof (induction calls arbitrary: d)
    case Nil
    then show ?case by simp
  next
    case (Cons c calls)
    have "set (AList.update (tc_id c) (tc_name c, i) d) \<subseteq> insert (tc_id c, tc_name c, i) (set d)"
      by (induction d) auto
    with Cons show ?case by fastforce
  qed
  from this [of "[]"] assms show "j = i" and "\<exists>x \<in> set calls. tc_id x = c \<and> tc_name x = n"
    by (auto simp: pending_of_def)
qed

definition open_ids :: "projection_state \<Rightarrow> string set" where
  "open_ids st = fst ` set (ps_pending st) - ps_resolved st"

definition safe_state :: "projection_state \<Rightarrow> bool" where
  "safe_state st \<longleftrightarrow> open_after (map snd (ps_out st)) = Some (open_ids st)"

lemma orphan_messages:
  "map snd (orphans now st) = map (\<lambda>(c, n, i). synthetic_result now c n)
     (filter (\<lambda>p. fst p \<notin> ps_resolved st) (ps_pending st))"
  by (simp add: orphans_def case_prod_unfold comp_def)

lemma flush_safe:
  assumes "safe_state st"
  shows "open_after (map snd (ps_out (flush_orphans now st))) = Some {}"
proof -
  have "fst ` set (filter (\<lambda>p. fst p \<notin> ps_resolved st) (ps_pending st)) = open_ids st"
    by (auto simp: open_ids_def)
  then show ?thesis
    using assms
    by (simp add: flush_orphans_def safe_state_def open_after_def orphan_messages fold_tool_results)
qed

lemma step_safe: "safe_state st \<Longrightarrow> safe_state (project_step now (i, m) st)"
proof (cases m)
  case (UserMessage u)
  assume "safe_state st"
  from flush_safe [OF this, of now] show ?thesis
    by (simp add: UserMessage safe_state_def open_after_def open_ids_def flush_orphans_def Let_def)
next
  case (AssistantMessage a)
  assume "safe_state st"
  from flush_safe [OF this, of now] show ?thesis
    by (auto simp: AssistantMessage safe_state_def open_after_def open_ids_def flush_orphans_def Let_def
        pending_keys call_ids_def)
next
  case (ToolResultMessage t)
  assume "safe_state st"
  then show ?thesis
    by (auto simp: ToolResultMessage safe_state_def open_after_def open_ids_def)
qed

lemma project_state_snoc:
  "project_state now (ims @ [im]) = project_step now im (project_state now ims)"
  by (simp add: project_state_def)

lemma project_state_safe: "safe_state (project_state now ims)"
proof (induction ims rule: rev_induct)
  case Nil
  then show ?case by (simp add: project_state_def safe_state_def open_after_def open_ids_def)
next
  case (snoc im ims)
  then show ?case by (cases im) (simp add: project_state_snoc step_safe)
qed

lemma project_entries_safe: "provider_safe (map snd (project_entries now ms))"
  by (simp add: project_entries_def provider_safe_def flush_safe project_state_safe)

text \<open>What the protocol means for a call: its result is among those right after the message.\<close>

lemma protocol_answers:
  assumes "fold protocol_step ms (Some S) = Some {}" and "c \<in> S"
  shows "\<exists>t. ToolResultMessage t \<in> set (takeWhile is_tool_result ms) \<and> tm_call_id t = c"
  using assms
proof (induction ms arbitrary: S)
  case Nil
  then show ?case by simp
next
  case (Cons m ms)
  then show ?case
  proof (cases m)
    case (ToolResultMessage t)
    with Cons show ?thesis by (cases "tm_call_id t = c") force+
  qed (auto split: if_splits)
qed

lemma provider_safe_answers:
  assumes "provider_safe (xs @ AssistantMessage a # ys)" and "c \<in> call_ids a"
  shows "\<exists>t. ToolResultMessage t \<in> set (takeWhile is_tool_result ys) \<and> tm_call_id t = c"
proof -
  have f: "fold protocol_step ys (protocol_step (AssistantMessage a) (open_after xs)) = Some {}"
    using assms(1) by (simp add: provider_safe_def open_after_def)
  obtain S where S: "open_after xs = Some S"
    using f by (cases "open_after xs") simp_all
  then have "fold protocol_step ys (Some (call_ids a)) = Some {}"
    using f by (auto split: if_splits)
  then show ?thesis using assms(2) by (rule protocol_answers)
qed

text \<open>
  C1. Whatever the durable history holds (failed attempts, calls that never returned, results
  without a call), the conversation sent to a provider obeys its protocol: it contains no failed
  attempt, and every tool call of every assistant message in it has a result with the call's id
  among the tool results that directly follow the message, before any user or assistant message
  and before the end of the conversation.
\<close>

theorem projection_is_provider_safe:
  "provider_safe (normalize_inference_messages now ms)
   \<and> (\<forall>xs a ys. normalize_inference_messages now ms = xs @ AssistantMessage a # ys \<longrightarrow>
        \<not> failed_stop (am_stop_reason a)
        \<and> (\<forall>c \<in> set (tool_calls a). \<exists>t. ToolResultMessage t \<in> set (takeWhile is_tool_result ys)
             \<and> tm_call_id t = tc_id c))"
proof -
  have safe: "provider_safe (normalize_inference_messages now ms)"
    by (simp add: normalize_inference_messages_def project_inference_messages_def project_entries_safe)
  have "\<not> failed_stop (am_stop_reason a)" if "provider_safe (xs @ AssistantMessage a # ys)" for xs a ys
    using that by (cases "open_after xs") (auto simp: provider_safe_def open_after_def split: if_splits)
  moreover have "\<exists>t. ToolResultMessage t \<in> set (takeWhile is_tool_result ys) \<and> tm_call_id t = tc_id c"
    if "provider_safe (xs @ AssistantMessage a # ys)" "c \<in> set (tool_calls a)" for xs a ys c
    using provider_safe_answers [OF that(1), of "tc_id c"] that(2) by (simp add: call_ids_def)
  ultimately show ?thesis using safe by (metis (no_types, lifting))
qed

theorem projection_is_provider_safe_witness:
  "\<exists>t. ToolResultMessage t \<in> set (takeWhile is_tool_result (tl (normalize_inference_messages 5
      [AssistantMessage \<lparr>am_content = [ToolCall ''c1'' ''read'' []], am_provider = ''p'', am_model = ''m'',
        am_usage = empty_usage, am_stop_reason = ''toolUse'', am_error = None, am_timestamp = 0\<rparr>,
       UserMessage \<lparr>um_content = UserText ''go on'', um_timestamp = 1\<rparr>])))
    \<and> tm_call_id t = ''c1''"
proof -
  let ?a = "\<lparr>am_content = [ToolCall ''c1'' ''read'' []], am_provider = ''p'', am_model = ''m'',
        am_usage = empty_usage, am_stop_reason = ''toolUse'', am_error = None, am_timestamp = 0\<rparr>"
  let ?ms = "[AssistantMessage ?a, UserMessage \<lparr>um_content = UserText ''go on'', um_timestamp = 1\<rparr>]"
  let ?n = "normalize_inference_messages 5 ?ms"
  have n: "?n = [] @ AssistantMessage ?a # tl ?n"
    by (simp add: normalize_inference_messages_def project_inference_messages_def project_entries_def
        project_state_def flush_orphans_def orphans_def failed_stop_def)
  have "\<lparr>tc_id = ''c1'', tc_name = ''read'', tc_arguments = []\<rparr> \<in> set (tool_calls ?a)"
    by (simp add: tool_calls_def)
  then show ?thesis
    using projection_is_provider_safe [of 5 ?ms] n by fastforce
qed

section \<open>A safe conversation is unchanged\<close>

definition clean_state :: "(nat \<times> message) list \<Rightarrow> projection_state \<Rightarrow> bool" where
  "clean_state ims st \<longleftrightarrow> ps_out st = ims \<and> open_after (map snd ims) = Some (open_ids st)"

lemma flush_clean:
  assumes "open_ids st = {}"
  shows "flush_orphans now st = \<lparr>ps_out = ps_out st, ps_pending = [], ps_resolved = {}\<rparr>"
  using assms by (auto simp: flush_orphans_def orphans_def open_ids_def filter_empty_conv)

lemma project_clean:
  "open_after (map snd ims) \<noteq> None \<Longrightarrow> clean_state ims (project_state now ims)"
proof (induction ims rule: rev_induct)
  case Nil
  then show ?case by (simp add: project_state_def clean_state_def open_after_def open_ids_def)
next
  case (snoc im ims)
  obtain i m where im: "im = (i, m)" by (cases im)
  obtain S where S: "open_after (map snd ims) = Some S"
    using snoc.prems by (cases "open_after (map snd ims)") (simp_all add: open_after_snoc)
  then have ih: "ps_out (project_state now ims) = ims" "open_ids (project_state now ims) = S"
    using snoc.IH by (simp_all add: clean_state_def)
  show ?case
  proof (cases m)
    case (UserMessage u)
    with S snoc.prems have "S = {}" by (auto simp: im open_after_snoc split: if_splits)
    with S ih show ?thesis
      by (simp add: im UserMessage project_state_snoc clean_state_def flush_clean open_after_snoc open_ids_def)
  next
    case (AssistantMessage a)
    with S snoc.prems have "S = {}" "\<not> failed_stop (am_stop_reason a)"
      by (auto simp: im open_after_snoc split: if_splits)
    with S ih show ?thesis
      by (simp add: im AssistantMessage project_state_snoc clean_state_def flush_clean open_after_snoc
          open_ids_def pending_keys call_ids_def)
  next
    case (ToolResultMessage t)
    with S ih show ?thesis
      by (auto simp: im project_state_snoc clean_state_def open_after_snoc open_ids_def)
  qed
qed

lemma map_snd_enumerate: "map snd (enumerate n xs) = xs"
  by (induction xs arbitrary: n) simp_all

lemma project_safe_entries:
  assumes "provider_safe ms"
  shows "project_entries now ms = enumerate 0 ms"
proof -
  have s: "open_after (map snd (enumerate 0 ms)) = Some {}"
    using assms by (simp add: map_snd_enumerate provider_safe_def)
  then have "clean_state (enumerate 0 ms) (project_state now (enumerate 0 ms))"
    by (intro project_clean) simp
  with s show ?thesis by (simp add: project_entries_def clean_state_def flush_clean)
qed

text \<open>
  C18. The projection repairs a conversation and does nothing else to it: a history that already
  obeys the protocol is sent unchanged, and projecting twice, as
  happens when a hook replaces the messages, is the same as projecting once.
\<close>

theorem projection_idempotent:
  "(provider_safe ms \<longrightarrow> normalize_inference_messages now ms = ms)
   \<and> normalize_inference_messages now' (normalize_inference_messages now ms)
       = normalize_inference_messages now ms"
proof -
  have id: "normalize_inference_messages t xs = xs" if "provider_safe xs" for t xs
    using project_safe_entries [OF that]
    by (simp add: normalize_inference_messages_def project_inference_messages_def map_snd_enumerate)
  moreover have "provider_safe (normalize_inference_messages now ms)"
    by (simp add: normalize_inference_messages_def project_inference_messages_def project_entries_safe)
  ultimately show ?thesis by blast
qed

theorem projection_idempotent_witness:
  "normalize_inference_messages 3 [UserMessage \<lparr>um_content = UserText ''hello'', um_timestamp = 1\<rparr>]
     = [UserMessage \<lparr>um_content = UserText ''hello'', um_timestamp = 1\<rparr>]"
  using projection_idempotent [of "[UserMessage \<lparr>um_content = UserText ''hello'', um_timestamp = 1\<rparr>]" 3 3]
  by (simp add: provider_safe_def open_after_def)

section \<open>Origins\<close>

fun failed_attempt :: "message \<Rightarrow> bool" where
  "failed_attempt (AssistantMessage a) = failed_stop (am_stop_reason a)"
| "failed_attempt _ = False"

text \<open>A message the projection invented for the durable message \<open>m\<close>.\<close>

definition invented_for :: "int \<Rightarrow> message \<Rightarrow> message \<Rightarrow> bool" where
  "invented_for now m r \<longleftrightarrow> (\<exists>a. m = AssistantMessage a \<and> \<not> failed_stop (am_stop_reason a)
     \<and> (\<exists>c \<in> set (tool_calls a). r = synthetic_result now (tc_id c) (tc_name c)))"

definition origin_state :: "int \<Rightarrow> message list \<Rightarrow> (nat \<times> message) list \<Rightarrow> projection_state \<Rightarrow> bool" where
  "origin_state now ms ims st \<longleftrightarrow>
     filter (\<lambda>(i, m). ms ! i = m) (ps_out st) = filter (\<lambda>(i, m). \<not> failed_attempt m) ims
     \<and> (\<forall>(i, m) \<in> set (ps_out st). ms ! i = m \<or> invented_for now (ms ! i) m)
     \<and> (\<forall>(c, n, j) \<in> set (ps_pending st). invented_for now (ms ! j) (synthetic_result now c n))"

lemma invented_differs: "invented_for now m r \<Longrightarrow> m \<noteq> r"
  by (auto simp: invented_for_def synthetic_result_def)

lemma origin_flush:
  assumes "origin_state now ms ims st"
  shows "origin_state now ms ims (flush_orphans now st)"
proof -
  have "\<forall>(i, m) \<in> set (orphans now st). invented_for now (ms ! i) m"
    using assms by (fastforce simp: orphans_def origin_state_def)
  moreover from this have "filter (\<lambda>(i, m). ms ! i = m) (orphans now st) = []"
    by (auto simp: filter_empty_conv dest: invented_differs)
  ultimately show ?thesis using assms by (auto simp: origin_state_def flush_orphans_def)
qed

lemma origin_step:
  assumes st: "origin_state now ms ims st" and i: "ms ! i = m"
  shows "origin_state now ms (ims @ [(i, m)]) (project_step now (i, m) st)"
proof (cases m)
  case (UserMessage u)
  with origin_flush [OF st] i show ?thesis by (auto simp: origin_state_def Let_def)
next
  case (ToolResultMessage t)
  with st i show ?thesis by (auto simp: origin_state_def)
next
  case (AssistantMessage a)
  have "invented_for now (ms ! j) (synthetic_result now c n)"
    if "\<not> failed_stop (am_stop_reason a)" "(c, n, j) \<in> set (pending_of i (tool_calls a))" for c n j
    using pending_from [OF that(2)] that(1) i AssistantMessage by (auto simp: invented_for_def)
  with origin_flush [OF st] i AssistantMessage show ?thesis
    by (auto simp: origin_state_def Let_def flush_orphans_def)
qed

lemma origin_project: "origin_state now ms (take n (enumerate 0 ms)) (project_state now (take n (enumerate 0 ms)))"
proof (induction n)
  case 0
  then show ?case by (simp add: project_state_def origin_state_def)
next
  case (Suc n)
  show ?case
  proof (cases "n < length ms")
    case True
    then have "take (Suc n) (enumerate 0 ms) = take n (enumerate 0 ms) @ [(n, ms ! n)]"
      by (simp add: take_Suc_conv_app_nth nth_enumerate_eq)
    then show ?thesis by (simp add: project_state_snoc origin_step Suc)
  next
    case False
    with Suc show ?thesis by simp
  qed
qed

text \<open>
  C16. The projection neither loses, reorders nor rewrites history: the projected messages that come
  from the durable history are exactly its messages other than failed attempts, in order and each
  with its own index, and every further message is an error result invented for a call of the
  successful assistant message it is attributed to.
\<close>

theorem projection_keeps_history:
  "filter (\<lambda>(i, m). ms ! i = m) (project_entries now ms)
       = filter (\<lambda>(i, m). \<not> failed_attempt m) (enumerate 0 ms)
   \<and> list_all (\<lambda>(i, m). ms ! i = m \<or> invented_for now (ms ! i) m) (project_entries now ms)"
proof -
  have "origin_state now ms (enumerate 0 ms) (flush_orphans now (project_state now (enumerate 0 ms)))"
    using origin_flush [OF origin_project [of now ms "length ms"]] by simp
  then show ?thesis by (auto simp: origin_state_def project_entries_def list_all_iff)
qed

section \<open>The rebased boundary\<close>

definition ordered_entries :: "nat \<times> message \<Rightarrow> nat \<times> message \<Rightarrow> bool" where
  "ordered_entries x y \<longleftrightarrow> (\<not> is_tool_result (snd x) \<longrightarrow> fst x \<le> fst y)"

definition ordered_state :: "nat \<Rightarrow> projection_state \<Rightarrow> bool" where
  "ordered_state n st \<longleftrightarrow> sorted_wrt ordered_entries (ps_out st)
     \<and> (\<forall>x \<in> set (ps_out st). fst x < n)
     \<and> (\<forall>(c, nm, j) \<in> set (ps_pending st). j < n \<and> (\<forall>x \<in> set (ps_out st). \<not> is_tool_result (snd x) \<longrightarrow> fst x \<le> j))"

lemma orphan_tool: "x \<in> set (orphans now st) \<Longrightarrow> is_tool_result (snd x)"
  by (auto simp: orphans_def synthetic_result_def)

lemma orphan_src: "x \<in> set (orphans now st) \<Longrightarrow> \<exists>c nm. (c, nm, fst x) \<in> set (ps_pending st)"
  by (fastforce simp: orphans_def)

lemma ordered_flush: "ordered_state n st \<Longrightarrow> ordered_state n (flush_orphans now st)"
proof -
  assume st: "ordered_state n st"
  have "sorted_wrt ordered_entries (orphans now st)"
    by (simp add: sorted_wrt_iff_nth_less ordered_entries_def orphan_tool [of _ now st])
  moreover have "fst y < n \<and> (\<forall>x \<in> set (ps_out st). ordered_entries x y)" if "y \<in> set (orphans now st)" for y
    using orphan_src [OF that] st by (fastforce simp: ordered_state_def ordered_entries_def)
  ultimately show ?thesis
    using st by (auto simp: ordered_state_def flush_orphans_def sorted_wrt_append)
qed

lemma ordered_step:
  assumes "ordered_state n st"
  shows "ordered_state (Suc n) (project_step now (n, m) st)"
proof (cases m)
  case (UserMessage u)
  with ordered_flush [OF assms, of now] show ?thesis
    by (auto simp: ordered_state_def Let_def sorted_wrt_append ordered_entries_def flush_orphans_def less_Suc_eq less_imp_le)
next
  case (ToolResultMessage t)
  with assms show ?thesis
    by (fastforce simp: ordered_state_def sorted_wrt_append ordered_entries_def)
next
  case (AssistantMessage a)
  have pend: "(c, nm, j) \<in> set (pending_of n (tool_calls a)) \<Longrightarrow> j = n" for c nm j
    by (rule pending_from(1))
  let ?f = "flush_orphans now st"
  have f: "ordered_state n ?f" by (rule ordered_flush [OF assms])
  show ?thesis
  proof (cases "failed_stop (am_stop_reason a)")
    case True
    with f show ?thesis
      by (auto simp: AssistantMessage ordered_state_def Let_def flush_orphans_def less_Suc_eq)
  next
    case False
    have lt: "\<forall>x \<in> set (ps_out ?f). fst x < n" using f by (simp add: ordered_state_def)
    then have "sorted_wrt ordered_entries (ps_out ?f @ [(n, m)])"
      using f by (auto simp: ordered_state_def sorted_wrt_append ordered_entries_def less_imp_le)
    with lt False show ?thesis
      by (auto simp: AssistantMessage ordered_state_def Let_def less_Suc_eq less_imp_le dest!: pend)
  qed
qed

lemma ordered_project: "n \<le> length ms \<Longrightarrow> ordered_state n (project_state now (take n (enumerate 0 ms)))"
proof (induction n)
  case 0
  then show ?case by (simp add: project_state_def ordered_state_def)
next
  case (Suc n)
  then have "take (Suc n) (enumerate 0 ms) = take n (enumerate 0 ms) @ [(n, ms ! n)]"
    by (simp add: take_Suc_conv_app_nth nth_enumerate_eq)
  with Suc show ?case by (simp add: project_state_snoc ordered_step)
qed

lemma last_at_most_snoc:
  "last_at_most (os @ [x]) b = (if int x \<le> b then max (last_at_most os b) (int (length os)) else last_at_most os b)"
  by (simp add: last_at_most_def enumerate_append_eq)

lemma last_at_most_spec:
  "(\<forall>p < length os. int (os ! p) \<le> b \<longrightarrow> int p \<le> last_at_most os b)
   \<and> (last_at_most os b = -1 \<or> (\<exists>p < length os. last_at_most os b = int p \<and> int (os ! p) \<le> b))"
proof (induction os rule: rev_induct)
  case Nil
  then show ?case by (simp add: last_at_most_def)
next
  case (snoc x os)
  then show ?case
    by (auto simp: last_at_most_snoc nth_append less_Suc_eq max_def)
qed

text \<open>
  C17. Rebasing a compaction boundary does not let it drift: a projected user or assistant message
  lies at or before the rebased boundary exactly when the durable message it comes from lies at or
  before the durable boundary, so the provider usage a context estimate is anchored at is taken
  from a response after the compaction exactly when the durable response is.
\<close>

theorem projected_boundary_exact:
  assumes "project_inference_messages now ms (Some b) = (out, Some pb)"
    and "p < length out" and "\<not> is_tool_result (out ! p)"
  shows "int p \<le> pb \<longleftrightarrow> int (fst (project_entries now ms ! p)) \<le> b"
proof -
  let ?es = "project_entries now ms"
  have out: "out = map snd ?es" and pb: "pb = last_at_most (map fst ?es) b"
    using assms(1) by (auto simp: project_inference_messages_def Let_def)
  have "ordered_state (length ms) (flush_orphans now (project_state now (enumerate 0 ms)))"
    using ordered_flush [OF ordered_project [of "length ms" ms now]] by simp
  then have srt: "sorted_wrt ordered_entries ?es" by (simp add: ordered_state_def project_entries_def)
  have p: "p < length ?es" "\<not> is_tool_result (snd (?es ! p))" using assms out by simp_all
  have le: "fst (?es ! p) \<le> fst (?es ! q)" if "p \<le> q" "q < length ?es" for q
    using srt p that by (cases "p = q") (auto simp: sorted_wrt_iff_nth_less ordered_entries_def)
  show ?thesis
  proof
    assume "int p \<le> pb"
    then obtain q where "q < length ?es" "pb = int q" "int (fst (?es ! q)) \<le> b"
      using last_at_most_spec [of "map fst ?es" b] pb by auto
    with le [of q] \<open>int p \<le> pb\<close> show "int (fst (?es ! p)) \<le> b" by simp
  next
    assume "int (fst (?es ! p)) \<le> b"
    then show "int p \<le> pb" using last_at_most_spec [of "map fst ?es" b] p pb by auto
  qed
qed

theorem projected_boundary_exact_witness:
  "(0::int) \<le> 0 \<longleftrightarrow> int (fst (project_entries 1
      [UserMessage \<lparr>um_content = UserText ''hello'', um_timestamp = 1\<rparr>] ! 0)) \<le> 0"
  using projected_boundary_exact [of 1 "[UserMessage \<lparr>um_content = UserText ''hello'', um_timestamp = 1\<rparr>]"
    0 "[UserMessage \<lparr>um_content = UserText ''hello'', um_timestamp = 1\<rparr>]" 0 0]
  by (simp add: project_inference_messages_def project_entries_def project_state_def flush_orphans_def
      orphans_def last_at_most_def)

end
