(* ===== verification/ContextOverflow.thy ===== *)
theory ContextOverflow
  imports CoreTypes
begin

text \<open>
  The overflow classification of \<^verbatim>\<open>core/compaction.py\<close>. The provider's error texts are
  recognised by two tables of case-insensitive regular expressions; the tables are written out here
  as expressions of a small matcher (derivatives, searching at every position), whose correctness
  against the usual language semantics is proved first.
\<close>

section \<open>Regular expressions, searched without regard to case\<close>

datatype rx =
    RxNone
  | RxEps
  | RxAny "char \<Rightarrow> bool"
  | RxSeq rx rx
  | RxAlt rx rx
  | RxStar rx

fun rx_nullable :: "rx \<Rightarrow> bool" where
  "rx_nullable RxNone = False"
| "rx_nullable RxEps = True"
| "rx_nullable (RxAny P) = False"
| "rx_nullable (RxSeq r s) = (rx_nullable r \<and> rx_nullable s)"
| "rx_nullable (RxAlt r s) = (rx_nullable r \<or> rx_nullable s)"
| "rx_nullable (RxStar r) = True"

fun rx_deriv :: "char \<Rightarrow> rx \<Rightarrow> rx" where
  "rx_deriv c RxNone = RxNone"
| "rx_deriv c RxEps = RxNone"
| "rx_deriv c (RxAny P) = (if P c then RxEps else RxNone)"
| "rx_deriv c (RxSeq r s) =
     (if rx_nullable r then RxAlt (RxSeq (rx_deriv c r) s) (rx_deriv c s) else RxSeq (rx_deriv c r) s)"
| "rx_deriv c (RxAlt r s) = RxAlt (rx_deriv c r) (rx_deriv c s)"
| "rx_deriv c (RxStar r) = RxSeq (rx_deriv c r) (RxStar r)"

text \<open>\<open>pattern.match\<close>: some prefix of the text; \<open>pattern.search\<close>: at some position.\<close>

fun rx_match :: "rx \<Rightarrow> string \<Rightarrow> bool" where
  "rx_match r [] = rx_nullable r"
| "rx_match r (c # cs) = (rx_nullable r \<or> rx_match (rx_deriv c r) cs)"

fun rx_search :: "rx \<Rightarrow> string \<Rightarrow> bool" where
  "rx_search r [] = rx_match r []"
| "rx_search r (c # cs) = (rx_match r (c # cs) \<or> rx_search r cs)"

subsection \<open>The matcher decides the language\<close>

inductive rx_in :: "string \<Rightarrow> rx \<Rightarrow> bool" where
  rx_in_eps: "rx_in [] RxEps"
| rx_in_any: "P c \<Longrightarrow> rx_in [c] (RxAny P)"
| rx_in_seq: "rx_in u r \<Longrightarrow> rx_in v s \<Longrightarrow> rx_in (u @ v) (RxSeq r s)"
| rx_in_altl: "rx_in u r \<Longrightarrow> rx_in u (RxAlt r s)"
| rx_in_altr: "rx_in u s \<Longrightarrow> rx_in u (RxAlt r s)"
| rx_in_star_nil: "rx_in [] (RxStar r)"
| rx_in_star: "rx_in (c # u) r \<Longrightarrow> rx_in v (RxStar r) \<Longrightarrow> rx_in (c # u @ v) (RxStar r)"

inductive_simps rx_in_simps [simp]:
  "rx_in u RxNone"
  "rx_in u RxEps"
  "rx_in u (RxAny P)"
  "rx_in u (RxAlt r s)"

inductive_simps rx_in_seq_iff: "rx_in u (RxSeq r s)"
inductive_simps rx_in_star_Cons: "rx_in (c # u) (RxStar r)"

lemma rx_nullable_in: "rx_nullable r \<longleftrightarrow> rx_in [] r"
  by (induction r) (auto simp: rx_in_seq_iff intro: rx_in_star_nil)

lemma rx_in_seq_Cons:
  "rx_in (c # u) (RxSeq r s) \<longleftrightarrow>
     (rx_in [] r \<and> rx_in (c # u) s) \<or> (\<exists>v w. u = v @ w \<and> rx_in (c # v) r \<and> rx_in w s)"
  by (auto simp: rx_in_seq_iff Cons_eq_append_conv)

lemma rx_deriv_in: "rx_in u (rx_deriv c r) \<longleftrightarrow> rx_in (c # u) r"
proof (induction r arbitrary: u)
  case (RxSeq r s)
  have "rx_in u (RxSeq (rx_deriv c r) s) \<longleftrightarrow> (\<exists>v w. u = v @ w \<and> rx_in (c # v) r \<and> rx_in w s)" for u
    by (simp add: rx_in_seq_iff [of u] RxSeq)
  then show ?case by (auto simp: rx_in_seq_Cons rx_nullable_in RxSeq)
next
  case (RxStar r)
  then show ?case
    by (auto simp: rx_in_star_Cons rx_in_seq_iff)
qed auto

lemma rx_match_in: "rx_match r s \<longleftrightarrow> (\<exists>u v. s = u @ v \<and> rx_in u r)"
proof (induction s arbitrary: r)
  case Nil
  then show ?case by (simp add: rx_nullable_in)
next
  case (Cons c s)
  have "(\<exists>u v. c # s = u @ v \<and> rx_in u r)
      \<longleftrightarrow> rx_in [] r \<or> (\<exists>u v. s = u @ v \<and> rx_in (c # u) r)"
    by (auto simp: Cons_eq_append_conv)
  with Cons show ?case by (simp add: rx_nullable_in rx_deriv_in)
qed

lemma rx_search_in: "rx_search r s \<longleftrightarrow> (\<exists>p u v. s = p @ u @ v \<and> rx_in u r)"
proof (induction s)
  case Nil
  then show ?case by (simp add: rx_nullable_in)
next
  case (Cons c s)
  have "(\<exists>p u v. c # s = p @ u @ v \<and> rx_in u r)
      \<longleftrightarrow> (\<exists>u v. c # s = u @ v \<and> rx_in u r) \<or> (\<exists>p u v. s = p @ u @ v \<and> rx_in u r)"
    by (metis (no_types, opaque_lifting) append_Cons append_Nil list.inject neq_Nil_conv)
  with Cons show ?case by (simp add: rx_match_in del: rx_match.simps)
qed

section \<open>The pattern tables\<close>

definition lower_char :: "char \<Rightarrow> char" where
  "lower_char c = (let n = (of_char c :: nat) in if 65 \<le> n \<and> n \<le> 90 then char_of (n + 32) else c)"

fun rx_seqs :: "rx list \<Rightarrow> rx" where
  "rx_seqs [] = RxEps"
| "rx_seqs (r # rs) = RxSeq r (rx_seqs rs)"

definition rx_lit :: "string \<Rightarrow> rx" where
  "rx_lit s = rx_seqs (map (\<lambda>d. RxAny (\<lambda>c. lower_char c = d)) s)"

definition rx_opt :: "rx \<Rightarrow> rx" where "rx_opt r = RxAlt r RxEps"

definition rx_plus :: "rx \<Rightarrow> rx" where "rx_plus r = RxSeq r (RxStar r)"

definition is_digit :: "char \<Rightarrow> bool" where
  "is_digit c = (let n = (of_char c :: nat) in 48 \<le> n \<and> n \<le> 57)"

definition rx_digits :: rx where "rx_digits = rx_plus (RxAny is_digit)"

definition rx_amount :: rx where "rx_amount = rx_plus (RxAny (\<lambda>c. is_digit c \<or> c = CHR '','' ))"

definition rx_spaces :: rx where "rx_spaces = RxStar (RxAny is_space)"

definition rx_tokens :: rx where "rx_tokens = RxSeq (rx_lit '' token'') (rx_opt (rx_lit ''s''))"

text \<open>An entry is anchored at the start of the text (\<open>^\<close>) or not. The apostrophe of
  \<open>model's\<close> is \<open>CHR 0x27\<close>.\<close>

definition models_opt :: rx where
  "models_opt = RxSeq (rx_lit ''model'') (RxSeq (rx_opt (RxAny (\<lambda>c. c = CHR 0x27))) (rx_opt (rx_lit ''s'')))"

definition overflow_patterns :: "(bool \<times> rx) list" where
  "overflow_patterns =
    [(False, rx_lit ''prompt is too long''),
     (False, rx_lit ''request_too_large''),
     (False, rx_lit ''input is too long for requested model''),
     (False, rx_lit ''exceeds the context window''),
     (False, rx_seqs [rx_lit ''exceeds '', rx_opt (rx_lit ''the ''), rx_opt (RxSeq models_opt (rx_lit '' '')),
        rx_lit ''maximum context length'',
        rx_opt (RxAlt (rx_seqs [rx_lit '' of '', rx_amount, rx_tokens])
          (rx_seqs [rx_spaces, rx_lit ''('', rx_amount, rx_lit '')'']))]),
     (False, rx_seqs [rx_lit ''input token count'', RxStar (RxAny (\<lambda>c. c \<noteq> CHR 0x0A)),
        rx_lit ''exceeds the maximum'']),
     (False, rx_seqs [rx_lit ''maximum prompt length is '', rx_digits]),
     (False, rx_lit ''reduce the length of the messages''),
     (False, rx_seqs [rx_lit ''maximum context length '', rx_opt (RxAlt (rx_lit ''is '') (rx_lit ''of '')),
        rx_amount, rx_tokens]),
     (False, rx_seqs [rx_lit ''exceeds '', rx_opt (rx_lit ''the ''),
        rx_lit ''maximum allowed input length of '', rx_amount, rx_tokens]),
     (False, rx_seqs [rx_lit ''input ('', rx_amount, rx_tokens, rx_lit '') is longer than the '',
        models_opt, rx_lit '' context length'']),
     (False, rx_seqs [rx_lit ''exceeds the limit of '', rx_amount]),
     (False, rx_lit ''exceeds the available context size''),
     (False, rx_lit ''greater than the context length''),
     (False, rx_lit ''context window exceeds limit''),
     (False, rx_lit ''exceeded model token limit''),
     (False, rx_seqs [rx_lit ''too large for model with '', rx_amount, rx_lit '' maximum context length'']),
     (False, rx_seqs [rx_lit ''prompt has '', rx_amount, rx_tokens,
        rx_lit '', but the configured context size is '', rx_amount, rx_tokens]),
     (False, rx_lit ''model_context_window_exceeded''),
     (False, rx_seqs [rx_lit ''prompt too long; exceeded '', rx_opt (rx_lit ''max ''), rx_lit ''context length'']),
     (False, rx_lit ''range of input length should be''),
     (False, rx_seqs [rx_lit ''context'', RxAny (\<lambda>c. c = CHR ''_'' \<or> c = CHR '' ''), rx_lit ''length'',
        RxAny (\<lambda>c. c = CHR ''_'' \<or> c = CHR '' ''), rx_lit ''exceeded'']),
     (False, rx_lit ''too many tokens''),
     (False, rx_lit ''token limit exceeded''),
     (True, rx_seqs [rx_lit ''4'', RxAlt (rx_lit ''00'') (rx_lit ''13''), rx_spaces,
        rx_opt (rx_lit ''status code''), rx_spaces, rx_lit ''(no body)''])]"

definition non_overflow_patterns :: "(bool \<times> rx) list" where
  "non_overflow_patterns =
    [(True, rx_seqs [RxAlt (rx_lit ''throttling error'') (rx_lit ''service unavailable''), rx_lit '':'']),
     (False, rx_lit ''rate limit''),
     (False, rx_lit ''too many requests''),
     (False, rx_seqs [rx_lit ''throttl'', RxAlt (rx_lit ''e'') (RxAlt (rx_lit ''ed'') (rx_lit ''ing''))])]"

definition pattern_search :: "string \<Rightarrow> bool \<times> rx \<Rightarrow> bool" where
  "pattern_search text p = (if fst p then rx_match (snd p) text else rx_search (snd p) text)"

section \<open>is_context_overflow\<close>

text \<open>\<open>input_tokens >= context_window * 0.99\<close> compares exactly; both sides are scaled by 100.\<close>

definition is_context_overflow :: "assistant_message \<Rightarrow> int option \<Rightarrow> bool" where
  "is_context_overflow m context_window =
     (let error_message = (case am_error m of None \<Rightarrow> [] | Some e \<Rightarrow> e);
          excluded = list_ex (pattern_search error_message) non_overflow_patterns;
          matched = list_ex (pattern_search error_message) overflow_patterns
      in if am_stop_reason m = ''error'' \<and> error_message \<noteq> [] \<and> \<not> excluded \<and> matched then True
         else case context_window of
            None \<Rightarrow> False
          | Some w \<Rightarrow>
              if w > 0 then
                (let input_tokens = u_input (am_usage m) + u_cache_read (am_usage m) in
                 (am_stop_reason m = ''stop'' \<and> input_tokens > w)
                 \<or> (am_stop_reason m = ''length'' \<and> u_output (am_usage m) = 0
                     \<and> 100 * input_tokens \<ge> 99 * w))
              else False)"

text \<open>What a table entry accepts, as a statement about the text.\<close>

definition pattern_occurs :: "string \<Rightarrow> bool \<times> rx \<Rightarrow> bool" where
  "pattern_occurs text p = (\<exists>a u b. text = a @ u @ b \<and> rx_in u (snd p) \<and> (fst p \<longrightarrow> a = []))"

lemma pattern_search_occurs: "pattern_search text p = pattern_occurs text p"
  by (cases "fst p") (auto simp: pattern_search_def pattern_occurs_def rx_match_in rx_search_in)

text \<open>
  A response is taken for a context overflow in exactly three cases: it is an error whose text
  contains an occurrence of an overflow pattern and none of a throttling pattern (a rate limit that
  mentions tokens stays retryable); or, with a known window, it stopped normally although its input
  exceeds the window; or it was cut at the output limit with no output and its input fills at
  least 99 percent of the window. Occurrence is stated by the languages of the table entries.
\<close>

theorem context_overflow_cases:
  "is_context_overflow m cw \<longleftrightarrow>
     (am_stop_reason m = ''error'' \<and> (\<exists>e. am_error m = Some e \<and> e \<noteq> []
        \<and> (\<exists>p \<in> set overflow_patterns. pattern_occurs e p)
        \<and> \<not> (\<exists>p \<in> set non_overflow_patterns. pattern_occurs e p)))
   \<or> (\<exists>w. cw = Some w \<and> w > 0 \<and>
        (let tokens = u_input (am_usage m) + u_cache_read (am_usage m) in
          (am_stop_reason m = ''stop'' \<and> w < tokens)
        \<or> (am_stop_reason m = ''length'' \<and> u_output (am_usage m) = 0 \<and> 99 * w \<le> 100 * tokens)))"
  unfolding is_context_overflow_def Let_def list_ex_iff pattern_search_occurs
  by (cases "am_error m"; cases cw) auto

end
