(* ===== verification/Inference.thy ===== *)
theory Inference
  imports RunControl Projection ContextOverflow
begin

text \<open>
  \<^verbatim>\<open>core/inference_runtime.py\<close>: preparation of a request by hooks, collection of a provider stream
  into a message, and the retry loop. The provider is code the caller supplies: an attempt yields
  the list of its stream events and the way the stream ends, as a function of the number of events
  published before it, of the attempt id and of the request, so that any stateful provider and any
  cancellation of the attempt is covered. Every context handed to the provider is recorded.
\<close>

section \<open>Requests and streams\<close>

record inference_context =
  ic_system_prompt :: string
  ic_messages :: "message list"
  ic_tools :: "(string, json) dict list"
  ic_session_id :: string

record stream_event =
  se_type :: string
  se_delta :: string
  se_content_index :: "int option"
  se_tool_call_index :: "int option"
  se_tool_call_id :: "string option"
  se_tool_name :: "string option"
  se_message :: "assistant_message option"

text \<open>\<open>env_infer\<close>: the events of an attempt and the error that ends it, if any
  (\<open>CancelledError\<close> when the attempt is cancelled). \<open>env_sleep\<close>: whether the pause before an
  attempt is cancelled.\<close>

record inf_env = ctl_env +
  env_infer :: "nat \<Rightarrow> nat \<Rightarrow> inference_context \<Rightarrow> stream_options \<Rightarrow> stream_event list \<times> exn option"
  env_sleep :: "nat \<Rightarrow> int \<Rightarrow> bool"

record inf_state = ctl_state +
  in_last_attempt :: nat
  in_next_attempt :: nat
  in_started :: bool
  in_sent :: "(nat \<times> inference_context) list"

definition opt_int :: "int option \<Rightarrow> json" where
  "opt_int o' = (case o' of None \<Rightarrow> JNull | Some i \<Rightarrow> JInt i)"

definition opt_str :: "string option \<Rightarrow> json" where
  "opt_str o' = (case o' of None \<Rightarrow> JNull | Some s \<Rightarrow> JStr s)"

definition model_to_dict :: "model_info \<Rightarrow> (string, json) dict" where
  "model_to_dict m = [(''id'', JStr (mi_id m)), (''name'', JStr (mi_name m)),
     (''provider'', JStr (mi_provider m)), (''reasoning'', JBool (mi_reasoning m)),
     (''input'', JList (map JStr (mi_input m))), (''contextWindow'', JInt (mi_context_window m)),
     (''maxOutputTokens'', JInt (mi_max_output_tokens m))]"

definition stream_options_to_dict :: "stream_options \<Rightarrow> (string, json) dict" where
  "stream_options_to_dict o' = [(''timeoutMs'', opt_int (so_timeout_ms o')),
     (''maxTokens'', opt_int (so_max_tokens o')),
     (''temperature'', case so_temperature o' of None \<Rightarrow> JNull | Some q \<Rightarrow> JFloat q),
     (''thinkingLevel'', JStr (so_thinking_level o')), (''maxRetries'', opt_int (so_max_retries o')),
     (''baseDelayMs'', JInt (so_base_delay_ms o')),
     (''maxRetryDelayMs'', JInt (so_max_retry_delay_ms o')),
     (''headers'', JObj (map (\<lambda>(k, v). (k, JStr v)) (so_headers o'))),
     (''metadata'', JObj (so_metadata o'))]"

definition stream_event_to_dict :: "stream_event \<Rightarrow> (string, json) dict" where
  "stream_event_to_dict e = [(''type'', JStr (se_type e)), (''delta'', JStr (se_delta e)),
     (''contentIndex'', opt_int (se_content_index e)),
     (''toolCallIndex'', opt_int (se_tool_call_index e)),
     (''toolCallId'', opt_str (se_tool_call_id e)), (''toolName'', opt_str (se_tool_name e))]"

section \<open>Patching the options\<close>

text \<open>
  A hook may replace any field of the options, by its Python name or by its wire name; an unknown
  name is a \<open>TypeError\<close>. The fields of the model are typed: a value of another type, which Python
  would store and fail on later, is a \<open>TypeError\<close> here.
\<close>

definition option_alias :: "string \<Rightarrow> string" where
  "option_alias key = dict_get [(''timeoutMs'', ''timeout_ms''), (''maxTokens'', ''max_tokens''),
     (''thinkingLevel'', ''thinking_level''), (''maxRetries'', ''max_retries''),
     (''baseDelayMs'', ''base_delay_ms''), (''maxRetryDelayMs'', ''max_retry_delay_ms'')] key key"

fun as_int :: "json \<Rightarrow> exn + int" where
  "as_int (JInt i) = Inr i"
| "as_int _ = Inl TypeError"

fun as_opt_int :: "json \<Rightarrow> exn + int option" where
  "as_opt_int (JInt i) = Inr (Some i)"
| "as_opt_int JNull = Inr None"
| "as_opt_int _ = Inl TypeError"

fun as_opt_rat :: "json \<Rightarrow> exn + rat option" where
  "as_opt_rat (JInt i) = Inr (Some (of_int i))"
| "as_opt_rat (JFloat q) = Inr (Some q)"
| "as_opt_rat JNull = Inr None"
| "as_opt_rat _ = Inl TypeError"

fun as_str :: "json \<Rightarrow> exn + string" where
  "as_str (JStr s) = Inr s"
| "as_str _ = Inl TypeError"

fun as_obj :: "json \<Rightarrow> exn + (string, json) dict" where
  "as_obj (JObj d) = Inr d"
| "as_obj _ = Inl TypeError"

definition patch_field :: "string \<Rightarrow> json \<Rightarrow> stream_options \<Rightarrow> exn + stream_options" where
  "patch_field f v o' =
     (if f = ''timeout_ms'' then map_sum id (\<lambda>x. o'\<lparr>so_timeout_ms := x\<rparr>) (as_opt_int v)
      else if f = ''max_tokens'' then map_sum id (\<lambda>x. o'\<lparr>so_max_tokens := x\<rparr>) (as_opt_int v)
      else if f = ''temperature'' then map_sum id (\<lambda>x. o'\<lparr>so_temperature := x\<rparr>) (as_opt_rat v)
      else if f = ''thinking_level'' then map_sum id (\<lambda>x. o'\<lparr>so_thinking_level := x\<rparr>) (as_str v)
      else if f = ''max_retries'' then map_sum id (\<lambda>x. o'\<lparr>so_max_retries := x\<rparr>) (as_opt_int v)
      else if f = ''base_delay_ms'' then map_sum id (\<lambda>x. o'\<lparr>so_base_delay_ms := x\<rparr>) (as_int v)
      else if f = ''max_retry_delay_ms'' then map_sum id (\<lambda>x. o'\<lparr>so_max_retry_delay_ms := x\<rparr>) (as_int v)
      else if f = ''headers'' then bind_res (as_obj v) (\<lambda>d.
        bind_res (map_res (\<lambda>(k, w). bind_res (as_str w) (\<lambda>s. Inr (k, s))) d) (\<lambda>h.
        Inr (o'\<lparr>so_headers := h\<rparr>)))
      else if f = ''metadata'' then map_sum id (\<lambda>x. o'\<lparr>so_metadata := x\<rparr>) (as_obj v)
      else Inl TypeError)"

fun patch_fields :: "(string, json) dict \<Rightarrow> stream_options \<Rightarrow> exn + stream_options" where
  "patch_fields [] o' = Inr o'"
| "patch_fields ((k, v) # kvs) o' = bind_res (patch_field k v o') (patch_fields kvs)"

definition patch_stream_options :: "stream_options \<Rightarrow> (string, json) dict \<Rightarrow> exn + stream_options" where
  "patch_stream_options o' patch =
     patch_fields (fold (\<lambda>(k, v). AList.update (option_alias k) v) patch []) o'"

text \<open>The retry callback is stored in the metadata; the opaque object is written as \<open>None\<close>.\<close>

definition with_retry_callback :: "stream_options \<Rightarrow> stream_options" where
  "with_retry_callback o' = o'\<lparr>so_metadata := AList.update ''on_retry'' JNull (so_metadata o')\<rparr>"

section \<open>Retry decisions\<close>

definition non_retryable_limit :: rx where
  "non_retryable_limit = foldr RxAlt (map rx_lit [''insufficient_quota'', ''quota exceeded'',
     ''usage limit'', ''out of budget'', ''billing'', ''available balance'']) RxNone"

text \<open>\<open>.\<close> matches any character but the newline.\<close>

definition rx_dot_opt :: rx where "rx_dot_opt = rx_opt (RxAny (\<lambda>c. c \<noteq> CHR 0x0A))"

definition retryable_error :: rx where
  "retryable_error = foldr RxAlt [rx_lit ''overloaded'',
     rx_seqs [rx_lit ''rate'', rx_dot_opt, rx_lit ''limit''], rx_lit ''too many requests'',
     rx_seqs [rx_lit ''service'', rx_dot_opt, rx_lit ''unavailable''],
     rx_seqs [rx_lit ''server'', rx_dot_opt, rx_lit ''error''],
     rx_seqs [rx_lit ''internal'', rx_dot_opt, rx_lit ''error''],
     rx_seqs [rx_lit ''network'', rx_dot_opt, rx_lit ''error''],
     rx_lit ''connection'', rx_lit ''fetch failed'', rx_lit ''enotfound'', rx_lit ''eai_again'',
     rx_lit ''socket'', rx_seqs [rx_lit ''time'', rx_opt (rx_lit ''d''), rx_lit '' out''],
     rx_lit ''timeout'', rx_lit ''terminated'', rx_lit ''stream ended'', rx_lit ''ended without'',
     rx_lit ''http2 request did not get a response'', rx_lit ''please retry''] RxNone"

definition is_word :: "char \<Rightarrow> bool" where
  "is_word c = (let n = (of_char c :: nat) in
     (48 \<le> n \<and> n \<le> 57) \<or> (65 \<le> n \<and> n \<le> 90) \<or> n = 95 \<or> (97 \<le> n \<and> n \<le> 122)
     \<or> n \<in> {170, 178, 179, 181, 185, 186, 188, 189, 190} \<or> (192 \<le> n \<and> n \<noteq> 215 \<and> n \<noteq> 247))"

text \<open>\<open>\b(?:408|409|...)\b\<close>: one of the codes between word boundaries.\<close>

definition status_codes :: "string list" where
  "status_codes = [''408'', ''409'', ''429'', ''500'', ''502'', ''503'', ''504'', ''524'']"

definition code_at :: "string \<Rightarrow> bool" where
  "code_at s = (take 3 s \<in> set status_codes \<and> (case drop 3 s of [] \<Rightarrow> True | c # _ \<Rightarrow> \<not> is_word c))"

fun code_search :: "bool \<Rightarrow> string \<Rightarrow> bool" where
  "code_search prev_word [] = False"
| "code_search prev_word (c # cs) = ((\<not> prev_word \<and> code_at (c # cs)) \<or> code_search (is_word c) cs)"

definition is_retryable_failure :: "assistant_message \<Rightarrow> exn option \<Rightarrow> int \<Rightarrow> bool" where
  "is_retryable_failure m failure context_window =
     (if am_stop_reason m \<noteq> ''error'' then False
      else if is_context_overflow m (Some context_window) then False
      else if (case failure of Some (InferenceError _ _ r _) \<Rightarrow> r | _ \<Rightarrow> False) then True
      else
        let error_message = (case am_error m of None \<Rightarrow> [] | Some e \<Rightarrow> e) in
        if rx_search non_retryable_limit error_message then False
        else rx_search retryable_error error_message \<or> code_search False error_message)"

definition retry_delay_ms :: "exn option \<Rightarrow> nat \<Rightarrow> stream_options \<Rightarrow> int" where
  "retry_delay_ms failure attempt o' =
     (case failure of
        Some (InferenceError _ _ _ (Some retry_after)) \<Rightarrow> min (max 0 retry_after) (so_max_retry_delay_ms o')
      | _ \<Rightarrow> min (so_base_delay_ms o' * 2 ^ attempt) (so_max_retry_delay_ms o'))"

section \<open>Collecting a stream\<close>

definition blank_assistant :: "int \<Rightarrow> model_info \<Rightarrow> string \<Rightarrow> string option \<Rightarrow> assistant_message" where
  "blank_assistant now m stop err = \<lparr>am_content = [], am_provider = mi_provider m, am_model = mi_id m,
     am_usage = empty_usage, am_stop_reason = stop, am_error = err, am_timestamp = now\<rparr>"

definition attempt_payload :: "assistant_message \<Rightarrow> nat \<Rightarrow> (string, json) dict" where
  "attempt_payload a n =
     [(''message'', JObj (message_to_dict (AssistantMessage a))), (''attempt'', JInt (int n))]"

definition now_at :: "'e ctl_env_scheme \<Rightarrow> 'z dispatcher_state_scheme \<Rightarrow> int" where
  "now_at \<E> s = env_now \<E> (ds_clock s)"

fun collect_events :: "'e inf_env_scheme \<Rightarrow> model_info \<Rightarrow> nat \<Rightarrow> stream_event list \<Rightarrow> assistant_message option
    \<Rightarrow> ('z inf_state_scheme, assistant_message option) comp" where
  "collect_events \<E> m n [] final = ret final"
| "collect_events \<E> m n (e # es) final =
     (if se_type e = ''start'' then
        seqc (modifies (\<lambda>s. s\<lparr>in_started := True\<rparr>)) (\<lambda>_.
        seqc (reads (now_at \<E>)) (\<lambda>now.
        seqc (emit \<E> ''message_start'' (attempt_payload (blank_assistant now m ''stop'' None) n)) (\<lambda>_.
        collect_events \<E> m n es final)))
      else if se_type e \<in> {''text_delta'', ''thinking_delta'', ''toolcall_delta''} then
        seqc (emit \<E> ''message_update'' [(''assistantMessageEvent'',
          JObj (stream_event_to_dict e @ [(''attempt'', JInt (int n))]))]) (\<lambda>_.
        collect_events \<E> m n es final)
      else if se_type e \<in> {''done'', ''error''} then collect_events \<E> m n es (se_message e)
      else collect_events \<E> m n es final)"

definition collect_assistant :: "'e inf_env_scheme \<Rightarrow> model_info \<Rightarrow> inference_context \<Rightarrow> stream_options
    \<Rightarrow> nat \<Rightarrow> ('z inf_state_scheme, assistant_message) comp" where
  "collect_assistant \<E> m ctx o' n =
     seqc (modifies (\<lambda>s. s\<lparr>in_sent := in_sent s @ [(n, ctx)]\<rparr>)) (\<lambda>_.
     seqc (reads ds_clock) (\<lambda>t.
     let (es, ending) = env_infer \<E> t n ctx o' in
     seqc (collect_events \<E> m n es None) (\<lambda>final.
     case ending of Some x \<Rightarrow> throw x | None \<Rightarrow>
     (case final of
        None \<Rightarrow> throw (InferenceError ''invalid_response'' ''Inference stream ended without a final message'' True None)
      | Some a \<Rightarrow>
          seqc (reads in_started) (\<lambda>started.
          if started then ret a
          else seqc (modifies (\<lambda>s. s\<lparr>in_started := True\<rparr>)) (\<lambda>_.
               seqc (emit \<E> ''message_start'' (attempt_payload a n)) (\<lambda>_. ret a)))))))"

section \<open>The retry loop\<close>

text \<open>The task of one attempt: a cancellation and an error both become a message.\<close>

definition run_attempt :: "'e inf_env_scheme \<Rightarrow> model_info \<Rightarrow> inference_context \<Rightarrow> stream_options
    \<Rightarrow> nat \<Rightarrow> ('z inf_state_scheme, assistant_message \<times> exn option) comp" where
  "run_attempt \<E> m ctx o' n =
     (\<lambda>s. case collect_assistant \<E> m ctx o' n (s\<lparr>in_started := False\<rparr>) of
        (Inr a, t) \<Rightarrow> (Inr (a, None), t)
      | (Inl e, t) \<Rightarrow>
          (if e = CancelledError
           then (Inr (blank_assistant (now_at \<E> t) m ''aborted'' (Some ''Operation aborted''), None), t)
           else (Inr (blank_assistant (now_at \<E> t) m ''error'' (Some (exn_describe e)), Some e), t)))"

definition retry_event :: "string \<Rightarrow> nat \<Rightarrow> nat \<Rightarrow> int \<Rightarrow> string option \<Rightarrow> (string, json) dict" where
  "retry_event stage attempt max_retries delay err =
     [(''stage'', JStr stage), (''attempt'', JInt (int attempt)),
      (''maxAttempts'', JInt (int max_retries + 1)), (''delayMs'', JInt delay), (''error'', opt_str err)]"

text \<open>\<open>_inference_retry\<close> of the engine, the callback the requests use.\<close>

definition on_retry :: "'e ctl_env_scheme \<Rightarrow> (string, json) dict \<Rightarrow> ('z ctl_state_scheme, unit) comp" where
  "on_retry \<E> data = emit \<E> (if jget data ''stage'' = JStr ''start'' then ''auto_retry_start'' else ''auto_retry_end'') data"

definition settle_attempt :: "nat \<Rightarrow> ('z inf_state_scheme, unit) comp" where
  "settle_attempt n = modifies (\<lambda>s. s\<lparr>in_last_attempt := n, in_next_attempt := n + 1\<rparr>)"

text \<open>\<open>remaining\<close> counts the iterations left of \<open>range(max_retries + 1)\<close>; \<open>attempt\<close> is the loop
  variable, \<open>base\<close> the id of the first attempt.\<close>

fun request_loop :: "'e inf_env_scheme \<Rightarrow> model_info \<Rightarrow> inference_context \<Rightarrow> stream_options \<Rightarrow> nat \<Rightarrow> nat
    \<Rightarrow> nat \<Rightarrow> nat \<Rightarrow> bool \<Rightarrow> ('z inf_state_scheme, assistant_message) comp" where
  "request_loop \<E> m ctx o' base max_retries 0 attempt retried = throw AssertionError"
| "request_loop \<E> m ctx o' base max_retries (Suc remaining) attempt retried =
     (let n = base + attempt in
      seqc (run_attempt \<E> m ctx (o'\<lparr>so_max_retries := Some 0\<rparr>) n) (\<lambda>(msg, failure).
      seqc (reads in_started) (\<lambda>started.
      seqc (if started then ret ()
            else seqc (emit \<E> ''message_start'' (attempt_payload msg n)) (\<lambda>_.
                 modifies (\<lambda>s. s\<lparr>in_started := True\<rparr>))) (\<lambda>_.
      if am_stop_reason msg \<noteq> ''error'' \<or> \<not> is_retryable_failure msg failure (mi_context_window m)
          \<or> attempt \<ge> max_retries
      then
        seqc (settle_attempt n) (\<lambda>_.
        seqc (if retried then on_retry \<E> (retry_event ''end'' attempt max_retries 0 (am_error msg)) else ret ()) (\<lambda>_.
        ret msg))
      else
        seqc (emit \<E> ''message_end'' (attempt_payload msg n @ [(''willRetry'', JBool True)])) (\<lambda>_.
        let delay = retry_delay_ms failure attempt o' in
        seqc (on_retry \<E> (retry_event ''start'' (attempt + 1) max_retries delay (am_error msg))) (\<lambda>_.
        seqc (reads (\<lambda>s. env_sleep \<E> (ds_clock s) delay)) (\<lambda>cancelled.
        seqc (await_point \<E>) (\<lambda>_.
        if cancelled then
          seqc (reads (\<lambda>s. blank_assistant (now_at \<E> s) m ''aborted'' (Some ''Operation aborted''))) (\<lambda>aborted.
          seqc (settle_attempt (n + 1)) (\<lambda>_.
          seqc (emit \<E> ''message_start'' (attempt_payload aborted (n + 1))) (\<lambda>_.
          seqc (on_retry \<E> (retry_event ''end'' (attempt + 1) max_retries 0 (am_error aborted))) (\<lambda>_.
          ret aborted))))
        else request_loop \<E> m ctx o' base max_retries remaining (attempt + 1) True)))))))) "

declare request_loop.simps [simp del]

section \<open>Preparing the request\<close>

text \<open>\<open>hook["messages"]\<close>: dictionaries are decoded, messages are taken as they are.\<close>

definition item_message :: "json \<Rightarrow> exn + message" where
  "item_message v = (if is_obj v then message_from_dict (obj_of v) else Inl TypeError)"

fun hook_messages :: "hval \<Rightarrow> exn + message list" where
  "hook_messages (HMsgs ms) = Inr ms"
| "hook_messages (HVal v) = bind_res (py_iter v) (map_res item_message)"
| "hook_messages _ = Inl TypeError"

definition message_dicts :: "message list \<Rightarrow> json" where
  "message_dicts ms = JList (map (\<lambda>m. JObj (message_to_dict m)) ms)"

definition context_messages :: "'e ctl_env_scheme \<Rightarrow> message list \<Rightarrow> ('z ctl_state_scheme, message list) comp" where
  "context_messages \<E> ms =
     seqc (hook \<E> ''context'' [(''messages'', message_dicts ms)]) (\<lambda>h.
     case map_of h ''messages'' of None \<Rightarrow> ret ms | Some v \<Rightarrow> lift_res (hook_messages v))"

definition request_options :: "'e ctl_env_scheme \<Rightarrow> model_info \<Rightarrow> string \<Rightarrow> stream_options
    \<Rightarrow> ('z ctl_state_scheme, stream_options) comp" where
  "request_options \<E> m session_id o' =
     seqc (hook \<E> ''before_inference_request'' [(''model'', JObj (model_to_dict m)),
       (''sessionId'', JStr session_id), (''streamOptions'', JObj (stream_options_to_dict o'))]) (\<lambda>h.
     let o1 = with_retry_callback o' in
     case map_of h ''streamOptions'' of
       Some (HVal (JObj patch)) \<Rightarrow>
         lift_res (bind_res (patch_stream_options o1 patch) (\<lambda>o2. Inr (with_retry_callback o2)))
     | _ \<Rightarrow> ret o1)"

definition patch_context :: "'e ctl_env_scheme \<Rightarrow> model_info \<Rightarrow> inference_context
    \<Rightarrow> ('z ctl_state_scheme, inference_context) comp" where
  "patch_context \<E> m ctx =
     seqc (hook \<E> ''before_inference_context'' [(''model'', JObj (model_to_dict m)),
       (''context'', JObj [(''systemPrompt'', JStr (ic_system_prompt ctx)),
          (''messages'', message_dicts (ic_messages ctx)),
          (''tools'', JList (map JObj (ic_tools ctx)))])]) (\<lambda>h.
     case map_of h ''context'' of
       Some (HVal (JObj patch)) \<Rightarrow>
         lift_res (bind_res (case jget patch ''messages'' of
             JList xs \<Rightarrow> map_res item_message xs | _ \<Rightarrow> Inr (ic_messages ctx)) (\<lambda>ms.
           Inr \<lparr>ic_system_prompt = py_str (dict_get patch ''systemPrompt'' (JStr (ic_system_prompt ctx))),
             ic_messages = ms,
             ic_tools = (case dict_get patch ''tools'' JNull of
                JList ts \<Rightarrow> map obj_of (filter is_obj ts) | _ \<Rightarrow> ic_tools ctx),
             ic_session_id = ic_session_id ctx\<rparr>))
     | _ \<Rightarrow> ret ctx)"

definition request :: "'e inf_env_scheme \<Rightarrow> model_info \<Rightarrow> message list \<Rightarrow> string \<Rightarrow> (string, json) dict list
    \<Rightarrow> string \<Rightarrow> stream_options \<Rightarrow> ('z inf_state_scheme, assistant_message) comp" where
  "request \<E> m ms system_prompt tools session_id o' =
     seqc (context_messages \<E> ms) (\<lambda>cms.
     seqc (request_options \<E> m session_id o') (\<lambda>o1.
     seqc (patch_context \<E> m \<lparr>ic_system_prompt = system_prompt, ic_messages = cms,
        ic_tools = tools, ic_session_id = session_id\<rparr>) (\<lambda>ctx0.
     seqc (reads (now_at \<E>)) (\<lambda>now.
     let ctx = ctx0\<lparr>ic_messages := normalize_inference_messages now (ic_messages ctx0)\<rparr>;
         max_retries = (case so_max_retries o1 of None \<Rightarrow> 3 | Some k \<Rightarrow> nat (max 0 k)) in
     seqc (reads in_next_attempt) (\<lambda>base.
     request_loop \<E> m ctx o1 base max_retries (Suc max_retries) 0 False)))))"

section \<open>What a request does to the state\<close>

definition in_frame :: "'z inf_state_scheme \<Rightarrow> 'z inf_state_scheme \<Rightarrow> bool" where
  "in_frame s t \<longleftrightarrow> ct_active t = ct_active s \<and> (ct_abort s \<longrightarrow> ct_abort t)
     \<and> prefix (ds_trace s) (ds_trace t) \<and> ct_steering_mode t = ct_steering_mode s
     \<and> ct_follow_up_mode t = ct_follow_up_mode s \<and> inf_state.more t = inf_state.more s"

interpretation fr: state_preorder "in_frame :: 'z inf_state_scheme \<Rightarrow> _"
  by unfold_locales (auto simp: in_frame_def)

definition in_same :: "'z inf_state_scheme \<Rightarrow> 'z inf_state_scheme \<Rightarrow> bool" where
  "in_same s t \<longleftrightarrow> in_frame s t \<and> in_sent t = in_sent s \<and> in_next_attempt t = in_next_attempt s
     \<and> in_last_attempt t = in_last_attempt s"

interpretation sa: state_preorder "in_same :: 'z inf_state_scheme \<Rightarrow> _"
  by unfold_locales (auto simp: in_same_def in_frame_def)

lemma ct_in_same:
  assumes "ct_extends s t"
  shows "in_same s t" and "in_started t = in_started s"
proof -
  have t: "t = s\<lparr>ds_trace := ds_trace t, ds_heard := ds_heard t, ct_steer := ct_steer t,
        ct_follow_up := ct_follow_up t, ct_abort := ct_abort t\<rparr>"
    using assms by (simp add: ct_extends_def)
  have "inf_state.more t = inf_state.more s" "in_sent t = in_sent s"
    "in_next_attempt t = in_next_attempt s" "in_last_attempt t = in_last_attempt s"
    and st: "in_started t = in_started s"
    by (subst t, simp)+
  then show "in_same s t" using ct_extendsD [OF assms] by (simp add: in_same_def in_frame_def)
  show "in_started t = in_started s" by (rule st)
qed

lemma emit_same:
  "wp (emit \<E> ty data) (\<lambda>_ t. in_same s t \<and> in_started t = in_started s)
     (\<lambda>_ t. \<not> sink_ok \<E> \<and> in_same s t) s"
  by (rule wp_mono [OF emit_wp]) (auto dest: ct_in_same)

lemma emit_same_steps: "steps in_same (emit \<E> ty data)"
  by (rule steps_weaken [OF emit_ct ct_in_same(1)])

lemma collect_events_same: "steps in_same (collect_events \<E> m n es final)"
proof (induction es arbitrary: final)
  case Nil
  then show ?case by (auto intro: sa.steps_rules)
next
  case (Cons e es)
  have "steps in_same (modifies (\<lambda>s. s\<lparr>in_started := True\<rparr>) :: ('c inf_state_scheme, unit) comp)"
    by (rule sa.steps_modifies) (simp add: in_same_def in_frame_def)
  with Cons show ?case
    by (auto intro!: sa.steps_seqc emit_same_steps sa.steps_reads)
qed

lemma run_attempt_wp:
  "wp (run_attempt \<E> m ctx o' n) (\<lambda>_ t. in_frame s t \<and> in_sent t = in_sent s @ [(n, ctx)]
      \<and> in_next_attempt t = in_next_attempt s \<and> in_last_attempt t = in_last_attempt s) (\<lambda>_ _. False) s"
proof -
  let ?s = "s\<lparr>in_started := False\<rparr>"
  let ?s1 = "?s\<lparr>in_sent := in_sent s @ [(n, ctx)]\<rparr>"
  let ?rest = "\<lambda>s. snd (collect_assistant \<E> m ctx o' n s)"
  have m: "steps in_same (modifies (\<lambda>s. s\<lparr>in_started := True\<rparr>) :: ('a inf_state_scheme, unit) comp)"
    by (rule sa.steps_modifies) (simp add: in_same_def in_frame_def)
  define tail where "tail = (\<lambda>t. let (es, ending) = env_infer \<E> t n ctx o' in
     seqc (collect_events \<E> m n es None) (\<lambda>final.
     case ending of Some x \<Rightarrow> throw x | None \<Rightarrow>
     (case final of
        None \<Rightarrow> throw (InferenceError ''invalid_response'' ''Inference stream ended without a final message'' True None)
      | Some a \<Rightarrow>
          seqc (reads in_started) (\<lambda>started.
          if started then ret a
          else seqc (modifies (\<lambda>s. s\<lparr>in_started := True\<rparr>)) (\<lambda>_.
               seqc (emit \<E> ''message_start'' (attempt_payload a n)) (\<lambda>_. ret a)))))
     :: ('a inf_state_scheme, assistant_message) comp)"
  have tl: "steps in_same (tail t)" for t
    unfolding tail_def Let_def
    by (auto split: prod.split option.split intro!: sa.steps_rules collect_events_same emit_same_steps m)
  have "collect_assistant \<E> m ctx o' n ?s = tail (ds_clock ?s1) ?s1"
    by (simp add: collect_assistant_def seqc_def modifies_def reads_def tail_def)
  then have "in_same ?s1 (?rest ?s)" using tl by (simp add: steps_def)
  then have "in_frame s (?rest ?s)" "in_sent (?rest ?s) = in_sent s @ [(n, ctx)]"
    "in_next_attempt (?rest ?s) = in_next_attempt s" "in_last_attempt (?rest ?s) = in_last_attempt s"
    by (auto simp: in_same_def in_frame_def)
  then show ?thesis
    by (auto simp: wp_def run_attempt_def split: prod.split sum.split)
qed

definition attempt_log :: "nat \<Rightarrow> nat \<Rightarrow> inference_context \<Rightarrow> (nat \<times> inference_context) list" where
  "attempt_log first k ctx = map (\<lambda>j. (first + j, ctx)) [0..<k]"

lemma attempt_log_Suc: "attempt_log first (Suc k) ctx = (first, ctx) # attempt_log (Suc first) k ctx"
proof -
  have "[0..<Suc k] = 0 # map Suc [0..<k]" by (simp add: upt_conv_Cons map_Suc_upt)
  then show ?thesis by (simp add: attempt_log_def)
qed

lemma attempt_log_0 [simp]: "attempt_log first 0 ctx = []"
  by (simp add: attempt_log_def)

lemma start_once_wp:
  "wp (if started then ret () else seqc (emit \<E> ty data) (\<lambda>_. modifies (\<lambda>s. s\<lparr>in_started := True\<rparr>)))
     (\<lambda>_. in_same u) (\<lambda>_ t. \<not> sink_ok \<E> \<and> in_same u t) u"
proof (cases started)
  case True
  then show ?thesis by (simp add: sa.refl)
next
  case False
  have "wp (seqc (emit \<E> ty data) (\<lambda>_. modifies (\<lambda>s. s\<lparr>in_started := True\<rparr>)))
     (\<lambda>_. in_same u) (\<lambda>_ t. \<not> sink_ok \<E> \<and> in_same u t) u"
    unfolding wp_seqc
    by (rule wp_mono [OF emit_same]) (auto simp: in_same_def in_frame_def)
  with False show ?thesis by simp
qed

lemma on_retry_same:
  "wp (on_retry \<E> data) (\<lambda>_. in_same u) (\<lambda>_ t. \<not> sink_ok \<E> \<and> in_same u t) u"
  unfolding on_retry_def by (rule wp_mono [OF emit_same]) auto

text \<open>The state after some attempts: \<open>u\<close> differs from \<open>s\<close> by the log of those attempts.\<close>

definition attempted :: "nat \<Rightarrow> nat \<Rightarrow> inference_context \<Rightarrow> 'z inf_state_scheme \<Rightarrow> 'z inf_state_scheme \<Rightarrow> bool" where
  "attempted first k ctx s u \<longleftrightarrow> in_frame s u \<and> in_sent u = in_sent s @ attempt_log first k ctx"

lemma attempted_same: "attempted first k ctx s u \<Longrightarrow> in_same u v \<Longrightarrow> attempted first k ctx s v"
  by (auto simp: attempted_def in_same_def intro: fr.trans)

lemma attempted_settle: "attempted first k ctx s u \<Longrightarrow> wp (settle_attempt n)
     (\<lambda>_ v. attempted first k ctx s v \<and> in_last_attempt v = n \<and> in_next_attempt v = Suc n) E u"
  by (simp add: attempted_def settle_attempt_def in_frame_def)

lemma attempted_Suc:
  "attempted first 1 ctx s u \<Longrightarrow> attempted (Suc first) k ctx u v \<Longrightarrow> attempted first (Suc k) ctx s v"
  by (auto simp: attempted_def attempt_log_Suc intro: fr.trans)

definition loop_done :: "nat \<Rightarrow> nat \<Rightarrow> inference_context \<Rightarrow> 'z inf_state_scheme \<Rightarrow> 'z inf_state_scheme \<Rightarrow> bool" where
  "loop_done first bound ctx s t \<longleftrightarrow> (\<exists>k. 1 \<le> k \<and> k \<le> bound \<and> attempted first k ctx s t
     \<and> first + k \<le> in_next_attempt t \<and> in_last_attempt t < in_next_attempt t)"

definition loop_broken :: "nat \<Rightarrow> nat \<Rightarrow> inference_context \<Rightarrow> 'z inf_state_scheme \<Rightarrow> 'z inf_state_scheme \<Rightarrow> bool" where
  "loop_broken first bound ctx s t \<longleftrightarrow> (\<exists>k \<le> bound. attempted first k ctx s t)"

lemma via_same:
  assumes "attempted first k ctx s u"
    and "wp c (\<lambda>_. in_same u) (\<lambda>_ t. \<not> sink_ok \<E> \<and> in_same u t) u"
    and "\<And>x v. attempted first k ctx s v \<Longrightarrow> wp (f x) Q (\<lambda>_ t. \<not> sink_ok \<E> \<and> B t) v"
    and "\<And>v. attempted first k ctx s v \<Longrightarrow> B v"
  shows "wp (seqc c f) Q (\<lambda>_ t. \<not> sink_ok \<E> \<and> B t) u"
  unfolding wp_seqc
  by (rule wp_mono [OF assms(2)]) (use assms(1, 3, 4) attempted_same in blast)+

lemma emit_same_only: "wp (emit \<E> ty data) (\<lambda>_. in_same u) (\<lambda>_ t. \<not> sink_ok \<E> \<and> in_same u t) u"
  by (rule wp_mono [OF emit_same]) auto

lemma await_same: "wp (await_point \<E>) (\<lambda>_. in_same u) (\<lambda>_ t. \<not> sink_ok \<E> \<and> in_same u t) u"
  by (rule wp_mono [OF await_point_ok]) (auto dest: ct_in_same)

lemma finish_wp:
  assumes "attempted first 1 ctx s u" and "1 \<le> bound" and "first \<le> n"
    and c: "\<And>w. wp c (\<lambda>_. in_same w) (\<lambda>_ t. \<not> sink_ok \<E> \<and> in_same w t) w"
  shows "wp (seqc (settle_attempt n) (\<lambda>_. seqc c (\<lambda>_. ret msg)))
     (\<lambda>_. loop_done first bound ctx s) (\<lambda>_ t. \<not> sink_ok \<E> \<and> loop_broken first bound ctx s t) u"
  unfolding wp_seqc
proof (rule wp_mono [OF attempted_settle [OF assms(1)]])
  fix x v assume v: "attempted first 1 ctx s v \<and> in_last_attempt v = n \<and> in_next_attempt v = Suc n"
  have d: "loop_done first bound ctx s w" "loop_broken first bound ctx s w" if "in_same v w" for w
    using v that assms(2,3) attempted_same [of first 1 ctx s v w]
    by (auto simp: loop_done_def loop_broken_def in_same_def intro!: exI [of _ 1])
  show "wp c (\<lambda>_. wp (ret msg) (\<lambda>_. loop_done first bound ctx s)
      (\<lambda>_ t. \<not> sink_ok \<E> \<and> loop_broken first bound ctx s t))
      (\<lambda>_ t. \<not> sink_ok \<E> \<and> loop_broken first bound ctx s t) v"
    by (rule wp_mono [OF c]) (auto simp: d)
qed

lemma loop_next:
  assumes v: "attempted first 1 ctx s v"
    and w: "wp c (\<lambda>_. loop_done (Suc first) r ctx v) (\<lambda>_ t. \<not> sink_ok \<E> \<and> loop_broken (Suc first) r ctx v t) v"
  shows "wp c (\<lambda>_. loop_done first (Suc r) ctx s) (\<lambda>_ t. \<not> sink_ok \<E> \<and> loop_broken first (Suc r) ctx s t) v"
proof (rule wp_mono [OF w])
  fix t assume "loop_done (Suc first) r ctx v t"
  then obtain k where k: "1 \<le> k" "k \<le> r" "attempted (Suc first) k ctx v t"
    "Suc first + k \<le> in_next_attempt t" "in_last_attempt t < in_next_attempt t"
    by (auto simp: loop_done_def)
  with attempted_Suc [OF v k(3)] show "loop_done first (Suc r) ctx s t"
    unfolding loop_done_def by (intro exI [of _ "Suc k"]) simp
next
  fix e t assume b: "\<not> sink_ok \<E> \<and> loop_broken (Suc first) r ctx v t"
  then obtain k where "k \<le> r" "attempted (Suc first) k ctx v t" by (auto simp: loop_broken_def)
  with attempted_Suc [OF v] b show "\<not> sink_ok \<E> \<and> loop_broken first (Suc r) ctx s t"
    unfolding loop_broken_def by (metis Suc_le_mono)
qed

lemma request_loop_wp:
  assumes "attempt + remaining = Suc max_retries" and "1 \<le> remaining"
  shows "wp (request_loop \<E> m ctx o' base max_retries remaining attempt retried)
     (\<lambda>_. loop_done (base + attempt) remaining ctx s)
     (\<lambda>_ t. \<not> sink_ok \<E> \<and> loop_broken (base + attempt) remaining ctx s t) s"
  using assms
proof (induction remaining arbitrary: attempt retried s)
  case 0
  then show ?case by simp
next
  case (Suc r)
  let ?n = "base + attempt" and ?done = "attempted (base + attempt) 1 ctx s"
  have brk: "?done v \<Longrightarrow> loop_broken ?n (Suc r) ctx s v" for v by (auto simp: loop_broken_def)
  have again: "wp (request_loop \<E> m ctx o' base max_retries r (attempt + 1) True)
      (\<lambda>_. loop_done ?n (Suc r) ctx s) (\<lambda>_ t. \<not> sink_ok \<E> \<and> loop_broken ?n (Suc r) ctx s t) v"
    if "?done v" "\<not> attempt \<ge> max_retries" for v
    using Suc.IH [of "attempt + 1" True v] Suc.prems that by (intro loop_next) simp_all
  have conditional: "wp (if b then on_retry \<E> data else ret ()) (\<lambda>_. in_same w)
      (\<lambda>_ t. \<not> sink_ok \<E> \<and> in_same w t) w" for b data w
    by (simp add: on_retry_same sa.refl)
  have two: "wp (seqc (emit \<E> ty d) (\<lambda>_. on_retry \<E> data)) (\<lambda>_. in_same w)
      (\<lambda>_ t. \<not> sink_ok \<E> \<and> in_same w t) w" for ty d data w
    unfolding wp_seqc
    by (rule wp_mono [OF emit_same_only], rule wp_mono [OF on_retry_same]) (auto intro: sa.trans)
  have assoc: "seqc c (\<lambda>_. seqc d (\<lambda>_. f)) = seqc (seqc c (\<lambda>_. d)) (\<lambda>_. f)" for c d f
    by (rule ext) (auto simp: seqc_def split: prod.split sum.split)
  have start: "wp (run_attempt \<E> m ctx o1 ?n) (\<lambda>_. ?done) (\<lambda>_ _. False) s" for o1
    by (rule wp_mono [OF run_attempt_wp]) (auto simp: attempted_def attempt_log_def)
  show ?case
    unfolding request_loop.simps Let_def
    apply (subst wp_seqc, rule wp_mono [OF start])
     apply (subst prod.case_eq_if, subst wp_seqc, subst wp_basic, rule via_same [OF _ start_once_wp _ brk], assumption)
      apply (split if_split, intro conjI impI)
       apply (rule finish_wp [OF _ _ _ conditional]; simp)
      apply (rule via_same [OF _ emit_same_only _ brk], assumption)
       apply (rule via_same [OF _ on_retry_same _ brk], assumption)
        apply (subst wp_seqc, subst wp_basic, rule via_same [OF _ await_same _ brk], assumption)
         apply (split if_split, intro conjI impI)
          apply (subst wp_seqc, subst wp_basic, subst assoc, rule finish_wp [OF _ _ _ two]; simp)
         apply (rule again; simp)
        apply assumption+
    apply simp
    done
qed

text \<open>
  C4. The retry loop is bounded and total: a request whose options allow \<open>max_retries\<close> retries makes
  at least one and at most \<open>max_retries + 1\<close> attempts, all with the same context and with consecutive
  attempt ids that are never used again, and as long as the event sink accepts its events it returns
  a message, whatever the provider does: provider errors, streams without a final message and
  cancellations never escape as exceptions.
\<close>

theorem retry_loop_bounded:
  "case request_loop \<E> m ctx o' base max_retries (Suc max_retries) 0 False s of
     (Inr msg, t) \<Rightarrow> (\<exists>k. 1 \<le> k \<and> k \<le> max_retries + 1
        \<and> in_sent t = in_sent s @ attempt_log base k ctx \<and> base + k \<le> in_next_attempt t)
   | (Inl e, t) \<Rightarrow> \<not> sink_ok \<E>
        \<and> (\<exists>k \<le> max_retries + 1. in_sent t = in_sent s @ attempt_log base k ctx)"
  using request_loop_wp [of 0 "Suc max_retries" max_retries \<E> m ctx o' base False s]
  by (fastforce simp: wp_def loop_done_def loop_broken_def attempted_def split: prod.split sum.split)

section \<open>Every context sent is provider-safe\<close>

definition in_log :: "'z inf_state_scheme \<Rightarrow> 'z inf_state_scheme \<Rightarrow> bool" where
  "in_log s t \<longleftrightarrow> in_frame s t \<and> (\<exists>new. in_sent t = in_sent s @ new
     \<and> (\<forall>(n, c) \<in> set new. provider_safe (ic_messages c)))"

interpretation lg: state_preorder "in_log :: 'z inf_state_scheme \<Rightarrow> _"
proof unfold_locales
  fix s t u :: "'z inf_state_scheme"
  show "in_log s s" by (simp add: in_log_def fr.refl)
  assume a: "in_log s t" "in_log t u"
  then obtain x y where "in_sent t = in_sent s @ x" "in_sent u = in_sent t @ y"
    "\<forall>(n, c) \<in> set x. provider_safe (ic_messages c)" "\<forall>(n, c) \<in> set y. provider_safe (ic_messages c)"
    by (auto simp: in_log_def)
  moreover have "in_frame s u" using a fr.trans by (auto simp: in_log_def)
  ultimately show "in_log s u" unfolding in_log_def by (intro conjI exI [of _ "x @ y"]) auto
qed

lemma ct_log: "ct_extends s t \<Longrightarrow> in_log s t"
  using ct_in_same(1) by (fastforce simp: in_log_def in_same_def)

lemma emit_log: "steps in_log (emit \<E> ty data)"
  by (rule steps_weaken [OF emit_ct ct_log])

lemma hook_log: "steps in_log (hook \<E> ty data)"
  by (rule steps_weaken [OF hook_ct ct_log])

lemma request_loop_log:
  assumes "provider_safe (ic_messages ctx)"
  shows "steps in_log (request_loop \<E> m ctx o' base k (Suc k) 0 False)"
  unfolding steps_wp
  by (intro allI, rule wp_mono [OF request_loop_wp])
     (auto simp: loop_done_def loop_broken_def attempted_def in_log_def attempt_log_def assms)

lemma request_log: "steps in_log (request \<E> m ms prompt tools sid o')"
  unfolding request_def context_messages_def request_options_def patch_context_def Let_def
  by (auto intro!: lg.steps_seqc lg.steps_reads lg.steps_ret lg.steps_lift hook_log request_loop_log
      simp: normalize_inference_messages_def project_inference_messages_def project_entries_safe
      split: option.splits hval.splits json.splits)

text \<open>
  C18. Whatever the history holds and whatever the hooks put in its place, every context a request
  hands to the provider obeys the provider's protocol: all calls answered in place, no failed
  attempts. A request only ever adds to the record of contexts sent.
\<close>

theorem sent_contexts_are_safe:
  "\<exists>new. in_sent (snd (request \<E> m ms prompt tools sid o' s)) = in_sent s @ new
     \<and> list_all (\<lambda>(n, c). provider_safe (ic_messages c)) new"
  using request_log [of \<E> m ms prompt tools sid o'] by (fastforce simp: steps_def in_log_def list_all_iff)

text \<open>The pause before a retry is never negative and never longer than the configured maximum.\<close>

lemma retry_delay_bounds:
  assumes "0 \<le> so_base_delay_ms o'" and "0 \<le> so_max_retry_delay_ms o'"
  shows "0 \<le> retry_delay_ms failure attempt o'" and "retry_delay_ms failure attempt o' \<le> so_max_retry_delay_ms o'"
  using assms by (auto simp: retry_delay_ms_def split: option.split exn.split)

end
