(* ===== verification/ToolCalls.thy ===== *)
theory ToolCalls
  imports Inference
begin

text \<open>
  \<^verbatim>\<open>core/tool_runtime.py\<close>: the tool registry of a run and the execution of the calls of one
  assistant message. A call advances through phases separated by the points where its task can be
  suspended; calls are executed one after the other when one of their tools is sequential, and
  otherwise as concurrent tasks, whose interleaving is a schedule the environment chooses. Tools,
  argument preparation and JSON-schema validation are parameters of the environment.
\<close>

section \<open>Tools and results\<close>

record tool_spec =
  tl_name :: string
  tl_sequential :: bool
  tl_definition :: "(string, json) dict"

record tool_result =
  tr_content :: "content list"
  tr_details :: json
  tr_is_error :: bool
  tr_terminate :: bool
  tr_usage :: "usage option"

definition text_result :: "string \<Rightarrow> bool \<Rightarrow> tool_result" where
  "text_result s err = \<lparr>tr_content = [TextContent s], tr_details = JNull, tr_is_error = err,
     tr_terminate = False, tr_usage = None\<rparr>"

definition tool_result_to_dict :: "tool_result \<Rightarrow> (string, json) dict" where
  "tool_result_to_dict r = [(''content'', JList (map (\<lambda>p. JObj (content_to_dict p)) (tr_content r))),
     (''details'', tr_details r), (''isError'', JBool (tr_is_error r)),
     (''terminate'', JBool (tr_terminate r)),
     (''usage'', case tr_usage r of None \<Rightarrow> JNull | Some u \<Rightarrow> JObj (usage_to_dict u))]"

text \<open>\<open>env_execute\<close>: the partial results a tool reports, then its result or its error.
  \<open>env_schedule\<close>: the call that advances next, as long as the list lasts.\<close>

record tool_env = inf_env +
  env_prepare :: "nat \<Rightarrow> string \<Rightarrow> (string, json) dict \<Rightarrow> exn + (string, json) dict"
  env_validate :: "string \<Rightarrow> (string, json) dict \<Rightarrow> exn option"
  env_execute :: "nat \<Rightarrow> string \<Rightarrow> string \<Rightarrow> (string, json) dict \<Rightarrow> tool_result list \<times> (exn + tool_result)"
  env_schedule :: "nat \<Rightarrow> nat list"

section \<open>The registry\<close>

type_synonym registry = "(string, tool_spec) dict"

fun unique_tools :: "tool_spec list \<Rightarrow> registry \<Rightarrow> exn + registry" where
  "unique_tools [] acc = Inr acc"
| "unique_tools (t # ts) acc =
     (if map_of acc (tl_name t) \<noteq> None
      then Inl (RunError ''invalid_argument'' (''Duplicate tool name: '' @ tl_name t))
      else unique_tools ts (AList.update (tl_name t) t acc))"

definition dedup :: "'a list \<Rightarrow> 'a list" where
  "dedup xs = rev (remdups (rev xs))"

definition validate_active_names :: "registry \<Rightarrow> string list \<Rightarrow> exn + string list" where
  "validate_active_names tools names =
     (let result = dedup names;
          unknown = filter (\<lambda>n. map_of tools n = None) result
      in if unknown \<noteq> []
         then Inl (RunError ''invalid_argument'' (''Unknown active tools: '' @ comma_sep unknown))
         else Inr result)"

record tool_runtime =
  tt_tools :: registry
  tt_active :: "string list"

definition new_tool_runtime :: "tool_spec list \<Rightarrow> string list \<Rightarrow> exn + tool_runtime" where
  "new_tool_runtime tools active =
     bind_res (unique_tools tools []) (\<lambda>reg.
     bind_res (validate_active_names reg active) (\<lambda>names.
     Inr \<lparr>tt_tools = reg, tt_active = names\<rparr>))"

definition active_tools :: "tool_runtime \<Rightarrow> tool_spec list" where
  "active_tools tt = List.map_filter (map_of (tt_tools tt)) (tt_active tt)"

section \<open>One call\<close>

datatype call_phase =
    PStart
  | PPrepare
  | PHook "(string, json) dict"
  | PExec "(string, json) dict"
  | PResult "(string, json) dict" tool_result
  | PEnd tool_result
  | PDone tool_result_message bool

fun hval_truthy :: "hval \<Rightarrow> bool" where
  "hval_truthy (HVal v) = truthy v"
| "hval_truthy (HMsgs ms) = (ms \<noteq> [])"
| "hval_truthy (HParts ps) = (ps \<noteq> [])"
| "hval_truthy (HUsage u) = True"

definition hook_truthy :: "hook_dict \<Rightarrow> string \<Rightarrow> bool" where
  "hook_truthy h k = (case map_of h k of None \<Rightarrow> False | Some v \<Rightarrow> hval_truthy v)"

definition call_start_data :: "tool_call \<Rightarrow> (string, json) dict" where
  "call_start_data c = [(''toolCallId'', JStr (tc_id c)), (''toolName'', JStr (tc_name c)),
     (''args'', JObj (tc_arguments c))]"

definition call_end_data :: "tool_call \<Rightarrow> tool_result \<Rightarrow> (string, json) dict" where
  "call_end_data c r = [(''toolCallId'', JStr (tc_id c)), (''toolName'', JStr (tc_name c)),
     (''result'', JObj (tool_result_to_dict r)), (''isError'', JBool (tr_is_error r))]"

definition result_message :: "tool_call \<Rightarrow> tool_result \<Rightarrow> usage option \<Rightarrow> int \<Rightarrow> tool_result_message" where
  "result_message c r us now = \<lparr>tm_call_id = tc_id c, tm_tool_name = tc_name c,
     tm_content = tr_content r, tm_is_error = tr_is_error r, tm_usage = us, tm_timestamp = now\<rparr>"

text \<open>The fields of a result a \<open>tool_result\<close> hook may replace.\<close>

fun hook_content :: "hval \<Rightarrow> exn + content list" where
  "hook_content (HParts ps) = Inr ps"
| "hook_content (HVal (JStr s)) = Inr [TextContent s]"
| "hook_content (HVal (JList xs)) =
     map_res (\<lambda>v. if is_obj v then content_from_dict (obj_of v) else Inl TypeError) xs"
| "hook_content _ = Inl TypeError"

fun hook_usage :: "hval \<Rightarrow> exn + usage option" where
  "hook_usage (HUsage u) = Inr (Some u)"
| "hook_usage (HVal (JObj d)) = map_sum id Some (usage_from_dict d)"
| "hook_usage (HVal JNull) = Inr None"
| "hook_usage _ = Inl TypeError"

fun hook_details :: "hval \<Rightarrow> exn + json" where
  "hook_details (HVal v) = Inr v"
| "hook_details _ = Inl TypeError"

definition patch_result :: "hook_dict \<Rightarrow> tool_result \<Rightarrow> exn + tool_result" where
  "patch_result h r =
     (if h = [] then Inr r
      else
        bind_res (case map_of h ''content'' of None \<Rightarrow> Inr (tr_content r) | Some v \<Rightarrow> hook_content v) (\<lambda>content.
        bind_res (case map_of h ''usage'' of None \<Rightarrow> Inr (tr_usage r) | Some v \<Rightarrow> hook_usage v) (\<lambda>us.
        bind_res (case map_of h ''details'' of None \<Rightarrow> Inr (tr_details r) | Some v \<Rightarrow> hook_details v) (\<lambda>details.
        Inr \<lparr>tr_content = content, tr_details = details,
          tr_is_error = (case map_of h ''isError'' of None \<Rightarrow> tr_is_error r | Some v \<Rightarrow> hval_truthy v),
          tr_terminate = (case map_of h ''terminate'' of None \<Rightarrow> tr_terminate r | Some v \<Rightarrow> hval_truthy v),
          tr_usage = us\<rparr>))))"

definition error_phase :: "(string, json) dict \<Rightarrow> string \<Rightarrow> call_phase" where
  "error_phase args s = PResult args (text_result s True)"

definition update_data :: "tool_call \<Rightarrow> tool_result \<Rightarrow> (string, json) dict" where
  "update_data c u = [(''toolCallId'', JStr (tc_id c)), (''toolName'', JStr (tc_name c)),
     (''partialResult'', JObj (tool_result_to_dict u))]"

fun call_step :: "'e tool_env_scheme \<Rightarrow> tool_runtime \<Rightarrow> tool_call \<Rightarrow> call_phase \<Rightarrow> ('z ctl_state_scheme, call_phase) comp" where
  "call_step \<E> tt c PStart =
     seqc (emit \<E> ''tool_execution_start'' (call_start_data c)) (\<lambda>_. ret PPrepare)"
| "call_step \<E> tt c PPrepare =
     (if map_of (tt_tools tt) (tc_name c) = None \<or> tc_name c \<notin> set (tt_active tt)
      then ret (error_phase (tc_arguments c) (''Tool '' @ tc_name c @ '' not found''))
      else
        seqc (reads ds_clock) (\<lambda>t.
        case env_prepare \<E> t (tc_name c) (tc_arguments c) of
          Inl e \<Rightarrow> if e = CancelledError then ret (error_phase (tc_arguments c) ''Operation aborted'')
                   else ret (error_phase (tc_arguments c) (exn_describe e))
        | Inr args \<Rightarrow> (case env_validate \<E> (tc_name c) args of
            Some e \<Rightarrow> ret (error_phase args (exn_describe e))
          | None \<Rightarrow> ret (PHook args))))"
| "call_step \<E> tt c (PHook args) =
     try_cancel
       (seqc (hook \<E> ''tool_call'' [(''toolCallId'', JStr (tc_id c)), (''toolName'', JStr (tc_name c)),
            (''input'', JObj args)]) (\<lambda>h.
        if hook_truthy h ''block'' then
          (case map_of h ''reason'' of
             Some (HVal v) \<Rightarrow> ret (error_phase args (str_or v ''Tool call blocked''))
           | _ \<Rightarrow> ret (error_phase args ''Tool call blocked''))
        else ret (PExec args)))
       (ret (error_phase args ''Operation aborted''))
       (\<lambda>e. ret (error_phase args (exn_describe e)))"
| "call_step \<E> tt c (PExec args) =
     try_cancel
       (seqc (reads ds_clock) (\<lambda>t.
        let (updates, outcome) = env_execute \<E> t (tc_name c) (tc_id c) args in
        seqc (for_each (\<lambda>u. emit \<E> ''tool_execution_update'' (update_data c u)) updates) (\<lambda>_.
        seqc (lift_res outcome) (\<lambda>r. ret (PResult args r)))))
       (ret (error_phase args ''Operation aborted''))
       (\<lambda>e. ret (error_phase args (exn_describe e)))"
| "call_step \<E> tt c (PResult args r) =
     seqc (hook \<E> ''tool_result'' ([(''toolCallId'', JStr (tc_id c)), (''toolName'', JStr (tc_name c)),
         (''input'', JObj args)] @ tool_result_to_dict r)) (\<lambda>h.
     seqc (lift_res (patch_result h r)) (\<lambda>r'. ret (PEnd r')))"
| "call_step \<E> tt c (PEnd r) =
     seqc (emit \<E> ''tool_execution_end'' (call_end_data c r)) (\<lambda>_.
     seqc (reads (\<lambda>s. env_now \<E> (ds_clock s))) (\<lambda>now.
     ret (PDone (result_message c r (tr_usage r) now) (tr_terminate r))))"
| "call_step \<E> tt c (PDone m t) = ret (PDone m t)"

fun run_phases :: "'e tool_env_scheme \<Rightarrow> tool_runtime \<Rightarrow> tool_call \<Rightarrow> nat \<Rightarrow> call_phase \<Rightarrow> ('z ctl_state_scheme, call_phase) comp" where
  "run_phases \<E> tt c 0 p = ret p"
| "run_phases \<E> tt c (Suc n) p = seqc (call_step \<E> tt c p) (run_phases \<E> tt c n)"

text \<open>\<open>await task\<close>: six phases bring any call to its end.\<close>

definition finish_call :: "'e tool_env_scheme \<Rightarrow> tool_runtime \<Rightarrow> tool_call \<Rightarrow> call_phase \<Rightarrow> ('z ctl_state_scheme, tool_result_message \<times> bool) comp" where
  "finish_call \<E> tt c p = seqc (run_phases \<E> tt c 6 p) (\<lambda>q. case q of
      PDone m t \<Rightarrow> ret (m, t) | _ \<Rightarrow> throw AssertionError)"

definition execute_call :: "'e tool_env_scheme \<Rightarrow> tool_runtime \<Rightarrow> tool_call \<Rightarrow> ('z ctl_state_scheme, tool_result_message \<times> bool) comp" where
  "execute_call \<E> tt c = finish_call \<E> tt c PStart"

section \<open>The calls of a message\<close>

definition synthetic_call :: "'e tool_env_scheme \<Rightarrow> string \<Rightarrow> tool_call \<Rightarrow> ('z ctl_state_scheme, tool_result_message) comp" where
  "synthetic_call \<E> s c =
     seqc (emit \<E> ''tool_execution_start'' (call_start_data c)) (\<lambda>_.
     let r = text_result s True in
     seqc (emit \<E> ''tool_execution_end'' (call_end_data c r)) (\<lambda>_.
     seqc (reads (\<lambda>s. env_now \<E> (ds_clock s))) (\<lambda>now.
     ret (result_message c r None now))))"

definition fail_unexecuted_call :: "'e tool_env_scheme \<Rightarrow> tool_call \<Rightarrow> ('z ctl_state_scheme, tool_result_message \<times> bool) comp" where
  "fail_unexecuted_call \<E> c =
     seqc (synthetic_call \<E> ''Operation aborted before execution'' c) (\<lambda>m. ret (m, False))"

definition truncated_text :: "string \<Rightarrow> string" where
  "truncated_text name = ''Tool call '' @ [CHR 0x22] @ name @ [CHR 0x22] @
     '' was not executed: the response hit the output token limit, so its arguments may be truncated. Re-issue the tool call with complete arguments.''"

definition fail_truncated_calls :: "'e tool_env_scheme \<Rightarrow> tool_call list \<Rightarrow> ('z ctl_state_scheme, tool_result_message list) comp" where
  "fail_truncated_calls \<E> calls = map_each (\<lambda>c. synthetic_call \<E> (truncated_text (tc_name c)) c) calls"

fun execute_sequential :: "'e tool_env_scheme \<Rightarrow> tool_runtime \<Rightarrow> tool_call list \<Rightarrow> ('z ctl_state_scheme, (tool_result_message \<times> bool) list) comp" where
  "execute_sequential \<E> tt [] = ret []"
| "execute_sequential \<E> tt (c # cs) =
     seqc (execute_call \<E> tt c) (\<lambda>r.
     seqc (reads ct_abort) (\<lambda>aborted.
     seqc (if aborted then map_each (fail_unexecuted_call \<E>) cs else execute_sequential \<E> tt cs) (\<lambda>rs.
     ret (r # rs))))"

fun run_schedule :: "'e tool_env_scheme \<Rightarrow> tool_runtime \<Rightarrow> tool_call list \<Rightarrow> nat list \<Rightarrow> call_phase list \<Rightarrow> ('z ctl_state_scheme, call_phase list) comp" where
  "run_schedule \<E> tt calls [] ps = ret ps"
| "run_schedule \<E> tt calls (i # is) ps =
     (if i < length ps
      then seqc (call_step \<E> tt (calls ! i) (ps ! i)) (\<lambda>p. run_schedule \<E> tt calls is (ps[i := p]))
      else run_schedule \<E> tt calls is ps)"

definition execute_parallel :: "'e tool_env_scheme \<Rightarrow> tool_runtime \<Rightarrow> tool_call list \<Rightarrow> ('z ctl_state_scheme, (tool_result_message \<times> bool) list) comp" where
  "execute_parallel \<E> tt calls =
     seqc (reads ds_clock) (\<lambda>t.
     seqc (run_schedule \<E> tt calls (env_schedule \<E> t) (map (\<lambda>_. PStart) calls)) (\<lambda>ps.
     map_each (\<lambda>(c, p). finish_call \<E> tt c p) (zip calls ps)))"

definition execute_calls :: "'e tool_env_scheme \<Rightarrow> tool_runtime \<Rightarrow> tool_call list \<Rightarrow> ('z ctl_state_scheme, tool_result_message list \<times> bool) comp" where
  "execute_calls \<E> tt calls =
     (let sequential = list_ex (\<lambda>c. case map_of (tt_tools tt) (tc_name c) of
            None \<Rightarrow> False | Some t \<Rightarrow> tl_sequential t) calls in
      seqc (if sequential then execute_sequential \<E> tt calls else execute_parallel \<E> tt calls) (\<lambda>results.
      ret (map fst results, list_ex snd results)))"

section \<open>Every call is started, ended and answered once\<close>

definition mark_ids :: "string \<Rightarrow> 'z dispatcher_state_scheme \<Rightarrow> json list" where
  "mark_ids ty s = map (\<lambda>e. jget (ev_data e) ''toolCallId'') (filter (\<lambda>e. ev_type e = ty) (own s))"

definition starts :: "'z dispatcher_state_scheme \<Rightarrow> json list" where
  "starts = mark_ids ''tool_execution_start''"

definition ends :: "'z dispatcher_state_scheme \<Rightarrow> json list" where
  "ends = mark_ids ''tool_execution_end''"

definition marks_same :: "'z dispatcher_state_scheme \<Rightarrow> 'z dispatcher_state_scheme \<Rightarrow> bool" where
  "marks_same s t \<longleftrightarrow> starts t = starts s \<and> ends t = ends s"

interpretation ms: state_preorder "marks_same :: 'z dispatcher_state_scheme \<Rightarrow> _"
  by unfold_locales (simp_all add: marks_same_def)

lemma emit_marks:
  assumes "ty \<noteq> ''queue_update''" and "ty \<noteq> ''abort''"
  shows "starts (snd (emit \<E> ty data s)) = starts s @ (if ty = ''tool_execution_start'' then [jget data ''toolCallId''] else [])"
    and "ends (snd (emit \<E> ty data s)) = ends s @ (if ty = ''tool_execution_end'' then [jget data ''toolCallId''] else [])"
  using assms emit_own [of ty data \<E> s] by (simp_all add: starts_def ends_def mark_ids_def own_event_def)

lemma emit_other_marks:
  assumes "ty \<notin> {''queue_update'', ''abort'', ''tool_execution_start'', ''tool_execution_end''}"
  shows "steps marks_same (emit \<E> ty data)"
  using assms by (simp add: steps_def marks_same_def emit_marks)

lemma hook_other_marks:
  assumes "ty \<notin> {''queue_update'', ''abort'', ''tool_execution_start'', ''tool_execution_end''}"
  shows "steps marks_same (hook \<E> ty data)"
  using assms by (simp add: steps_def marks_same_def starts_def ends_def mark_ids_def hook_own own_event_def)

fun phase_rank :: "call_phase \<Rightarrow> nat" where
  "phase_rank PStart = 0"
| "phase_rank PPrepare = 1"
| "phase_rank (PHook _) = 2"
| "phase_rank (PExec _) = 3"
| "phase_rank (PResult _ _) = 4"
| "phase_rank (PEnd _) = 5"
| "phase_rank (PDone _ _) = 6"

fun phase_ok :: "tool_call \<Rightarrow> call_phase \<Rightarrow> bool" where
  "phase_ok c (PDone m t) = (tm_call_id m = tc_id c \<and> tm_tool_name m = tc_name c)"
| "phase_ok c _ = True"

definition call_rel :: "tool_call \<Rightarrow> call_phase \<Rightarrow> 'z dispatcher_state_scheme \<Rightarrow> call_phase \<Rightarrow> 'z dispatcher_state_scheme \<Rightarrow> bool" where
  "call_rel c p s q u \<longleftrightarrow> phase_rank p \<le> phase_rank q \<and> (phase_ok c p \<longrightarrow> phase_ok c q)
     \<and> starts u = starts s @ (if phase_rank p = 0 \<and> phase_rank q > 0 then [JStr (tc_id c)] else [])
     \<and> ends u = ends s @ (if phase_rank p < 6 \<and> phase_rank q = 6 then [JStr (tc_id c)] else [])"

lemma phase_rank_le: "phase_rank p \<le> 6"
  by (cases p) simp_all

lemma call_rel_refl: "call_rel c p s p s"
  by (auto simp: call_rel_def)

lemma call_rel_trans:
  assumes "call_rel c p s q u" and "call_rel c q u r v"
  shows "call_rel c p s r v"
  using assms phase_rank_le [of q] phase_rank_le [of r] unfolding call_rel_def
  by (cases "phase_rank p = 0"; cases "phase_rank q = 0"; cases "phase_rank q = 6"; cases "phase_rank r = 0"; auto)

lemma call_relI:
  assumes "marks_same s u" and "phase_rank p < phase_rank q" "phase_rank p > 0" "phase_rank q < 6"
  shows "call_rel c p s q u"
  using assms by (cases q) (auto simp: call_rel_def marks_same_def)

lemma steps_wp_marks:
  assumes "steps marks_same m" and "\<And>x t. marks_same s t \<Longrightarrow> Q x t"
  shows "wp m Q (\<lambda>_ _. True) s"
  by (rule wp_mono [OF steps_to_wp [OF assms(1)]]) (simp_all add: assms(2))

lemma updates_marks: "steps marks_same (for_each (\<lambda>u. emit \<E> ''tool_execution_update'' (update_data c u)) us)"
  by (intro ms.steps_rules emit_other_marks) simp

lemma call_step_rel:
  assumes "phase_rank p < 6"
  shows "wp (call_step \<E> tt c p) (\<lambda>q u. call_rel c p s q u \<and> phase_rank p < phase_rank q) (\<lambda>_ _. True) s"
proof (cases p)
  case PStart
  have "starts (snd (emit \<E> ''tool_execution_start'' (call_start_data c) s)) = starts s @ [JStr (tc_id c)]"
    "ends (snd (emit \<E> ''tool_execution_start'' (call_start_data c) s)) = ends s"
    by (simp_all add: emit_marks call_start_data_def jget_def)
  then show ?thesis
    by (auto simp: PStart wp_def seqc_def ret_def call_rel_def split: prod.split sum.split)
next
  case PPrepare
  then show ?thesis
    by (auto simp: error_phase_def call_rel_def split: sum.split option.split)
next
  case (PHook args)
  show ?thesis
    unfolding PHook call_step.simps wp_try_cancel wp_seqc
    by (rule wp_mono [OF steps_to_wp [OF hook_other_marks]])
       (auto simp: error_phase_def call_rel_def marks_same_def split: option.split hval.split)
next
  case (PExec args)
  show ?thesis
    unfolding PExec call_step.simps wp_try_cancel wp_seqc wp_basic Let_def
    by (cases "env_execute \<E> (ds_clock s) (tc_name c) (tc_id c) args")
       (auto intro!: wp_mono [OF steps_to_wp [OF updates_marks]]
          simp: error_phase_def call_rel_def marks_same_def split: sum.split)
next
  case (PResult args r)
  show ?thesis
    unfolding PResult call_step.simps wp_seqc
    by (rule wp_mono [OF steps_to_wp [OF hook_other_marks]])
       (auto simp: call_rel_def marks_same_def split: sum.split)
next
  case (PEnd r)
  have "starts (snd (emit \<E> ''tool_execution_end'' (call_end_data c r) s)) = starts s"
    "ends (snd (emit \<E> ''tool_execution_end'' (call_end_data c r) s)) = ends s @ [JStr (tc_id c)]"
    by (simp_all add: emit_marks call_end_data_def jget_def)
  then show ?thesis
    by (auto simp: PEnd wp_def seqc_def ret_def reads_def call_rel_def result_message_def split: prod.split sum.split)
next
  case (PDone m t)
  with assms show ?thesis by simp
qed

lemma call_step_any:
  "wp (call_step \<E> tt c p) (\<lambda>q u. call_rel c p s q u \<and> min 6 (Suc (phase_rank p)) \<le> phase_rank q) (\<lambda>_ _. True) s"
proof (cases "phase_rank p < 6")
  case True
  from call_step_rel [OF this] show ?thesis by (rule wp_mono) auto
next
  case False
  then obtain m t where "p = PDone m t" using phase_rank_le [of p] by (cases p) auto
  then show ?thesis by (simp add: call_rel_refl)
qed

lemma run_phases_rel:
  "wp (run_phases \<E> tt c n p) (\<lambda>q u. call_rel c p s q u \<and> min 6 (phase_rank p + n) \<le> phase_rank q) (\<lambda>_ _. True) s"
proof (induction n arbitrary: p s)
  case 0
  then show ?case by (simp add: call_rel_refl)
next
  case (Suc n)
  show ?case
    unfolding run_phases.simps wp_seqc
    by (rule wp_mono [OF call_step_any], rule wp_mono [OF Suc]) (auto intro: call_rel_trans)
qed

lemma finish_call_rel:
  assumes "phase_ok c p"
  shows "wp (finish_call \<E> tt c p) (\<lambda>(m, t) u. tm_call_id m = tc_id c \<and> tm_tool_name m = tc_name c
     \<and> starts u = starts s @ (if phase_rank p = 0 then [JStr (tc_id c)] else [])
     \<and> ends u = ends s @ (if phase_rank p < 6 then [JStr (tc_id c)] else [])) (\<lambda>_ _. True) s"
  unfolding finish_call_def wp_seqc
proof (rule wp_mono [OF run_phases_rel], goal_cases)
  case (1 q u)
  then have "phase_rank q = 6" using phase_rank_le [of q] by linarith
  then obtain m t where "q = PDone m t" by (cases q) auto
  with 1 assms show ?case by (simp add: call_rel_def)
qed simp

text \<open>What the calls of a list add to the marks, and the messages that answer them.\<close>

definition answers :: "tool_call list \<Rightarrow> (tool_result_message \<times> bool) list \<Rightarrow> bool" where
  "answers cs rs \<longleftrightarrow> map (\<lambda>r. (tm_call_id (fst r), tm_tool_name (fst r))) rs = map (\<lambda>c. (tc_id c, tc_name c)) cs"

definition call_keys :: "tool_call list \<Rightarrow> json list" where
  "call_keys cs = map (\<lambda>c. JStr (tc_id c)) cs"

definition all_marked :: "tool_call list \<Rightarrow> 'z dispatcher_state_scheme \<Rightarrow> 'z dispatcher_state_scheme \<Rightarrow> bool" where
  "all_marked cs s u \<longleftrightarrow> mset (starts u) = mset (starts s) + mset (call_keys cs)
     \<and> mset (ends u) = mset (ends s) + mset (call_keys cs)"

lemma emit_marks_wp:
  assumes "ty \<noteq> ''queue_update''" and "ty \<noteq> ''abort''"
  shows "wp (emit \<E> ty d) (\<lambda>_ u. starts u = starts v @ (if ty = ''tool_execution_start'' then [jget d ''toolCallId''] else [])
      \<and> ends u = ends v @ (if ty = ''tool_execution_end'' then [jget d ''toolCallId''] else [])) (\<lambda>_ _. True) v"
  using emit_marks [OF assms, of \<E> d v] by (auto simp: wp_def split: prod.split sum.split)

lemma synthetic_call_rel:
  "wp (synthetic_call \<E> txt1 c) (\<lambda>m u. tm_call_id m = tc_id c \<and> tm_tool_name m = tc_name c
     \<and> starts u = starts s @ [JStr (tc_id c)] \<and> ends u = ends s @ [JStr (tc_id c)]) (\<lambda>_ _. True) s"
  unfolding synthetic_call_def wp_seqc Let_def
  by (rule wp_mono [OF emit_marks_wp])
     (auto intro!: wp_mono [OF emit_marks_wp] simp: call_start_data_def call_end_data_def jget_def result_message_def)

lemma fail_all_rel:
  "wp (map_each (fail_unexecuted_call \<E>) cs) (\<lambda>rs u. answers cs rs \<and> all_marked cs s u \<and> list_all (\<lambda>r. \<not> snd r) rs) (\<lambda>_ _. True) s"
proof (induction cs arbitrary: s)
  case Nil
  then show ?case by (simp add: answers_def all_marked_def call_keys_def)
next
  case (Cons c cs)
  show ?case
    unfolding map_each.simps wp_seqc fail_unexecuted_call_def
    by (rule wp_mono [OF synthetic_call_rel])
       (auto intro!: wp_mono [OF Cons [unfolded fail_unexecuted_call_def]] simp: answers_def all_marked_def call_keys_def)
qed

lemma execute_call_rel:
  "wp (execute_call \<E> tt c) (\<lambda>r u. tm_call_id (fst r) = tc_id c \<and> tm_tool_name (fst r) = tc_name c
     \<and> starts u = starts s @ [JStr (tc_id c)] \<and> ends u = ends s @ [JStr (tc_id c)]) (\<lambda>_ _. True) s"
  unfolding execute_call_def by (rule wp_mono [OF finish_call_rel]) auto

lemma sequential_rel:
  "wp (execute_sequential \<E> tt cs) (\<lambda>rs u. answers cs rs \<and> all_marked cs s u) (\<lambda>_ _. True) s"
proof (induction cs arbitrary: s)
  case Nil
  then show ?case by (simp add: answers_def all_marked_def call_keys_def)
next
  case (Cons c cs)
  show ?case
    unfolding execute_sequential.simps wp_seqc wp_basic
    by (rule wp_mono [OF execute_call_rel])
       (auto intro!: wp_mono [OF fail_all_rel] wp_mono [OF Cons] simp: answers_def all_marked_def call_keys_def)
qed

subsection \<open>Concurrent calls under any schedule\<close>

definition keys_where :: "(nat \<Rightarrow> bool) \<Rightarrow> (tool_call \<times> call_phase) multiset \<Rightarrow> json multiset" where
  "keys_where P Z = image_mset (\<lambda>x. JStr (tc_id (fst x))) (filter_mset (\<lambda>x. P (phase_rank (snd x))) Z)"

definition schedule_inv :: "tool_call list \<Rightarrow> 'z dispatcher_state_scheme \<Rightarrow> call_phase list \<Rightarrow> 'z dispatcher_state_scheme \<Rightarrow> bool" where
  "schedule_inv calls s ps u \<longleftrightarrow> length ps = length calls \<and> list_all2 phase_ok calls ps
     \<and> mset (starts u) = mset (starts s) + keys_where (\<lambda>r. 0 < r) (mset (zip calls ps))
     \<and> mset (ends u) = mset (ends s) + keys_where (\<lambda>r. r = 6) (mset (zip calls ps))"

lemma schedule_inv_step:
  assumes inv: "schedule_inv calls s ps u" and i: "i < length ps"
    and rel: "call_rel (calls ! i) (ps ! i) u q v"
  shows "schedule_inv calls s (ps[i := q]) v"
proof -
  have len: "length calls = length ps" using inv by (simp add: schedule_inv_def)
  define N where "N = mset (zip calls ps) - {#(calls ! i, ps ! i)#}"
  have mem: "(calls ! i, ps ! i) \<in># mset (zip calls ps)"
    using i len by (metis length_zip min.idem nth_mem nth_zip set_mset_mset)
  then have old: "mset (zip calls ps) = add_mset (calls ! i, ps ! i) N"
    by (simp add: N_def)
  have "zip calls (ps[i := q]) = (zip calls ps)[i := (calls ! i, q)]"
    using update_zip [of calls ps i "(calls ! i, q)"] by simp
  then have new: "mset (zip calls (ps[i := q])) = add_mset (calls ! i, q) N"
    using i len by (simp add: mset_update N_def)
  have "phase_ok (calls ! i) q"
    using inv i len rel by (simp add: schedule_inv_def list_all2_conv_all_nth call_rel_def)
  then have "list_all2 phase_ok calls (ps[i := q])"
    using inv i len by (simp add: schedule_inv_def list_all2_conv_all_nth nth_list_update)
  then show ?thesis
    using inv rel len phase_rank_le [of q]
    by (auto simp: schedule_inv_def old new keys_where_def call_rel_def)
qed

lemma run_schedule_inv:
  "schedule_inv calls s ps u \<Longrightarrow> wp (run_schedule \<E> tt calls is ps) (\<lambda>qs v. schedule_inv calls s qs v) (\<lambda>_ _. True) u"
proof (induction "is" arbitrary: ps u)
  case Nil
  then show ?case by simp
next
  case (Cons i "is")
  show ?case
  proof (cases "i < length ps")
    case True
    then show ?thesis
      unfolding run_schedule.simps if_P [OF True] wp_seqc
      by (intro wp_mono [OF call_step_any] Cons.IH schedule_inv_step [OF Cons.prems]) simp_all
  next
    case False
    with Cons show ?thesis by simp
  qed
qed

lemma finish_all_rel:
  "list_all2 phase_ok cs ps \<Longrightarrow>
   wp (map_each (\<lambda>(c, p). finish_call \<E> tt c p) (zip cs ps)) (\<lambda>rs u. answers cs rs
     \<and> mset (starts u) = mset (starts s) + keys_where (\<lambda>r. r = 0) (mset (zip cs ps))
     \<and> mset (ends u) = mset (ends s) + keys_where (\<lambda>r. r < 6) (mset (zip cs ps))) (\<lambda>_ _. True) s"
proof (induction cs ps arbitrary: s rule: list_all2_induct)
  case Nil
  then show ?case by (simp add: answers_def keys_where_def)
next
  case (Cons c cs p ps)
  show ?case
    unfolding zip_Cons_Cons map_each.simps wp_seqc prod.case
    by (rule wp_mono [OF finish_call_rel [OF Cons.hyps(1)]])
       (auto intro!: wp_mono [OF Cons.IH] simp: answers_def keys_where_def)
qed

lemma keys_where_split:
  "keys_where P Z + keys_where (\<lambda>r. \<not> P r) Z = image_mset (\<lambda>x. JStr (tc_id (fst x))) Z"
proof -
  have "filter_mset (\<lambda>x. P (phase_rank (snd x))) Z + filter_mset (\<lambda>x. \<not> P (phase_rank (snd x))) Z = Z"
    by (rule multiset_partition [symmetric])
  then show ?thesis unfolding keys_where_def by (metis image_mset_union)
qed

lemma parallel_rel:
  "wp (execute_parallel \<E> tt cs) (\<lambda>rs u. answers cs rs \<and> all_marked cs s u) (\<lambda>_ _. True) s"
proof -
  have init: "schedule_inv cs s (map (\<lambda>_. PStart) cs) s"
    by (induction cs) (auto simp: schedule_inv_def keys_where_def)
  have all: "image_mset (\<lambda>x. JStr (tc_id (fst x))) (mset (zip cs ps)) = mset (call_keys cs)"
    if "length ps = length cs" for ps :: "call_phase list"
    using that by (metis (no_types, lifting) call_keys_def comp_apply list.map_comp map_eq_conv map_fst_zip mset_map)
  have keys: "keys_where (\<lambda>r. 0 < r) (mset (zip cs ps)) + keys_where (\<lambda>r. r = 0) (mset (zip cs ps)) = mset (call_keys cs)"
    "keys_where (\<lambda>r. r = 6) (mset (zip cs ps)) + keys_where (\<lambda>r. r < 6) (mset (zip cs ps)) = mset (call_keys cs)"
    if "length ps = length cs" for ps
  proof -
    have "(\<lambda>r::nat. r = 0) = (\<lambda>r. \<not> 0 < r)" by auto
    then show "keys_where (\<lambda>r. 0 < r) (mset (zip cs ps)) + keys_where (\<lambda>r. r = 0) (mset (zip cs ps)) = mset (call_keys cs)"
      using keys_where_split [of "\<lambda>r. 0 < r"] all [OF that] by simp
    have "keys_where (\<lambda>r. r < 6) Z = keys_where (\<lambda>r. \<not> r = 6) Z" for Z
      unfolding keys_where_def by (intro arg_cong [of _ _ "image_mset _"] filter_mset_cong)
        (use phase_rank_le in \<open>auto simp: le_neq_implies_less\<close>)
    then show "keys_where (\<lambda>r. r = 6) (mset (zip cs ps)) + keys_where (\<lambda>r. r < 6) (mset (zip cs ps)) = mset (call_keys cs)"
      using keys_where_split [of "\<lambda>r. r = 6"] all [OF that] by simp
  qed
  show ?thesis
    unfolding execute_parallel_def wp_seqc wp_basic
  proof (rule wp_mono [OF run_schedule_inv [OF init]], goal_cases)
    case (1 ps u)
    then have "list_all2 phase_ok cs ps" and len: "length ps = length cs" by (simp_all add: schedule_inv_def)
    from finish_all_rel [OF this(1)] show ?case
      by (rule wp_mono) (use 1 keys [OF len] in \<open>auto simp: schedule_inv_def all_marked_def add.assoc add.commute\<close>)
  qed simp
qed

subsection \<open>Errors of tools stay inside the calls\<close>

text \<open>\<open>OutOfFuel\<close> is not an error of the program, so no code of the environment raises it.\<close>

definition proper_env :: "'e tool_env_scheme \<Rightarrow> bool" where
  "proper_env \<E> \<longleftrightarrow> (\<forall>t h e. env_handler \<E> t h e \<noteq> Inl OutOfFuel)
     \<and> (\<forall>t n i a. snd (env_execute \<E> t n i a) \<noteq> Inl OutOfFuel)"

definition calm :: "'z dispatcher_state_scheme \<Rightarrow> bool" where
  "calm s \<longleftrightarrow> handlers_of ''tool_result'' s = []"

lemma calm_extends: "ct_extends s t \<Longrightarrow> calm s \<Longrightarrow> calm t"
  by (simp add: calm_def handlers_of_def ct_extendsD(5))

lemma emit_calm:
  assumes "sink_ok \<E>" and "calm s"
  shows "wp (emit \<E> ty data) (\<lambda>_. calm) (\<lambda>_ _. False) s"
  by (rule wp_mono [OF emit_wp]) (use assms calm_extends in auto)

lemma handlers_error:
  "proper_env \<E> \<Longrightarrow> wp (run_handlers \<E> e hs merged) (\<lambda>_ t. t = s) (\<lambda>x t. t = s \<and> x \<noteq> OutOfFuel) s"
  by (induction hs arbitrary: merged) (auto simp: proper_env_def split: sum.split)

lemma hook_calm:
  assumes "sink_ok \<E>" and "proper_env \<E>" and "calm s"
  shows "wp (hook \<E> ty data) (\<lambda>_. calm) (\<lambda>x t. calm t \<and> x \<noteq> OutOfFuel) s"
  unfolding hook_def wp_seqc
  by (rule wp_mono [OF emit_calm [OF assms(1, 3)]]) (auto intro!: wp_mono [OF handlers_error [OF assms(2)]])

lemma result_hook_calm:
  assumes "sink_ok \<E>" and "calm s"
  shows "wp (hook \<E> ''tool_result'' data) (\<lambda>h t. h = [] \<and> calm t) (\<lambda>_ _. False) s"
  unfolding hook_def wp_seqc
  by (rule wp_mono [OF emit_calm [OF assms]]) (auto simp: calm_def)

lemma caught: "x \<noteq> OutOfFuel \<Longrightarrow> x \<noteq> CancelledError \<Longrightarrow> is_exception x"
  by (cases x) simp_all

lemma call_step_calm:
  assumes "sink_ok \<E>" and "proper_env \<E>" and "calm s"
  shows "wp (call_step \<E> tt c p) (\<lambda>_. calm) (\<lambda>_ _. False) s"
proof (cases p)
  case (PHook args)
  show ?thesis
    unfolding PHook call_step.simps wp_try_cancel wp_seqc
    by (rule wp_mono [OF hook_calm [OF assms]])
       (use caught in \<open>auto split: option.split hval.split\<close>)
next
  case (PExec args)
  obtain us oc where x: "env_execute \<E> (ds_clock s) (tc_name c) (tc_id c) args = (us, oc)"
    by (cases "env_execute \<E> (ds_clock s) (tc_name c) (tc_id c) args")
  have upd: "wp (for_each (\<lambda>u. emit \<E> ''tool_execution_update'' (update_data c u)) us) (\<lambda>_. calm) (\<lambda>_ _. False) s"
    by (rule wp_for_each) (use assms emit_calm in auto)
  have "oc \<noteq> Inl OutOfFuel" using assms(2) x by (metis proper_env_def snd_conv)
  then have k: "y = CancelledError \<or> is_exception y" if "oc = Inl y" for y
    using caught that by blast
  show ?thesis
    unfolding PExec call_step.simps wp_try_cancel wp_seqc wp_basic Let_def x prod.case
  proof (rule wp_mono [OF upd], goal_cases)
    case (1 _ u)
    then show ?case by (cases oc) (use k in \<open>auto simp: error_phase_def\<close>)
  qed simp
next
  case (PResult args r)
  show ?thesis
    unfolding PResult call_step.simps wp_seqc
    by (rule wp_mono [OF result_hook_calm [OF assms(1, 3)]]) (auto simp: patch_result_def)
qed (use assms in \<open>auto intro!: wp_mono [OF emit_calm] split: sum.split option.split\<close>)

lemma run_phases_calm:
  assumes "sink_ok \<E>" and "proper_env \<E>" and "calm s"
  shows "wp (run_phases \<E> tt c n p) (\<lambda>_. calm) (\<lambda>_ _. False) s"
  using assms(3)
proof (induction n arbitrary: p s)
  case (Suc n)
  show ?case
    unfolding run_phases.simps wp_seqc
    by (rule wp_mono [OF call_step_calm [OF assms(1,2) Suc.prems]]) (auto intro: Suc.IH)
qed simp

lemma finish_call_calm:
  assumes "sink_ok \<E>" and "proper_env \<E>" and "calm s"
  shows "wp (finish_call \<E> tt c p) (\<lambda>_. calm) (\<lambda>_ _. False) s"
  unfolding finish_call_def wp_seqc
proof (rule wp_mono [OF wp_conj [OF run_phases_calm [OF assms] run_phases_rel]], goal_cases)
  case (1 q u)
  then have "phase_rank q = 6" using phase_rank_le [of q] by linarith
  then show ?case using 1 by (cases q) auto
qed simp

lemma synthetic_call_calm:
  assumes "sink_ok \<E>" and "calm s"
  shows "wp (synthetic_call \<E> s1 c) (\<lambda>_. calm) (\<lambda>_ _. False) s"
  unfolding synthetic_call_def wp_seqc Let_def
  by (rule wp_mono [OF emit_calm [OF assms]]) (auto intro!: wp_mono [OF emit_calm] simp: assms(1))

lemma map_each_calm:
  assumes "\<And>x t. calm t \<Longrightarrow> wp (f x) (\<lambda>_. calm) (\<lambda>_ _. False) t" and "calm s"
  shows "wp (map_each f xs) (\<lambda>_. calm) (\<lambda>_ _. False) s"
  using assms(2)
proof (induction xs arbitrary: s)
  case (Cons x xs)
  show ?case
    unfolding map_each.simps wp_seqc
    by (rule wp_mono [OF assms(1) [OF Cons.prems]]) (auto intro!: wp_mono [OF Cons.IH])
qed simp

lemma execute_calls_calm:
  assumes "sink_ok \<E>" and "proper_env \<E>" and "calm s"
  shows "wp (execute_calls \<E> tt calls) (\<lambda>_. calm) (\<lambda>_ _. False) s"
proof -
  have fail: "wp (map_each (fail_unexecuted_call \<E>) cs) (\<lambda>_. calm) (\<lambda>_ _. False) t" if "calm t" for cs t
    by (rule map_each_calm [OF _ that])
       (auto simp: fail_unexecuted_call_def intro!: wp_mono [OF synthetic_call_calm [OF assms(1)]])
  have sequential: "wp (execute_sequential \<E> tt cs) (\<lambda>_. calm) (\<lambda>_ _. False) t" if "calm t" for cs t
    using that
  proof (induction cs arbitrary: t)
    case (Cons c cs)
    show ?case
      unfolding execute_sequential.simps wp_seqc wp_basic execute_call_def
      by (rule wp_mono [OF finish_call_calm [OF assms(1,2) Cons.prems]])
         (auto intro!: wp_mono [OF fail] wp_mono [OF Cons.IH])
  qed simp
  have schedule: "wp (run_schedule \<E> tt calls is ps) (\<lambda>_. calm) (\<lambda>_ _. False) t" if "calm t" for "is" ps t
    using that
  proof (induction "is" arbitrary: ps t)
    case (Cons i "is")
    then show ?case by (auto intro!: wp_mono [OF call_step_calm [OF assms(1,2)]])
  qed simp
  have parallel: "wp (execute_parallel \<E> tt calls) (\<lambda>_. calm) (\<lambda>_ _. False) s"
    unfolding execute_parallel_def wp_seqc wp_basic
    by (rule wp_mono [OF schedule [OF assms(3)]])
       (auto intro!: map_each_calm finish_call_calm assms(1,2) split: prod.split)
  show ?thesis
    unfolding execute_calls_def Let_def wp_seqc
    by (auto intro!: wp_mono [OF sequential [OF assms(3)]] wp_mono [OF parallel])
qed

text \<open>
  C2. Executing the tool calls of a message, one after the other or concurrently under any schedule,
  whatever the tools, the hooks and a cancellation do: when it returns, there is exactly one result
  per call, in the order of the calls and with the call's id and name, and every call was announced
  and concluded by exactly one start event and one end event. It fails only if the event sink or a
  hook on results does: no error, unknown name, invalid argument or blocked call of a tool escapes.
\<close>

theorem tool_calls_answered:
  "case execute_calls \<E> tt calls s of
     (Inr (results, terminate), t) \<Rightarrow>
        map (\<lambda>r. (tm_call_id r, tm_tool_name r)) results = map (\<lambda>c. (tc_id c, tc_name c)) calls
        \<and> mset (starts t) = mset (starts s) + mset (call_keys calls)
        \<and> mset (ends t) = mset (ends s) + mset (call_keys calls)
   | (Inl e, t) \<Rightarrow> \<not> (sink_ok \<E> \<and> proper_env \<E> \<and> calm s)"
proof -
  have "wp (execute_calls \<E> tt calls) (\<lambda>(results, _) u.
        map (\<lambda>r. (tm_call_id r, tm_tool_name r)) results = map (\<lambda>c. (tc_id c, tc_name c)) calls
        \<and> all_marked calls s u) (\<lambda>_ _. True) s"
    unfolding execute_calls_def Let_def wp_seqc
    by (auto intro!: wp_mono [OF sequential_rel] wp_mono [OF parallel_rel] simp: answers_def comp_def)
  then show ?thesis
    using execute_calls_calm [of \<E> s tt calls]
    by (auto simp: wp_def all_marked_def split: prod.splits sum.splits)
qed

end
