(* ===== verification/ContextStats.thy ===== *)
theory ContextStats
  imports CoreTypes
begin

text \<open>
  \<^verbatim>\<open>core/context_stats.py\<close> and the budget rules of \<^verbatim>\<open>core/compaction.py\<close>: the token
  estimate of a message, the estimate of a context (the provider's usage of the last completed
  response plus an estimate of what follows it), the compaction threshold, the clamping of a
  configured policy to a model's window, and the attribution of tokens to message types by largest
  remainders.
\<close>

section \<open>Token estimates\<close>

fun user_part_chars :: "content \<Rightarrow> nat" where
  "user_part_chars (TextContent t) = length t"
| "user_part_chars _ = 4800"

fun assistant_part_chars :: "content \<Rightarrow> nat" where
  "assistant_part_chars (TextContent t) = length t"
| "assistant_part_chars (ThinkingContent t) = length t"
| "assistant_part_chars (ToolCall i n args) = length n + length (json_dumps (JObj args))"
| "assistant_part_chars (ImageContent d m) = 0"

fun message_chars :: "message \<Rightarrow> nat" where
  "message_chars (UserMessage u) = (case um_content u of
     UserText s \<Rightarrow> length s | UserParts ps \<Rightarrow> sum_list (map user_part_chars ps))"
| "message_chars (AssistantMessage a) = sum_list (map assistant_part_chars (am_content a))"
| "message_chars (ToolResultMessage t) = sum_list (map user_part_chars (tm_content t))"

definition estimate_tokens :: "message \<Rightarrow> nat" where
  "estimate_tokens m = (message_chars m + 3) div 4"

text \<open>
  The response a context estimate may be anchored at: a completed one with a reported total, after
  the compaction boundary (by index when there is one, by time otherwise).
\<close>

definition after_boundary :: "int option \<Rightarrow> int option \<Rightarrow> nat \<Rightarrow> message \<Rightarrow> bool" where
  "after_boundary after_ms after_idx i m = (case after_idx of
       Some b \<Rightarrow> int i > b
     | None \<Rightarrow> (case after_ms of None \<Rightarrow> True | Some t \<Rightarrow> message_timestamp m > t))"

fun completed_total :: "message \<Rightarrow> int option" where
  "completed_total (AssistantMessage a) =
     (if \<not> failed_stop (am_stop_reason a) \<and> u_total_tokens (am_usage a) > 0
      then Some (u_total_tokens (am_usage a)) else None)"
| "completed_total _ = None"

fun context_scan :: "int option \<Rightarrow> int option \<Rightarrow> message list \<Rightarrow> nat \<Rightarrow> int" where
  "context_scan after_ms after_idx ms 0 = int (sum_list (map estimate_tokens ms))"
| "context_scan after_ms after_idx ms (Suc i) =
     (case completed_total (ms ! i) of
        Some tot \<Rightarrow> (if after_boundary after_ms after_idx i (ms ! i)
          then tot + int (sum_list (map estimate_tokens (drop (Suc i) ms)))
          else context_scan after_ms after_idx ms i)
      | None \<Rightarrow> context_scan after_ms after_idx ms i)"

definition estimate_context_tokens :: "message list \<Rightarrow> int option \<Rightarrow> int option \<Rightarrow> int" where
  "estimate_context_tokens ms after_ms after_idx = context_scan after_ms after_idx ms (length ms)"

lemma estimate_tokens_bound: "4 * estimate_tokens m \<le> message_chars m + 3"
  "message_chars m \<le> 4 * estimate_tokens m"
  by (simp_all add: estimate_tokens_def)

section \<open>Compaction policy\<close>

record context_policy =
  cp_enabled :: bool
  cp_reserve_tokens :: int
  cp_keep_recent_tokens :: int

definition should_compact :: "int \<Rightarrow> int \<Rightarrow> context_policy \<Rightarrow> bool" where
  "should_compact context_tokens context_window p =
     (cp_enabled p \<and> context_tokens > context_window - cp_reserve_tokens p)"

definition effective_context_policy :: "context_policy \<Rightarrow> int \<Rightarrow> context_policy" where
  "effective_context_policy p context_window =
     (let window = max 1 context_window;
          reserve = max 1 (min (cp_reserve_tokens p) (window div 4));
          keep = max 1 (min (cp_keep_recent_tokens p) ((window - reserve) div 2))
      in \<lparr>cp_enabled = cp_enabled p, cp_reserve_tokens = reserve, cp_keep_recent_tokens = keep\<rparr>)"

text \<open>
  C23. Whatever the configured limits are, the policy the agent runs with keeps both limits at
  least one token, and for a window of at least three tokens the tokens kept verbatim plus the
  reserve fit strictly inside the window, so that a compacted context leaves room for a response;
  clamping a second time changes nothing.
\<close>

theorem effective_policy_fits:
  "1 \<le> cp_reserve_tokens (effective_context_policy p w)
   \<and> 1 \<le> cp_keep_recent_tokens (effective_context_policy p w)
   \<and> (w \<ge> 3 \<longrightarrow> cp_reserve_tokens (effective_context_policy p w)
        + cp_keep_recent_tokens (effective_context_policy p w) < w)
   \<and> effective_context_policy (effective_context_policy p w) w = effective_context_policy p w"
proof -
  let ?R = "cp_reserve_tokens (effective_context_policy p w)"
  let ?K = "cp_keep_recent_tokens (effective_context_policy p w)"
  have idem: "max 1 (min (max 1 (min a b)) b) = max 1 (min a b)" for a b :: int
    by linarith
  have lo: "1 \<le> ?R" "1 \<le> ?K"
    by (simp_all only: effective_context_policy_def Let_def context_policy.simps max.cobounded1)
  have room: "R + K < w" if "4 * (w div 4) \<le> w" "2 * ((w - R) div 2) \<le> w - R"
    "R \<le> 1 \<or> R \<le> w div 4" "K \<le> 1 \<or> K \<le> (w - R) div 2" "w \<ge> 3" "1 \<le> R" "1 \<le> K" for R K :: int
    using that by linarith
  have fits: "?R + ?K < w" if w: "w \<ge> 3"
  proof -
    have clamp: "max 1 (min a b) \<le> 1 \<or> max 1 (min a b) \<le> b" for a b :: int
      by linarith
    have "max 1 w = w" using w by simp
    then have R: "?R = max 1 (min (cp_reserve_tokens p) (w div 4))"
      and K: "?K = max 1 (min (cp_keep_recent_tokens p) ((w - ?R) div 2))"
      by (simp_all only: effective_context_policy_def Let_def context_policy.simps)
    have "?R \<le> 1 \<or> ?R \<le> w div 4" by (simp only: R clamp)
    moreover have "?K \<le> 1 \<or> ?K \<le> (w - ?R) div 2" by (subst (1 2) K) (rule clamp)
    ultimately show ?thesis using w lo by (intro room) simp_all
  qed
  have "effective_context_policy (effective_context_policy p w) w = effective_context_policy p w"
    by (simp only: effective_context_policy_def Let_def context_policy.simps idem)
  with lo fits show ?thesis by blast
qed

theorem effective_policy_fits_witness:
  "cp_reserve_tokens (effective_context_policy \<lparr>cp_enabled = True, cp_reserve_tokens = 16384,
       cp_keep_recent_tokens = 20000\<rparr> 8000)
   + cp_keep_recent_tokens (effective_context_policy \<lparr>cp_enabled = True, cp_reserve_tokens = 16384,
       cp_keep_recent_tokens = 20000\<rparr> 8000) < 8000"
  using effective_policy_fits [of "\<lparr>cp_enabled = True, cp_reserve_tokens = 16384,
       cp_keep_recent_tokens = 20000\<rparr>" 8000] by simp

section \<open>Token attribution by largest remainders\<close>

definition statistic_types :: "string list" where
  "statistic_types = [''system'', ''user'', ''assistant'', ''toolResult'']"

fun message_type_for_statistics :: "message \<Rightarrow> string" where
  "message_type_for_statistics (UserMessage _) = ''user''"
| "message_type_for_statistics (AssistantMessage _) = ''assistant''"
| "message_type_for_statistics (ToolResultMessage _) = ''toolResult''"

text \<open>
  \<open>_scale_tokens\<close>: quotients first, then one unit each to the keys with the largest remainders.
  \<open>sorted(values, key=..., reverse=True)\<close> is stable and keeps the order of equal keys, which
  \<open>sort_key\<close> by the negated remainder does.
\<close>

definition dict_sum :: "(string, int) dict \<Rightarrow> int" where
  "dict_sum d = sum_list (map snd d)"

definition scale_tokens :: "(string, int) dict \<Rightarrow> int \<Rightarrow> (string, int) dict" where
  "scale_tokens values tot =
     (let source_total = dict_sum values in
      if source_total \<le> 0 \<or> tot \<le> 0 then map (\<lambda>(k, v). (k, 0)) values
      else
        let scaled = map (\<lambda>(k, v). (k, (v * tot) div source_total)) values;
            remaining = tot - dict_sum scaled;
            order = sort_key (\<lambda>k. - ((dict_get values k 0 * tot) mod source_total)) (map fst values)
        in map (\<lambda>(k, v). (k, if k \<in> set (take (nat remaining) order) then v + 1 else v)) scaled)"

definition percentage_distribution :: "(string, int) dict \<Rightarrow> int \<Rightarrow> (string, rat) dict" where
  "percentage_distribution values tot =
     (if tot \<le> 0 then map (\<lambda>(k, v). (k, 0)) values
      else map (\<lambda>(k, v). (k, of_int v / 100)) (scale_tokens values 10000))"

text \<open>\<open>round(value * 100 / total, 2)\<close>, on exact rationals, ties to even.\<close>

definition round_half_even :: "rat \<Rightarrow> int" where
  "round_half_even q = (let f = \<lfloor>q\<rfloor>; d = q - of_int f in
     if d < 1/2 then f else if d > 1/2 then f + 1 else if even f then f else f + 1)"

definition percent :: "int \<Rightarrow> int \<Rightarrow> rat" where
  "percent v tot = (if tot > 0
     then of_int (round_half_even (of_int (v * 100) / of_int tot * 100)) / 100 else 0)"

record context_statistics =
  cs_used_tokens :: int
  cs_window_tokens :: "int option"
  cs_remaining_tokens :: "int option"
  cs_usage_percent :: "rat option"
  cs_counts :: "(string, int) dict"
  cs_estimates :: "(string, int) dict"
  cs_percentages :: "(string, rat) dict"

definition attribute_tokens :: "(string, int) dict \<Rightarrow> int \<Rightarrow> (string, int) dict" where
  "attribute_tokens estimates used_tokens =
     (let attributed = dict_sum estimates in
      if attributed \<le> used_tokens
      then AList.update ''system'' (dict_get estimates ''system'' 0 + (used_tokens - attributed)) estimates
      else if attributed \<noteq> 0 then scale_tokens estimates used_tokens
      else estimates)"

definition context_statistics_from_aggregates ::
  "int \<Rightarrow> (string, int) dict \<Rightarrow> (string, int) dict \<Rightarrow> int option \<Rightarrow> context_statistics" where
  "context_statistics_from_aggregates used_tokens message_counts estimated_tokens context_window =
     (let window_tokens = map_option (max 1) context_window;
          counts = map (\<lambda>t. (t, dict_get message_counts t 0)) statistic_types;
          estimates = attribute_tokens (map (\<lambda>t. (t, dict_get estimated_tokens t 0)) statistic_types)
            used_tokens
      in \<lparr>cs_used_tokens = used_tokens,
          cs_window_tokens = window_tokens,
          cs_remaining_tokens = map_option (\<lambda>w. max 0 (w - used_tokens)) window_tokens,
          cs_usage_percent = map_option (percent used_tokens) window_tokens,
          cs_counts = counts,
          cs_estimates = estimates,
          cs_percentages = percentage_distribution estimates used_tokens\<rparr>)"

definition add_count :: "string \<Rightarrow> int \<Rightarrow> (string, int) dict \<Rightarrow> (string, int) dict" where
  "add_count k n d = AList.update k (dict_get d k 0 + n) d"

definition zero_counts :: "(string, int) dict" where
  "zero_counts = map (\<lambda>t. (t, 0)) statistic_types"

definition context_statistics ::
  "message list \<Rightarrow> int option \<Rightarrow> int option \<Rightarrow> int option \<Rightarrow> context_statistics" where
  "context_statistics ms context_window after_ms after_idx =
     context_statistics_from_aggregates (estimate_context_tokens ms after_ms after_idx)
       (fold (\<lambda>m. add_count (message_type_for_statistics m) 1) ms zero_counts)
       (fold (\<lambda>m. add_count (message_type_for_statistics m) (int (estimate_tokens m))) ms zero_counts)
       context_window"

subsection \<open>Largest remainders hit the total exactly\<close>

lemma dict_sum_map: "dict_sum (map (\<lambda>(k, v). (k, f k v)) d) = (\<Sum>(k, v)\<leftarrow>d. f k v)"
  by (induction d) (auto simp: dict_sum_def)

lemma sum_list_div_mod:
  fixes n :: int
  shows "(\<Sum>(k, v)\<leftarrow>d. v * t) = n * (\<Sum>(k, v)\<leftarrow>d. (v * t) div n) + (\<Sum>(k, v)\<leftarrow>d. (v * t) mod n)"
proof (induction d)
  case Nil
  then show ?case by simp
next
  case (Cons a d)
  obtain k v where a: "a = (k, v)" by (cases a)
  have "v * t = n * ((v * t) div n) + (v * t) mod n" by simp
  with Cons show ?case by (simp add: a distrib_left)
qed

lemma sum_list_snd_mult: "(\<Sum>(k, v)\<leftarrow>d. v * t) = dict_sum d * (t::int)"
  by (induction d) (auto simp: dict_sum_def distrib_right)

definition remainder_sum :: "(string, int) dict \<Rightarrow> int \<Rightarrow> int" where
  "remainder_sum d t = (\<Sum>(k, v)\<leftarrow>d. (v * t) mod dict_sum d)"

lemma remaining_times_total:
  "dict_sum d * (t - dict_sum (map (\<lambda>(k, v). (k, (v * t) div dict_sum d)) d)) = remainder_sum d t"
  using sum_list_div_mod [of t d "dict_sum d"] sum_list_snd_mult [of t d]
  by (simp add: dict_sum_map remainder_sum_def algebra_simps)

lemma remainder_sum_bounds:
  assumes "dict_sum d > 0"
  shows "0 \<le> remainder_sum d t"
    and "d \<noteq> [] \<Longrightarrow> remainder_sum d t < dict_sum d * int (length (filter (\<lambda>(k, v). (v * t) mod dict_sum d \<noteq> 0) d)) + 1"
proof -
  define n where "n = dict_sum d"
  have n: "n > 0" using assms by (simp add: n_def)
  have "0 \<le> (\<Sum>(k, v)\<leftarrow>e. (v * t) mod n)" for e
    using n by (intro sum_list_nonneg) auto
  then show "0 \<le> remainder_sum d t" by (simp add: remainder_sum_def n_def)
  have "(\<Sum>(k, v)\<leftarrow>e. (v * t) mod n) \<le> n * int (length (filter (\<lambda>(k, v). (v * t) mod n \<noteq> 0) e))" for e
  proof (induction e)
    case Nil
    then show ?case by simp
  next
    case (Cons a e)
    obtain k v where a: "a = (k, v)" by (cases a)
    have "(v * t) mod n < n" using n by simp
    with Cons show ?case by (auto simp: a algebra_simps)
  qed
  from this [of d]
  show "d \<noteq> [] \<Longrightarrow> remainder_sum d t < dict_sum d * int (length (filter (\<lambda>(k, v). (v * t) mod dict_sum d \<noteq> 0) d)) + 1"
    by (simp add: remainder_sum_def n_def)
qed


lemma sorted_key_prefix_neg:
  fixes f :: "'a \<Rightarrow> int"
  assumes srt: "sorted (map f ys)" and neg: "\<forall>y \<in> set ys. f y \<le> 0"
    and j: "j < length (filter (\<lambda>y. f y \<noteq> 0) ys)"
  shows "f (ys ! j) < 0"
proof (rule ccontr)
  assume not_neg: "\<not> f (ys ! j) < 0"
  have jl: "j < length ys" using j length_filter_le [of "\<lambda>y. f y \<noteq> 0" ys] by linarith
  have "f y = 0" if "y \<in> set (drop j ys)" for y
  proof -
    from that obtain i where i: "i < length (drop j ys)" "y = drop j ys ! i"
      by (metis in_set_conv_nth)
    then have "f (ys ! j) \<le> f y"
      using srt sorted_nth_mono [of "map f ys" j "j + i"] by simp
    moreover have "y \<in> set ys" using that by (meson in_set_dropD)
    ultimately show ?thesis using neg not_neg by fastforce
  qed
  then have "filter (\<lambda>y. f y \<noteq> 0) (drop j ys) = []"
    by (simp add: filter_empty_conv)
  then have "filter (\<lambda>y. f y \<noteq> 0) ys = filter (\<lambda>y. f y \<noteq> 0) (take j ys)"
    by (metis append.right_neutral append_take_drop_id filter_append)
  then have "length (filter (\<lambda>y. f y \<noteq> 0) ys) \<le> j"
    using length_filter_le [of "\<lambda>y. f y \<noteq> 0" "take j ys"] jl by simp
  with j show False by simp
qed

lemma length_filter_sort_key:
  "length (filter P (sort_key f xs)) = length (filter P xs)"
  by (simp flip: size_mset add: mset_filter)

lemma sum_list_indicator:
  assumes "distinct (map fst d)"
  shows "(\<Sum>(k, v)\<leftarrow>d. if k \<in> K then (1::int) else 0) = int (card (K \<inter> fst ` set d))"
  using assms
proof (induction d)
  case Nil
  then show ?case by simp
next
  case (Cons a d)
  obtain k v where a: "a = (k, v)" by (cases a)
  have "K \<inter> insert k (fst ` set d) = (if k \<in> K then insert k (K \<inter> fst ` set d) else K \<inter> fst ` set d)"
    by auto
  moreover have "k \<notin> K \<inter> fst ` set d" using Cons.prems a by auto
  ultimately show ?case using Cons by (simp add: a)
qed

lemma div_round_bounds:
  fixes n a :: int
  assumes "n > 0"
  shows "(a div n) * n \<le> a" and "a mod n \<noteq> 0 \<Longrightarrow> (a div n) * n < a"
proof -
  have "a = (a div n) * n + a mod n" by simp
  moreover have "0 \<le> a mod n" using assms by simp
  ultimately show "(a div n) * n \<le> a" and "a mod n \<noteq> 0 \<Longrightarrow> (a div n) * n < a" by linarith+
qed

lemma scale_tokens_facts:
  fixes d :: "(string, int) dict"
  assumes dist: "distinct (map fst d)" and pos: "dict_sum d > 0" and t: "t > 0"
  obtains K where "scale_tokens d t = map (\<lambda>(k, v). (k, (v * t) div dict_sum d + (if k \<in> K then 1 else 0))) d"
    and "dict_sum (scale_tokens d t) = t"
    and "\<And>k v. (k, v) \<in> set d \<Longrightarrow> k \<in> K \<Longrightarrow> (v * t) mod dict_sum d \<noteq> 0"
proof -
  define n where "n = dict_sum d"
  define fl where "fl = map (\<lambda>(k, v). (k, (v * t) div n)) d"
  define r where "r = t - dict_sum fl"
  define f where "f = (\<lambda>k. - ((dict_get d k 0 * t) mod n))"
  define ord where "ord = sort_key f (map fst d)"
  define K where "K = set (take (nat r) ord)"
  have n: "n > 0" using pos by (simp add: n_def)
  have get: "dict_get d k 0 = v" if "(k, v) \<in> set d" for k v
    using that dist by (simp add: dict_get_def map_of_is_SomeI)
  have nz: "length (filter (\<lambda>k. f k \<noteq> 0) (map fst d)) = length (filter (\<lambda>(k, v). (v * t) mod n \<noteq> 0) d)"
  proof -
    have "filter ((\<lambda>k. f k \<noteq> 0) \<circ> fst) d = filter (\<lambda>(k, v). (v * t) mod n \<noteq> 0) d"
      by (rule filter_cong) (auto simp: f_def get)
    then show ?thesis by (simp add: filter_map)
  qed
  have nr: "n * r = remainder_sum d t"
    using remaining_times_total [of d t] by (simp add: r_def fl_def n_def)
  have r0: "r \<ge> 0" using remainder_sum_bounds(1) [OF pos, of t] nr n
    by (metis less_le_not_le linorder_le_less_linear mult_pos_neg)
  have "d \<noteq> []" using pos by (auto simp: dict_sum_def)
  then have "n * r < n * int (length (filter (\<lambda>k. f k \<noteq> 0) (map fst d))) + 1"
    using remainder_sum_bounds(2) [OF pos, of t] nr nz by (simp add: n_def)
  then have "n * r \<le> n * int (length (filter (\<lambda>k. f k \<noteq> 0) (map fst d)))" by linarith
  then have rle: "nat r \<le> length (filter (\<lambda>k. f k \<noteq> 0) ord)"
    using n r0 by (simp add: ord_def length_filter_sort_key)
  have "scale_tokens d t = map (\<lambda>(k, v). (k, if k \<in> K then v + 1 else v)) fl"
    unfolding scale_tokens_def Let_def K_def ord_def f_def r_def fl_def n_def using pos t by simp
  then have scaled: "scale_tokens d t = map (\<lambda>(k, v). (k, (v * t) div n + (if k \<in> K then 1 else 0))) d"
    by (simp add: fl_def case_prod_unfold)
  have dord: "distinct ord" and sord: "set ord = fst ` set d"
    using dist by (simp_all add: ord_def)
  have len: "length ord = length d" by (simp add: ord_def)
  have "nat r \<le> length ord" using rle length_filter_le order_trans by blast
  then have cK: "card (K \<inter> fst ` set d) = nat r"
    using dord sord by (metis K_def Int_absorb2 distinct_card distinct_take length_take min.absorb2 set_take_subset)
  have "dict_sum (scale_tokens d t) = (\<Sum>(k, v)\<leftarrow>d. (v * t) div n + (if k \<in> K then 1 else 0))"
    by (simp add: scaled dict_sum_map)
  also have "\<dots> = (\<Sum>(k, v)\<leftarrow>d. (v * t) div n) + (\<Sum>(k, v)\<leftarrow>d. if k \<in> K then 1 else 0)"
    by (simp add: case_prod_unfold sum_list_addf)
  also have "\<dots> = dict_sum fl + r"
    using sum_list_indicator [OF dist, of K] cK r0 by (simp add: fl_def dict_sum_map)
  finally have tot: "dict_sum (scale_tokens d t) = t" by (simp add: r_def)
  have neg: "f k < 0" if "k \<in> K" for k
  proof -
    from that obtain j where j: "j < nat r" "j < length ord" "k = ord ! j"
      by (metis K_def in_set_conv_nth length_take min_less_iff_conj nth_take)
    have "\<forall>y \<in> set ord. f y \<le> 0" using n by (simp add: f_def)
    moreover have "sorted (map f ord)" by (simp add: ord_def)
    ultimately show ?thesis using sorted_key_prefix_neg [of f ord j] j rle by simp
  qed
  have "(v * t) mod n \<noteq> 0" if "(k, v) \<in> set d" "k \<in> K" for k v
    using neg [OF that(2)] get [OF that(1)] by (simp add: f_def)
  with scaled tot show thesis using that unfolding n_def by blast
qed

text \<open>
  C21. Scaling the per-type estimates to the tokens the provider reports loses nothing and invents
  nothing: the scaled buckets keep their keys and order, sum to the requested total exactly, each
  bucket is its exact share rounded down or up by less than one token, and a type without any
  tokens stays at zero.
\<close>

theorem scale_tokens_exact:
  assumes "distinct (map fst d)" and "dict_sum d > 0" and "t > 0"
  shows "dict_sum (scale_tokens d t) = t
    \<and> map fst (scale_tokens d t) = map fst d
    \<and> (\<forall>k v. map_of d k = Some v \<longrightarrow> (\<exists>s. map_of (scale_tokens d t) k = Some s
          \<and> (v * t) div dict_sum d \<le> s \<and> s * dict_sum d < v * t + dict_sum d \<and> (v = 0 \<longrightarrow> s = 0)))"
proof -
  from scale_tokens_facts [OF assms] obtain K where
    sc: "scale_tokens d t = map (\<lambda>(k, v). (k, (v * t) div dict_sum d + (if k \<in> K then 1 else 0))) d"
    and tot: "dict_sum (scale_tokens d t) = t"
    and nz: "\<And>k v. (k, v) \<in> set d \<Longrightarrow> k \<in> K \<Longrightarrow> (v * t) mod dict_sum d \<noteq> 0"
    by blast
  have "map fst (scale_tokens d t) = map fst d" by (simp add: sc case_prod_unfold comp_def)
  moreover have "\<forall>k v. map_of d k = Some v \<longrightarrow> (\<exists>s. map_of (scale_tokens d t) k = Some s
          \<and> (v * t) div dict_sum d \<le> s \<and> s * dict_sum d < v * t + dict_sum d \<and> (v = 0 \<longrightarrow> s = 0))"
  proof (intro allI impI)
    fix k v assume kv: "map_of d k = Some v"
    let ?n = "dict_sum d" and ?s = "(v * t) div dict_sum d + (if k \<in> K then 1 else 0)"
    have "map_of (scale_tokens d t) k = Some ?s"
      using kv by (simp add: sc map_of_map_pairs [of "\<lambda>k v. v * t div dict_sum d + (if k \<in> K then 1 else 0)"])
    moreover have "(v * t) div ?n \<le> ?s" by simp
    moreover have "?s * ?n < v * t + ?n \<and> (v = 0 \<longrightarrow> ?s = 0)"
      using div_round_bounds [of ?n "v * t"] assms(2) nz [OF map_of_SomeD [OF kv]]
      by (cases "k \<in> K") (auto simp: distrib_right)
    ultimately show "\<exists>s. map_of (scale_tokens d t) k = Some s
          \<and> (v * t) div ?n \<le> s \<and> s * ?n < v * t + ?n \<and> (v = 0 \<longrightarrow> s = 0)"
      by blast
  qed
  ultimately show ?thesis using tot by blast
qed

theorem scale_tokens_exact_witness:
  "dict_sum (scale_tokens [(''system'', 0), (''user'', 10), (''assistant'', 20), (''toolResult'', 3)] 100) = 100"
  using scale_tokens_exact [of "[(''system'', 0), (''user'', 10), (''assistant'', 20), (''toolResult'', 3)]" 100]
  by (simp add: dict_sum_def)

section \<open>Cache hit rates\<close>

record cache_stats =
  cst_input :: int
  cst_read :: int
  cst_write :: int
  cst_requests :: int
  cst_hits :: int

definition cache_add :: "(string, json) dict \<Rightarrow> cache_stats \<Rightarrow> exn + cache_stats" where
  "cache_add us c =
     bind_res (int_or_zero (jget us ''input'')) (\<lambda>i.
     bind_res (int_or_zero (jget us ''cacheRead'')) (\<lambda>r.
     bind_res (int_or_zero (jget us ''cacheWrite'')) (\<lambda>w.
     let uncached = max 0 i; cache_read = max 0 r; cache_write = max 0 w;
         counted = (uncached \<noteq> 0 \<or> cache_read \<noteq> 0 \<or> cache_write \<noteq> 0) in
     Inr \<lparr>cst_input = cst_input c + uncached, cst_read = cst_read c + cache_read,
       cst_write = cst_write c + cache_write,
       cst_requests = (if counted then cst_requests c + 1 else cst_requests c),
       cst_hits = (if counted \<and> cache_read \<noteq> 0 then cst_hits c + 1 else cst_hits c)\<rparr>)))"

fun cache_totals :: "(string, json) dict list \<Rightarrow> cache_stats \<Rightarrow> exn + cache_stats" where
  "cache_totals [] c = Inr c"
| "cache_totals (u # us) c = bind_res (cache_add u c) (cache_totals us)"

definition cache_statistics :: "(string, json) dict list \<Rightarrow> exn + (string, json) dict" where
  "cache_statistics usages =
     bind_res (cache_totals usages \<lparr>cst_input = 0, cst_read = 0, cst_write = 0, cst_requests = 0,
        cst_hits = 0\<rparr>) (\<lambda>c.
     let cacheable = cst_input c + cst_read c in
     Inr [(''inputTokens'', JInt (cst_input c)), (''readTokens'', JInt (cst_read c)),
       (''writeTokens'', JInt (cst_write c)), (''cacheableTokens'', JInt cacheable),
       (''hitTokenPercent'', JFloat (percent (cst_read c) cacheable)),
       (''requestCount'', JInt (cst_requests c)), (''hitRequestCount'', JInt (cst_hits c)),
       (''hitRequestPercent'', JFloat (percent (cst_hits c) (cst_requests c)))])"

end
