(* ===== verification/AgentRun.thy ===== *)
theory AgentRun
  imports ToolCalls ContextStats
begin

text \<open>
  \<^verbatim>\<open>core/runner.py\<close>: one run of the agent. \<open>run_agent\<close> checks the request, binds the controller and
  alternates requests to the provider with tool calls, input from the queues and compactions, until
  the response asks for no tools and no input is queued. The compactor is a port of the environment.
  The loop carries fuel, and the value \<open>OutOfFuel\<close> means it has not ended within it.
\<close>

section \<open>Requests, results and state\<close>

record context_update =
  cu_messages :: "message list"
  cu_summary :: string
  cu_tokens_before :: int
  cu_first_kept_id :: "string option"
  cu_usage :: usage
  cu_details :: "(string, json) dict"
  cu_boundary_ms :: "int option"
  cu_boundary_index :: "int option"

record run_request =
  rq_run_id :: string
  rq_model :: model_info
  rq_messages :: "message list"
  rq_input :: "user_message list"
  rq_system_prompt :: string
  rq_tools :: "tool_spec list"
  rq_active_tool_names :: "string list option"
  rq_stream_options :: stream_options
  rq_context_policy :: context_policy
  rq_steering_mode :: string
  rq_follow_up_mode :: string
  rq_context_id :: "string option"
  rq_boundary_ms :: "int option"
  rq_boundary_index :: "int option"

record run_result =
  rr_final_message :: assistant_message
  rr_new_messages :: "message list"
  rr_usage :: usage
  rr_stop_reason :: string
  rr_context_update :: "context_update option"

record run_env = tool_env +
  env_compactor :: "(nat \<Rightarrow> message list \<Rightarrow> string \<Rightarrow> exn + context_update) option"

record run_state = inf_state +
  rn_messages :: "message list"
  rn_new_messages :: "message list"
  rn_boundary_ms :: "int option"
  rn_boundary_index :: "int option"
  rn_context_update :: "context_update option"

section \<open>Usage of a run\<close>

fun usage_of :: "message \<Rightarrow> usage option" where
  "usage_of (UserMessage _) = None"
| "usage_of (AssistantMessage a) = Some (am_usage a)"
| "usage_of (ToolResultMessage t) = tm_usage t"

fun add_costs :: "(string, json) dict \<Rightarrow> (string, rat) dict \<Rightarrow> exn + (string, rat) dict" where
  "add_costs [] costs = Inr costs"
| "add_costs ((k, v) # kvs) costs =
     bind_res (py_float v) (\<lambda>q. add_costs kvs (AList.update k (dict_get costs k 0 + q) costs))"

fun sum_costs :: "usage list \<Rightarrow> (string, rat) dict \<Rightarrow> exn + (string, rat) dict" where
  "sum_costs [] costs = Inr costs"
| "sum_costs (u # us) costs = bind_res (add_costs (u_cost u) costs) (sum_costs us)"

definition aggregate_usage :: "message list \<Rightarrow> exn + usage" where
  "aggregate_usage ms =
     (let us = List.map_filter usage_of ms;
          total_of = (\<lambda>f. sum_list (map f us));
          reasoning = total_of (\<lambda>u. case u_reasoning u of None \<Rightarrow> 0 | Some r \<Rightarrow> r) in
      bind_res (sum_costs us []) (\<lambda>costs.
      Inr \<lparr>u_input = total_of u_input, u_output = total_of u_output,
        u_cache_read = total_of u_cache_read, u_cache_write = total_of u_cache_write,
        u_total_tokens = total_of u_total_tokens,
        u_reasoning = (if reasoning = 0 then None else Some reasoning),
        u_cost = map (\<lambda>(k, q). (k, JFloat q)) costs\<rparr>))"

section \<open>Budget checks\<close>

definition estimate_inference_context :: "int \<Rightarrow> message list \<Rightarrow> int option \<Rightarrow> int option \<Rightarrow> int" where
  "estimate_inference_context now ms boundary_ms boundary_index =
     (let (projected, idx) = project_inference_messages now ms boundary_index in
      estimate_context_tokens projected boundary_ms idx)"

definition oversized_text :: "int \<Rightarrow> int \<Rightarrow> int \<Rightarrow> int \<Rightarrow> string" where
  "oversized_text estimated budget window reserve =
     ''User input exceeds usable context budget: estimated '' @ show_int estimated @ '' tokens, budget ''
     @ show_int budget @ '' tokens (context window '' @ show_int window @ '', reserve '' @ show_int reserve
     @ ''). Historical compaction cannot reduce a single oversized input.''"

fun oversized_input_error :: "int \<Rightarrow> run_request \<Rightarrow> message list \<Rightarrow> assistant_message option" where
  "oversized_input_error now rq [] = None"
| "oversized_input_error now rq (m # ms) =
     (let window = mi_context_window (rq_model rq);
          reserve = cp_reserve_tokens (rq_context_policy rq);
          budget = max 0 (window - reserve);
          estimated = int (estimate_tokens m)
      in if is_user m \<and> estimated > budget
         then Some (blank_assistant now (rq_model rq) ''error'' (Some (oversized_text estimated budget window reserve)))
         else oversized_input_error now rq ms)"

section \<open>The steps of the engine\<close>

definition payload :: "message \<Rightarrow> nat option \<Rightarrow> (string, json) dict" where
  "payload m attempt = (''message'', JObj (message_to_dict m))
     # (case attempt of None \<Rightarrow> [] | Some n \<Rightarrow> [(''attempt'', JInt (int n))])"

definition append_message :: "'e ctl_env_scheme \<Rightarrow> message \<Rightarrow> bool \<Rightarrow> nat option \<Rightarrow> ('z run_state_scheme, unit) comp" where
  "append_message \<E> m message_started attempt =
     seqc (if message_started then ret () else emit \<E> ''message_start'' (payload m attempt)) (\<lambda>_.
     seqc (modifies (\<lambda>s. s\<lparr>rn_messages := rn_messages s @ [m], rn_new_messages := rn_new_messages s @ [m]\<rparr>)) (\<lambda>_.
     emit \<E> ''message_end'' (payload m attempt)))"

definition turn_end_data :: "assistant_message \<Rightarrow> message list \<Rightarrow> (string, json) dict" where
  "turn_end_data final results = [(''message'', JObj (message_to_dict (AssistantMessage final))),
     (''toolResults'', message_dicts results)]"

definition agent_end :: "'e ctl_env_scheme \<Rightarrow> ('z run_state_scheme, unit) comp" where
  "agent_end \<E> = seqc (reads rn_new_messages) (\<lambda>ms. emit \<E> ''agent_end'' [(''messages'', message_dicts ms)])"

definition aborted_message :: "'e ctl_env_scheme \<Rightarrow> run_request \<Rightarrow> 'z dispatcher_state_scheme \<Rightarrow> assistant_message" where
  "aborted_message \<E> rq s = blank_assistant (now_at \<E> s) (rq_model rq) ''aborted'' (Some ''Operation aborted'')"

definition compaction_end_data :: "string \<Rightarrow> bool \<Rightarrow> (string, json) dict" where
  "compaction_end_data reason will_retry = [(''reason'', JStr reason), (''aborted'', JBool False),
     (''willRetry'', JBool will_retry)]"

definition compaction_failure :: "'e ctl_env_scheme \<Rightarrow> string \<Rightarrow> exn \<Rightarrow> ('z ctl_state_scheme, unit) comp" where
  "compaction_failure \<E> reason e =
     emit \<E> ''compaction_end'' (compaction_end_data reason False @ [(''error'', JStr (exn_describe e))])"

definition compact :: "'e run_env_scheme \<Rightarrow> string \<Rightarrow> bool option \<Rightarrow> ('z run_state_scheme, unit) comp" where
  "compact \<E> reason will_retry =
     (case env_compactor \<E> of
        None \<Rightarrow> throw AssertionError
      | Some compactor \<Rightarrow>
        seqc (emit \<E> ''compaction_start'' [(''reason'', JStr reason)]) (\<lambda>_.
        seqc (await_point \<E>) (\<lambda>_.
        seqc (reads (\<lambda>s. compactor (ds_clock s) (rn_messages s) reason)) (\<lambda>r.
        seqc (lift_res r) (\<lambda>u.
        seqc (modifies (\<lambda>s. s\<lparr>rn_messages := cu_messages u, rn_boundary_ms := cu_boundary_ms u,
           rn_boundary_index := cu_boundary_index u, rn_context_update := Some u\<rparr>)) (\<lambda>_.
        seqc (emit \<E> ''context_compacted'' [(''compactionEntryId'', jget (cu_details u) ''compactionEntryId''),
           (''summary'', JStr (cu_summary u)), (''fromHook'', JBool False)]) (\<lambda>_.
        emit \<E> ''compaction_end'' (compaction_end_data reason
           (case will_retry of None \<Rightarrow> reason = ''overflow'' | Some b \<Rightarrow> b)))))))))"

definition compact_or_report :: "'e run_env_scheme \<Rightarrow> string \<Rightarrow> bool option \<Rightarrow> ('z run_state_scheme, unit) comp" where
  "compact_or_report \<E> reason will_retry =
     try_except (compact \<E> reason will_retry) (\<lambda>e. compaction_failure \<E> reason e)"

definition session_id_of :: "run_request \<Rightarrow> string" where
  "session_id_of rq = (case rq_context_id rq of None \<Rightarrow> rq_run_id rq | Some c \<Rightarrow> nonempty_or c (rq_run_id rq))"

definition stream_response :: "'e inf_env_scheme \<Rightarrow> run_request \<Rightarrow> tool_runtime \<Rightarrow> string \<Rightarrow> ('z run_state_scheme, assistant_message) comp" where
  "stream_response \<E> rq tt prompt =
     seqc (reads rn_messages) (\<lambda>ms.
     request \<E> (rq_model rq) ms prompt (map tl_definition (active_tools tt)) (session_id_of rq) (rq_stream_options rq))"

section \<open>The loop\<close>

record loop_vars =
  lv_more :: bool
  lv_pending :: "user_message list"
  lv_first :: bool
  lv_overflow :: nat
  lv_final :: "assistant_message option"

definition exhausted_text :: "run_request \<Rightarrow> string" where
  "exhausted_text rq = ''Context still exceeds the model window after 2 compaction attempts (context window ''
     @ show_int (mi_context_window (rq_model rq)) @ '', effective reserve ''
     @ show_int (cp_reserve_tokens (rq_context_policy rq)) @ '', effective keep ''
     @ show_int (cp_keep_recent_tokens (rq_context_policy rq)) @ '').''"

text \<open>A recoverable overflow: the failed response is recorded, the context compacted, and the turn
  is to be tried again; a compaction that fails ends the run.\<close>

definition overflow_failed :: "'e run_env_scheme \<Rightarrow> run_request \<Rightarrow> assistant_message \<Rightarrow> exn
    \<Rightarrow> ('z run_state_scheme, assistant_message) comp" where
  "overflow_failed \<E> rq final e =
     seqc (compaction_failure \<E> ''overflow'' e) (\<lambda>_.
     seqc (reads ct_abort) (\<lambda>aborted.
     seqc (if aborted then
             seqc (reads (aborted_message \<E> rq)) (\<lambda>m.
             seqc (reads in_last_attempt) (\<lambda>k.
             seqc (append_message \<E> (AssistantMessage m) False (Some (k + 1))) (\<lambda>_. ret m)))
           else ret final) (\<lambda>m.
     seqc (agent_end \<E>) (\<lambda>_. ret m))))"

definition recover_overflow :: "'e run_env_scheme \<Rightarrow> run_request \<Rightarrow> loop_vars \<Rightarrow> assistant_message
    \<Rightarrow> ('z run_state_scheme, assistant_message + loop_vars) comp" where
  "recover_overflow \<E> rq v final =
     seqc (reads in_last_attempt) (\<lambda>n.
     seqc (emit \<E> ''message_end'' [(''message'', JObj (message_to_dict (AssistantMessage final))),
        (''overflowAttempt'', JBool True), (''attempt'', JInt (int n))]) (\<lambda>_.
     seqc (modifies (\<lambda>s. s\<lparr>rn_new_messages := rn_new_messages s @ [AssistantMessage final]\<rparr>)) (\<lambda>_.
     seqc (emit \<E> ''turn_end'' (turn_end_data final [])) (\<lambda>_.
     try_except
       (seqc (compact \<E> ''overflow'' None) (\<lambda>_.
        ret (Inr (v\<lparr>lv_overflow := lv_overflow v + 1, lv_final := Some final\<rparr>))))
       (\<lambda>e. seqc (overflow_failed \<E> rq final e) (\<lambda>m. ret (Inl m)))))))"

definition finish_turn :: "'e run_env_scheme \<Rightarrow> tool_runtime \<Rightarrow> loop_vars \<Rightarrow> assistant_message
    \<Rightarrow> ('z run_state_scheme, assistant_message + loop_vars) comp" where
  "finish_turn \<E> tt v final =
     (let calls = tool_calls final in
      seqc (if calls = [] then ret ([], False)
            else if am_stop_reason final = ''length'' then
              seqc (fail_truncated_calls \<E> calls) (\<lambda>rs. ret (rs, False))
            else execute_calls \<E> tt calls) (\<lambda>(results, terminate).
      seqc (for_each (\<lambda>r. append_message \<E> (ToolResultMessage r) False None) results) (\<lambda>_.
      seqc (emit \<E> ''turn_end'' (turn_end_data final (map ToolResultMessage results))) (\<lambda>_.
      seqc (reads ct_abort) (\<lambda>aborted.
      if aborted then seqc (agent_end \<E>) (\<lambda>_. ret (Inl final))
      else seqc (drain_steering \<E>) (\<lambda>pending.
        ret (Inr (v\<lparr>lv_more := calls \<noteq> [] \<and> \<not> terminate, lv_pending := pending, lv_final := Some final\<rparr>))))))))"

definition overflowed :: "run_request \<Rightarrow> assistant_message \<Rightarrow> bool" where
  "overflowed rq final \<longleftrightarrow> (am_stop_reason final = ''error'' \<or> am_stop_reason final = ''length'')
     \<and> is_context_overflow final (Some (mi_context_window (rq_model rq)))"

definition run_turn :: "'e run_env_scheme \<Rightarrow> run_request \<Rightarrow> tool_runtime \<Rightarrow> string \<Rightarrow> loop_vars
    \<Rightarrow> ('z run_state_scheme, assistant_message + loop_vars) comp" where
  "run_turn \<E> rq tt prompt v0 =
     seqc (if lv_first v0 then ret () else emit \<E> ''turn_start'' []) (\<lambda>_.
     seqc (for_each (\<lambda>u. append_message \<E> (UserMessage u) False None) (lv_pending v0)) (\<lambda>_.
     let v = v0\<lparr>lv_first := False, lv_pending := []\<rparr> in
     seqc (stream_response \<E> rq tt prompt) (\<lambda>resp.
     if overflowed rq resp \<and> lv_overflow v < 2 \<and> env_compactor \<E> \<noteq> None
         \<and> cp_enabled (rq_context_policy rq)
     then recover_overflow \<E> rq v resp
     else
       let final = (if overflowed rq resp \<and> lv_overflow v \<ge> 2
         then resp\<lparr>am_stop_reason := ''error'', am_error := Some (exhausted_text rq)\<rparr> else resp) in
       seqc (reads in_last_attempt) (\<lambda>n.
       seqc (append_message \<E> (AssistantMessage final) True (Some n)) (\<lambda>_.
       if failed_stop (am_stop_reason final) then
         seqc (emit \<E> ''turn_end'' (turn_end_data final [])) (\<lambda>_.
         seqc (agent_end \<E>) (\<lambda>_. ret (Inl final)))
       else finish_turn \<E> tt v final)))))"

fun run_turns :: "'e run_env_scheme \<Rightarrow> run_request \<Rightarrow> tool_runtime \<Rightarrow> string \<Rightarrow> nat \<Rightarrow> loop_vars
    \<Rightarrow> ('z run_state_scheme, assistant_message) comp" where
  "run_turns \<E> rq tt prompt 0 v = throw OutOfFuel"
| "run_turns \<E> rq tt prompt (Suc fuel) v =
     (if lv_more v \<or> lv_pending v \<noteq> [] then
        seqc (run_turn \<E> rq tt prompt v) (\<lambda>r. case r of
          Inl final \<Rightarrow> ret final | Inr v' \<Rightarrow> run_turns \<E> rq tt prompt fuel v')
      else
        seqc (drain_follow_up \<E>) (\<lambda>follow_up.
        if follow_up \<noteq> [] then
          run_turns \<E> rq tt prompt fuel (v\<lparr>lv_more := True, lv_pending := follow_up\<rparr>)
        else (case lv_final v of
            None \<Rightarrow> throw AssertionError
          | Some final \<Rightarrow> seqc (agent_end \<E>) (\<lambda>_. ret final))))"

definition run_loop :: "'e run_env_scheme \<Rightarrow> run_request \<Rightarrow> tool_runtime \<Rightarrow> message list \<Rightarrow> string \<Rightarrow> nat
    \<Rightarrow> ('z run_state_scheme, assistant_message) comp" where
  "run_loop \<E> rq tt initial prompt fuel =
     seqc (emit \<E> ''agent_start'' []) (\<lambda>_.
     seqc (emit \<E> ''turn_start'' []) (\<lambda>_.
     seqc (for_each (\<lambda>m. append_message \<E> m False None) initial) (\<lambda>_.
     seqc (reads ct_abort) (\<lambda>aborted.
     if aborted then
       seqc (reads (aborted_message \<E> rq)) (\<lambda>final.
       seqc (reads in_last_attempt) (\<lambda>n.
       seqc (append_message \<E> (AssistantMessage final) False (Some (n + 1))) (\<lambda>_.
       seqc (emit \<E> ''turn_end'' (turn_end_data final [])) (\<lambda>_.
       seqc (agent_end \<E>) (\<lambda>_. ret final)))))
     else
       seqc (drain_steering \<E>) (\<lambda>pending.
       run_turns \<E> rq tt prompt fuel \<lparr>lv_more = True, lv_pending = pending, lv_first = True,
         lv_overflow = 0, lv_final = None\<rparr>)))))"

definition finish_input_error :: "'e run_env_scheme \<Rightarrow> message list \<Rightarrow> assistant_message \<Rightarrow> ('z run_state_scheme, assistant_message) comp" where
  "finish_input_error \<E> initial final =
     seqc (emit \<E> ''agent_start'' []) (\<lambda>_.
     seqc (emit \<E> ''turn_start'' []) (\<lambda>_.
     seqc (for_each (\<lambda>m. append_message \<E> m False None) initial) (\<lambda>_.
     seqc (append_message \<E> (AssistantMessage final) False (Some 0)) (\<lambda>_.
     seqc (emit \<E> ''turn_end'' (turn_end_data final [])) (\<lambda>_.
     seqc (agent_end \<E>) (\<lambda>_. ret final))))))"

section \<open>The run\<close>

definition make_result :: "assistant_message \<Rightarrow> 'z run_state_scheme \<Rightarrow> context_update option \<Rightarrow> exn + run_result" where
  "make_result final s upd =
     bind_res (aggregate_usage (rn_new_messages s)) (\<lambda>us.
     Inr \<lparr>rr_final_message = final, rr_new_messages = rn_new_messages s, rr_usage = us,
       rr_stop_reason = am_stop_reason final, rr_context_update = upd\<rparr>)"

definition needs_compaction :: "'e run_env_scheme \<Rightarrow> run_request \<Rightarrow> message list \<Rightarrow> 'z run_state_scheme \<Rightarrow> bool" where
  "needs_compaction \<E> rq ms s \<longleftrightarrow> env_compactor \<E> \<noteq> None
     \<and> should_compact (estimate_inference_context (now_at \<E> s) ms (rn_boundary_ms s) (rn_boundary_index s))
         (mi_context_window (rq_model rq)) (rq_context_policy rq)"

definition after_run :: "'e run_env_scheme \<Rightarrow> run_request \<Rightarrow> assistant_message \<Rightarrow> ('z run_state_scheme, unit) comp" where
  "after_run \<E> rq final =
     seqc (reads ct_abort) (\<lambda>aborted.
     seqc (reads (\<lambda>s. needs_compaction \<E> rq (rn_messages s) s)) (\<lambda>full.
     if is_context_overflow final (Some (mi_context_window (rq_model rq))) \<and> am_stop_reason final = ''stop''
         \<and> \<not> aborted \<and> env_compactor \<E> \<noteq> None \<and> cp_enabled (rq_context_policy rq)
     then compact_or_report \<E> ''overflow'' (Some False)
     else if \<not> failed_stop (am_stop_reason final) \<and> \<not> aborted \<and> full
     then compact_or_report \<E> ''threshold'' None
     else ret ()))"

definition run_body :: "'e run_env_scheme \<Rightarrow> run_request \<Rightarrow> tool_runtime \<Rightarrow> nat \<Rightarrow> ('z run_state_scheme, run_result) comp" where
  "run_body \<E> rq tt fuel =
     (let input_messages = map UserMessage (rq_input rq) in
      seqc (hook \<E> ''before_agent_start'' [(''messages'', message_dicts input_messages),
         (''systemPrompt'', JStr (rq_system_prompt rq))]) (\<lambda>h.
      seqc (lift_res (case map_of h ''messages'' of None \<Rightarrow> Inr input_messages | Some v \<Rightarrow> hook_messages v)) (\<lambda>initial.
      let prompt = (case map_of h ''systemPrompt'' of Some (HVal v) \<Rightarrow> str_or v (rq_system_prompt rq)
            | _ \<Rightarrow> rq_system_prompt rq) in
      seqc (reads (\<lambda>s. oversized_input_error (now_at \<E> s) rq initial)) (\<lambda>oversized.
      case oversized of
        Some err \<Rightarrow>
          seqc (finish_input_error \<E> initial err) (\<lambda>final.
          seqc (reads (\<lambda>s. make_result final s None)) lift_res)
      | None \<Rightarrow>
          seqc (reads (\<lambda>s. needs_compaction \<E> rq (rn_messages s @ initial) s)) (\<lambda>full.
          seqc (if full then compact_or_report \<E> ''threshold'' None else ret ()) (\<lambda>_.
          seqc (run_loop \<E> rq tt initial prompt fuel) (\<lambda>final.
          seqc (after_run \<E> rq final) (\<lambda>_.
          seqc (reads (\<lambda>s. make_result final s (rn_context_update s))) lift_res))))))))"

definition engine_run :: "'e run_env_scheme \<Rightarrow> run_request \<Rightarrow> tool_runtime \<Rightarrow> nat \<Rightarrow> ('z run_state_scheme, run_result) comp" where
  "engine_run \<E> rq tt fuel =
     seqc bind_controller (\<lambda>_.
     try_finally (run_body \<E> rq tt fuel)
       (seqc (emit \<E> ''settled'' [(''nextTurnCount'', JInt 0)]) (\<lambda>_. release_controller)))"

text \<open>\<open>run_agent\<close>: \<open>ctl\<close> is the caller's controller, or \<open>None\<close>; the handlers of \<open>hooks\<close> are
  registered on a fresh dispatcher. The result is paired with the state the run leaves, which holds
  the controller.\<close>

definition initial_state :: "run_request \<Rightarrow> (string, nat list) dict \<Rightarrow> ctl_state \<Rightarrow> run_state" where
  "initial_state rq hooks c =
     \<lparr>ds_listeners = [], ds_handlers = hooks, ds_trace = [], ds_heard = [],
      ct_steering_mode = ct_steering_mode c, ct_follow_up_mode = ct_follow_up_mode c,
      ct_steer = ct_steer c, ct_follow_up = ct_follow_up c, ct_active = ct_active c, ct_abort = ct_abort c,
      in_last_attempt = 0, in_next_attempt = 0, in_started = False, in_sent = [],
      rn_messages = rq_messages rq, rn_new_messages = [], rn_boundary_ms = rq_boundary_ms rq,
      rn_boundary_index = rq_boundary_index rq, rn_context_update = None\<rparr>"

definition run_agent :: "'e run_env_scheme \<Rightarrow> run_request \<Rightarrow> (string, nat list) dict \<Rightarrow> ctl_state option \<Rightarrow> nat
    \<Rightarrow> exn + ((exn + run_result) \<times> run_state)" where
  "run_agent \<E> rq hooks ctl fuel =
     (if str_strip (rq_run_id rq) = [] then Inl (RunError ''invalid_argument'' ''run_id must not be empty'')
      else if rq_input rq = [] then Inl (RunError ''invalid_argument'' ''Run input must not be empty'')
      else
        bind_res (case ctl of None \<Rightarrow> new_controller (rq_steering_mode rq) (rq_follow_up_mode rq) | Some c \<Rightarrow> Inr c) (\<lambda>c.
        bind_res (new_tool_runtime (rq_tools rq)
          (case rq_active_tool_names rq of None \<Rightarrow> map tl_name (rq_tools rq) | Some ns \<Rightarrow> ns)) (\<lambda>tt.
        Inr (engine_run \<E> rq tt fuel (initial_state rq hooks c)))))"

end
