(* ===== verification/RunProperties.thy ===== *)
theory RunProperties
  imports AgentRun
begin

text \<open>
  What a run guarantees. The locale \<open>run_frame\<close> states what a relation on states must allow for the
  engine to stay within it: publishing events of certain types, input arriving, and the engine's own
  updates. Its lemmas lift the relation from those effects to requests, tool calls, compactions and
  whole runs; each property is then an interpretation with the relation it needs.
\<close>

section \<open>Relations the engine respects\<close>

definition request_types :: "string set" where
  "request_types = {''context'', ''before_inference_request'', ''before_inference_context'',
     ''message_start'', ''message_update'', ''message_end'', ''auto_retry_start'', ''auto_retry_end''}"

definition tool_types :: "string set" where
  "tool_types = {''tool_execution_start'', ''tool_execution_update'', ''tool_execution_end'',
     ''tool_call'', ''tool_result''}"

definition compaction_types :: "string set" where
  "compaction_types = {''compaction_start'', ''compaction_end'', ''context_compacted''}"

locale run_frame = state_preorder R
  for R :: "'z run_state_scheme \<Rightarrow> 'z run_state_scheme \<Rightarrow> bool" +
  fixes \<E> :: "'e run_env_scheme" and allowed :: "string set"
  assumes emit_ok: "ty \<in> allowed \<Longrightarrow> steps R (emit \<E> ty data)"
    and hook_ok: "ty \<in> allowed \<Longrightarrow> steps R (hook \<E> ty data)"
    and await_ok: "steps R (await_point \<E>)"
    and drain_ok: "steps R (drain \<E> k mode)"
    and sent_ok: "provider_safe (ic_messages ctx) \<Longrightarrow> R s (s\<lparr>in_sent := in_sent s @ [(n, ctx)]\<rparr>)"
    and started_ok: "R s (s\<lparr>in_started := b\<rparr>)"
    and attempts_ok: "R s (s\<lparr>in_last_attempt := n, in_next_attempt := k'\<rparr>)"
    and append_ok: "R s (s\<lparr>rn_messages := rn_messages s @ [m], rn_new_messages := rn_new_messages s @ [m]\<rparr>)"
    and record_ok: "R s (s\<lparr>rn_new_messages := rn_new_messages s @ [m]\<rparr>)"
    and update_ok: "R s (s\<lparr>rn_messages := ms, rn_boundary_ms := bm, rn_boundary_index := bi, rn_context_update := cu\<rparr>)"
    and base_types: "request_types \<union> tool_types \<subseteq> allowed"
begin

lemma request_emit: "ty \<in> request_types \<Longrightarrow> steps R (emit \<E> ty data)"
  using emit_ok base_types by blast

lemma request_hook: "ty \<in> request_types \<Longrightarrow> steps R (hook \<E> ty data)"
  using hook_ok base_types by blast

lemma tool_emit: "ty \<in> tool_types \<Longrightarrow> steps R (emit \<E> ty data)"
  using emit_ok base_types by blast

lemma tool_hook: "ty \<in> tool_types \<Longrightarrow> steps R (hook \<E> ty data)"
  using hook_ok base_types by blast

lemma collect_events_ok: "steps R (collect_events \<E> m n es final)"
proof (induction es arbitrary: final)
  case Nil
  then show ?case by (simp add: steps_ret)
next
  case (Cons e es)
  then show ?case
    by (auto intro!: steps_seqc steps_modifies steps_reads started_ok request_emit simp: request_types_def)
qed

lemma collect_assistant_ok:
  assumes "provider_safe (ic_messages ctx)"
  shows "steps R (collect_assistant \<E> m ctx o' n)"
  unfolding collect_assistant_def Let_def
  by (auto intro!: steps_seqc steps_modifies steps_reads steps_throw steps_ret sent_ok started_ok
      collect_events_ok request_emit assms simp: request_types_def split: prod.split option.split)

lemma run_attempt_ok:
  assumes "provider_safe (ic_messages ctx)"
  shows "steps R (run_attempt \<E> m ctx o' n)"
proof -
  have "R s (snd (run_attempt \<E> m ctx o' n s))" for s
  proof -
    have "R (s\<lparr>in_started := False\<rparr>) (snd (collect_assistant \<E> m ctx o' n (s\<lparr>in_started := False\<rparr>)))"
      using collect_assistant_ok [OF assms] by (simp add: steps_def)
    then have "R s (snd (collect_assistant \<E> m ctx o' n (s\<lparr>in_started := False\<rparr>)))"
      using started_ok trans by blast
    then show ?thesis by (auto simp: run_attempt_def split: prod.split sum.split)
  qed
  then show ?thesis by (simp add: steps_def)
qed

lemma on_retry_ok: "steps R (on_retry \<E> data)"
  unfolding on_retry_def by (rule request_emit) (simp add: request_types_def)

lemma settle_ok: "steps R (settle_attempt n)"
  unfolding settle_attempt_def by (intro steps_modifies attempts_ok)

lemma request_loop_ok:
  assumes "provider_safe (ic_messages ctx)"
  shows "steps R (request_loop \<E> m ctx o' base k r attempt retried)"
proof (induction r arbitrary: attempt retried)
  case 0
  then show ?case by (simp add: request_loop.simps steps_throw)
next
  case (Suc r)
  then show ?case
    by (auto intro!: steps_seqc steps_if steps_ret steps_reads steps_modifies started_ok await_ok on_retry_ok
        settle_ok run_attempt_ok [OF assms] request_emit simp: request_loop.simps Let_def request_types_def)
qed

lemma request_ok: "steps R (request \<E> m ms prompt tools sid o')"
  unfolding request_def context_messages_def request_options_def patch_context_def Let_def
  by (auto intro!: steps_seqc steps_reads steps_ret steps_lift request_hook request_loop_ok
      simp: request_types_def normalize_inference_messages_def project_inference_messages_def
        project_entries_safe
      split: option.splits hval.splits json.splits)

lemma call_step_ok: "steps R (call_step \<E> tt c p)"
  by (cases p) (auto intro!: steps_seqc steps_try_cancel steps_reads steps_ret steps_lift steps_for_each
      tool_emit tool_hook simp: tool_types_def Let_def split: sum.split option.split hval.split prod.split)

lemma run_phases_ok: "steps R (run_phases \<E> tt c n p)"
  by (induction n arbitrary: p) (auto intro!: steps_seqc steps_ret call_step_ok)

lemma finish_call_ok: "steps R (finish_call \<E> tt c p)"
  unfolding finish_call_def
  by (auto intro!: steps_seqc run_phases_ok steps_ret steps_throw split: call_phase.split)

lemma synthetic_ok: "steps R (synthetic_call \<E> s c)"
  unfolding synthetic_call_def Let_def
  by (auto intro!: steps_seqc steps_reads steps_ret tool_emit simp: tool_types_def)

lemma sequential_ok: "steps R (execute_sequential \<E> tt cs)"
  by (induction cs) (auto intro!: steps_seqc steps_reads steps_ret steps_map_each finish_call_ok synthetic_ok
      simp: execute_call_def fail_unexecuted_call_def)

lemma schedule_ok: "steps R (run_schedule \<E> tt cs is ps)"
  by (induction "is" arbitrary: ps) (auto intro!: steps_seqc steps_ret call_step_ok)

lemma execute_calls_ok: "steps R (execute_calls \<E> tt cs)"
  unfolding execute_calls_def execute_parallel_def Let_def
  by (auto intro!: steps_seqc steps_reads steps_ret steps_map_each sequential_ok schedule_ok finish_call_ok)

lemma truncated_ok: "steps R (fail_truncated_calls \<E> cs)"
  unfolding fail_truncated_calls_def by (intro steps_map_each synthetic_ok)

lemma append_message_ok: "steps R (append_message \<E> m b a)"
  unfolding append_message_def
  by (auto intro!: steps_seqc steps_modifies append_ok steps_ret request_emit simp: request_types_def)

lemma append_all_ok: "steps R (for_each (\<lambda>m. append_message \<E> (f m) b a) ms)"
  by (intro steps_for_each append_message_ok)

lemma compact_ok: "compaction_types \<subseteq> allowed \<Longrightarrow> steps R (compact \<E> reason w)"
  unfolding compact_def
  by (auto intro!: steps_seqc steps_throw steps_reads steps_lift steps_modifies update_ok await_ok emit_ok
      simp: compaction_types_def split: option.split)

lemma compaction_failure_ok: "compaction_types \<subseteq> allowed \<Longrightarrow> steps R (compaction_failure \<E> reason e)"
  unfolding compaction_failure_def by (intro emit_ok) (auto simp: compaction_types_def)

lemma compact_or_report_ok: "compaction_types \<subseteq> allowed \<Longrightarrow> steps R (compact_or_report \<E> reason w)"
  unfolding compact_or_report_def by (intro steps_try_except compact_ok compaction_failure_ok)

lemma drain_steering_ok: "steps R (drain_steering \<E>)"
  unfolding drain_steering_def by (intro steps_seqc steps_reads drain_ok)

lemma drain_follow_up_ok: "steps R (drain_follow_up \<E>)"
  unfolding drain_follow_up_def by (intro steps_seqc steps_reads drain_ok)

lemma after_run_ok: "compaction_types \<subseteq> allowed \<Longrightarrow> steps R (after_run \<E> rq final)"
  unfolding after_run_def by (auto intro!: steps_seqc steps_reads steps_ret compact_or_report_ok)

end

text \<open>A relation that allows every event is kept by the whole run.\<close>

locale full_run_frame = run_frame +
  assumes all_allowed: "allowed = UNIV"
begin

lemma any_emit: "steps R (emit \<E> ty data)"
  by (rule emit_ok) (simp add: all_allowed)

lemma any_hook: "steps R (hook \<E> ty data)"
  by (rule hook_ok) (simp add: all_allowed)

lemma agent_end_ok: "steps R (agent_end \<E>)"
  unfolding agent_end_def by (intro steps_seqc steps_reads any_emit)

lemma compact_any: "steps R (compact \<E> reason w)"
  by (rule compact_ok) (simp add: all_allowed)

lemma failure_any: "steps R (compaction_failure \<E> reason e)"
  by (rule compaction_failure_ok) (simp add: all_allowed)

lemma recover_ok: "steps R (recover_overflow \<E> rq v final)"
  unfolding recover_overflow_def overflow_failed_def
  by (auto intro!: steps_seqc steps_reads steps_modifies steps_ret steps_try_except any_emit record_ok compact_any
      failure_any append_message_ok agent_end_ok)

lemma finish_turn_ok: "steps R (finish_turn \<E> tt v final)"
  unfolding finish_turn_def Let_def
  by (auto intro!: steps_seqc steps_reads steps_ret any_emit truncated_ok execute_calls_ok append_all_ok agent_end_ok
      drain_steering_ok split: prod.split)

lemma run_turn_ok: "steps R (run_turn \<E> rq tt prompt v)"
  unfolding run_turn_def Let_def stream_response_def
  by (auto intro!: steps_seqc steps_reads steps_ret any_emit append_all_ok request_ok recover_ok append_message_ok
      agent_end_ok finish_turn_ok)

lemma run_turns_ok: "steps R (run_turns \<E> rq tt prompt fuel v)"
proof (induction fuel arbitrary: v)
  case 0
  then show ?case by (simp add: steps_throw)
next
  case (Suc fuel)
  then show ?case
    by (auto intro!: steps_seqc steps_ret steps_throw run_turn_ok drain_follow_up_ok agent_end_ok
        split: sum.split option.split)
qed

lemma run_loop_ok: "steps R (run_loop \<E> rq tt initial prompt fuel)"
  unfolding run_loop_def
  by (auto intro!: steps_seqc steps_reads steps_ret any_emit steps_for_each append_message_ok agent_end_ok
      drain_steering_ok run_turns_ok)

lemma run_body_ok: "steps R (run_body \<E> rq tt fuel)"
  unfolding run_body_def Let_def finish_input_error_def
  by (auto intro!: steps_seqc steps_reads steps_ret steps_lift any_emit any_hook steps_for_each append_message_ok
      agent_end_ok run_loop_ok compact_or_report_ok after_run_ok simp: all_allowed split: option.split)

end

section \<open>Growth: the controller, the new messages and the contexts sent\<close>

definition run_ext :: "'z run_state_scheme \<Rightarrow> 'z run_state_scheme \<Rightarrow> bool" where
  "run_ext s t \<longleftrightarrow> ct_active t = ct_active s \<and> (ct_abort s \<longrightarrow> ct_abort t)
     \<and> prefix (rn_new_messages s) (rn_new_messages t)
     \<and> (list_all (\<lambda>(n, c). provider_safe (ic_messages c)) (in_sent s)
        \<longrightarrow> list_all (\<lambda>(n, c). provider_safe (ic_messages c)) (in_sent t))"

lemma ct_run_ext:
  assumes "ct_extends s t"
  shows "run_ext s t"
proof -
  have t: "t = s\<lparr>ds_trace := ds_trace t, ds_heard := ds_heard t, ct_steer := ct_steer t,
        ct_follow_up := ct_follow_up t, ct_abort := ct_abort t\<rparr>"
    using assms by (simp add: ct_extends_def)
  have "rn_new_messages t = rn_new_messages s" "in_sent t = in_sent s" by (subst t, simp)+
  then show ?thesis using ct_extendsD [OF assms] by (simp add: run_ext_def)
qed

interpretation ext: full_run_frame "run_ext :: 'z run_state_scheme \<Rightarrow> _" \<E> UNIV for \<E> :: "'e run_env_scheme"
proof unfold_locales
  fix s t u :: "'z run_state_scheme"
  show "run_ext s s" by (simp add: run_ext_def)
  show "run_ext s t \<Longrightarrow> run_ext t u \<Longrightarrow> run_ext s u" by (auto simp: run_ext_def)
qed (auto intro: steps_weaken [OF emit_ct ct_run_ext] steps_weaken [OF hook_ct ct_run_ext]
    steps_weaken [OF await_point_ct ct_run_ext] steps_weaken [OF drain_ct ct_run_ext] simp: run_ext_def)

text \<open>The state the body of a run leaves, before the run settles.\<close>

definition body_run :: "'e run_env_scheme \<Rightarrow> run_request \<Rightarrow> tool_runtime \<Rightarrow> nat \<Rightarrow> 'z run_state_scheme
    \<Rightarrow> (exn + run_result) \<times> 'z run_state_scheme" where
  "body_run \<E> rq tt fuel s = run_body \<E> rq tt fuel (s\<lparr>ct_active := True, ct_abort := False\<rparr>)"

lemma engine_run_idle:
  assumes "\<not> ct_active s"
  shows "engine_run \<E> rq tt fuel s =
     (case emit \<E> ''settled'' [(''nextTurnCount'', JInt 0)] (snd (body_run \<E> rq tt fuel s)) of
        (Inl e, v) \<Rightarrow> (Inl e, v)
      | (Inr _, v) \<Rightarrow> (fst (body_run \<E> rq tt fuel s),
          v\<lparr>ct_active := False, ct_steer := [], ct_follow_up := [], ct_abort := False\<rparr>))"
  using assms
  by (auto simp: engine_run_def body_run_def bind_controller_def release_controller_def seqc_def reads_def
      modifies_def try_finally_def split: prod.split sum.split)

lemma engine_run_busy:
  "ct_active s \<Longrightarrow> engine_run \<E> rq tt fuel s =
     (Inl (RunError ''busy'' ''RunController is already bound to an active run''), s)"
  by (simp add: engine_run_def bind_controller_def seqc_def reads_def throw_def)

lemma run_agent_engine:
  assumes "run_agent \<E> rq hooks ctl fuel = Inr (r, t)"
  obtains c tt where "engine_run \<E> rq tt fuel (initial_state rq hooks c) = (r, t)"
    and "\<And>c'. ctl = Some c' \<Longrightarrow> c = c'" and "ctl = None \<Longrightarrow> \<not> ct_active c"
proof -
  obtain c tt where c: "(case ctl of None \<Rightarrow> new_controller (rq_steering_mode rq) (rq_follow_up_mode rq)
      | Some c \<Rightarrow> Inr c) = Inr c" and e: "engine_run \<E> rq tt fuel (initial_state rq hooks c) = (r, t)"
    using assms by (auto simp: run_agent_def split: if_splits elim!: bind_res_InrE)
  show thesis
  proof (rule that [OF e])
    show "ctl = Some c' \<Longrightarrow> c = c'" for c' using c by simp
    show "ctl = None \<Longrightarrow> \<not> ct_active c"
      using c by (auto simp: new_controller_def elim!: bind_res_InrE)
  qed
qed

text \<open>
  C14. Every context a run hands to the provider, in any turn, on any retry, after any compaction and
  whatever the hooks replace, obeys the provider's protocol.
\<close>

theorem run_contexts_are_safe:
  "case run_agent \<E> rq hooks ctl fuel of
     Inl e \<Rightarrow> True
   | Inr (r, t) \<Rightarrow> list_all (\<lambda>(n, c). provider_safe (ic_messages c)) (in_sent t)"
proof (cases "run_agent \<E> rq hooks ctl fuel")
  case (Inr x)
  obtain r t where x: "x = (r, t)" by (cases x)
  obtain c tt where e: "engine_run \<E> rq tt fuel (initial_state rq hooks c) = (r, t)"
    using run_agent_engine Inr x by metis
  let ?s = "initial_state rq hooks c"
  have init: "list_all (\<lambda>(n, c). provider_safe (ic_messages c)) (in_sent ?s)" by (simp add: initial_state_def)
  have "list_all (\<lambda>(n, c). provider_safe (ic_messages c)) (in_sent t)"
  proof (cases "ct_active ?s")
    case True
    then show ?thesis using e init by (simp add: engine_run_busy)
  next
    case False
    define u where "u = snd (body_run \<E> rq tt fuel ?s)"
    have "run_ext (?s\<lparr>ct_active := True, ct_abort := False\<rparr>) u"
      unfolding u_def body_run_def by (rule ext.run_body_ok [unfolded steps_def, rule_format])
    moreover have "run_ext u (snd (emit \<E> ''settled'' [(''nextTurnCount'', JInt 0)] u))"
      by (rule ext.any_emit [unfolded steps_def, rule_format])
    ultimately show ?thesis
      using e init unfolding engine_run_idle [OF False] u_def [symmetric]
      by (auto simp: run_ext_def split: prod.splits sum.splits)
  qed
  then show ?thesis using Inr x by simp
qed simp


definition example_message :: assistant_message where
  "example_message = \<lparr>am_content = [TextContent ''done''], am_provider = ''p'', am_model = ''m'',
     am_usage = empty_usage, am_stop_reason = ''stop'', am_error = None, am_timestamp = 0\<rparr>"

definition example_run_env :: run_env where
  "example_run_env = \<lparr>env_sink = \<lambda>_ _. None, env_listener = \<lambda>_ _ _. None, env_handler = \<lambda>_ _ _. Inr None,
     env_commands = \<lambda>_. [], env_now = \<lambda>t. int t,
     env_infer = \<lambda>_ _ _ _. ([\<lparr>se_type = ''done'', se_delta = [], se_content_index = None,
        se_tool_call_index = None, se_tool_call_id = None, se_tool_name = None,
        se_message = Some example_message\<rparr>], None),
     env_sleep = \<lambda>_ _. False, env_prepare = \<lambda>_ _ a. Inr a, env_validate = \<lambda>_ _. None,
     env_execute = \<lambda>_ _ _ _. ([], Inr (text_result ''ok'' False)), env_schedule = \<lambda>_. [],
     env_compactor = None\<rparr>"

definition example_request :: run_request where
  "example_request = \<lparr>rq_run_id = ''r1'',
     rq_model = \<lparr>mi_id = ''m'', mi_name = ''m'', mi_provider = ''p'', mi_reasoning = False, mi_input = [''text''],
        mi_context_window = 1000, mi_max_output_tokens = 100, mi_cost = []\<rparr>,
     rq_messages = [], rq_input = [\<lparr>um_content = UserText ''hello'', um_timestamp = 0\<rparr>],
     rq_system_prompt = [], rq_tools = [], rq_active_tool_names = None,
     rq_stream_options = \<lparr>so_timeout_ms = None, so_max_tokens = None, so_temperature = None,
        so_thinking_level = ''off'', so_max_retries = None, so_base_delay_ms = 2000,
        so_max_retry_delay_ms = 60000, so_headers = [], so_metadata = []\<rparr>,
     rq_context_policy = \<lparr>cp_enabled = True, cp_reserve_tokens = 100, cp_keep_recent_tokens = 100\<rparr>,
     rq_steering_mode = ''all'', rq_follow_up_mode = ''all'', rq_context_id = None,
     rq_boundary_ms = None, rq_boundary_index = None\<rparr>"

lemma example_run_starts: "\<exists>r t. run_agent example_run_env example_request [] None fuel = Inr (r, t)"
proof -
  have "str_strip ''r1'' \<noteq> []" by code_simp
  then show ?thesis
    by (simp add: run_agent_def example_request_def new_controller_def validate_mode_def new_tool_runtime_def
        validate_active_names_def dedup_def Let_def)
qed


section \<open>The life of a run as its listeners see it\<close>

definition life_types :: "string set" where
  "life_types = {''agent_start'', ''turn_start'', ''turn_end'', ''agent_end'', ''settled''}"

definition life :: "'z dispatcher_state_scheme \<Rightarrow> string list" where
  "life s = filter (\<lambda>ty. ty \<in> life_types) (map ev_type (own s))"

definition life_same :: "'z dispatcher_state_scheme \<Rightarrow> 'z dispatcher_state_scheme \<Rightarrow> bool" where
  "life_same s t \<longleftrightarrow> life t = life s"

lemma own_life: "own_same s t \<Longrightarrow> life_same s t"
  by (simp add: own_same_def life_same_def life_def)

lemma emit_life:
  "ty \<noteq> ''queue_update'' \<Longrightarrow> ty \<noteq> ''abort'' \<Longrightarrow>
     life (snd (emit \<E> ty data s)) = life s @ (if ty \<in> life_types then [ty] else [])"
  by (simp add: life_def emit_own own_event_def)

lemma unowned_emit: "\<not> own_event \<lparr>ev_type = ty, ev_data = data\<rparr> \<Longrightarrow> steps own_same (emit \<E> ty data)"
  unfolding emit_def by (intro os.steps_seqc emit_raw_own_same await_point_own)

lemma emit_life_same: "ty \<notin> life_types \<Longrightarrow> steps life_same (emit \<E> ty data)"
  by (cases "own_event \<lparr>ev_type = ty, ev_data = data\<rparr>")
     (simp add: steps_def life_same_def life_def emit_own, rule steps_weaken [OF unowned_emit own_life])

lemma hook_life:
  assumes "ty \<notin> life_types"
  shows "life (snd (hook \<E> ty data s)) = life s"
proof -
  have "life (snd (emit \<E> ty data s)) = life s"
    by (rule emit_life_same [OF assms, unfolded steps_def life_same_def, rule_format])
  then show ?thesis
    by (auto simp: hook_def seqc_def reads_def run_handlers_same split: prod.split sum.split)
qed

lemma hook_life_same: "ty \<notin> life_types \<Longrightarrow> steps life_same (hook \<E> ty data)"
  by (simp add: steps_def life_same_def hook_life)

interpretation lf: run_frame "life_same :: 'z run_state_scheme \<Rightarrow> _" \<E> "- life_types" for \<E> :: "'e run_env_scheme"
proof unfold_locales
  show "request_types \<union> tool_types \<subseteq> - life_types"
    by (auto simp: request_types_def tool_types_def life_types_def)
qed (auto intro: emit_life_same hook_life_same steps_weaken [OF await_point_own own_life]
    steps_weaken [OF drain_own own_life] simp: life_same_def life_def own_def)

lemma compaction_not_life: "compaction_types \<subseteq> - life_types"
  by (auto simp: compaction_types_def life_types_def)

lemma life_wp:
  assumes "steps life_same m" and "\<And>x t. life t = life s \<Longrightarrow> Q x t"
  shows "wp m Q (\<lambda>_ _. True) s"
  by (rule wp_mono [OF steps_to_wp [OF assms(1)]]) (simp_all add: assms(2) life_same_def)

lemma emit_life_wp:
  assumes "ty \<noteq> ''queue_update''" and "ty \<noteq> ''abort''"
    and "\<And>t. life t = life s @ (if ty \<in> life_types then [ty] else []) \<Longrightarrow> Q () t"
  shows "wp (emit \<E> ty data) Q (\<lambda>_ _. True) s"
  using emit_life [OF assms(1,2), of \<E> data s] assms(3) by (auto simp: wp_def split: prod.split sum.split)

lemma life_seq:
  assumes "steps life_same m" and "\<And>x t. life t = life s \<Longrightarrow> wp (f x) Q (\<lambda>_ _. True) t"
  shows "wp (seqc m f) Q (\<lambda>_ _. True) s"
  unfolding wp_seqc by (rule life_wp [OF assms])

lemma emit_life_seq:
  assumes "ty \<noteq> ''queue_update''" and "ty \<noteq> ''abort''"
    and "\<And>t. life t = life s @ (if ty \<in> life_types then [ty] else []) \<Longrightarrow> wp (f ()) Q (\<lambda>_ _. True) t"
  shows "wp (seqc (emit \<E> ty data) f) Q (\<lambda>_ _. True) s"
  unfolding wp_seqc by (rule emit_life_wp [OF assms(1,2)]) (rule assms(3))

lemma reads_seq: "wp (f (g s)) Q E s \<Longrightarrow> wp (seqc (reads g) f) Q E s"
  by simp

lemma agent_end_seq:
  assumes "\<And>t. life t = life s @ [''agent_end''] \<Longrightarrow> wp (f ()) Q (\<lambda>_ _. True) t"
  shows "wp (seqc (agent_end \<E>) f) Q (\<lambda>_ _. True) s"
  unfolding wp_seqc agent_end_def wp_basic
  by (rule emit_life_wp) (simp_all add: life_types_def assms)

lemma turn_end_seq:
  assumes "\<And>t. life t = life s @ [''turn_end''] \<Longrightarrow> wp (f ()) Q (\<lambda>_ _. True) t"
  shows "wp (seqc (emit \<E> ''turn_end'' data) f) Q (\<lambda>_ _. True) s"
  by (rule emit_life_seq) (simp_all add: life_types_def assms)

lemmas life_parts = lf.append_message_ok lf.append_all_ok lf.request_ok lf.execute_calls_ok lf.truncated_ok
  lf.drain_steering_ok lf.drain_follow_up_ok lf.compact_ok [OF compaction_not_life]
  lf.compact_or_report_ok [OF compaction_not_life] lf.compaction_failure_ok [OF compaction_not_life]
  lf.after_run_ok [OF compaction_not_life]

lemma message_end_same: "steps life_same (emit \<E> ''message_end'' data)"
  by (rule emit_life_same) (simp add: life_types_def)

text \<open>What one turn adds: its end, and the end of the agent when the turn is the last.\<close>

definition turn_life :: "string list \<Rightarrow> assistant_message + loop_vars \<Rightarrow> 'z dispatcher_state_scheme \<Rightarrow> bool" where
  "turn_life l r t \<longleftrightarrow> (case r of Inl _ \<Rightarrow> life t = l @ [''turn_end'', ''agent_end'']
     | Inr v \<Rightarrow> life t = l @ [''turn_end''] \<and> \<not> lv_first v \<and> lv_final v \<noteq> None)"

lemma overflow_failed_life:
  "wp (overflow_failed \<E> rq final e) (\<lambda>_ t. life t = life s @ [''agent_end'']) (\<lambda>_ _. True) s"
  unfolding overflow_failed_def
  by (intro life_seq [OF life_parts(10)] reads_seq life_seq agent_end_seq)
     (auto intro!: lf.steps_rules life_parts)

lemma record_life: "steps life_same (modifies (\<lambda>s. s\<lparr>rn_new_messages := rn_new_messages s @ [m]\<rparr>))"
  by (intro lf.steps_modifies lf.record_ok)

lemma recover_life:
  assumes "\<not> lv_first v"
  shows "wp (recover_overflow \<E> rq v final) (turn_life (life s)) (\<lambda>_ _. True) s"
  unfolding recover_overflow_def
proof (intro reads_seq life_seq [OF message_end_same] life_seq [OF record_life] turn_end_seq, goal_cases)
  case (1 _ t _ u w)
  then have w: "life w = life s @ [''turn_end'']" by simp
  show ?case
    unfolding wp_try_except wp_seqc
    by (rule wp_mono [OF steps_to_wp [OF life_parts(8)]])
       (use w assms in \<open>auto simp: turn_life_def life_same_def intro!: wp_mono [OF overflow_failed_life]\<close>)
qed

lemma tools_life:
  "steps life_same ((if calls = [] then ret ([], False)
      else if b then seqc (fail_truncated_calls \<E> calls) (\<lambda>rs. ret (rs, False)) else execute_calls \<E> tt calls)
    :: ('z run_state_scheme, tool_result_message list \<times> bool) comp)" for \<E> :: "'e run_env_scheme"
  by (intro lf.steps_rules life_parts)

lemma finish_turn_life:
  assumes "\<not> lv_first v"
  shows "wp (finish_turn \<E> tt v final) (turn_life (life s)) (\<lambda>_ _. True) s"
proof -
  show ?thesis
    unfolding finish_turn_def Let_def
  proof (rule life_seq [OF tools_life], unfold prod.case_eq_if, rule life_seq [OF life_parts(2)],
      rule turn_end_seq, rule reads_seq, goal_cases)
    case (1 x t _ u w)
    then have w: "life w = life s @ [''turn_end'']" by simp
    show ?case
      using assms w
      by (auto intro!: agent_end_seq life_seq [OF life_parts(6)] simp: turn_life_def simp del: wp_seqc)
  qed
qed

lemma run_turn_life:
  "wp (run_turn \<E> rq tt prompt v)
     (turn_life (life s @ (if lv_first v then [] else [''turn_start'']))) (\<lambda>_ _. True) s"
proof -
  let ?l = "life s @ (if lv_first v then [] else [''turn_start''])"
  let ?v = "v\<lparr>lv_first := False, lv_pending := []\<rparr>"
  have start: "wp (if lv_first v then ret () else emit \<E> ''turn_start'' []) (\<lambda>_ t. life t = ?l) (\<lambda>_ _. True) s"
    by (auto intro!: emit_life_wp simp: life_types_def)
  have req: "steps life_same (stream_response \<E> rq tt prompt)"
    unfolding stream_response_def by (intro lf.steps_rules life_parts)
  have v: "\<not> lv_first ?v" by simp
  show ?thesis
    unfolding run_turn_def Let_def
  proof (subst wp_seqc, rule wp_mono [OF start], rule life_seq [OF life_parts(2)], rule life_seq [OF req], goal_cases)
    case (1 _ t _ u resp w)
    then have w: "life w = ?l" by simp
    show ?case
      using w recover_life [OF v, of \<E> rq resp w]
      by (auto simp del: wp_seqc simp: turn_life_def intro!: reads_seq life_seq [OF life_parts(1)] turn_end_seq agent_end_seq
          wp_mono [OF finish_turn_life] split: sum.split)
  qed simp
qed

definition turns :: "nat \<Rightarrow> string list" where
  "turns n = concat (replicate n [''turn_start'', ''turn_end''])"

lemma turns_Suc: "turns (Suc n) = [''turn_start'', ''turn_end''] @ turns n"
  by (simp add: turns_def)

lemma turns_end: "turns n @ [''turn_start'', ''turn_end''] = turns (Suc n)"
  by (induction n) (simp_all add: turns_def)

lemma run_turns_life:
  "\<not> lv_first v \<Longrightarrow> wp (run_turns \<E> rq tt prompt fuel v)
     (\<lambda>_ t. \<exists>n. life t = life s @ turns n @ [''agent_end'']) (\<lambda>_ _. True) s"
proof (induction fuel arbitrary: v s)
  case 0
  then show ?case by simp
next
  case (Suc fuel)
  show ?case
  proof (cases "lv_more v \<or> lv_pending v \<noteq> []")
    case True
    show ?thesis
      unfolding run_turns.simps if_P [OF True] wp_seqc
    proof (rule wp_mono [OF run_turn_life], goal_cases)
      case (1 r t)
      show ?case
      proof (cases r)
        case (Inl final)
        with 1 Suc.prems show ?thesis
          by (auto simp: turn_life_def turns_def intro!: exI [of _ 1])
      next
        case (Inr v')
        with 1 Suc.prems have v': "\<not> lv_first v'" and t: "life t = life s @ turns 1"
          by (auto simp: turn_life_def turns_def)
        show ?thesis
          unfolding Inr sum.case
        proof (rule wp_mono [OF Suc.IH [OF v']])
          fix t' assume "\<exists>n. life t' = life t @ turns n @ [''agent_end'']"
          then show "\<exists>n. life t' = life s @ turns n @ [''agent_end'']"
            by (metis One_nat_def append.assoc t turns_Suc turns_def concat.simps(1) replicate_0 append_Nil2)
        qed simp
      qed
    qed simp
  next
    case False
    have v': "\<not> lv_first (v\<lparr>lv_more := True, lv_pending := fu\<rparr>)" for fu using Suc.prems by simp
    show ?thesis
      unfolding run_turns.simps if_not_P [OF False]
    proof (rule life_seq [OF life_parts(7)], goal_cases)
      case (1 fu t)
      show ?case
        using 1 wp_mono [OF Suc.IH [OF v', of fu t]]
        by (auto simp del: wp_seqc intro!: agent_end_seq exI [of _ 0] simp: turns_def split: option.split)
    qed
  qed
qed

lemma first_turns_life:
  assumes "lv_more v" and "lv_first v"
  shows "wp (run_turns \<E> rq tt prompt fuel v)
     (\<lambda>_ t. \<exists>n. life t = life s @ [''turn_end''] @ turns n @ [''agent_end'']) (\<lambda>_ _. True) s"
proof (cases fuel)
  case 0
  then show ?thesis by simp
next
  case (Suc f)
  have c: "lv_more v \<or> lv_pending v \<noteq> []" using assms by simp
  show ?thesis
    unfolding Suc run_turns.simps if_P [OF c] wp_seqc
  proof (rule wp_mono [OF run_turn_life], goal_cases)
    case (1 r t)
    show ?case
    proof (cases r)
      case (Inl final)
      then show ?thesis using 1 assms(2) by (auto simp: turn_life_def turns_def intro!: exI [of _ 0])
    next
      case (Inr v')
      then show ?thesis
        using 1 assms(2) by (auto simp: turn_life_def intro!: wp_mono [OF run_turns_life])
    qed
  qed simp
qed

definition complete_life :: "string list \<Rightarrow> bool" where
  "complete_life l \<longleftrightarrow> (\<exists>n. l = [''agent_start''] @ turns (Suc n) @ [''agent_end''])"

lemma loop_life:
  "wp (run_loop \<E> rq tt initial prompt fuel) (\<lambda>_ t. \<exists>l. life t = life s @ l \<and> complete_life l) (\<lambda>_ _. True) s"
proof -
  have open_run: "(\<exists>l. life t = life s @ l \<and> complete_life l)"
    if "life u = life s @ [''agent_start'', ''turn_start'']" "life t = life u @ [''turn_end''] @ turns n @ [''agent_end'']"
    for t u :: "'b dispatcher_state_scheme" and n s
    using that by (auto simp: complete_life_def turns_Suc)
  show ?thesis
    unfolding run_loop_def
  proof (intro emit_life_seq life_seq [OF life_parts(2)] reads_seq, goal_cases)
    case (5 t u _ w)
    then have w: "life w = life s @ [''agent_start'', ''turn_start'']" by (simp add: life_types_def)
    show ?case
    proof (cases "ct_abort w")
      case True
      show ?thesis
        unfolding if_P [OF True]
        by (intro reads_seq life_seq [OF life_parts(1)] turn_end_seq agent_end_seq)
           (use w in \<open>auto simp: complete_life_def turns_def intro!: exI [of _ 0]\<close>)
    next
      case False
      show ?thesis
        unfolding if_not_P [OF False]
      proof (rule life_seq [OF life_parts(6)], goal_cases)
        case (1 p x)
        then have x: "life x = life s @ [''agent_start'', ''turn_start'']" using w by simp
        show ?case
          by (rule wp_mono [OF first_turns_life]) (use x in \<open>auto simp: complete_life_def turns_Suc\<close>)
      qed
    qed
  qed simp_all
qed

lemma input_error_life:
  "wp (finish_input_error \<E> initial final) (\<lambda>_ t. \<exists>l. life t = life s @ l \<and> complete_life l) (\<lambda>_ _. True) s"
  unfolding finish_input_error_def
  by (intro emit_life_seq life_seq [OF life_parts(2)] life_seq [OF life_parts(1)] turn_end_seq agent_end_seq)
     (auto simp: complete_life_def turns_def life_types_def intro!: exI [of _ 0])

lemma body_life:
  "wp (run_body \<E> rq tt fuel) (\<lambda>_ t. \<exists>l. life t = life s @ l \<and> complete_life l) (\<lambda>_ _. True) s"
proof -
  show ?thesis
    unfolding run_body_def Let_def
  proof (intro life_seq [OF hook_life_same] life_seq [OF lf.steps_lift] reads_seq, goal_cases)
    case 1
    then show ?case by (simp add: life_types_def)
  next
    case (2 h t initial u)
    then have u: "life u = life s" by simp
    show ?case
    proof (cases "oversized_input_error (now_at \<E> u) rq initial")
      case (Some err)
      show ?thesis
        unfolding Some option.case wp_seqc
        by (rule wp_mono [OF input_error_life]) (use u in \<open>auto split: sum.split\<close>)
    next
      case None
      show ?thesis
        unfolding None option.case
      proof (rule reads_seq, rule life_seq, goal_cases)
        case 1
        show ?case by (intro lf.steps_rules life_parts)
      next
        case (2 _ w)
        show ?case
          unfolding wp_seqc
          by (rule wp_mono [OF loop_life])
             (use u 2 in \<open>auto intro!: life_wp [OF life_parts(11)] split: sum.split\<close>)
      qed
    qed
  qed
qed

text \<open>
  C6. What listeners see of a completed run is one \<open>agent_start\<close>, at least one turn, each opened by
  \<open>turn_start\<close> and closed by \<open>turn_end\<close> before the next, one \<open>agent_end\<close> and one \<open>settled\<close>, in this
  order, whatever queues, retries, compactions, tools, hooks and cancellations do in between.
\<close>

theorem run_lifecycle:
  "case run_agent \<E> rq hooks ctl fuel of
     Inr (Inr rr, t) \<Rightarrow> (\<exists>n. life t = [''agent_start''] @ turns (Suc n) @ [''agent_end'', ''settled''])
   | _ \<Rightarrow> True"
proof -
  have "\<exists>n. life t = [''agent_start''] @ turns (Suc n) @ [''agent_end'', ''settled'']"
    if a: "run_agent \<E> rq hooks ctl fuel = Inr (Inr rr, t)" for rr t
  proof -
    obtain c tt where e: "engine_run \<E> rq tt fuel (initial_state rq hooks c) = (Inr rr, t)"
      using run_agent_engine [OF a] by metis
    let ?s = "initial_state rq hooks c"
    have idle: "\<not> ct_active ?s" using e by (auto simp: engine_run_busy)
    define r where "r = fst (body_run \<E> rq tt fuel ?s)"
    define u where "u = snd (body_run \<E> rq tt fuel ?s)"
    define v where "v = snd (emit \<E> ''settled'' [(''nextTurnCount'', JInt 0)] u)"
    have r: "r = Inr rr" and t: "t = v\<lparr>ct_active := False, ct_steer := [], ct_follow_up := [], ct_abort := False\<rparr>"
      using e unfolding engine_run_idle [OF idle] r_def [symmetric] u_def [symmetric]
      by (auto simp: v_def split: prod.splits sum.splits)
    have "life ?s = []" by (simp add: initial_state_def life_def own_def)
    then obtain l where "life u = l" "complete_life l"
      using body_life [of \<E> rq tt fuel "?s\<lparr>ct_active := True, ct_abort := False\<rparr>"] r
      unfolding r_def u_def body_run_def
      by (auto simp: wp_def life_def own_def split: prod.splits sum.splits)
    moreover have "life v = life u @ [''settled'']"
      unfolding v_def by (simp add: emit_life life_types_def)
    ultimately show ?thesis by (auto simp: complete_life_def t life_def own_def)
  qed
  then show ?thesis by (auto split: sum.split prod.split)
qed

section \<open>Compactions are bounded\<close>

definition compactions :: "(json \<Rightarrow> bool) \<Rightarrow> 'z dispatcher_state_scheme \<Rightarrow> nat" where
  "compactions P s = length (filter (\<lambda>e. ev_type e = ''compaction_start'' \<and> P (jget (ev_data e) ''reason'')) (own s))"

definition comp_same :: "(json \<Rightarrow> bool) \<Rightarrow> 'z dispatcher_state_scheme \<Rightarrow> 'z dispatcher_state_scheme \<Rightarrow> bool" where
  "comp_same P s t \<longleftrightarrow> compactions P t = compactions P s"

lemma own_comp: "own_same s t \<Longrightarrow> comp_same P s t"
  by (simp add: own_same_def comp_same_def compactions_def)

lemma emit_comp: "ty \<noteq> ''compaction_start'' \<Longrightarrow> steps (comp_same P) (emit \<E> ty data)"
  by (cases "own_event \<lparr>ev_type = ty, ev_data = data\<rparr>")
     (simp add: steps_def comp_same_def compactions_def emit_own, rule steps_weaken [OF unowned_emit own_comp])

lemma hook_comp_eq:
  assumes "ty \<noteq> ''compaction_start''"
  shows "compactions P (snd (hook \<E> ty data s)) = compactions P s"
proof -
  have "compactions P (snd (emit \<E> ty data s)) = compactions P s"
    by (rule emit_comp [OF assms, unfolded steps_def comp_same_def, rule_format])
  then show ?thesis
    by (auto simp: hook_def seqc_def reads_def run_handlers_same split: prod.split sum.split)
qed

lemma hook_comp: "ty \<noteq> ''compaction_start'' \<Longrightarrow> steps (comp_same P) (hook \<E> ty data)"
  by (simp add: steps_def comp_same_def hook_comp_eq)

interpretation cf: run_frame "comp_same P :: 'z run_state_scheme \<Rightarrow> _" \<E> "- {''compaction_start''}"
  for P and \<E> :: "'e run_env_scheme"
proof unfold_locales
  show "request_types \<union> tool_types \<subseteq> - {''compaction_start''}"
    by (auto simp: request_types_def tool_types_def)
qed (auto intro: emit_comp hook_comp steps_weaken [OF await_point_own own_comp]
    steps_weaken [OF drain_own own_comp] simp: comp_same_def compactions_def own_def)

lemma comp_le:
  assumes "steps (comp_same P) m" and "compactions P s \<le> k"
  shows "wp m (\<lambda>_ t. compactions P t \<le> k) (\<lambda>_ t. compactions P t \<le> k) s"
  by (rule wp_mono [OF steps_to_wp [OF assms(1)]]) (use assms(2) in \<open>simp_all add: comp_same_def\<close>)

lemma comp_seq:
  assumes "steps (comp_same P) m" and "compactions P s \<le> k"
    and "\<And>x t. compactions P t \<le> k \<Longrightarrow> wp (f x) Q (\<lambda>_ t. compactions P t \<le> k') t" and "k \<le> k'"
  shows "wp (seqc m f) Q (\<lambda>_ t. compactions P t \<le> k') s"
  unfolding wp_seqc by (rule wp_mono [OF comp_le [OF assms(1,2)]]) (use assms(3,4) in auto)

definition weight :: "(json \<Rightarrow> bool) \<Rightarrow> string \<Rightarrow> nat" where
  "weight P reason = (if P (JStr reason) then 1 else 0)"

lemma compact_count:
  assumes "compactions P s \<le> k"
  shows "wp (compact \<E> reason w) (\<lambda>_ t. compactions P t \<le> k + weight P reason)
     (\<lambda>_ t. compactions P t \<le> k + weight P reason) s"
proof (cases "env_compactor \<E>")
  case None
  with assms show ?thesis by (simp add: compact_def)
next
  case (Some c)
  have "compactions P (snd (emit \<E> ''compaction_start'' [(''reason'', JStr reason)] s)) \<le> k + weight P reason"
    using assms by (simp add: compactions_def emit_own own_event_def weight_def jget_def)
  then have "wp (emit \<E> ''compaction_start'' [(''reason'', JStr reason)]) (\<lambda>_ t. compactions P t \<le> k + weight P reason)
     (\<lambda>_ t. compactions P t \<le> k + weight P reason) s"
    by (auto simp: wp_def split: prod.split sum.split)
  then show ?thesis
    unfolding compact_def Some option.case
    by (subst wp_seqc, elim wp_mono)
       (auto intro!: comp_le cf.steps_seqc cf.steps_reads cf.steps_lift cf.steps_modifies cf.await_ok cf.update_ok emit_comp
          simp del: wp_seqc)
qed

text \<open>The budget: what the counted compactions of a turn may add, given the attempts already made.\<close>

definition budget :: "(json \<Rightarrow> bool) \<Rightarrow> loop_vars \<Rightarrow> nat" where
  "budget P v = weight P ''overflow'' * (2 - lv_overflow v)"

definition turn_budget :: "(json \<Rightarrow> bool) \<Rightarrow> nat \<Rightarrow> assistant_message + loop_vars \<Rightarrow> 'z dispatcher_state_scheme \<Rightarrow> bool" where
  "turn_budget P k r t \<longleftrightarrow> (case r of Inl _ \<Rightarrow> compactions P t \<le> k | Inr v \<Rightarrow> compactions P t + budget P v \<le> k)"

lemma not_start: "compaction_types - {''compaction_start''} \<subseteq> - {''compaction_start''}"
  by auto

lemma failure_comp: "steps (comp_same P) (compaction_failure \<E> reason e)"
  unfolding compaction_failure_def by (rule emit_comp) simp

lemma agent_end_comp: "steps (comp_same P) (agent_end \<E>)"
  unfolding agent_end_def by (intro cf.steps_seqc cf.steps_reads emit_comp) simp

lemmas comp_parts = cf.steps_rules cf.append_message_ok cf.append_all_ok cf.request_ok cf.execute_calls_ok
  cf.truncated_ok cf.drain_steering_ok cf.drain_follow_up_ok cf.record_ok emit_comp failure_comp agent_end_comp

lemma overflow_failed_comp: "steps (comp_same P) (overflow_failed \<E> rq final e)"
  unfolding overflow_failed_def by (intro comp_parts)

lemma finish_turn_comp: "steps (comp_same P) (finish_turn \<E> tt v final)"
  unfolding finish_turn_def Let_def by (auto intro!: comp_parts split: prod.split)

lemma any_seq: "(\<And>x t. wp (f x) Q (\<lambda>_ _. True) t) \<Longrightarrow> wp (seqc m f) Q (\<lambda>_ _. True) s"
  unfolding wp_seqc by (simp add: wp_def split: prod.split sum.split)

lemma finish_turn_vars:
  "wp (finish_turn \<E> tt v final) (\<lambda>r _. \<forall>v'. r = Inr v' \<longrightarrow> lv_overflow v' = lv_overflow v) (\<lambda>_ _. True) s"
proof -
  have tail: "wp (if b then seqc (agent_end \<E>) (\<lambda>_. ret (Inl final)) else seqc (drain_steering \<E>) (\<lambda>p. ret (Inr
      (v\<lparr>lv_more := m, lv_pending := p, lv_final := Some final\<rparr>))))
      (\<lambda>r _. \<forall>v'. r = Inr v' \<longrightarrow> lv_overflow v' = lv_overflow v) (\<lambda>_ _. True) t" for b m t
    by (cases b; simp only: if_True if_False; rule any_seq; simp)
  show ?thesis
    unfolding finish_turn_def Let_def prod.case_eq_if
    by (intro any_seq, rule tail)
qed

lemma start_comp:
  "steps (comp_same P) ((if b then ret () else emit \<E> ''turn_start'' []) :: ('z run_state_scheme, unit) comp)"
  for \<E> :: "'e run_env_scheme"
  by (auto intro!: comp_parts)

lemma recover_count:
  assumes "lv_overflow v < 2" and "compactions P s + budget P v \<le> k"
  shows "wp (recover_overflow \<E> rq v final) (turn_budget P k) (\<lambda>_ t. compactions P t \<le> k) s"
proof -
  have b: "budget P v = budget P (v\<lparr>lv_overflow := lv_overflow v + 1, lv_final := Some final\<rparr>) + weight P ''overflow''"
    using assms(1) by (cases "lv_overflow v = 0") (auto simp: budget_def)
  let ?k = "k - budget P v"
  have s: "compactions P s \<le> ?k" and k: "?k \<le> k" "?k + budget P v = k" using assms(2) by simp_all
  show ?thesis
    unfolding recover_overflow_def
  proof (rule reads_seq, rule comp_seq [OF emit_comp s _ k(1)], simp, rule comp_seq [OF _ _ _ k(1)],
      intro cf.steps_modifies cf.record_ok, assumption, rule comp_seq [OF emit_comp _ _ k(1)], simp, assumption, goal_cases)
    case (1 _ t _ u _ w)
    show ?case
      unfolding wp_try_except wp_seqc
    proof (rule wp_mono [OF compact_count [OF 1(3)]], goal_cases)
      case (1 _ x)
      then show ?case using b k(2) by (simp add: turn_budget_def)
    next
      case (2 e x)
      then have "compactions P x \<le> k" using b k(2) by simp
      then show ?case
        by (auto intro!: wp_mono [OF comp_le [OF overflow_failed_comp]] simp: turn_budget_def)
    qed
  qed
qed

lemma run_turn_count:
  assumes "compactions P s + budget P v \<le> k"
  shows "wp (run_turn \<E> rq tt prompt v) (turn_budget P k) (\<lambda>_ t. compactions P t \<le> k) s"
proof -
  let ?k = "k - budget P v" and ?v = "v\<lparr>lv_first := False, lv_pending := []\<rparr>"
  have s: "compactions P s \<le> ?k" and k: "?k \<le> k" "?k + budget P v = k" using assms by simp_all
  have bv: "budget P ?v = budget P v" by (simp add: budget_def)
  have resp: "steps (comp_same P) (stream_response \<E> rq tt prompt)"
    unfolding stream_response_def by (intro comp_parts)
  show ?thesis
    unfolding run_turn_def Let_def
  proof (rule comp_seq [OF start_comp s _ k(1)], rule comp_seq [OF cf.append_all_ok _ _ k(1)], assumption,
      rule comp_seq [OF resp _ _ k(1)], assumption, goal_cases)
    case (1 _ t _ u resp w)
    have w: "compactions P w + budget P v \<le> k" using 1(3) k(2) by simp
    have fin: "wp (finish_turn \<E> tt ?v final) (turn_budget P k) (\<lambda>_ t. compactions P t \<le> k) x"
      if x: "compactions P x \<le> ?k" for final x
    proof (rule wp_mono [OF wp_conj [OF comp_le [OF finish_turn_comp x] finish_turn_vars]], goal_cases)
      case (1 r t)
      then show ?case using k bv by (auto simp: turn_budget_def budget_def split: sum.split)
    qed (use k in simp)
    show ?case
      using recover_count [of ?v P w k \<E> rq resp] w bv
      by (auto simp del: wp_seqc intro!: reads_seq comp_seq [OF cf.append_message_ok 1(3) _ k(1)] fin
          comp_seq [OF emit_comp _ _ k(1)] comp_seq [OF agent_end_comp _ _ k(1)] simp: turn_budget_def)
  qed
qed

lemma run_turns_count:
  "compactions P s + budget P v \<le> k \<Longrightarrow>
     wp (run_turns \<E> rq tt prompt fuel v) (\<lambda>_ t. compactions P t \<le> k) (\<lambda>_ t. compactions P t \<le> k) s"
proof (induction fuel arbitrary: v s)
  case 0
  then show ?case by simp
next
  case (Suc fuel)
  show ?case
  proof (cases "lv_more v \<or> lv_pending v \<noteq> []")
    case True
    show ?thesis
      unfolding run_turns.simps if_P [OF True] wp_seqc
      by (rule wp_mono [OF run_turn_count [OF Suc.prems]]) (auto simp: turn_budget_def intro: Suc.IH split: sum.splits)
  next
    case False
    have s: "compactions P s \<le> k - budget P v" and k: "k - budget P v \<le> k" using Suc.prems by simp_all
    have bv: "budget P (v\<lparr>lv_more := True, lv_pending := fu\<rparr>) = budget P v" for fu by (simp add: budget_def)
    show ?thesis
      unfolding run_turns.simps if_not_P [OF False]
    proof (rule comp_seq [OF cf.drain_follow_up_ok s _ k], goal_cases)
      case (1 fu t)
      have "compactions P t \<le> k" using 1 by simp
      moreover have "compactions P t + budget P (v\<lparr>lv_more := True, lv_pending := fu\<rparr>) \<le> k"
        using 1 Suc.prems bv [of fu] by simp
      ultimately show ?case
        by (auto simp del: wp_seqc intro!: Suc.IH comp_seq [OF agent_end_comp] split: option.split)
    qed
  qed
qed

lemma report_count:
  assumes "compactions P s \<le> k"
  shows "wp (compact_or_report \<E> reason w) (\<lambda>_ t. compactions P t \<le> k + weight P reason)
     (\<lambda>_ t. compactions P t \<le> k + weight P reason) s"
  unfolding compact_or_report_def wp_try_except
  by (rule wp_mono [OF compact_count [OF assms]]) (auto intro!: comp_le [OF failure_comp])

lemma run_loop_count:
  assumes "compactions P s + weight P ''overflow'' * 2 \<le> k"
  shows "wp (run_loop \<E> rq tt initial prompt fuel) (\<lambda>_ t. compactions P t \<le> k) (\<lambda>_ t. compactions P t \<le> k) s"
proof -
  let ?k = "k - weight P ''overflow'' * 2"
  have s: "compactions P s \<le> ?k" and k: "?k \<le> k" using assms by simp_all
  have aborted: "wp (seqc (append_message \<E> m False n) (\<lambda>_. seqc (emit \<E> ''turn_end'' d) (\<lambda>_.
      seqc (agent_end \<E>) (\<lambda>_. ret final)))) (\<lambda>_ t. compactions P t \<le> k) (\<lambda>_ t. compactions P t \<le> k) t"
    if "compactions P t \<le> ?k" for m n d final t
    using that k
    by (intro comp_seq [OF cf.append_message_ok that _ k] comp_seq [OF emit_comp _ _ k] comp_seq [OF agent_end_comp _ _ k])
       simp_all
  have started: "steps (comp_same P) (emit \<E> ''turn_start'' [])" "steps (comp_same P) (emit \<E> ''agent_start'' [])"
    by (rule emit_comp, simp)+
  show ?thesis
    unfolding run_loop_def
  proof (rule comp_seq [OF emit_comp s _ k], simp, rule comp_seq [OF emit_comp _ _ k], simp, assumption,
      rule comp_seq [OF cf.append_all_ok _ _ k], assumption, rule reads_seq, goal_cases)
    case (1 _ t _ u _ w)
    show ?case
    proof (cases "ct_abort w")
      case True
      show ?thesis unfolding if_P [OF True] by (intro reads_seq aborted 1)
    next
      case False
      show ?thesis
        unfolding if_not_P [OF False]
        by (rule comp_seq [OF cf.drain_steering_ok 1(3) _ k], rule run_turns_count)
           (use assms in \<open>simp add: budget_def\<close>)
    qed
  qed
qed

lemma after_run_count:
  assumes "compactions P s \<le> k"
  shows "wp (after_run \<E> rq final) (\<lambda>_ t. compactions P t \<le> k + max (weight P ''overflow'') (weight P ''threshold''))
     (\<lambda>_ t. compactions P t \<le> k + max (weight P ''overflow'') (weight P ''threshold'')) s"
  unfolding after_run_def
  using assms
  by (auto simp: if_split intro!: wp_mono [OF report_count [OF assms]])

lemma input_error_count:
  assumes "compactions P s \<le> k"
  shows "wp (finish_input_error \<E> initial final) (\<lambda>_ t. compactions P t \<le> k) (\<lambda>_ t. compactions P t \<le> k) s"
  unfolding finish_input_error_def
  by (rule comp_le [OF _ assms]) (intro cf.steps_seqc cf.append_all_ok cf.append_message_ok cf.steps_ret agent_end_comp emit_comp; simp)

lemma body_count:
  assumes "compactions P s + weight P ''threshold'' + weight P ''overflow'' * 2
      + max (weight P ''overflow'') (weight P ''threshold'') \<le> k"
  shows "wp (run_body \<E> rq tt fuel) (\<lambda>_ t. compactions P t \<le> k) (\<lambda>_ t. compactions P t \<le> k) s"
proof -
  let ?c = "compactions P s"
  have s: "?c \<le> ?c" and k: "?c \<le> k" using assms by simp_all
  have full: "wp (if b then compact_or_report \<E> ''threshold'' None else ret ())
      (\<lambda>_ t. compactions P t \<le> ?c + weight P ''threshold'') (\<lambda>_ t. compactions P t \<le> ?c + weight P ''threshold'') t"
    if "compactions P t \<le> ?c" for b t
    using that report_count [OF that, of \<E> "''threshold''" None] by (cases b) auto
  show ?thesis
    unfolding run_body_def Let_def
  proof (rule comp_seq [OF hook_comp s _ k], simp, rule comp_seq [OF cf.steps_lift _ _ k], assumption,
      rule reads_seq, goal_cases)
    case (1 h t initial u)
    show ?case
    proof (cases "oversized_input_error (now_at \<E> u) rq initial")
      case (Some err)
      show ?thesis
        unfolding Some option.case wp_seqc
        by (rule wp_mono [OF input_error_count [OF 1(2)]]) (use k in \<open>auto split: sum.split\<close>)
    next
      case None
      show ?thesis
        unfolding None option.case wp_seqc wp_basic
      proof (rule wp_mono [OF full [OF 1(2)]], goal_cases)
        case (1 _ v)
        then have "compactions P v + weight P ''overflow'' * 2 \<le> ?c + weight P ''threshold'' + weight P ''overflow'' * 2"
          by simp
        from run_loop_count [OF this] show ?case
        proof (rule wp_mono, goal_cases)
          case (1 final w)
          from after_run_count [OF 1] show ?case
            by (rule wp_mono) (use assms in \<open>auto split: sum.split\<close>)
        qed (use assms in simp)
      qed (use assms in simp)
    qed
  qed
qed

text \<open>
  C15. A run never compacts without end: whatever the provider reports and however the run ends, it
  starts at most four compactions, at most three of them for an overflow (two to retry a turn and
  one after an answer that did not fit), and the loop gives up after its second attempt.
\<close>

theorem compactions_bounded:
  "case run_agent \<E> rq hooks ctl fuel of
     Inl e \<Rightarrow> True
   | Inr (r, t) \<Rightarrow> compactions (\<lambda>_. True) t \<le> 4 \<and> compactions (\<lambda>reason. reason = JStr ''overflow'') t \<le> 3"
proof -
  have bound: "compactions P t \<le> weight P ''threshold'' + weight P ''overflow'' * 2
      + max (weight P ''overflow'') (weight P ''threshold'')"
    if a: "run_agent \<E> rq hooks ctl fuel = Inr (r, t)" for P r t
  proof -
    let ?k = "weight P ''threshold'' + weight P ''overflow'' * 2
      + max (weight P ''overflow'') (weight P ''threshold'')"
    obtain c tt where e: "engine_run \<E> rq tt fuel (initial_state rq hooks c) = (r, t)"
      using run_agent_engine [OF a] by metis
    let ?s = "initial_state rq hooks c" and ?s1 = "initial_state rq hooks c\<lparr>ct_active := True, ct_abort := False\<rparr>"
    have s0: "compactions P ?s = 0" "compactions P ?s1 = 0" by (simp_all add: initial_state_def compactions_def own_def)
    show ?thesis
    proof (cases "ct_active ?s")
      case True
      then show ?thesis using e s0 by (simp add: engine_run_busy)
    next
      case False
      define u where "u = snd (body_run \<E> rq tt fuel ?s)"
      have "wp (run_body \<E> rq tt fuel) (\<lambda>_ t. compactions P t \<le> ?k) (\<lambda>_ t. compactions P t \<le> ?k) ?s1"
        by (rule body_count) (simp add: s0)
      then have "compactions P u \<le> ?k"
        unfolding u_def body_run_def by (auto simp: wp_def split: prod.splits sum.splits)
      moreover have "compactions P (snd (emit \<E> ''settled'' [(''nextTurnCount'', JInt 0)] u)) = compactions P u"
        by (rule emit_comp [unfolded steps_def comp_same_def, rule_format]) simp
      ultimately show ?thesis
        using e unfolding engine_run_idle [OF False] u_def [symmetric]
        by (auto simp: compactions_def own_def split: prod.splits sum.splits)
    qed
  qed
  show ?thesis
  proof (cases "run_agent \<E> rq hooks ctl fuel")
    case (Inr x)
    obtain r t where x: "x = (r, t)" by (cases x)
    have "compactions (\<lambda>_. True) t \<le> 4" "compactions (\<lambda>reason. reason = JStr ''overflow'') t \<le> 3"
      using bound [of r t "\<lambda>_. True"] bound [of r t "\<lambda>reason. reason = JStr ''overflow''"] Inr x
      by (simp_all add: weight_def)
    then show ?thesis using Inr x by simp
  qed simp
qed

section \<open>A recovered overflow of a steered turn is not retried\<close>

lemma recover_vars:
  assumes "recover_overflow \<E> rq v final s = (Inr (Inr v'), t)"
  shows "lv_more v' = lv_more v \<and> lv_pending v' = lv_pending v \<and> lv_final v' = Some final"
proof -
  have any: "wp m (\<lambda>_ _. True) (\<lambda>_ _. True) x" for m :: "('y, 'x) comp" and x
    by (simp add: wp_def split: prod.split sum.split)
  have "wp (try_except (seqc c (\<lambda>_. ret (Inr w))) (\<lambda>e. seqc (g e) (\<lambda>m. ret (Inl m))))
      (\<lambda>r _. \<forall>v'. r = Inr v' \<longrightarrow> v' = w) (\<lambda>_ _. True) x"
    for c :: "('y, unit) comp" and w and g :: "exn \<Rightarrow> ('y, 'u) comp" and x
    by (auto simp: wp_def try_except_def seqc_def ret_def split: prod.split sum.split)
  then have "wp (recover_overflow \<E> rq v final)
      (\<lambda>r _. \<forall>v'. r = Inr v' \<longrightarrow> v' = v\<lparr>lv_overflow := lv_overflow v + 1, lv_final := Some final\<rparr>) (\<lambda>_ _. True) s"
    unfolding recover_overflow_def by (intro any_seq)
  with assms show ?thesis by (auto simp: wp_def)
qed

definition steered_vars :: "loop_vars \<Rightarrow> loop_vars" where
  "steered_vars v = v\<lparr>lv_first := False, lv_pending := []\<rparr>"

text \<open>
  The engine does not keep the promise it announces with \<open>willRetry\<close> when the overflowing turn
  answers a steering message that arrived after a final answer: the compaction succeeds, but the
  loop variable that requests another turn still has the value of the turn before, so the loop ends
  and, unless follow-up input is queued, the run returns the overflowing response itself.
\<close>

theorem steered_overflow_not_retried:
  assumes "\<not> lv_more v" and "recover_overflow \<E> rq (steered_vars v) final s = (Inr (Inr v'), t)"
    and "ct_follow_up t = []"
  shows "run_turns \<E> rq tt prompt (Suc fuel) v' t = seqc (agent_end \<E>) (\<lambda>_. ret final) t"
proof -
  have v': "\<not> lv_more v'" "lv_pending v' = []" "lv_final v' = Some final"
    using recover_vars [OF assms(2)] assms(1) by (simp_all add: steered_vars_def)
  then show ?thesis
    using assms(3) by (simp add: drain_follow_up_def drain_def seqc_def reads_def ret_def)
qed

definition overflow_message :: assistant_message where
  "overflow_message = \<lparr>am_content = [], am_provider = ''p'', am_model = ''m'',
     am_usage = empty_usage\<lparr>u_input := 1000\<rparr>, am_stop_reason = ''length'', am_error = None, am_timestamp = 0\<rparr>"

definition compacting_env :: run_env where
  "compacting_env = example_run_env\<lparr>env_compactor := Some (\<lambda>_ ms _. Inr \<lparr>cu_messages = [], cu_summary = ''s'',
     cu_tokens_before = 0, cu_first_kept_id = None, cu_usage = empty_usage, cu_details = [],
     cu_boundary_ms = None, cu_boundary_index = None\<rparr>)\<rparr>"

definition steered_state :: run_state where
  "steered_state = \<lparr>ds_listeners = [], ds_handlers = [], ds_trace = [], ds_heard = [],
     ct_steering_mode = ''all'', ct_follow_up_mode = ''all'', ct_steer = [], ct_follow_up = [],
     ct_active = True, ct_abort = False, in_last_attempt = 1, in_next_attempt = 2, in_started = True,
     in_sent = [], rn_messages = [], rn_new_messages = [], rn_boundary_ms = None,
     rn_boundary_index = None, rn_context_update = None\<rparr>"

definition answered_vars :: loop_vars where
  "answered_vars = \<lparr>lv_more = False, lv_pending = [\<lparr>um_content = UserText ''wait'', um_timestamp = 0\<rparr>],
     lv_first = False, lv_overflow = 0, lv_final = Some example_message\<rparr>"

lemma steered_recovery:
  "\<exists>v' t. recover_overflow compacting_env example_request (steered_vars answered_vars) overflow_message steered_state
     = (Inr (Inr v'), t) \<and> ct_follow_up t = []"
  by (simp add: recover_overflow_def compact_def emit_def emit_raw_def await_point_def comp_defs Let_def
      compacting_env_def example_run_env_def steered_state_def answered_vars_def steered_vars_def)

theorem steered_overflow_not_retried_witness:
  "\<exists>v' t. recover_overflow compacting_env example_request (steered_vars answered_vars) overflow_message steered_state
       = (Inr (Inr v'), t)
     \<and> run_turns compacting_env example_request \<lparr>tt_tools = [], tt_active = []\<rparr> [] (Suc 0) v' t
       = seqc (agent_end compacting_env) (\<lambda>_. ret overflow_message) t"
proof -
  obtain v' t where r: "recover_overflow compacting_env example_request (steered_vars answered_vars) overflow_message
      steered_state = (Inr (Inr v'), t)" "ct_follow_up t = []"
    using steered_recovery by blast
  have "\<not> lv_more answered_vars" by (simp add: answered_vars_def)
  from steered_overflow_not_retried [OF this r, of "\<lparr>tt_tools = [], tt_active = []\<rparr>" "[]" 0]
  show ?thesis using r(1) by blast
qed

end
