(* ===== verification/SessionTree.thy ===== *)
theory SessionTree
  imports RunMonad ContextStats "HOL-Library.Sublist"
begin

text \<open>
  \<^verbatim>\<open>runtime/session.py\<close>, the in-memory session: an append-only list of entries forming a tree by
  their \<open>parentId\<close>, a current leaf, the branch that leads to it, the conversation context built
  from the branch, and statistics kept incrementally. Entries are the documents the log file holds.
  The clock, fresh identifiers and the parsing of timestamps are parameters; writing to the file is
  an operation that may fail before anything else happens.
\<close>

section \<open>Entries\<close>

type_synonym entry = "(string, json) dict"

definition attribute_error :: exn where
  "attribute_error = OtherError ''AttributeError'' []"

definition entry_type :: "entry \<Rightarrow> json" where "entry_type e = jget e ''type''"

definition is_type :: "string \<Rightarrow> entry \<Rightarrow> bool" where "is_type ty e \<longleftrightarrow> entry_type e = JStr ty"

definition entry_key :: "entry \<Rightarrow> string" where "entry_key e = py_str (jget e ''id'')"

text \<open>\<open>value.get(k)\<close> on a value that must be a dictionary.\<close>

fun obj_get :: "json \<Rightarrow> string \<Rightarrow> exn + json" where
  "obj_get (JObj d) k = Inr (jget d k)"
| "obj_get _ k = Inl attribute_error"

definition SUMMARY_PREFIX :: string where
  "SUMMARY_PREFIX = ''The conversation history before this point was compacted into the following '' @
     ''summary:'' @ [CHR 0x0A, CHR 0x0A] @ ''<summary>'' @ [CHR 0x0A]"

definition SUMMARY_SUFFIX :: string where
  "SUMMARY_SUFFIX = [CHR 0x0A] @ ''</summary>''"

definition BRANCH_PREFIX :: string where
  "BRANCH_PREFIX = ''The following is a summary of a branch that this conversation came back from:'' @
     [CHR 0x0A, CHR 0x0A] @ ''<summary>'' @ [CHR 0x0A]"

definition BRANCH_SUFFIX :: string where "BRANCH_SUFFIX = ''</summary>''"

section \<open>Lifetime statistics\<close>

record lifetime_stats =
  ls_message_count :: int
  ls_total_tokens :: int
  ls_cost :: rat
  ls_cache :: cache_stats

definition zero_cache :: cache_stats where
  "zero_cache = \<lparr>cst_input = 0, cst_read = 0, cst_write = 0, cst_requests = 0, cst_hits = 0\<rparr>"

definition zero_lifetime :: lifetime_stats where
  "zero_lifetime = \<lparr>ls_message_count = 0, ls_total_tokens = 0, ls_cost = 0, ls_cache = zero_cache\<rparr>"

text \<open>The usage an entry carries, \<open>JNull\<close> when it carries none.\<close>

definition entry_usage :: "entry \<Rightarrow> exn + json" where
  "entry_usage e =
     (if is_type ''message'' e then
        (let m = py_or (jget e ''message'') (JObj []) in
         bind_res (obj_get m ''role'') (\<lambda>role.
         if role = JStr ''assistant'' then obj_get m ''usage'' else Inr JNull))
      else if is_type ''compaction'' e \<or> is_type ''branch_summary'' e then Inr (jget e ''usage'')
      else Inr JNull)"

definition lifetime_add :: "entry \<Rightarrow> lifetime_stats \<Rightarrow> exn + lifetime_stats" where
  "lifetime_add e l =
     bind_res (entry_usage e) (\<lambda>us.
     let l1 = (if is_type ''message'' e then l\<lparr>ls_message_count := ls_message_count l + 1\<rparr> else l) in
     if \<not> truthy us then Inr l1
     else
       bind_res (bind_res (obj_get us ''totalTokens'') int_or_zero) (\<lambda>tot.
       bind_res (bind_res (obj_get us ''cost'') (\<lambda>c. obj_get (py_or c (JObj [])) ''total'')) (\<lambda>ct.
       bind_res (py_float (py_or ct (JInt 0))) (\<lambda>cost.
       bind_res (cache_add (obj_of us) (ls_cache l1)) (\<lambda>c.
       Inr (l1\<lparr>ls_total_tokens := ls_total_tokens l1 + tot, ls_cost := ls_cost l1 + cost, ls_cache := c\<rparr>))))))"

fun lifetime_of :: "entry list \<Rightarrow> lifetime_stats \<Rightarrow> exn + lifetime_stats" where
  "lifetime_of [] l = Inr l"
| "lifetime_of (e # es) l = bind_res (lifetime_add e l) (lifetime_of es)"

definition lifetime_stats_of :: "entry list \<Rightarrow> exn + lifetime_stats" where
  "lifetime_stats_of es = lifetime_of es zero_lifetime"

definition lifetime_cache :: "cache_stats \<Rightarrow> (string, json) dict" where
  "lifetime_cache c =
     (let cacheable = cst_input c + cst_read c in
      [(''inputTokens'', JInt (cst_input c)), (''readTokens'', JInt (cst_read c)),
       (''writeTokens'', JInt (cst_write c)), (''cacheableTokens'', JInt cacheable),
       (''hitTokenPercent'', JFloat (percent (cst_read c) cacheable)),
       (''requestCount'', JInt (cst_requests c)), (''hitRequestCount'', JInt (cst_hits c)),
       (''hitRequestPercent'', JFloat (percent (cst_hits c) (cst_requests c)))])"

fun entry_usages :: "entry list \<Rightarrow> exn + json list" where
  "entry_usages [] = Inr []"
| "entry_usages (e # es) =
     bind_res (entry_usage e) (\<lambda>us. bind_res (entry_usages es) (\<lambda>rest.
     Inr (if truthy us then us # rest else rest)))"

section \<open>Branches\<close>

text \<open>
  The walk from an entry to the root. \<open>get_branch\<close> stops at a compaction that retains its tail, and
  at the first entry the latest compaction kept; the parent links of a damaged file may be cyclic,
  and then the walk never returns (\<open>None\<close>).
\<close>

type_synonym index = "string \<Rightarrow> entry option"

definition parent_of :: "entry \<Rightarrow> json" where "parent_of e = jget e ''parentId''"

definition not_found :: "string \<Rightarrow> exn" where
  "not_found i = RunError ''not_found'' (''Entry '' @ i @ '' not found'')"

definition invalid_parent :: "json \<Rightarrow> exn" where
  "invalid_parent p = RunError ''invalid_session'' (''Entry '' @ py_str p @ '' not found'')"

partial_function (option) walk :: "bool \<Rightarrow> index \<Rightarrow> json \<Rightarrow> entry \<Rightarrow> entry list \<Rightarrow> (exn + entry list) option" where
  [code]: "walk stops by_id stop_at cur path =
     (if stops \<and> stop_at \<noteq> JNull \<and> jget cur ''id'' = stop_at then Some (Inr (cur # path))
      else if stops \<and> is_type ''compaction'' cur \<and> truthy (jget cur ''retainedTail'') then Some (Inr (cur # path))
      else if \<not> truthy (parent_of cur) then Some (Inr (cur # path))
      else (case by_id (py_str (parent_of cur)) of
          None \<Rightarrow> Some (Inl (invalid_parent (parent_of cur)))
        | Some p \<Rightarrow> walk stops by_id
            (if is_type ''compaction'' cur then jget cur ''firstKeptEntryId'' else stop_at) p (cur # path)))"

definition branch_from :: "index \<Rightarrow> string option \<Rightarrow> (exn + entry list) option" where
  "branch_from by_id leaf = (case leaf of
      None \<Rightarrow> Some (Inr [])
    | Some i \<Rightarrow> (case by_id i of
        None \<Rightarrow> Some (Inl (not_found i))
      | Some e \<Rightarrow> walk True by_id JNull e []))"

definition full_branch :: "index \<Rightarrow> string option \<Rightarrow> (exn + entry list) option" where
  "full_branch by_id leaf = (case leaf of
      None \<Rightarrow> Some (Inr [])
    | Some i \<Rightarrow> (if i = [] then Some (Inr []) else case by_id i of
        None \<Rightarrow> Some (Inr [])
      | Some e \<Rightarrow> walk False by_id JNull e []))"

section \<open>The context of a branch\<close>

record branch_state =
  bs_thinking :: "string option"
  bs_model :: "(string \<times> string) option"
  bs_tools :: "string list option"

definition state_step :: "entry \<Rightarrow> branch_state \<Rightarrow> exn + branch_state" where
  "state_step e b =
     (if is_type ''thinking_level_change'' e then
        Inr (b\<lparr>bs_thinking := Some (str_or (jget e ''thinkingLevel'') ''off'')\<rparr>)
      else if is_type ''model_change'' e then
        Inr (b\<lparr>bs_model := Some (py_str (jget e ''provider''), py_str (jget e ''modelId''))\<rparr>)
      else if is_type ''active_tools_change'' e then
        bind_res (py_iter (py_or (jget e ''activeToolNames'') (JList []))) (\<lambda>ns.
        Inr (b\<lparr>bs_tools := Some (map py_str ns)\<rparr>))
      else if is_type ''message'' e then
        bind_res (obj_get (dict_get e ''message'' (JObj [])) ''role'') (\<lambda>role.
        if role = JStr ''assistant'' then
          (let raw = obj_of (jget e ''message'') in
           Inr (b\<lparr>bs_model := Some (py_str (jget raw ''provider''), py_str (jget raw ''model''))\<rparr>))
        else Inr b)
      else Inr b)"

fun state_of :: "entry list \<Rightarrow> branch_state \<Rightarrow> exn + branch_state" where
  "state_of [] b = Inr b"
| "state_of (e # es) b = bind_res (state_step e b) (state_of es)"

text \<open>The position of the compaction the context starts from: \<open>latest_compaction_index\<close>, and the
  index whose entry moves to the front, if any. The scan runs from the end.\<close>

definition retained :: "entry \<Rightarrow> bool" where "retained e = truthy (jget e ''retainedTail'')"

fun find_compaction :: "entry list \<Rightarrow> nat \<Rightarrow> nat option \<Rightarrow> nat option \<times> nat option" where
  "find_compaction br 0 latest = (latest, None)"
| "find_compaction br (Suc i) latest =
     (if is_type ''compaction'' (br ! i) \<and> \<not> retained (br ! i) then (Some i, Some i)
      else if is_type ''compaction'' (br ! i) \<and> latest = None then find_compaction br i (Some i)
      else find_compaction br i latest)"

definition reorder :: "entry list \<Rightarrow> nat option \<Rightarrow> entry list" where
  "reorder br r = (case r of None \<Rightarrow> br | Some i \<Rightarrow> br ! i # take i br @ drop (Suc i) br)"

record context_acc =
  ca_messages :: "message list"
  ca_ms :: "int option"
  ca_index :: "int option"
  ca_started :: bool

definition user_text :: "int \<Rightarrow> string \<Rightarrow> message" where
  "user_text now s = UserMessage \<lparr>um_content = UserText s, um_timestamp = now\<rparr>"

fun decode_message :: "json \<Rightarrow> exn + message" where
  "decode_message (JObj d) = message_from_dict d"
| "decode_message _ = Inl attribute_error"

definition entry_message :: "entry \<Rightarrow> exn + message" where
  "entry_message e = (case map_of e ''message'' of None \<Rightarrow> Inl (KeyError ''message'') | Some v \<Rightarrow> decode_message v)"

text \<open>The messages an entry contributes.\<close>

definition entry_messages :: "int \<Rightarrow> entry \<Rightarrow> exn + message list" where
  "entry_messages now e =
     (if is_type ''message'' e then bind_res (entry_message e) (\<lambda>m. Inr [m])
      else if is_type ''custom_message'' e then Inr [user_text now (str_or (jget e ''content'') [])]
      else if is_type ''compaction'' e then
        bind_res (py_iter (py_or (jget e ''retainedTail'') (JList []))) (\<lambda>tail.
        bind_res (map_res decode_message tail) (\<lambda>ms.
        Inr (user_text now (SUMMARY_PREFIX @ str_or (jget e ''summary'') [] @ SUMMARY_SUFFIX) # ms)))
      else if is_type ''branch_summary'' e \<and> truthy (jget e ''summary'') then
        Inr [user_text now (BRANCH_PREFIX @ py_str (jget e ''summary'') @ BRANCH_SUFFIX)]
      else Inr [])"

definition context_step :: "(json \<Rightarrow> int option) \<Rightarrow> int \<Rightarrow> bool \<Rightarrow> string set \<Rightarrow> entry \<Rightarrow> context_acc \<Rightarrow> exn + context_acc" where
  "context_step parse_ts now compacted post_ids e a =
     (let a1 = (if compacted \<and> \<not> ca_started a \<and> entry_key e \<in> post_ids
            then a\<lparr>ca_index := Some (int (length (ca_messages a)) - 1), ca_started := True\<rparr> else a);
          a2 = (if is_type ''compaction'' e then a1\<lparr>ca_ms := parse_ts (jget e ''timestamp'')\<rparr> else a1) in
      bind_res (entry_messages now e) (\<lambda>ms. Inr (a2\<lparr>ca_messages := ca_messages a2 @ ms\<rparr>)))"

fun context_fold :: "(json \<Rightarrow> int option) \<Rightarrow> int \<Rightarrow> bool \<Rightarrow> string set \<Rightarrow> entry list \<Rightarrow> context_acc \<Rightarrow> exn + context_acc" where
  "context_fold parse_ts now compacted post_ids [] a = Inr a"
| "context_fold parse_ts now compacted post_ids (e # es) a =
     bind_res (context_step parse_ts now compacted post_ids e a) (context_fold parse_ts now compacted post_ids es)"

record session_context =
  sc_messages :: "message list"
  sc_thinking :: "string option"
  sc_model :: "(string \<times> string) option"
  sc_tools :: "string list option"
  sc_boundary_ms :: "int option"
  sc_boundary_index :: "int option"

definition context_of :: "(json \<Rightarrow> int option) \<Rightarrow> int \<Rightarrow> entry list \<Rightarrow> exn + context_acc" where
  "context_of parse_ts now br =
     (let (latest, r) = find_compaction br (length br) None;
          post_ids = (case latest of None \<Rightarrow> {} | Some i \<Rightarrow> set (map entry_key (drop (Suc i) br))) in
      bind_res (context_fold parse_ts now (latest \<noteq> None) post_ids (reorder br r)
         \<lparr>ca_messages = [], ca_ms = None, ca_index = None, ca_started = False\<rparr>) (\<lambda>a.
      Inr (if latest \<noteq> None \<and> ca_index a = None
        then a\<lparr>ca_index := Some (int (length (ca_messages a)) - 1)\<rparr> else a)))"

definition build_context :: "(json \<Rightarrow> int option) \<Rightarrow> int \<Rightarrow> index \<Rightarrow> string option \<Rightarrow> (exn + session_context) option" where
  "build_context parse_ts now by_id leaf =
     (case branch_from by_id leaf of
        None \<Rightarrow> None
      | Some (Inl e) \<Rightarrow> Some (Inl e)
      | Some (Inr br) \<Rightarrow> (case full_branch by_id leaf of
          None \<Rightarrow> None
        | Some (Inl e) \<Rightarrow> Some (Inl e)
        | Some (Inr full) \<Rightarrow> Some (
            bind_res (state_of full \<lparr>bs_thinking = None, bs_model = None, bs_tools = None\<rparr>) (\<lambda>b.
            bind_res (context_of parse_ts now br) (\<lambda>a.
            Inr \<lparr>sc_messages = ca_messages a, sc_thinking = bs_thinking b, sc_model = bs_model b,
              sc_tools = bs_tools b, sc_boundary_ms = ca_ms a, sc_boundary_index = ca_index a\<rparr>)))))"

end
