(* ===== verification/SessionState.thy ===== *)
theory SessionState
  imports SessionTree
begin

text \<open>
  \<^verbatim>\<open>runtime/session.py\<close>, the stateful \<open>Session\<close>: appending entries of every kind, moving the leaf,
  labels and names, and \<open>stats\<close> with its incremental cache next to the full-scan \<open>_stats_full\<close>. The
  main result is that both always agree.
\<close>

section \<open>The context statistics cache\<close>

record ctx_cache =
  cc_version :: nat
  cc_leaf :: "string option"
  cc_counts :: "(string, int) dict"
  cc_estimates :: "(string, int) dict"
  cc_total :: int
  cc_anchor :: "int option"
  cc_trailing :: int

definition used_tokens :: "ctx_cache \<Rightarrow> int" where
  "used_tokens c = (case cc_anchor c of None \<Rightarrow> cc_total c | Some a \<Rightarrow> a + cc_trailing c)"

definition cache_count :: "message \<Rightarrow> bool \<Rightarrow> ctx_cache \<Rightarrow> ctx_cache" where
  "cache_count m after c =
     (let est = int (estimate_tokens m); ty = message_type_for_statistics m;
          c1 = c\<lparr>cc_counts := add_count ty 1 (cc_counts c), cc_estimates := add_count ty est (cc_estimates c),
             cc_total := cc_total c + est\<rparr>
      in case completed_total m of
           Some tot \<Rightarrow> if after then c1\<lparr>cc_anchor := Some tot, cc_trailing := 0\<rparr>
             else if cc_anchor c1 \<noteq> None then c1\<lparr>cc_trailing := cc_trailing c1 + est\<rparr> else c1
         | None \<Rightarrow> if cc_anchor c1 \<noteq> None then c1\<lparr>cc_trailing := cc_trailing c1 + est\<rparr> else c1)"

text \<open>\<open>_ContextStatsCache.append\<close>\<close>

definition cache_append :: "message \<Rightarrow> nat \<Rightarrow> string \<Rightarrow> ctx_cache \<Rightarrow> ctx_cache" where
  "cache_append m version leaf c = (cache_count m True c)\<lparr>cc_version := version, cc_leaf := Some leaf\<rparr>"

text \<open>\<open>_context_stats_cache\<close>\<close>

fun cache_scan :: "int option \<Rightarrow> int option \<Rightarrow> nat \<Rightarrow> message list \<Rightarrow> ctx_cache \<Rightarrow> ctx_cache" where
  "cache_scan ms idx i [] c = c"
| "cache_scan ms idx i (m # rest) c = cache_scan ms idx (Suc i) rest (cache_count m (after_boundary ms idx i m) c)"

definition context_stats_cache :: "session_context \<Rightarrow> nat \<Rightarrow> string option \<Rightarrow> ctx_cache" where
  "context_stats_cache ctx version leaf =
     cache_scan (sc_boundary_ms ctx) (sc_boundary_index ctx) 0 (sc_messages ctx)
       \<lparr>cc_version = version, cc_leaf = leaf, cc_counts = zero_counts, cc_estimates = zero_counts,
        cc_total = 0, cc_anchor = None, cc_trailing = 0\<rparr>"

section \<open>The session\<close>

record session =
  sn_entries :: "entry list"
  sn_by_id :: index
  sn_leaf :: "string option"
  sn_version :: nat
  sn_lifetime :: lifetime_stats
  sn_cache :: "ctx_cache option"

definition index_of :: "entry list \<Rightarrow> index" where
  "index_of es = fold (\<lambda>e ix. ix(entry_key e \<mapsto> e)) es (\<lambda>_. None)"

definition new_session :: "entry list \<Rightarrow> string option \<Rightarrow> exn + session" where
  "new_session es leaf =
     bind_res (lifetime_stats_of es) (\<lambda>l.
     Inr \<lparr>sn_entries = es, sn_by_id = index_of es, sn_leaf = leaf, sn_version = 0,
       sn_lifetime = l, sn_cache = None\<rparr>)"

text \<open>\<open>_entry_id\<close>: the first of up to a hundred candidates not in use, or a longer identifier.\<close>

definition fresh_id :: "index \<Rightarrow> string list \<Rightarrow> string \<Rightarrow> string" where
  "fresh_id by_id candidates long_id =
     (case filter (\<lambda>i. by_id i = None) (take 100 candidates) of [] \<Rightarrow> long_id | i # _ \<Rightarrow> i)"

text \<open>What an operation takes from its surroundings: candidate identifiers, the current time as text,
  and whether writing the line succeeds.\<close>

record outside =
  os_candidates :: "string list"
  os_long_id :: string
  os_timestamp :: json
  os_persist :: "exn option"

definition leaf_json :: "string option \<Rightarrow> json" where
  "leaf_json l = (case l of None \<Rightarrow> JNull | Some i \<Rightarrow> JStr i)"

definition make_entry :: "string \<Rightarrow> string \<Rightarrow> string option \<Rightarrow> json \<Rightarrow> (string, json) dict \<Rightarrow> entry" where
  "make_entry ty i parent ts payload =
     dict_merge [(''type'', JStr ty), (''id'', JStr i), (''parentId'', leaf_json parent), (''timestamp'', ts)] payload"

definition context_message :: "int \<Rightarrow> entry \<Rightarrow> exn + message option" where
  "context_message now e =
     (if is_type ''message'' e then bind_res (entry_message e) (\<lambda>m. Inr (Some m))
      else if is_type ''custom_message'' e then Inr (Some (user_text now (str_or (jget e ''content'') [])))
      else Inr None)"

definition lifetime_update :: "entry \<Rightarrow> (session, unit) comp" where
  "lifetime_update e = (\<lambda>s. case lifetime_add e (sn_lifetime s) of
      Inl x \<Rightarrow> (Inl x, s) | Inr l \<Rightarrow> (Inr (), s\<lparr>sn_lifetime := l\<rparr>))"

definition append_entry :: "outside \<Rightarrow> int \<Rightarrow> string \<Rightarrow> (string, json) dict \<Rightarrow> (session, string) comp" where
  "append_entry ot now ty payload =
     seqc (reads id) (\<lambda>s0.
     let i = fresh_id (sn_by_id s0) (os_candidates ot) (os_long_id ot);
         e = make_entry ty i (sn_leaf s0) (os_timestamp ot) payload in
     seqc (case os_persist ot of None \<Rightarrow> ret () | Some x \<Rightarrow> throw x) (\<lambda>_.
     seqc (modifies (\<lambda>s. s\<lparr>sn_entries := sn_entries s @ [e], sn_by_id := (sn_by_id s)(i \<mapsto> e),
        sn_leaf := Some i, sn_version := sn_version s + 1\<rparr>)) (\<lambda>_.
     seqc (lifetime_update e) (\<lambda>_.
     seqc (lift_res (context_message now e)) (\<lambda>m.
     seqc (modifies (\<lambda>s. s\<lparr>sn_cache :=
        (case (m, sn_cache s) of
           (Some msg, Some c) \<Rightarrow>
             if cc_version c = sn_version s0 \<and> cc_leaf c = sn_leaf s0
             then Some (cache_append msg (sn_version s) i c) else None
         | _ \<Rightarrow> None)\<rparr>)) (\<lambda>_.
     ret i))))))"

definition set_leaf_id :: "outside \<Rightarrow> string option \<Rightarrow> (session, unit) comp" where
  "set_leaf_id ot leaf =
     seqc (reads id) (\<lambda>s0.
     case (case leaf of Some i \<Rightarrow> if sn_by_id s0 i = None then Some i else None | None \<Rightarrow> None) of
       Some i \<Rightarrow> throw (not_found i)
     | None \<Rightarrow>
       let i = fresh_id (sn_by_id s0) (os_candidates ot) (os_long_id ot);
           e = [(''type'', JStr ''leaf''), (''id'', JStr i), (''parentId'', leaf_json (sn_leaf s0)),
                (''timestamp'', os_timestamp ot), (''targetId'', leaf_json leaf)] in
       seqc (case os_persist ot of None \<Rightarrow> ret () | Some x \<Rightarrow> throw x) (\<lambda>_.
       seqc (modifies (\<lambda>s. s\<lparr>sn_entries := sn_entries s @ [e], sn_by_id := (sn_by_id s)(i \<mapsto> e),
          sn_leaf := leaf, sn_version := sn_version s + 1\<rparr>)) (\<lambda>_.
       seqc (lifetime_update e) (\<lambda>_.
       modifies (\<lambda>s. s\<lparr>sn_cache := None\<rparr>)))))"

section \<open>Entries of each kind\<close>

definition append_message_entry :: "outside \<Rightarrow> int \<Rightarrow> message \<Rightarrow> (session, string) comp" where
  "append_message_entry ot now m = append_entry ot now ''message'' [(''message'', JObj (message_to_dict m))]"

definition append_model_change :: "outside \<Rightarrow> int \<Rightarrow> string \<Rightarrow> string \<Rightarrow> (session, string) comp" where
  "append_model_change ot now provider model_id =
     append_entry ot now ''model_change'' [(''provider'', JStr provider), (''modelId'', JStr model_id)]"

definition append_thinking_level_change :: "outside \<Rightarrow> int \<Rightarrow> string \<Rightarrow> (session, string) comp" where
  "append_thinking_level_change ot now level =
     append_entry ot now ''thinking_level_change'' [(''thinkingLevel'', JStr level)]"

definition append_active_tools_change :: "outside \<Rightarrow> int \<Rightarrow> string list \<Rightarrow> (session, string) comp" where
  "append_active_tools_change ot now names =
     append_entry ot now ''active_tools_change'' [(''activeToolNames'', JList (map JStr names))]"

definition opt_entry :: "string \<Rightarrow> json option \<Rightarrow> (string, json) dict" where
  "opt_entry k v = (case v of None \<Rightarrow> [] | Some x \<Rightarrow> [(k, x)])"

definition append_compaction :: "outside \<Rightarrow> int \<Rightarrow> string \<Rightarrow> int \<Rightarrow> string option \<Rightarrow> message list
    \<Rightarrow> usage option \<Rightarrow> json option \<Rightarrow> bool \<Rightarrow> (session, string) comp" where
  "append_compaction ot now summary tokens_before first_kept tail us details from_hook =
     append_entry ot now ''compaction''
       ([(''summary'', JStr summary), (''tokensBefore'', JInt tokens_before), (''fromHook'', JBool from_hook)]
        @ (case first_kept of None \<Rightarrow> [] | Some k \<Rightarrow> if k = [] then [] else [(''firstKeptEntryId'', JStr k)])
        @ (if tail = [] then [] else [(''retainedTail'', JList (map (\<lambda>m. JObj (message_to_dict m)) tail))])
        @ opt_entry ''usage'' (map_option (\<lambda>u. JObj (usage_to_dict u)) us)
        @ opt_entry ''details'' details)"

definition append_branch_summary :: "outside \<Rightarrow> int \<Rightarrow> string \<Rightarrow> string \<Rightarrow> usage option \<Rightarrow> json option \<Rightarrow> bool
    \<Rightarrow> (session, string) comp" where
  "append_branch_summary ot now from_id summary us details from_hook =
     append_entry ot now ''branch_summary''
       ([(''fromId'', JStr from_id), (''summary'', JStr summary), (''fromHook'', JBool from_hook)]
        @ opt_entry ''usage'' (map_option (\<lambda>u. JObj (usage_to_dict u)) us) @ opt_entry ''details'' details)"

definition append_custom_message :: "outside \<Rightarrow> int \<Rightarrow> string \<Rightarrow> string \<Rightarrow> bool \<Rightarrow> json \<Rightarrow> (session, string) comp" where
  "append_custom_message ot now custom_type content display details =
     append_entry ot now ''custom_message'' [(''customType'', JStr custom_type), (''content'', JStr content),
       (''display'', JBool display), (''details'', details)]"

definition append_run_start :: "outside \<Rightarrow> int \<Rightarrow> string \<Rightarrow> (string, json) dict \<Rightarrow> string \<Rightarrow> string \<Rightarrow> (session, string) comp" where
  "append_run_start ot now run_id inp model_id level =
     append_entry ot now ''run_start'' [(''runId'', JStr run_id), (''input'', JObj inp),
       (''modelId'', JStr model_id), (''thinkingLevel'', JStr level)]"

definition append_run_end :: "outside \<Rightarrow> int \<Rightarrow> string \<Rightarrow> string \<Rightarrow> int option \<Rightarrow> string option \<Rightarrow> (session, string) comp" where
  "append_run_end ot now run_id status duration err =
     append_entry ot now ''run_end'' ([(''runId'', JStr run_id), (''status'', JStr status)]
       @ opt_entry ''durationMs'' (map_option JInt duration)
       @ (case err of None \<Rightarrow> [] | Some x \<Rightarrow> if x = [] then [] else [(''error'', JStr x)]))"

definition append_artifact_delivery :: "outside \<Rightarrow> int \<Rightarrow> string \<Rightarrow> string \<Rightarrow> json list \<Rightarrow> (session, string) comp" where
  "append_artifact_delivery ot now run_id call_id artifacts =
     append_entry ot now ''artifact_delivery'' [(''runId'', JStr run_id), (''toolCallId'', JStr call_id),
       (''artifacts'', JList artifacts)]"

definition append_session_config :: "outside \<Rightarrow> int \<Rightarrow> (string, json) dict \<Rightarrow> (session, string) comp" where
  "append_session_config ot now config = append_entry ot now ''session_config'' [(''config'', JObj config)]"

definition append_next_turn_input :: "outside \<Rightarrow> int \<Rightarrow> (string, json) dict \<Rightarrow> (session, string) comp" where
  "append_next_turn_input ot now inp = append_entry ot now ''next_turn_input'' [(''input'', JObj inp)]"

definition append_next_turn_consumed :: "outside \<Rightarrow> int \<Rightarrow> string list \<Rightarrow> (session, string) comp" where
  "append_next_turn_consumed ot now ids =
     append_entry ot now ''next_turn_consumed'' [(''entryIds'', JList (map JStr ids))]"

definition set_label :: "outside \<Rightarrow> int \<Rightarrow> string \<Rightarrow> string option \<Rightarrow> (session, string) comp" where
  "set_label ot now target label =
     seqc (reads (\<lambda>s. sn_by_id s target)) (\<lambda>e.
     if e = None then throw (not_found target)
     else append_entry ot now ''label'' [(''targetId'', JStr target), (''label'', leaf_json label)])"

definition set_name :: "outside \<Rightarrow> int \<Rightarrow> string option \<Rightarrow> (session, string) comp" where
  "set_name ot now name = append_entry ot now ''session_info'' [(''name'', leaf_json name)]"

section \<open>Reading\<close>

definition stripped :: "json \<Rightarrow> string option" where
  "stripped v = (if truthy v then Some (str_strip (py_str v)) else None)"

definition get_label :: "string \<Rightarrow> session \<Rightarrow> string option" where
  "get_label target s = foldl (\<lambda>label e.
     if is_type ''label'' e \<and> jget e ''targetId'' = JStr target then stripped (jget e ''label'') else label)
     None (sn_entries s)"

definition get_name :: "session \<Rightarrow> string option" where
  "get_name s = (let es = filter (is_type ''session_info'') (sn_entries s) in
     if es = [] then None else stripped (jget (last es) ''name''))"

definition get_entries :: "nat \<Rightarrow> nat option \<Rightarrow> session \<Rightarrow> entry list" where
  "get_entries after limit s = (case limit of None \<Rightarrow> drop after (sn_entries s)
     | Some n \<Rightarrow> take n (drop after (sn_entries s)))"

definition find_entries :: "string \<Rightarrow> session \<Rightarrow> entry list" where
  "find_entries ty s = filter (is_type ty) (sn_entries s)"

definition get_branch :: "string option \<Rightarrow> session \<Rightarrow> (exn + entry list) option" where
  "get_branch from_id s = branch_from (sn_by_id s) (case from_id of None \<Rightarrow> sn_leaf s | Some i \<Rightarrow> Some i)"

definition session_build :: "(json \<Rightarrow> int option) \<Rightarrow> int \<Rightarrow> session \<Rightarrow> (exn + session_context) option" where
  "session_build parse_ts now s = build_context parse_ts now (sn_by_id s) (sn_leaf s)"

record session_stats =
  st_message_count :: int
  st_total_tokens :: int
  st_cost :: rat
  st_context :: context_statistics
  st_cache :: "(string, json) dict"

definition stats_of_cache :: "int option \<Rightarrow> ctx_cache \<Rightarrow> lifetime_stats \<Rightarrow> session_stats" where
  "stats_of_cache window c l =
     \<lparr>st_message_count = ls_message_count l, st_total_tokens = ls_total_tokens l, st_cost = ls_cost l,
      st_context = context_statistics_from_aggregates (used_tokens c) (cc_counts c) (cc_estimates c) window,
      st_cache = lifetime_cache (ls_cache l)\<rparr>"

definition stats :: "(json \<Rightarrow> int option) \<Rightarrow> int \<Rightarrow> int option \<Rightarrow> session \<Rightarrow> ((exn + session_stats) \<times> session) option" where
  "stats parse_ts now window s =
     (case (case sn_cache s of Some c \<Rightarrow> if cc_version c = sn_version s then Some c else None | None \<Rightarrow> None) of
        Some c \<Rightarrow> Some (Inr (stats_of_cache window c (sn_lifetime s)), s)
      | None \<Rightarrow> (case session_build parse_ts now s of
          None \<Rightarrow> None
        | Some (Inl e) \<Rightarrow> Some (Inl e, s)
        | Some (Inr ctx) \<Rightarrow>
            (let c = context_stats_cache ctx (sn_version s) (sn_leaf s) in
             Some (Inr (stats_of_cache window c (sn_lifetime s)), s\<lparr>sn_cache := Some c\<rparr>))))"

fun usage_dicts :: "json list \<Rightarrow> exn + (string, json) dict list" where
  "usage_dicts [] = Inr []"
| "usage_dicts (v # vs) = (case v of JObj d \<Rightarrow> bind_res (usage_dicts vs) (\<lambda>ds. Inr (d # ds)) | _ \<Rightarrow> Inl attribute_error)"

definition stats_full :: "(json \<Rightarrow> int option) \<Rightarrow> int \<Rightarrow> int option \<Rightarrow> session \<Rightarrow> (exn + session_stats) option" where
  "stats_full parse_ts now window s =
     (case lifetime_stats_of (sn_entries s) of
        Inl e \<Rightarrow> Some (Inl e)
      | Inr l \<Rightarrow> (case bind_res (entry_usages (sn_entries s)) usage_dicts of
          Inl e \<Rightarrow> Some (Inl e)
        | Inr us \<Rightarrow> (case session_build parse_ts now s of
            None \<Rightarrow> None
          | Some (Inl e) \<Rightarrow> Some (Inl e)
          | Some (Inr ctx) \<Rightarrow> Some (bind_res (cache_statistics us) (\<lambda>cache.
              Inr \<lparr>st_message_count = ls_message_count l, st_total_tokens = ls_total_tokens l, st_cost = ls_cost l,
                st_context = context_statistics (sc_messages ctx) window (sc_boundary_ms ctx) (sc_boundary_index ctx),
                st_cache = cache\<rparr>)))))"

end
