(* ===== verification/SessionStats.thy ===== *)
theory SessionStats
  imports SessionState
begin

text \<open>
  The laws behind \<open>Session.stats\<close>: the forward scan that builds the statistics cache computes what
  the backward scan of the oracle computes, appending a message to the context extends the cache by
  one count, and the lifetime record is what a scan of all entries gives. Well-formed entries, whose
  parents come earlier, make every walk to the root end.
\<close>

section \<open>The forward scan equals the backward scan\<close>

lemma cache_scan_append:
  "cache_scan ms idx i (xs @ ys) c = cache_scan ms idx (i + length xs) ys (cache_scan ms idx i xs c)"
  by (induction xs arbitrary: i c) simp_all

lemma cache_count_frame [simp]:
  "cc_version (cache_count m a c) = cc_version c" "cc_leaf (cache_count m a c) = cc_leaf c"
  by (simp_all add: cache_count_def Let_def split: option.split)

lemma cache_count_sums [simp]:
  "cc_counts (cache_count m a c) = add_count (message_type_for_statistics m) 1 (cc_counts c)"
  "cc_estimates (cache_count m a c) = add_count (message_type_for_statistics m) (int (estimate_tokens m)) (cc_estimates c)"
  "cc_total (cache_count m a c) = cc_total c + int (estimate_tokens m)"
  by (simp_all add: cache_count_def Let_def split: option.split)

lemma cache_scan_sums:
  "cc_version (cache_scan ms idx i xs c) = cc_version c"
  "cc_leaf (cache_scan ms idx i xs c) = cc_leaf c"
  "cc_counts (cache_scan ms idx i xs c) = fold (\<lambda>m. add_count (message_type_for_statistics m) 1) xs (cc_counts c)"
  "cc_estimates (cache_scan ms idx i xs c) =
     fold (\<lambda>m. add_count (message_type_for_statistics m) (int (estimate_tokens m))) xs (cc_estimates c)"
  by (induction xs arbitrary: i c) simp_all

lemma used_tokens_count:
  "used_tokens (cache_count m a c) = (case completed_total m of
     Some tot \<Rightarrow> if a then tot else used_tokens c + int (estimate_tokens m)
   | None \<Rightarrow> used_tokens c + int (estimate_tokens m))"
  by (simp add: used_tokens_def cache_count_def Let_def split: option.split)

lemma context_scan_snoc:
  "n \<le> length xs \<Longrightarrow> context_scan ms idx (xs @ [m]) n = context_scan ms idx xs n + int (estimate_tokens m)"
  by (induction n) (auto simp: nth_append split: option.split)

lemma context_scan_last:
  "context_scan ms idx (xs @ [m]) (Suc (length xs)) = (case completed_total m of
     Some tot \<Rightarrow> if after_boundary ms idx (length xs) m then tot else context_scan ms idx xs (length xs) + int (estimate_tokens m)
   | None \<Rightarrow> context_scan ms idx xs (length xs) + int (estimate_tokens m))"
  by (auto simp: context_scan_snoc split: option.split)

lemma cache_scan_used:
  assumes "cc_anchor c = None" and "cc_total c = 0"
  shows "used_tokens (cache_scan ms idx 0 xs c) = estimate_context_tokens xs ms idx"
proof (induction xs rule: rev_induct)
  case Nil
  then show ?case by (simp add: assms used_tokens_def estimate_context_tokens_def)
next
  case (snoc m xs)
  then show ?case
    by (auto simp: cache_scan_append used_tokens_count estimate_context_tokens_def
        context_scan_snoc nth_append split: option.split)
qed

lemma context_statistics_by_cache:
  "context_statistics (sc_messages ctx) w (sc_boundary_ms ctx) (sc_boundary_index ctx) =
     (let c = context_stats_cache ctx v l in
      context_statistics_from_aggregates (used_tokens c) (cc_counts c) (cc_estimates c) w)"
  by (simp add: Let_def context_stats_cache_def cache_scan_used cache_scan_sums context_statistics_def)

section \<open>The lifetime record equals a scan of all usages\<close>

lemma lifetime_of_append: "lifetime_of (xs @ ys) l = bind_res (lifetime_of xs l) (lifetime_of ys)"
  by (induction xs arbitrary: l) (auto simp: bind_res_def split: sum.split)

lemma lifetime_of_snoc:
  "lifetime_stats_of (es @ [e]) = bind_res (lifetime_stats_of es) (lifetime_add e)"
proof -
  have "bind_res (lifetime_add e l) (lifetime_of []) = lifetime_add e l" for l
    by (cases "lifetime_add e l") simp_all
  then show ?thesis
    by (cases "lifetime_of es zero_lifetime") (simp_all add: lifetime_stats_of_def lifetime_of_append)
qed

lemma usage_dicts_Cons:
  "usage_dicts (v # vs) = Inr us \<Longrightarrow> \<exists>d ds. v = JObj d \<and> usage_dicts vs = Inr ds \<and> us = d # ds"
  by (auto split: json.splits elim!: bind_res_InrE)

lemma lifetime_add_cache:
  assumes "lifetime_add e l = Inr l'" and "entry_usage e = Inr us"
  shows "if truthy us then cache_add (obj_of us) (ls_cache l) = Inr (ls_cache l') else ls_cache l' = ls_cache l"
  using assms
  by (auto simp: lifetime_add_def Let_def split: if_splits elim!: bind_res_InrE)

lemma lifetime_cache_totals:
  assumes "lifetime_of es l = Inr l'" and "bind_res (entry_usages es) usage_dicts = Inr us"
  shows "cache_totals us (ls_cache l) = Inr (ls_cache l')"
  using assms
proof (induction es arbitrary: l us)
  case Nil
  then show ?case by simp
next
  case (Cons e es)
  from Cons.prems(1) obtain l1 where l1: "lifetime_add e l = Inr l1" "lifetime_of es l1 = Inr l'"
    by (auto elim: bind_res_InrE)
  from Cons.prems(2) obtain u vs where u: "entry_usage e = Inr u" "entry_usages es = Inr vs"
    and us: "usage_dicts (if truthy u then u # vs else vs) = Inr us"
    by (auto elim!: bind_res_InrE)
  note step = lifetime_add_cache [OF l1(1) u(1)]
  show ?case
  proof (cases "truthy u")
    case True
    with us obtain d ds where d: "u = JObj d" "usage_dicts vs = Inr ds" "us = d # ds"
      by (metis usage_dicts_Cons)
    with Cons.IH [OF l1(2), of ds] u(2) step True show ?thesis by simp
  next
    case False
    with Cons.IH [OF l1(2), of us] u(2) us step show ?thesis by simp
  qed
qed

lemma lifetime_cache_statistics:
  assumes "lifetime_stats_of es = Inr l" and "bind_res (entry_usages es) usage_dicts = Inr us"
  shows "cache_statistics us = Inr (lifetime_cache (ls_cache l))"
  using lifetime_cache_totals [OF assms(1) [unfolded lifetime_stats_of_def] assms(2)]
  by (simp add: cache_statistics_def lifetime_cache_def zero_lifetime_def zero_cache_def Let_def)

section \<open>Well-formed entries\<close>

text \<open>Identifiers are distinct nonempty strings and every parent is an earlier entry.\<close>

definition wf_entry :: "entry list \<Rightarrow> entry \<Rightarrow> bool" where
  "wf_entry before e \<longleftrightarrow> (\<exists>i. jget e ''id'' = JStr i \<and> i \<noteq> [] \<and> i \<notin> set (map entry_key before))
     \<and> (parent_of e = JNull \<or> (\<exists>p. parent_of e = JStr p \<and> p \<in> set (map entry_key before)))"

definition wf_entries :: "entry list \<Rightarrow> bool" where
  "wf_entries es \<longleftrightarrow> (\<forall>k<length es. wf_entry (take k es) (es ! k))"

lemma wf_entries_Nil [simp]: "wf_entries []"
  by (simp add: wf_entries_def)

lemma wf_entries_snoc [simp]: "wf_entries (es @ [e]) \<longleftrightarrow> wf_entries es \<and> wf_entry es e"
  by (auto simp: wf_entries_def nth_append less_Suc_eq)

lemma index_of_snoc [simp]: "index_of (es @ [e]) = (index_of es)(entry_key e \<mapsto> e)"
  by (simp add: index_of_def)

lemma index_of_Nil [simp]: "index_of [] = Map.empty"
  by (simp add: index_of_def)

lemma dom_index_of: "index_of es i = None \<longleftrightarrow> i \<notin> set (map entry_key es)"
  by (induction es rule: rev_induct) auto

lemma index_of_entry: "index_of es i = Some e \<Longrightarrow> e \<in> set es \<and> entry_key e = i"
  by (induction es rule: rev_induct) (auto split: if_splits)

lemma wf_key: "wf_entry es e \<Longrightarrow> jget e ''id'' = JStr (entry_key e) \<and> entry_key e \<noteq> [] \<and> index_of es (entry_key e) = None"
  by (auto simp: wf_entry_def entry_key_def dom_index_of)

lemma index_snoc_mono: "wf_entry es e \<Longrightarrow> index_of es \<subseteq>\<^sub>m index_of (es @ [e])"
  using wf_key [of es e] by (auto simp: map_le_def dom_def)

lemma wf_entries_key: "wf_entries es \<Longrightarrow> e \<in> set es \<Longrightarrow> entry_key e \<noteq> []"
  by (induction es rule: rev_induct) (auto dest: wf_key)

text \<open>Walks over well-formed entries: they end, stay inside the entries, do not depend on what is
  appended later, and the path they extend is a suffix of the result.\<close>

lemma walk_step:
  "walk st ix stop e path = (if st \<and> stop \<noteq> JNull \<and> jget e ''id'' = stop then Some (Inr (e # path))
      else if st \<and> is_type ''compaction'' e \<and> truthy (jget e ''retainedTail'') then Some (Inr (e # path))
      else if \<not> truthy (parent_of e) then Some (Inr (e # path))
      else (case ix (py_str (parent_of e)) of
          None \<Rightarrow> Some (Inl (invalid_parent (parent_of e)))
        | Some p \<Rightarrow> walk st ix (if is_type ''compaction'' e then jget e ''firstKeptEntryId'' else stop) p (e # path)))"
  by (subst walk.simps) simp

definition linked :: "entry \<Rightarrow> entry \<Rightarrow> bool" where
  "linked a b \<longleftrightarrow> parent_of b = JStr (entry_key a)"

definition chain :: "entry list \<Rightarrow> bool" where
  "chain p \<longleftrightarrow> successively linked p \<and> distinct (map entry_key p)"

lemma walk_wf:
  assumes "wf_entries es" and "e \<in> set es"
  shows "\<exists>p. set p \<subseteq> set es \<and> p \<noteq> [] \<and> last p = e \<and> chain p
     \<and> (\<forall>ix path. index_of es \<subseteq>\<^sub>m ix \<longrightarrow> walk st ix stop e path = Some (Inr (p @ path)))"
  using assms
proof (induction es arbitrary: e stop rule: rev_induct)
  case Nil
  then show ?case by simp
next
  case (snoc x es)
  have wf: "wf_entries es" "wf_entry es x" using snoc.prems by simp_all
  have sub: "index_of es \<subseteq>\<^sub>m ix" if "index_of (es @ [x]) \<subseteq>\<^sub>m ix" for ix
    using that wf_key [OF wf(2)] by (auto simp: map_le_def dom_def split: if_splits)
  have old: ?case if e: "e \<in> set es"
  proof -
    obtain r where "set r \<subseteq> set es" "r \<noteq> []" "last r = e" "chain r"
      and "\<And>ix path. index_of es \<subseteq>\<^sub>m ix \<Longrightarrow> walk st ix stop e path = Some (Inr (r @ path))"
      using snoc.IH [OF wf(1) e, of stop] by blast
    with sub show ?thesis by (intro exI [of _ r]) (auto simp del: index_of_snoc)
  qed
  show ?case
  proof (cases "e \<in> set es")
    case False
    then have ex: "e = x" using snoc.prems by simp
    let ?now = "(st \<and> stop \<noteq> JNull \<and> jget x ''id'' = stop)
       \<or> (st \<and> is_type ''compaction'' x \<and> truthy (jget x ''retainedTail'')) \<or> \<not> truthy (parent_of x)"
    show ?thesis
    proof (cases ?now)
      case True
      then have "walk st ix stop x path = Some (Inr ([x] @ path))" for ix path
        by (auto simp: walk_step [of st ix stop x])
      then show ?thesis using ex by (intro exI [of _ "[x]"]) (simp add: chain_def)
    next
      case now: False
      then obtain p where p: "parent_of x = JStr p" "p \<in> set (map entry_key es)"
        using wf(2) by (auto simp: wf_entry_def)
      then obtain q where q: "index_of es p = Some q" "q \<in> set es" "entry_key q = p"
        using dom_index_of [of es p] index_of_entry [of es p] by (metis not_None_eq)
      let ?stop = "if is_type ''compaction'' x then jget x ''firstKeptEntryId'' else stop"
      obtain r where r: "set r \<subseteq> set es" "r \<noteq> []" "last r = q" "chain r"
        and w: "\<And>ix path. index_of es \<subseteq>\<^sub>m ix \<Longrightarrow> walk st ix ?stop q path = Some (Inr (r @ path))"
        using snoc.IH [OF wf(1) q(2), of ?stop] by blast
      have "chain (r @ [x])"
        using r p(1) q(3) wf_key [OF wf(2)]
        by (auto simp: chain_def successively_append_iff linked_def dom_index_of)
      moreover have "walk st ix stop x path = Some (Inr ((r @ [x]) @ path))" if "index_of (es @ [x]) \<subseteq>\<^sub>m ix" for ix path
      proof -
        have "ix p = Some q" using sub [OF that] q(1) by (auto simp: map_le_def dom_def)
        then show ?thesis using now p w [OF sub [OF that], of "x # path"]
          by (subst walk_step) auto
      qed
      ultimately show ?thesis using ex r(1,2) by (intro exI [of _ "r @ [x]"]) (auto simp del: index_of_snoc)
    qed
  qed (rule old)
qed

section \<open>Branches of well-formed entries\<close>

definition leaf_ok :: "entry list \<Rightarrow> string option \<Rightarrow> bool" where
  "leaf_ok es leaf \<longleftrightarrow> (case leaf of None \<Rightarrow> True | Some i \<Rightarrow> i \<in> set (map entry_key es))"

lemma leaf_ok_simps [simp]:
  "leaf_ok es None" "leaf_ok es (Some i) \<longleftrightarrow> i \<in> set (map entry_key es)"
  by (simp_all add: leaf_ok_def)

lemma leaf_ok_snoc: "leaf_ok es leaf \<Longrightarrow> leaf_ok (es @ [e]) leaf"
  by (cases leaf) auto

lemma walk_leaf:
  assumes "wf_entries es" and "i \<in> set (map entry_key es)"
  obtains e p where "index_of es i = Some e" and "e \<in> set es" and "i \<noteq> []"
    and "set p \<subseteq> set es" and "p \<noteq> []" and "last p = e" and "chain p" and "entry_key e = i"
    and "\<And>ix path. index_of es \<subseteq>\<^sub>m ix \<Longrightarrow> walk st ix stop e path = Some (Inr (p @ path))"
proof -
  from assms obtain e where e: "index_of es i = Some e" "e \<in> set es" "entry_key e = i"
    using dom_index_of [of es i] index_of_entry [of es i] by (metis not_None_eq)
  with assms wf_entries_key have "i \<noteq> []" by blast
  with e walk_wf [OF assms(1) e(2), of st stop] show thesis using that by blast
qed

lemma branch_wf:
  assumes wf: "wf_entries es" and lf: "leaf_ok es leaf"
  obtains br full where "branch_from (index_of es) leaf = Some (Inr br)" and "set br \<subseteq> set es"
    and "full_branch (index_of es) leaf = Some (Inr full)" and "set full \<subseteq> set es"
proof (cases leaf)
  case None
  then show thesis by (intro that [of "[]" "[]"]) (simp_all add: branch_from_def full_branch_def)
next
  case (Some i)
  with lf have i: "i \<in> set (map entry_key es)" by simp
  obtain e p where e: "index_of es i = Some e" "i \<noteq> []" and p: "set p \<subseteq> set es"
    and w: "walk True (index_of es) JNull e [] = Some (Inr p)"
    using walk_leaf [OF wf i, of True JNull] by (metis append_Nil2 map_le_refl)
  obtain q where q: "set q \<subseteq> set es" and v: "walk False (index_of es) JNull e [] = Some (Inr q)"
    using walk_leaf [OF wf i, of False JNull] e(1) by (metis append_Nil2 map_le_refl option.inject)
  show thesis using that [OF _ p _ q] e w v Some by (simp add: branch_from_def full_branch_def)
qed

lemma walk_snoc:
  assumes wf: "wf_entries (es @ [e])" and par: "parent_of e = JStr i" and i: "i \<in> set (map entry_key es)"
    and no: "\<not> is_type ''compaction'' e" and b: "index_of es i = Some q"
  shows "walk st (index_of (es @ [e])) JNull e [] =
    (case walk st (index_of es) JNull q [] of Some (Inr p) \<Rightarrow> Some (Inr (p @ [e])) | r \<Rightarrow> r)"
proof -
  have wf': "wf_entries es" "wf_entry es e" using wf by simp_all
  note sub = index_snoc_mono [OF wf'(2)]
  obtain p where "i \<noteq> []" and w: "\<And>ix path. index_of es \<subseteq>\<^sub>m ix \<Longrightarrow> walk st ix JNull q path = Some (Inr (p @ path))"
    using walk_leaf [OF wf'(1) i, of st JNull] b by (metis option.inject)
  have "index_of (es @ [e]) i = Some q" using sub b by (auto simp: map_le_def dom_def)
  with \<open>i \<noteq> []\<close> have "walk st (index_of (es @ [e])) JNull e [] = Some (Inr (p @ [e]))"
    using w [OF sub, of "[e]"] no par by (subst walk_step) simp
  with w [OF map_le_refl, of "[]"] show ?thesis by simp
qed

lemma branch_snoc:
  assumes wf: "wf_entries (es @ [e])" and lf: "leaf_ok es leaf" and par: "parent_of e = leaf_json leaf"
    and no: "\<not> is_type ''compaction'' e"
    and br: "branch_from (index_of es) leaf = Some (Inr br)" and full: "full_branch (index_of es) leaf = Some (Inr full)"
  shows "branch_from (index_of (es @ [e])) (Some (entry_key e)) = Some (Inr (br @ [e]))"
    and "full_branch (index_of (es @ [e])) (Some (entry_key e)) = Some (Inr (full @ [e]))"
proof -
  have wf': "wf_entries es" "wf_entry es e" using wf by simp_all
  have key: "entry_key e \<noteq> []" using wf_key [OF wf'(2)] by simp
  have "walk st (index_of (es @ [e])) JNull e [] = Some (Inr (b @ [e]))"
    if b: "(st \<and> b = br) \<or> (\<not> st \<and> b = full)" for st b
  proof (cases leaf)
    case None
    then have "b = []" using b br full by (auto simp: branch_from_def full_branch_def)
    with None show ?thesis using par no by (subst walk_step) (simp add: leaf_json_def)
  next
    case (Some i)
    with lf have i: "i \<in> set (map entry_key es)" by simp
    obtain q where q: "index_of es i = Some q" "i \<noteq> []"
      using walk_leaf [OF wf'(1) i] by metis
    have "walk st (index_of es) JNull q [] = Some (Inr b)"
      using b br full q Some by (auto simp: branch_from_def full_branch_def split: if_splits)
    then show ?thesis using walk_snoc [OF wf _ i no q(1), of st] par Some by (simp add: leaf_json_def)
  qed
  from this [of True br] this [of False full] key
  show "branch_from (index_of (es @ [e])) (Some (entry_key e)) = Some (Inr (br @ [e]))"
    and "full_branch (index_of (es @ [e])) (Some (entry_key e)) = Some (Inr (full @ [e]))"
    by (simp_all add: branch_from_def full_branch_def del: index_of_snoc)
      (simp_all add: index_of_snoc)
qed

section \<open>The context of a branch with one more message\<close>

definition plain :: "entry \<Rightarrow> bool" where
  "plain e \<longleftrightarrow> is_type ''message'' e \<or> is_type ''custom_message'' e"

lemma plain_not_compaction: "plain e \<Longrightarrow> \<not> is_type ''compaction'' e"
  by (auto simp: plain_def is_type_def)

lemma find_compaction_snoc:
  "n \<le> length br \<Longrightarrow> find_compaction (br @ [e]) n latest = find_compaction br n latest"
  by (induction n arbitrary: latest) (simp_all add: nth_append)

lemma find_compaction_range:
  assumes "find_compaction br n latest = (l, r)" and "n \<le> length br"
  shows "(l = latest \<or> (\<exists>i<length br. l = Some i)) \<and> (r = None \<or> (\<exists>i<length br. r = Some i))"
  using assms
proof (induction n arbitrary: latest)
  case (Suc n)
  from Suc.prems(2) have n: "n < length br" by simp
  consider "l = Some n" "r = Some n" | "latest = None" "find_compaction br n (Some n) = (l, r)"
    | "find_compaction br n latest = (l, r)"
    by (metis Suc.prems(1) find_compaction.simps(2) prod.inject)
  then show ?case
  proof cases
    case 2
    with Suc.IH [OF 2(2)] n show ?thesis by auto
  next
    case 3
    with Suc.IH [OF 3] n show ?thesis by auto
  qed (use n in auto)
qed simp

lemma context_fold_append:
  "context_fold pt now c ids (xs @ ys) a = bind_res (context_fold pt now c ids xs a) (context_fold pt now c ids ys)"
  by (induction xs arbitrary: a) (auto simp: bind_res_def split: sum.split)

lemma reorder_snoc: "(\<And>i. r = Some i \<Longrightarrow> i < length br) \<Longrightarrow> reorder (br @ [e]) r = reorder br r @ [e]"
  by (cases r) (auto simp: reorder_def nth_append)

lemma set_reorder: "(\<And>i. r = Some i \<Longrightarrow> i < length br) \<Longrightarrow> set (reorder br r) \<subseteq> set br"
  by (cases r) (auto simp: reorder_def dest: in_set_takeD in_set_dropD)

lemma context_step_ids:
  "entry_key e \<noteq> k \<Longrightarrow> context_step pt now c (insert k ids) e a = context_step pt now c ids e a"
  by (simp add: context_step_def)

lemma context_fold_ids:
  "k \<notin> set (map entry_key es) \<Longrightarrow> context_fold pt now c (insert k ids) es a = context_fold pt now c ids es a"
  by (induction es arbitrary: a) (auto simp: context_step_ids intro!: bind_res_cong)

text \<open>The boundary index a context starts with is the last message before the fresh part.\<close>

lemma context_step_inv:
  assumes "context_step pt now c ids e a = Inr b"
    and "ca_started a \<longleftrightarrow> ca_index a \<noteq> None" and "\<And>i. ca_index a = Some i \<Longrightarrow> i < int (length (ca_messages a))"
  shows "(ca_started b \<longleftrightarrow> ca_index b \<noteq> None) \<and> (\<forall>i. ca_index b = Some i \<longrightarrow> i < int (length (ca_messages b)))
    \<and> (ca_ms b \<noteq> None \<longrightarrow> ca_ms a \<noteq> None \<or> is_type ''compaction'' e) \<and> (\<not> c \<longrightarrow> ca_index b = ca_index a)"
  using assms by (auto simp: context_step_def Let_def split: if_splits elim!: bind_res_InrE dest!: less_imp_le)

lemma context_fold_inv:
  assumes "context_fold pt now c ids es a = Inr b"
    and "ca_started a \<longleftrightarrow> ca_index a \<noteq> None" and "\<And>i. ca_index a = Some i \<Longrightarrow> i < int (length (ca_messages a))"
  shows "(ca_started b \<longleftrightarrow> ca_index b \<noteq> None) \<and> (\<forall>i. ca_index b = Some i \<longrightarrow> i < int (length (ca_messages b)))
    \<and> (ca_ms b \<noteq> None \<longrightarrow> ca_ms a \<noteq> None \<or> (\<exists>e \<in> set es. is_type ''compaction'' e)) \<and> (\<not> c \<longrightarrow> ca_index b = ca_index a)"
  using assms
proof (induction es arbitrary: a)
  case Nil
  then show ?case by simp
next
  case (Cons e es)
  then obtain d where d: "context_step pt now c ids e a = Inr d" "context_fold pt now c ids es d = Inr b"
    by (auto elim: bind_res_InrE)
  note s = context_step_inv [OF d(1) Cons.prems(2,3)]
  have "(ca_started b \<longleftrightarrow> ca_index b \<noteq> None) \<and> (\<forall>i. ca_index b = Some i \<longrightarrow> i < int (length (ca_messages b)))
    \<and> (ca_ms b \<noteq> None \<longrightarrow> ca_ms d \<noteq> None \<or> (\<exists>e \<in> set es. is_type ''compaction'' e)) \<and> (\<not> c \<longrightarrow> ca_index b = ca_index d)"
    using Cons.IH [OF d(2)] s by blast
  with s show ?case by auto
qed

lemma find_compaction_none:
  "find_compaction br n None = (None, r) \<Longrightarrow> n \<le> length br \<Longrightarrow> k < n \<Longrightarrow> \<not> is_type ''compaction'' (br ! k)"
proof (induction n)
  case (Suc n)
  have some: "fst (find_compaction br m (Some i)) \<noteq> None" for m i
    by (induction m arbitrary: i) simp_all
  then have "\<not> is_type ''compaction'' (br ! n)" "find_compaction br n None = (None, r)"
    using Suc.prems(1) some [of n n] by (metis find_compaction.simps(2) fst_conv option.distinct(1))+
  with Suc show ?case by (cases "k = n") auto
qed simp

lemma context_of_bounds:
  assumes "context_of pt now br = Inr a"
  shows "(ca_ms a \<noteq> None \<longrightarrow> ca_index a \<noteq> None) \<and> (\<forall>i. ca_index a = Some i \<longrightarrow> i < int (length (ca_messages a)))"
proof -
  obtain l r where f: "find_compaction br (length br) None = (l, r)" by fastforce
  have rng: "\<And>i. r = Some i \<Longrightarrow> i < length br" using find_compaction_range [OF f] by auto
  define ids where "ids = (case l of None \<Rightarrow> {} | Some i \<Rightarrow> set (map entry_key (drop (Suc i) br)))"
  define a0 where "a0 = \<lparr>ca_messages = [], ca_ms = None, ca_index = None, ca_started = False\<rparr>"
  from assms f obtain b where b: "context_fold pt now (l \<noteq> None) ids (reorder br r) a0 = Inr b"
    and a: "a = (if l \<noteq> None \<and> ca_index b = None then b\<lparr>ca_index := Some (int (length (ca_messages b)) - 1)\<rparr> else b)"
    by (auto simp: context_of_def ids_def a0_def elim!: bind_res_InrE)
  have inv: "\<forall>i. ca_index b = Some i \<longrightarrow> i < int (length (ca_messages b))"
    "ca_ms b \<noteq> None \<longrightarrow> (\<exists>e \<in> set (reorder br r). is_type ''compaction'' e)"
    using context_fold_inv [OF b] by (simp_all add: a0_def)
  have "l \<noteq> None" if "e \<in> set (reorder br r)" "is_type ''compaction'' e" for e
  proof
    assume "l = None"
    moreover from that set_reorder [of r br] rng obtain k where "k < length br" "br ! k = e"
      by (meson in_set_conv_nth subsetD)
    ultimately show False using find_compaction_none [of br "length br" r k] f that(2) by auto
  qed
  with inv a show ?thesis by auto
qed

end
