(* ===== verification/SessionReach.thy ===== *)
theory SessionReach
  imports SessionStats
begin

text \<open>
  Sessions in use: the operations of \<open>Session\<close> as one step relation, the invariant of the
  reachable sessions, and the properties of reading them: the incremental statistics are those of
  the full scan, and every walk along the tree ends.
\<close>

section \<open>The effect of one more message on the context\<close>

lemma plain_entry_messages:
  assumes "plain e" and "entry_messages now e = Inr ms"
  shows "\<exists>m. ms = [m]"
  using assms by (auto simp: plain_def entry_messages_def is_type_def split: if_splits elim!: bind_res_InrE)

lemma context_step_plain:
  assumes "plain e" and "context_step pt now c ids e a = Inr b"
  shows "\<exists>m. entry_messages now e = Inr [m] \<and> ca_messages b = ca_messages a @ [m] \<and> ca_ms b = ca_ms a
    \<and> ca_index b = (if c \<and> \<not> ca_started a \<and> entry_key e \<in> ids then Some (int (length (ca_messages a)) - 1) else ca_index a)"
  using assms plain_entry_messages [OF assms(1)] plain_not_compaction [OF assms(1)]
  by (fastforce simp: context_step_def Let_def elim!: bind_res_InrE)

lemma context_of_snoc:
  assumes pl: "plain e" and key: "entry_key e \<notin> set (map entry_key br)"
    and ok: "context_of pt now (br @ [e]) = Inr a'"
  shows "\<exists>a m. context_of pt now br = Inr a \<and> entry_messages now e = Inr [m]
    \<and> ca_messages a' = ca_messages a @ [m] \<and> ca_ms a' = ca_ms a \<and> ca_index a' = ca_index a"
proof -
  obtain l r where f: "find_compaction br (length br) None = (l, r)" by fastforce
  have rng: "\<And>i. r = Some i \<Longrightarrow> i < length br" and lrng: "\<And>i. l = Some i \<Longrightarrow> i < length br"
    using find_compaction_range [OF f] by auto
  have f': "find_compaction (br @ [e]) (length (br @ [e])) None = (l, r)"
    using f plain_not_compaction [OF pl] by (simp add: find_compaction_snoc)
  define ids where "ids = (case l of None \<Rightarrow> {} | Some i \<Rightarrow> set (map entry_key (drop (Suc i) br)))"
  define a0 where "a0 = \<lparr>ca_messages = [], ca_ms = None, ca_index = None, ca_started = False\<rparr>"
  let ?ids = "case l of None \<Rightarrow> {} | Some i \<Rightarrow> set (map entry_key (drop (Suc i) (br @ [e])))"
  have ids': "?ids = (if l = None then {} else insert (entry_key e) ids)"
    using lrng by (auto simp: ids_def split: option.split)
  have nin: "entry_key e \<notin> set (map entry_key (reorder br r))"
    using key set_reorder [of r br] rng by auto
  have folds: "context_fold pt now c ?ids (reorder br r) a0 = context_fold pt now c ids (reorder br r) a0" for c
    unfolding ids' using context_fold_ids [OF nin] by (cases l) (simp_all add: ids_def)
  define fin where "fin = (\<lambda>b::context_acc. if l \<noteq> None \<and> ca_index b = None
      then b\<lparr>ca_index := Some (int (length (ca_messages b)) - 1)\<rparr> else b)"
  from ok f' obtain b d where b: "context_fold pt now (l \<noteq> None) ids (reorder br r) a0 = Inr b"
    and d: "context_step pt now (l \<noteq> None) ?ids e b = Inr d" and a': "a' = fin d"
    by (auto simp: context_of_def Let_def reorder_snoc rng context_fold_append folds [unfolded a0_def] a0_def fin_def
        elim!: bind_res_InrE)
  have inv: "ca_started b \<longleftrightarrow> ca_index b \<noteq> None" "l = None \<longrightarrow> ca_index b = None"
    using context_fold_inv [OF b] by (simp_all add: a0_def)
  have a: "context_of pt now br = Inr (fin b)"
    using b f by (simp add: context_of_def ids_def a0_def fin_def)
  obtain m where m: "entry_messages now e = Inr [m]" "ca_messages d = ca_messages b @ [m]" "ca_ms d = ca_ms b"
    "ca_index d = (if l \<noteq> None \<and> \<not> ca_started b \<and> entry_key e \<in> ?ids then Some (int (length (ca_messages b)) - 1) else ca_index b)"
    using context_step_plain [OF pl d] by blast
  have "ca_messages a' = ca_messages (fin b) @ [m]" "ca_ms a' = ca_ms (fin b)"
    using m by (simp_all add: a' fin_def)
  moreover have "ca_index a' = ca_index (fin b)"
    using m(4) inv ids' by (auto simp: a' fin_def)
  ultimately show ?thesis using a m(1) by blast
qed

section \<open>The clock does not matter to the statistics\<close>

definition same_stat :: "message \<Rightarrow> message \<Rightarrow> bool" where
  "same_stat m m' \<longleftrightarrow> message_type_for_statistics m = message_type_for_statistics m'
     \<and> estimate_tokens m = estimate_tokens m' \<and> completed_total m = completed_total m'"

lemma same_stat_refl [simp]: "same_stat m m"
  by (simp add: same_stat_def)

lemma same_stat_text [simp]: "same_stat (user_text t s) (user_text t' s)"
  by (simp add: same_stat_def user_text_def estimate_tokens_def)

lemma list_same_stat_refl [simp]: "list_all2 same_stat ms ms"
  by (simp add: list.rel_refl)

definition same_acc :: "context_acc \<Rightarrow> context_acc \<Rightarrow> bool" where
  "same_acc a b \<longleftrightarrow> list_all2 same_stat (ca_messages a) (ca_messages b) \<and> ca_ms a = ca_ms b
     \<and> ca_index a = ca_index b \<and> ca_started a = ca_started b"

lemma same_stat_entry:
  assumes "entry_messages now e = Inr ms" and "entry_messages now' e = Inr ms'"
  shows "list_all2 same_stat ms ms'"
  using assms by (auto simp: entry_messages_def split: if_splits elim!: bind_res_InrE)

lemma context_step_fields:
  assumes "context_step pt now c ids e a = Inr b" and "entry_messages now e = Inr ms"
  shows "ca_messages b = ca_messages a @ ms"
    and "ca_ms b = (if is_type ''compaction'' e then pt (jget e ''timestamp'') else ca_ms a)"
    and "ca_index b = (if c \<and> \<not> ca_started a \<and> entry_key e \<in> ids then Some (int (length (ca_messages a)) - 1) else ca_index a)"
    and "ca_started b \<longleftrightarrow> (c \<and> entry_key e \<in> ids) \<or> ca_started a"
  using assms by (cases "c \<and> \<not> ca_started a \<and> entry_key e \<in> ids"; cases "is_type ''compaction'' e";
      force simp: context_step_def Let_def)+

lemma same_acc_step:
  assumes "same_acc a a'" and "context_step pt now c ids e a = Inr b" and "context_step pt now' c ids e a' = Inr b'"
  shows "same_acc b b'"
proof -
  from assms obtain ms ms' where ms: "entry_messages now e = Inr ms" "entry_messages now' e = Inr ms'"
    by (auto simp: context_step_def Let_def elim!: bind_res_InrE)
  have "length (ca_messages a) = length (ca_messages a')"
    using assms(1) by (auto simp: same_acc_def dest: list_all2_lengthD)
  with assms(1) same_stat_entry [OF ms] show ?thesis
    by (simp add: same_acc_def context_step_fields [OF assms(2) ms(1)] context_step_fields [OF assms(3) ms(2)]
        list_all2_appendI)
qed

lemma same_acc_fold:
  assumes "same_acc a a'" and "context_fold pt now c ids es a = Inr b" and "context_fold pt now' c ids es a' = Inr b'"
  shows "same_acc b b'"
  using assms
proof (induction es arbitrary: a a')
  case Nil
  then show ?case by simp
next
  case (Cons e es)
  then obtain d d' where "context_step pt now c ids e a = Inr d" "context_fold pt now c ids es d = Inr b"
    "context_step pt now' c ids e a' = Inr d'" "context_fold pt now' c ids es d' = Inr b'"
    by (auto elim!: bind_res_InrE)
  with Cons.IH same_acc_step [OF Cons.prems(1)] show ?case by blast
qed

lemma same_acc_context:
  assumes "context_of pt now br = Inr a" and "context_of pt now' br = Inr a'"
  shows "list_all2 same_stat (ca_messages a) (ca_messages a') \<and> ca_ms a = ca_ms a' \<and> ca_index a = ca_index a'"
proof -
  obtain l r where f: "find_compaction br (length br) None = (l, r)" by fastforce
  define a0 where "a0 = \<lparr>ca_messages = [], ca_ms = None, ca_index = None, ca_started = False\<rparr>"
  define ids where "ids = (case l of None \<Rightarrow> {} | Some i \<Rightarrow> set (map entry_key (drop (Suc i) br)))"
  define fin where "fin = (\<lambda>b::context_acc. if l \<noteq> None \<and> ca_index b = None
      then b\<lparr>ca_index := Some (int (length (ca_messages b)) - 1)\<rparr> else b)"
  obtain b b' where b: "context_fold pt now (l \<noteq> None) ids (reorder br r) a0 = Inr b"
    "context_fold pt now' (l \<noteq> None) ids (reorder br r) a0 = Inr b'" and a: "a = fin b" "a' = fin b'"
    using assms f by (auto simp: context_of_def ids_def a0_def fin_def elim!: bind_res_InrE)
  have "same_acc b b'" by (rule same_acc_fold [OF _ b]) (simp add: same_acc_def)
  then show ?thesis by (auto simp: a fin_def same_acc_def dest: list_all2_lengthD)
qed

lemma cache_count_same: "same_stat m m' \<Longrightarrow> cache_count m after c = cache_count m' after c"
  by (simp add: same_stat_def cache_count_def)

lemma after_boundary_timeless: "(ms \<noteq> None \<longrightarrow> idx \<noteq> None) \<Longrightarrow> after_boundary ms idx i m = after_boundary ms idx i m'"
  by (auto simp: after_boundary_def split: option.split)

lemma cache_scan_same:
  assumes "list_all2 same_stat xs ys" and "ms \<noteq> None \<longrightarrow> idx \<noteq> None"
  shows "cache_scan ms idx i xs c = cache_scan ms idx i ys c"
  using assms
proof (induction xs ys arbitrary: i c rule: list_all2_induct)
  case Nil
  then show ?case by simp
next
  case (Cons x xs y ys)
  from after_boundary_timeless [OF Cons.prems, of i x y] cache_count_same [OF Cons.hyps(1)] Cons.IH Cons.prems
  show ?case by simp
qed

section \<open>The operations as one step relation\<close>

datatype session_op =
    AppendMessage message
  | AppendModelChange string string
  | AppendThinkingLevelChange string
  | AppendActiveToolsChange "string list"
  | AppendCompaction string int "string option" "message list" "usage option" "json option" bool
  | AppendBranchSummary string string "usage option" "json option" bool
  | AppendCustomMessage string string bool json
  | AppendRunStart string "(string, json) dict" string string
  | AppendRunEnd string string "int option" "string option"
  | AppendArtifactDelivery string string "json list"
  | AppendSessionConfig "(string, json) dict"
  | AppendNextTurnInput "(string, json) dict"
  | AppendNextTurnConsumed "string list"
  | SetLabel string "string option"
  | SetName "string option"
  | SetLeaf "string option"
  | ReadStats "int option"

definition read_stats :: "(json \<Rightarrow> int option) \<Rightarrow> int \<Rightarrow> int option \<Rightarrow> (session, unit) comp" where
  "read_stats pt now window = (\<lambda>s. case stats pt now window s of
      None \<Rightarrow> (Inl OutOfFuel, s) | Some (r, t) \<Rightarrow> (map_sum id (\<lambda>_. ()) r, t))"

definition void :: "('s, 'a) comp \<Rightarrow> ('s, unit) comp" where
  "void m = seqc m (\<lambda>_. ret ())"

fun run_op :: "(json \<Rightarrow> int option) \<Rightarrow> outside \<Rightarrow> int \<Rightarrow> session_op \<Rightarrow> (session, unit) comp" where
  "run_op pt ot now (AppendMessage m) = void (append_message_entry ot now m)"
| "run_op pt ot now (AppendModelChange p m) = void (append_model_change ot now p m)"
| "run_op pt ot now (AppendThinkingLevelChange l) = void (append_thinking_level_change ot now l)"
| "run_op pt ot now (AppendActiveToolsChange ns) = void (append_active_tools_change ot now ns)"
| "run_op pt ot now (AppendCompaction sm tb fk rt us d h) = void (append_compaction ot now sm tb fk rt us d h)"
| "run_op pt ot now (AppendBranchSummary f sm us d h) = void (append_branch_summary ot now f sm us d h)"
| "run_op pt ot now (AppendCustomMessage ty c dp d) = void (append_custom_message ot now ty c dp d)"
| "run_op pt ot now (AppendRunStart r i m l) = void (append_run_start ot now r i m l)"
| "run_op pt ot now (AppendRunEnd r st d e) = void (append_run_end ot now r st d e)"
| "run_op pt ot now (AppendArtifactDelivery r c a) = void (append_artifact_delivery ot now r c a)"
| "run_op pt ot now (AppendSessionConfig c) = void (append_session_config ot now c)"
| "run_op pt ot now (AppendNextTurnInput i) = void (append_next_turn_input ot now i)"
| "run_op pt ot now (AppendNextTurnConsumed ids) = void (append_next_turn_consumed ot now ids)"
| "run_op pt ot now (SetLabel t l) = void (set_label ot now t l)"
| "run_op pt ot now (SetName n) = void (set_name ot now n)"
| "run_op pt ot now (SetLeaf l) = set_leaf_id ot l"
| "run_op pt ot now (ReadStats w) = read_stats pt now w"

text \<open>Identifiers are fresh: a candidate is a nonempty text, and the long identifier is not in use.\<close>

definition fresh_ids :: "outside \<Rightarrow> session \<Rightarrow> bool" where
  "fresh_ids ot s \<longleftrightarrow> [] \<notin> set (os_candidates ot) \<and> os_long_id ot \<noteq> [] \<and> sn_by_id s (os_long_id ot) = None"

inductive session_reach :: "(json \<Rightarrow> int option) \<Rightarrow> session \<Rightarrow> session \<Rightarrow> bool" for pt s0 where
  start: "session_reach pt s0 s0"
| op: "session_reach pt s0 s \<Longrightarrow> fresh_ids ot s \<Longrightarrow> session_reach pt s0 (snd (run_op pt ot now x s))"

inductive_cases session_reachE: "session_reach pt s0 s"

section \<open>The invariant of reachable sessions\<close>

definition cache_valid :: "(json \<Rightarrow> int option) \<Rightarrow> session \<Rightarrow> ctx_cache \<Rightarrow> bool" where
  "cache_valid pt s c \<longleftrightarrow> cc_leaf c = sn_leaf s \<and>
     (\<forall>now ctx. session_build pt now s = Some (Inr ctx) \<longrightarrow> c = context_stats_cache ctx (sn_version s) (sn_leaf s))"

definition session_inv :: "(json \<Rightarrow> int option) \<Rightarrow> session \<Rightarrow> bool" where
  "session_inv pt s \<longleftrightarrow> wf_entries (sn_entries s) \<and> sn_by_id s = index_of (sn_entries s)
     \<and> leaf_ok (sn_entries s) (sn_leaf s)
     \<and> (\<forall>l. lifetime_stats_of (sn_entries s) = Inr l \<longrightarrow> sn_lifetime s = l)
     \<and> (\<forall>c. sn_cache s = Some c \<longrightarrow> cc_version c \<le> sn_version s \<and> (cc_version c = sn_version s \<longrightarrow> cache_valid pt s c))"

lemma session_inv_new:
  assumes "wf_entries es" and "leaf_ok es leaf" and "new_session es leaf = Inr s"
  shows "session_inv pt s"
  using assms by (auto simp: session_inv_def new_session_def elim!: bind_res_InrE)

lemma fresh_id_fresh: "fresh_ids ot s \<Longrightarrow> fresh_id (sn_by_id s) (os_candidates ot) (os_long_id ot) \<noteq> []
    \<and> sn_by_id s (fresh_id (sn_by_id s) (os_candidates ot) (os_long_id ot)) = None"
proof -
  assume f: "fresh_ids ot s"
  let ?F = "filter (\<lambda>i. sn_by_id s i = None) (take 100 (os_candidates ot))"
  show ?thesis
  proof (cases ?F)
    case (Cons i r)
    then have "i \<in> set ?F" by (metis list.set_intros(1))
    then have "i \<in> set (os_candidates ot) \<and> sn_by_id s i = None" by (auto dest: in_set_takeD)
    with f Cons show ?thesis by (auto simp: fresh_id_def fresh_ids_def)
  qed (use f in \<open>simp add: fresh_id_def fresh_ids_def\<close>)
qed

lemma context_cache_timeless:
  assumes "session_build pt now s = Some (Inr ctx)" and "session_build pt now' s = Some (Inr ctx')"
  shows "context_stats_cache ctx v l = context_stats_cache ctx' v l"
proof -
  from assms obtain br a a' where "context_of pt now br = Inr a" "context_of pt now' br = Inr a'"
    and c: "sc_messages ctx = ca_messages a" "sc_boundary_ms ctx = ca_ms a" "sc_boundary_index ctx = ca_index a"
      "sc_messages ctx' = ca_messages a'" "sc_boundary_ms ctx' = ca_ms a'" "sc_boundary_index ctx' = ca_index a'"
    by (auto simp: session_build_def build_context_def split: option.splits sum.splits elim!: bind_res_InrE)
  with same_acc_context [of pt now br a now' a'] context_of_bounds [of pt now br a] show ?thesis
    by (auto simp: context_stats_cache_def intro: cache_scan_same)
qed

section \<open>Every operation keeps the invariant\<close>

definition payload_ok :: "(string, json) dict \<Rightarrow> bool" where
  "payload_ok p \<longleftrightarrow> list_all (\<lambda>kv. fst kv \<notin> {''type'', ''id'', ''parentId'', ''timestamp''}) p"

lemma payload_ok_simps [simp]:
  "payload_ok []"
  "payload_ok ((k, v) # p) \<longleftrightarrow> k \<notin> {''type'', ''id'', ''parentId'', ''timestamp''} \<and> payload_ok p"
  "payload_ok (p @ q) \<longleftrightarrow> payload_ok p \<and> payload_ok q"
  by (simp_all add: payload_ok_def)

lemma payload_ok_opt [simp]: "k \<notin> {''type'', ''id'', ''parentId'', ''timestamp''} \<Longrightarrow> payload_ok (opt_entry k v)"
  by (simp add: opt_entry_def split: option.split)

lemma map_of_merge: "k \<notin> fst ` set p \<Longrightarrow> map_of (dict_merge d p) k = map_of d k"
  by (induction p arbitrary: d) (auto simp: dict_merge_def)

lemma make_entry_fields:
  assumes "payload_ok p"
  shows "jget (make_entry ty i parent ts p) ''id'' = JStr i" "parent_of (make_entry ty i parent ts p) = leaf_json parent"
    "entry_key (make_entry ty i parent ts p) = i" "entry_type (make_entry ty i parent ts p) = JStr ty"
proof -
  have "k \<notin> fst ` set p" if "k \<in> {''type'', ''id'', ''parentId''}" for k
    using assms that by (auto simp: payload_ok_def list_all_iff)
  then show "jget (make_entry ty i parent ts p) ''id'' = JStr i" "parent_of (make_entry ty i parent ts p) = leaf_json parent"
    "entry_key (make_entry ty i parent ts p) = i" "entry_type (make_entry ty i parent ts p) = JStr ty"
    by (simp_all add: make_entry_def jget_def dict_get_def map_of_merge parent_of_def entry_key_def entry_type_def)
qed

lemma wf_entry_new:
  assumes "session_inv pt s" and "sn_by_id s i = None" and "i \<noteq> []" and "jget e ''id'' = JStr i"
    and "parent_of e = leaf_json (sn_leaf s)"
  shows "wf_entry (sn_entries s) e"
  using assms by (cases "sn_leaf s")
    (auto simp: session_inv_def wf_entry_def dom_index_of leaf_json_def)

definition added :: "entry \<Rightarrow> string option \<Rightarrow> session \<Rightarrow> session" where
  "added e leaf s = s\<lparr>sn_entries := sn_entries s @ [e], sn_by_id := (sn_by_id s)(entry_key e \<mapsto> e),
     sn_leaf := leaf, sn_version := sn_version s + 1\<rparr>"

lemma added_inv:
  assumes inv: "session_inv pt s" and e: "wf_entry (sn_entries s) e" and lf: "leaf_ok (sn_entries s @ [e]) leaf"
  shows "wp (lifetime_update e)
    (\<lambda>_ t. \<forall>c. (\<forall>x. c = Some x \<longrightarrow> cc_version x = sn_version t \<and> cache_valid pt t x) \<longrightarrow> session_inv pt (t\<lparr>sn_cache := c\<rparr>))
    (\<lambda>_ t. session_inv pt t) (added e leaf s)"
  and "wp (lifetime_update e) (\<lambda>_ t. session_inv pt t) (\<lambda>_ t. session_inv pt t) (added e leaf s)"
  and "wp (lifetime_update e) (\<lambda>_ t. \<exists>l. t = added e leaf s\<lparr>sn_lifetime := l\<rparr>) (\<lambda>_ t. True) (added e leaf s)"
proof -
  have old: "cc_version c \<noteq> Suc (sn_version s) \<and> cc_version c \<le> Suc (sn_version s)" if "sn_cache s = Some c" for c
    using inv that by (auto simp: session_inv_def)
  note base = inv [unfolded session_inv_def]
  show "wp (lifetime_update e) (\<lambda>_ t. session_inv pt t) (\<lambda>_ t. session_inv pt t) (added e leaf s)"
    using base e lf old
    by (auto simp: wp_def lifetime_update_def added_def session_inv_def lifetime_of_snoc elim!: bind_res_InrE split: sum.split)
  show "wp (lifetime_update e)
    (\<lambda>_ t. \<forall>c. (\<forall>x. c = Some x \<longrightarrow> cc_version x = sn_version t \<and> cache_valid pt t x) \<longrightarrow> session_inv pt (t\<lparr>sn_cache := c\<rparr>))
    (\<lambda>_ t. session_inv pt t) (added e leaf s)"
    using base e lf old
    by (auto simp: wp_def lifetime_update_def added_def session_inv_def cache_valid_def session_build_def lifetime_of_snoc
        elim!: bind_res_InrE split: sum.split)
  show "wp (lifetime_update e) (\<lambda>_ t. \<exists>l. t = added e leaf s\<lparr>sn_lifetime := l\<rparr>) (\<lambda>_ t. True) (added e leaf s)"
    by (auto simp: wp_def lifetime_update_def split: sum.split)
qed

lemma cache_scan_meta:
  "cache_scan ms idx i xs (c\<lparr>cc_version := v, cc_leaf := l\<rparr>) = (cache_scan ms idx i xs c)\<lparr>cc_version := v, cc_leaf := l\<rparr>"
proof -
  have "cache_count m a (c\<lparr>cc_version := v, cc_leaf := l\<rparr>) = (cache_count m a c)\<lparr>cc_version := v, cc_leaf := l\<rparr>" for m a c
    by (simp add: cache_count_def Let_def split: option.split)
  then show ?thesis by (induction xs arbitrary: i c) simp_all
qed

lemma context_message_same:
  assumes "context_message now e = Inr (Some m)" and "entry_messages now' e = Inr [m']"
  shows "plain e \<and> same_stat m m'"
  using assms by (auto simp: context_message_def entry_messages_def plain_def is_type_def split: if_splits elim!: bind_res_InrE)

lemma cache_append_valid:
  assumes inv: "session_inv pt s" and e: "wf_entry (sn_entries s) e" and par: "parent_of e = leaf_json (sn_leaf s)"
    and m: "context_message now e = Inr (Some m)" and c: "cache_valid pt s c"
    and t: "t = added e (Some (entry_key e)) s\<lparr>sn_lifetime := l\<rparr>"
  shows "cache_valid pt t (cache_append m (sn_version t) (entry_key e) c)"
proof -
  let ?es = "sn_entries s"
  have wf: "wf_entries (?es @ [e])" "wf_entries ?es" and ix: "sn_by_id s = index_of ?es" and lf: "leaf_ok ?es (sn_leaf s)"
    using inv e by (auto simp: session_inv_def)
  have pl: "plain e" using m by (auto simp: context_message_def plain_def split: if_splits)
  obtain br full where br: "branch_from (index_of ?es) (sn_leaf s) = Some (Inr br)" "set br \<subseteq> set ?es"
    and full: "full_branch (index_of ?es) (sn_leaf s) = Some (Inr full)"
    using branch_wf [OF wf(2) lf] by metis
  note br' = branch_snoc [OF wf(1) lf par plain_not_compaction [OF pl] br(1) full]
  have key: "entry_key e \<notin> set (map entry_key br)"
    using br(2) wf_key [OF e] by (auto simp: dom_index_of)
  have "cache_append m (Suc (sn_version s)) (entry_key e) c = context_stats_cache ctx' (Suc (sn_version s)) (Some (entry_key e))"
    if b: "session_build pt now' t = Some (Inr ctx')" for now' ctx'
  proof -
    have "build_context pt now' (index_of (?es @ [e])) (Some (entry_key e)) = Some (Inr ctx')"
      using b ix t by (simp add: session_build_def added_def)
    then obtain st a' where st: "state_of (full @ [e]) \<lparr>bs_thinking = None, bs_model = None, bs_tools = None\<rparr> = Inr st"
      and a': "context_of pt now' (br @ [e]) = Inr a'"
      and ctx': "sc_messages ctx' = ca_messages a'" "sc_boundary_ms ctx' = ca_ms a'" "sc_boundary_index ctx' = ca_index a'"
      by (auto simp: build_context_def br' simp del: index_of_snoc elim!: bind_res_InrE)
    obtain a m' where a: "context_of pt now' br = Inr a" and m': "entry_messages now' e = Inr [m']"
      and eq: "ca_messages a' = ca_messages a @ [m']" "ca_ms a' = ca_ms a" "ca_index a' = ca_index a"
      using context_of_snoc [OF pl key a'] by blast
    have "state_of (xs @ ys) b = bind_res (state_of xs b) (state_of ys)" for xs ys b
      by (induction xs arbitrary: b) (auto simp: bind_res_def split: sum.split)
    with st obtain st0 where "state_of full \<lparr>bs_thinking = None, bs_model = None, bs_tools = None\<rparr> = Inr st0"
      by (auto elim!: bind_res_InrE)
    then obtain ctx where "session_build pt now' s = Some (Inr ctx)"
      and ctx: "sc_messages ctx = ca_messages a" "sc_boundary_ms ctx = ca_ms a" "sc_boundary_index ctx = ca_index a"
      using a br full ix by (simp add: session_build_def build_context_def)
    with c have c: "c = context_stats_cache ctx (sn_version s) (sn_leaf s)" by (auto simp: cache_valid_def)
    have after: "after_boundary (ca_ms a) (ca_index a) (length (ca_messages a)) m'"
      using context_of_bounds [OF a] by (auto simp: after_boundary_def split: option.split)
    have "context_stats_cache ctx' (Suc (sn_version s)) (Some (entry_key e))
        = cache_count m' True (context_stats_cache ctx (Suc (sn_version s)) (Some (entry_key e)))"
      by (simp add: context_stats_cache_def ctx ctx' eq cache_scan_append after)
    also have "\<dots> = cache_count m True (context_stats_cache ctx (Suc (sn_version s)) (Some (entry_key e)))"
      using cache_count_same context_message_same [OF m m'] by metis
    also have "context_stats_cache ctx (Suc (sn_version s)) (Some (entry_key e))
        = c\<lparr>cc_version := Suc (sn_version s), cc_leaf := Some (entry_key e)\<rparr>"
      by (simp add: c context_stats_cache_def flip: cache_scan_meta)
    also have "cache_count m True \<dots> = cache_append m (Suc (sn_version s)) (entry_key e) c"
      by (simp add: cache_append_def cache_count_def Let_def split: option.split)
    finally show ?thesis ..
  qed
  with t show ?thesis by (auto simp: cache_valid_def added_def cache_append_def)
qed

lemma append_entry_run:
  fixes s :: session and ty :: string
  assumes p: "payload_ok p" and ok: "os_persist ot = None"
  defines "i \<equiv> fresh_id (sn_by_id s) (os_candidates ot) (os_long_id ot)"
  defines "e \<equiv> make_entry ty i (sn_leaf s) (os_timestamp ot) p"
  shows "append_entry ot now ty p s = seqc (lifetime_update e) (\<lambda>_.
       seqc (lift_res (context_message now e)) (\<lambda>m.
       seqc (modifies (\<lambda>t. t\<lparr>sn_cache :=
        (case (m, sn_cache t) of
           (Some msg, Some c) \<Rightarrow>
             if cc_version c = sn_version s \<and> cc_leaf c = sn_leaf s
             then Some (cache_append msg (sn_version t) i c) else None
         | _ \<Rightarrow> None)\<rparr>)) (\<lambda>_. ret i))) (added e (Some i) s)"
  using ok make_entry_fields(3) [OF p, of ty i "sn_leaf s" "os_timestamp ot", folded e_def]
  unfolding append_entry_def i_def e_def added_def by (simp add: comp_defs Let_def)

lemma append_entry_inv:
  assumes inv: "session_inv pt s" and fr: "fresh_ids ot s" and p: "payload_ok p"
  shows "session_inv pt (snd (append_entry ot now ty p s))"
proof -
  define i where "i = fresh_id (sn_by_id s) (os_candidates ot) (os_long_id ot)"
  define e where "e = make_entry ty i (sn_leaf s) (os_timestamp ot) p"
  have i: "i \<noteq> []" "sn_by_id s i = None" using fresh_id_fresh [OF fr] by (simp_all add: i_def)
  note f = make_entry_fields [OF p, of ty i "sn_leaf s" "os_timestamp ot", folded e_def]
  have e: "wf_entry (sn_entries s) e" using wf_entry_new [OF inv i(2,1) f(1,2)] .
  have lf: "leaf_ok (sn_entries s @ [e]) (Some i)" using f(3) by simp
  note parts = wp_conj [OF added_inv(1) [OF inv e lf] wp_conj [OF added_inv(2) [OF inv e lf] added_inv(3) [OF inv e lf]]]
  let ?a = "added e (Some i) s"
  show ?thesis
  proof (cases "os_persist ot")
    case (Some x)
    then show ?thesis using inv by (simp add: append_entry_def comp_defs)
  next
    case None
    note run = append_entry_run [OF p None, of now ty s, folded i_def, folded e_def]
    obtain r t where r: "lifetime_update e ?a = (r, t)" by (cases "lifetime_update e ?a")
    show ?thesis
    proof (cases r)
      case (Inl x)
      with r parts show ?thesis by (simp add: run seqc_def wp_def)
    next
      case (Inr u)
      with r parts obtain l where tinv: "session_inv pt t" and t: "t = ?a\<lparr>sn_lifetime := l\<rparr>"
        and upd: "\<And>c. (\<And>x. c = Some x \<Longrightarrow> cc_version x = sn_version t \<and> cache_valid pt t x) \<Longrightarrow> session_inv pt (t\<lparr>sn_cache := c\<rparr>)"
        by (auto simp: wp_def)
      show ?thesis
      proof (cases "context_message now e")
        case (Inl x)
        with r Inr tinv show ?thesis by (simp add: run seqc_def lift_res_def)
      next
        case m: (Inr m)
        let ?c = "case (m, sn_cache t) of (Some msg, Some c) \<Rightarrow>
             if cc_version c = sn_version s \<and> cc_leaf c = sn_leaf s then Some (cache_append msg (sn_version t) i c) else None
           | _ \<Rightarrow> None"
        have same: "sn_cache t = sn_cache s" by (simp add: t added_def)
        have "cc_version x = sn_version t \<and> cache_valid pt t x" if x: "?c = Some x" for x
        proof -
          from x obtain msg c where mc: "m = Some msg" "sn_cache s = Some c" "cc_version c = sn_version s"
            "x = cache_append msg (sn_version t) i c"
            using same by (auto split: option.splits if_splits)
          with inv have "cache_valid pt s c" by (auto simp: session_inv_def)
          with mc m cache_append_valid [OF inv e f(2) _ _ t [folded f(3)], of now msg c] show ?thesis
            by (simp add: f(3) cache_append_def)
        qed
        from upd [OF this] show ?thesis
          using r Inr m by (simp add: run seqc_def lift_res_def modifies_def ret_def)
      qed
    qed
  qed
qed

lemma set_leaf_inv:
  assumes inv: "session_inv pt s" and fr: "fresh_ids ot s"
  shows "session_inv pt (snd (set_leaf_id ot leaf s))"
proof (cases "(case leaf of Some i \<Rightarrow> if sn_by_id s i = None then Some i else None | None \<Rightarrow> None) = None \<and> os_persist ot = None")
  case False
  then show ?thesis using inv
    by (auto simp: set_leaf_id_def comp_defs Let_def split: option.split)
next
  case True
  define i where "i = fresh_id (sn_by_id s) (os_candidates ot) (os_long_id ot)"
  define e where "e = [(''type'', JStr ''leaf''), (''id'', JStr i), (''parentId'', leaf_json (sn_leaf s)),
                (''timestamp'', os_timestamp ot), (''targetId'', leaf_json leaf)]"
  have i: "i \<noteq> []" "sn_by_id s i = None" using fresh_id_fresh [OF fr] by (simp_all add: i_def)
  have f: "jget e ''id'' = JStr i" "parent_of e = leaf_json (sn_leaf s)" "entry_key e = i"
    by (simp_all add: e_def jget_def dict_get_def parent_of_def entry_key_def)
  have e: "wf_entry (sn_entries s) e" using wf_entry_new [OF inv i(2,1) f(1,2)] .
  have "leaf_ok (sn_entries s) leaf"
    using True inv by (cases leaf) (auto simp: session_inv_def dom_index_of split: if_splits)
  then have lf: "leaf_ok (sn_entries s @ [e]) leaf" by (rule leaf_ok_snoc)
  have "set_leaf_id ot leaf s = seqc (lifetime_update e) (\<lambda>_. modifies (\<lambda>t. t\<lparr>sn_cache := None\<rparr>)) (added e leaf s)"
    using True f(3) by (simp add: set_leaf_id_def i_def e_def added_def comp_defs Let_def)
  then show ?thesis using added_inv(1) [OF inv e lf]
    by (auto simp: seqc_def modifies_def wp_def split: prod.splits sum.splits)
qed

lemma stats_state:
  assumes "stats pt now w s = Some (r, t)"
  shows "t = s \<or> (\<exists>ctx. session_build pt now s = Some (Inr ctx)
    \<and> t = s\<lparr>sn_cache := Some (context_stats_cache ctx (sn_version s) (sn_leaf s))\<rparr>)"
  using assms by (simp add: stats_def Let_def split: option.splits if_splits sum.splits)

lemma session_build_cache [simp]: "session_build pt now (s\<lparr>sn_cache := c\<rparr>) = session_build pt now s"
  by (simp add: session_build_def)

lemma read_stats_inv:
  assumes inv: "session_inv pt s"
  shows "session_inv pt (snd (read_stats pt now w s))"
proof (cases "stats pt now w s")
  case (Some rt)
  then obtain r t where rt: "stats pt now w s = Some (r, t)" by (cases rt) simp
  from stats_state [OF rt] have "session_inv pt t"
  proof
    assume "\<exists>ctx. session_build pt now s = Some (Inr ctx)
      \<and> t = s\<lparr>sn_cache := Some (context_stats_cache ctx (sn_version s) (sn_leaf s))\<rparr>"
    then obtain ctx where b: "session_build pt now s = Some (Inr ctx)"
      and t: "t = s\<lparr>sn_cache := Some (context_stats_cache ctx (sn_version s) (sn_leaf s))\<rparr>" by blast
    have "cache_valid pt t (context_stats_cache ctx (sn_version s) (sn_leaf s))"
      using context_cache_timeless [OF b] by (simp add: cache_valid_def t) (simp add: context_stats_cache_def cache_scan_sums)
    with inv show ?thesis by (simp add: session_inv_def t) (simp add: context_stats_cache_def cache_scan_sums)
  qed (use inv in simp)
  with rt show ?thesis by (simp add: read_stats_def)
qed (use inv in \<open>simp add: read_stats_def\<close>)

lemma snd_void [simp]: "snd (void m s) = snd (m s)"
  by (cases "m s"; cases "fst (m s)") (auto simp: void_def seqc_def ret_def)

lemma run_op_inv:
  assumes "session_inv pt s" and "fresh_ids ot s"
  shows "session_inv pt (snd (run_op pt ot now x s))"
proof -
  note app = append_entry_inv [OF assms]
  show ?thesis
  proof (cases x)
    case (AppendCompaction sm tb fk rt us d h)
    then show ?thesis
      by (auto simp: append_compaction_def split: option.split intro!: app)
  next
    case (AppendRunEnd r st d e)
    then show ?thesis by (auto simp: append_run_end_def split: option.split intro!: app)
  next
    case (SetLabel t l)
    then show ?thesis using assms(1) by (auto simp: set_label_def seqc_def reads_def throw_def intro!: app)
  next
    case (SetLeaf l)
    then show ?thesis using set_leaf_inv [OF assms] by simp
  next
    case (ReadStats w)
    then show ?thesis using read_stats_inv [OF assms(1)] by simp
  qed (auto simp: append_message_entry_def append_model_change_def append_thinking_level_change_def
      append_active_tools_change_def append_branch_summary_def append_custom_message_def append_run_start_def
      append_artifact_delivery_def append_session_config_def append_next_turn_input_def append_next_turn_consumed_def
      set_name_def intro!: app)
qed

lemma session_reach_inv: "session_reach pt s0 s \<Longrightarrow> session_inv pt s0 \<Longrightarrow> session_inv pt s"
  by (induction rule: session_reach.induct) (auto intro: run_op_inv)

end
