(* ===== verification/SessionProps.thy ===== *)
theory SessionProps
  imports SessionReach
begin

text \<open>
  Properties of the reachable sessions: incremental statistics, walks, what a compaction leaves of
  the context, and labels and names.
\<close>

section \<open>Reading\<close>

lemma stats_is_full:
  assumes inv: "session_inv pt s" and full: "stats_full pt now w s = Some (Inr r)"
  shows "map_option fst (stats pt now w s) = Some (Inr r)"
proof -
  from full obtain l us ctx where l: "lifetime_stats_of (sn_entries s) = Inr l"
    and us: "bind_res (entry_usages (sn_entries s)) usage_dicts = Inr us"
    and ctx: "session_build pt now s = Some (Inr ctx)"
    and r: "bind_res (cache_statistics us) (\<lambda>cache.
              Inr \<lparr>st_message_count = ls_message_count l, st_total_tokens = ls_total_tokens l, st_cost = ls_cost l,
                st_context = context_statistics (sc_messages ctx) w (sc_boundary_ms ctx) (sc_boundary_index ctx),
                st_cache = cache\<rparr>) = Inr r"
    by (auto simp: stats_full_def split: option.splits sum.splits)
  have eq: "r = stats_of_cache w (context_stats_cache ctx (sn_version s) (sn_leaf s)) l"
    using r lifetime_cache_statistics [OF l us]
      context_statistics_by_cache [of ctx w "sn_version s" "sn_leaf s"] by (simp add: stats_of_cache_def Let_def)
  have lf: "sn_lifetime s = l" using inv l by (auto simp: session_inv_def)
  show ?thesis
  proof (cases "\<exists>c. sn_cache s = Some c \<and> cc_version c = sn_version s")
    case True
    then obtain c where c: "sn_cache s = Some c" "cc_version c = sn_version s" by blast
    with inv have "cache_valid pt s c" by (simp add: session_inv_def)
    with ctx have "c = context_stats_cache ctx (sn_version s) (sn_leaf s)" by (auto simp: cache_valid_def)
    with c lf eq show ?thesis by (simp add: stats_def)
  next
    case False
    then show ?thesis using ctx lf eq by (auto simp: stats_def Let_def split: option.split)
  qed
qed

lemma branch_of_leaf:
  assumes "wf_entries es" and "leaf_ok es leaf"
  shows "\<exists>br. branch_from (index_of es) leaf = Some (Inr br) \<and> set br \<subseteq> set es \<and> chain br
    \<and> (case leaf of None \<Rightarrow> br = [] | Some i \<Rightarrow> br \<noteq> [] \<and> entry_key (last br) = i)"
proof (cases leaf)
  case (Some i)
  then have "i \<in> set (map entry_key es)" using assms(2) by simp
  from walk_leaf [OF assms(1) this, of True JNull] obtain e p where
    "index_of es i = Some e" "set p \<subseteq> set es" "p \<noteq> []" "last p = e" "chain p" "entry_key e = i"
    "walk True (index_of es) JNull e [] = Some (Inr (p @ []))"
    by (metis map_le_refl)
  then show ?thesis using Some by (simp add: branch_from_def)
qed (simp add: branch_from_def chain_def)

lemma session_build_total:
  assumes "session_inv pt s"
  shows "session_build pt now s \<noteq> None"
proof -
  have "wf_entries (sn_entries s)" "leaf_ok (sn_entries s) (sn_leaf s)" "sn_by_id s = index_of (sn_entries s)"
    using assms by (simp_all add: session_inv_def)
  moreover obtain br full where "branch_from (index_of (sn_entries s)) (sn_leaf s) = Some (Inr br)"
    "full_branch (index_of (sn_entries s)) (sn_leaf s) = Some (Inr full)"
    using branch_wf [OF calculation(1,2)] by metis
  ultimately show ?thesis by (simp add: session_build_def build_context_def)
qed

section \<open>What a compaction leaves\<close>

lemma walk_kept:
  assumes "wf_entries es" and "e \<in> set es" and "walk True (index_of es) JNull e [] = Some (Inr p)"
    and "j < length p" and "list_all (\<lambda>x. \<not> is_type ''compaction'' x) (drop j p)"
  shows "index_of es \<subseteq>\<^sub>m ix \<Longrightarrow> walk True ix (JStr (entry_key (p ! j))) e path = Some (Inr (drop j p @ path))"
  using assms
proof (induction es arbitrary: e p ix path rule: rev_induct)
  case Nil
  then show ?case by simp
next
  case (snoc x es)
  have wf: "wf_entries es" "wf_entry es x" using snoc.prems by simp_all
  note sub = index_snoc_mono [OF wf(2)]
  have sub': "index_of es \<subseteq>\<^sub>m ix" using sub snoc.prems(1) by (rule map_le_trans)
  have key: "jget x ''id'' = JStr (entry_key x)" "index_of es (entry_key x) = None" using wf_key [OF wf(2)] by simp_all
  have same: "walk True (index_of (es @ [x])) JNull q [] = Some (Inr r)
      \<longleftrightarrow> walk True (index_of es) JNull q [] = Some (Inr r)" if "q \<in> set es" for q r
    using walk_wf [OF wf(1) that, of True JNull] sub by (metis map_le_refl)
  show ?case
  proof (cases "e \<in> set es")
    case True
    then show ?thesis using snoc.IH [OF sub' wf(1) True] snoc.prems same [OF True] by blast
  next
    case False
    then have ex: "e = x" using snoc.prems by simp
    obtain p0 where "last p0 = e" "walk True (index_of (es @ [x])) JNull e [] = Some (Inr (p0 @ []))"
      using walk_wf [OF snoc.prems(2,3), of True JNull] map_le_refl by blast
    with snoc.prems(4) ex have lastx: "last p = x" by (simp del: index_of_snoc)
    have nc: "\<not> is_type ''compaction'' x"
    proof -
      have "x \<in> set (drop j p)"
        using snoc.prems(5) lastx last_in_set [of "drop j p"] by simp
      then show ?thesis using snoc.prems(6) by (auto simp: list_all_iff)
    qed
    show ?thesis
    proof (cases "truthy (parent_of x)")
      case stop: False
      have "p = [x]" using snoc.prems(4) stop nc ex by (simp add: walk_step [of True "index_of (es @ [x])"] del: index_of_snoc)
      then show ?thesis using snoc.prems(5) ex key nc stop by (simp add: walk_step)
    next
      case True
      then obtain i where i: "parent_of x = JStr i" "i \<in> set (map entry_key es)"
        using wf(2) by (auto simp: wf_entry_def)
      then obtain q where q: "index_of es i = Some q" "q \<in> set es"
        using walk_leaf [OF wf(1) i(2)] by metis
      have qx: "index_of (es @ [x]) i = Some q" "ix i = Some q"
        using q(1) sub sub' by (auto simp: map_le_def dom_def)
      obtain r where r: "walk True (index_of es) JNull q [] = Some (Inr r)"
        and r': "walk True (index_of (es @ [x])) JNull q [x] = Some (Inr (r @ [x]))" and "set r \<subseteq> set es"
        using walk_wf [OF wf(1) q(2), of True JNull] sub by (metis append_Nil2 map_le_refl)
      have p: "p = r @ [x]"
        using snoc.prems(4) r' True i nc ex qx
        by (simp add: walk_step [of True "index_of (es @ [x])" JNull x] del: index_of_snoc)
      show ?thesis
      proof (cases "j < length r")
        case True
        with p have "p ! j = r ! j" "r ! j \<in> set r" by (auto simp: nth_append)
        with \<open>set r \<subseteq> set es\<close> have "entry_key (p ! j) \<in> set (map entry_key es)" by auto
        with key(2) have ne: "entry_key (p ! j) \<noteq> entry_key x" by (metis dom_index_of)
        have "list_all (\<lambda>x. \<not> is_type ''compaction'' x) (drop j r)" using snoc.prems(6) p by simp
        from snoc.IH [OF sub' wf(1) q(2) r True this, of "x # path"] show ?thesis
          using ex ne key(1) nc \<open>truthy (parent_of x)\<close> i qx p True
          by (simp add: walk_step [of True ix _ x] nth_append)
      next
        case False
        then have "j = length r" using snoc.prems(5) p by simp
        then show ?thesis using p ex key(1) by (simp add: walk_step [of True ix _ x])
      qed
    qed
  qed
qed

lemma map_of_merge_payload:
  "map_of (dict_merge d p) k = (case map_of (rev p) k of None \<Rightarrow> map_of d k | Some v \<Rightarrow> Some v)"
proof (induction p arbitrary: d)
  case (Cons kv p)
  obtain k' v where kv: "kv = (k', v)" by (cases kv)
  have "dict_merge d (kv # p) = dict_merge (AList.update k' v d) p" by (simp add: dict_merge_def kv)
  with Cons [of "AList.update k' v d"] show ?case
    by (auto simp: kv map_add_def split: option.split)
qed (simp add: dict_merge_def)

lemma append_entry_ok:
  assumes "append_entry ot now ty p s = (Inr i, t)" and "payload_ok p"
  shows "sn_entries t = sn_entries s @ [make_entry ty i (sn_leaf s) (os_timestamp ot) p]
    \<and> sn_by_id t = (sn_by_id s)(i \<mapsto> make_entry ty i (sn_leaf s) (os_timestamp ot) p) \<and> sn_leaf t = Some i
    \<and> i = fresh_id (sn_by_id s) (os_candidates ot) (os_long_id ot) \<and> os_persist ot = None"
proof -
  define j where "j = fresh_id (sn_by_id s) (os_candidates ot) (os_long_id ot)"
  from assms(1) show ?thesis
    unfolding append_entry_def j_def [symmetric] lifetime_update_def
    by (auto simp: comp_defs Let_def j_def [symmetric] split: option.splits sum.splits prod.splits)
qed

lemma context_fold_messages:
  assumes "context_fold pt now c {} es a = Inr b"
  shows "\<exists>mss. map_res (entry_messages now) es = Inr mss \<and> ca_messages b = ca_messages a @ concat mss
    \<and> ca_index b = ca_index a"
  using assms
proof (induction es arbitrary: a)
  case (Cons e es)
  then obtain d where d: "context_step pt now c {} e a = Inr d" "context_fold pt now c {} es d = Inr b"
    by (auto elim: bind_res_InrE)
  then obtain ms where ms: "entry_messages now e = Inr ms"
    by (auto simp: context_step_def Let_def elim!: bind_res_InrE)
  from Cons.IH [OF d(2)] ms context_step_fields [OF d(1) ms] show ?case by auto
qed simp

lemma context_after_compaction:
  assumes e: "is_type ''compaction'' e" "jget e ''retainedTail'' = JNull"
    and a: "context_of pt now (xs @ [e]) = Inr a"
  shows "\<exists>mss. map_res (entry_messages now) xs = Inr mss
    \<and> ca_messages a = user_text now (SUMMARY_PREFIX @ str_or (jget e ''summary'') [] @ SUMMARY_SUFFIX) # concat mss
    \<and> ca_index a = Some (int (length (ca_messages a)) - 1)"
proof -
  define n where "n = length xs"
  define a0 where "a0 = \<lparr>ca_messages = [], ca_ms = None, ca_index = None, ca_started = False\<rparr>"
  have f: "find_compaction (xs @ [e]) (length (xs @ [e])) None = (Some n, Some n)"
    using e by (simp add: n_def retained_def)
  have ro: "reorder (xs @ [e]) (Some n) = e # xs" by (simp add: reorder_def n_def)
  from a f obtain b where b: "context_fold pt now True {} (e # xs) a0 = Inr b"
    and a: "a = (if ca_index b = None then b\<lparr>ca_index := Some (int (length (ca_messages b)) - 1)\<rparr> else b)"
    by (auto simp: context_of_def Let_def ro a0_def [symmetric] n_def [symmetric] elim!: bind_res_InrE) (simp add: n_def)?
  then obtain d where d: "context_step pt now True {} e a0 = Inr d" "context_fold pt now True {} xs d = Inr b"
    by (auto elim: bind_res_InrE)
  have "entry_messages now e = Inr [user_text now (SUMMARY_PREFIX @ str_or (jget e ''summary'') [] @ SUMMARY_SUFFIX)]"
    using e by (auto simp: entry_messages_def is_type_def py_or_def)
  note s = context_step_fields [OF d(1) this]
  from context_fold_messages [OF d(2)] s e(1) show ?thesis by (auto simp: a a0_def)
qed

text \<open>The branch of a session after a compaction that keeps the tail from the \<open>j\<close>-th entry on.\<close>

lemma branch_after_compaction:
  assumes inv: "session_inv pt s" and e: "wf_entry (sn_entries s) e" and par: "parent_of e = leaf_json (sn_leaf s)"
    and comp: "is_type ''compaction'' e" "jget e ''retainedTail'' = JNull"
    and br: "branch_from (sn_by_id s) (sn_leaf s) = Some (Inr br)" and j: "j < length br"
    and no: "list_all (\<lambda>x. \<not> is_type ''compaction'' x) (drop j br)"
    and k: "jget e ''firstKeptEntryId'' = JStr (entry_key (br ! j))"
  shows "branch_from ((sn_by_id s)(entry_key e \<mapsto> e)) (Some (entry_key e)) = Some (Inr (drop j br @ [e]))"
proof -
  let ?es = "sn_entries s" and ?ix = "index_of (sn_entries s @ [e])"
  have wf: "wf_entries ?es" "leaf_ok ?es (sn_leaf s)" and ix: "sn_by_id s = index_of ?es"
    using inv by (simp_all add: session_inv_def)
  note sub = index_snoc_mono [OF e]
  from j br obtain i where i: "sn_leaf s = Some i" by (cases "sn_leaf s") (auto simp: branch_from_def)
  with wf(2) have "i \<in> set (map entry_key ?es)" by simp
  from walk_leaf [OF wf(1) this, of True JNull] obtain q where q: "index_of ?es i = Some q" "q \<in> set ?es" "i \<noteq> []"
    by metis
  have "walk True (index_of ?es) JNull q [] = Some (Inr br)" using br i q ix by (simp add: branch_from_def)
  from walk_kept [OF wf(1) q(2) this j no sub, of "[e]"] have
    "walk True ?ix (jget e ''firstKeptEntryId'') q [e] = Some (Inr (drop j br @ [e]))" by (simp only: k)
  moreover have "?ix i = Some q" using sub q(1) by (auto simp: map_le_def dom_def)
  ultimately have "walk True ?ix JNull e [] = Some (Inr (drop j br @ [e]))"
    using comp par i q(3) by (subst walk_step) (simp add: leaf_json_def del: index_of_snoc)
  then show ?thesis by (simp add: branch_from_def ix)
qed

text \<open>The entry a compaction without a retained tail appends.\<close>

lemma compaction_entry:
  assumes inv: "session_inv pt s" and fr: "fresh_ids ot s" and br: "branch_from (sn_by_id s) (sn_leaf s) = Some (Inr br)"
    and j: "j < length br"
    and run: "append_compaction ot now' summary before (Some (entry_key (br ! j))) [] us details hook s = (Inr i, t)"
  shows "\<exists>e. sn_entries t = sn_entries s @ [e] \<and> sn_by_id t = (sn_by_id s)(entry_key e \<mapsto> e) \<and> sn_leaf t = Some (entry_key e)
    \<and> wf_entry (sn_entries s) e \<and> parent_of e = leaf_json (sn_leaf s) \<and> is_type ''compaction'' e
    \<and> jget e ''retainedTail'' = JNull \<and> jget e ''firstKeptEntryId'' = JStr (entry_key (br ! j)) \<and> jget e ''summary'' = JStr summary"
proof -
  define p where "p = [(''summary'', JStr summary), (''tokensBefore'', JInt before), (''fromHook'', JBool hook)]
      @ (if entry_key (br ! j) = [] then [] else [(''firstKeptEntryId'', JStr (entry_key (br ! j)))])
      @ opt_entry ''usage'' (map_option (\<lambda>u. JObj (usage_to_dict u)) us) @ opt_entry ''details'' details"
  have pok: "payload_ok p" by (simp add: p_def)
  have app: "append_entry ot now' ''compaction'' p s = (Inr i, t)"
    using run by (simp add: append_compaction_def p_def)
  define e where "e = make_entry ''compaction'' i (sn_leaf s) (os_timestamp ot) p"
  note ok = append_entry_ok [OF app pok, folded e_def]
  note f = make_entry_fields [OF pok, of "''compaction''" i "sn_leaf s" "os_timestamp ot", folded e_def]
  have wf: "wf_entries (sn_entries s)" "leaf_ok (sn_entries s) (sn_leaf s)" and ix: "sn_by_id s = index_of (sn_entries s)"
    using inv by (simp_all add: session_inv_def)
  have "set br \<subseteq> set (sn_entries s)" using branch_of_leaf [OF wf] ix br by auto
  then have key: "entry_key (br ! j) \<noteq> []" using wf_entries_key [OF wf(1)] j nth_mem by blast
  have ew: "wf_entry (sn_entries s) e"
    using wf_entry_new [OF inv _ _ f(1,2)] ok fresh_id_fresh [OF fr] by simp
  have opt: "map_of (rev (opt_entry k v)) k' = (if k = k' then v else None)" for k k' :: string and v :: "json option"
    by (simp add: opt_entry_def split: option.split)
  have "jget e ''retainedTail'' = JNull" "jget e ''firstKeptEntryId'' = JStr (entry_key (br ! j))"
    "jget e ''summary'' = JStr summary"
    by (simp_all add: e_def make_entry_def jget_def dict_get_def map_of_merge_payload p_def key opt map_add_def)
  moreover have "is_type ''compaction'' e" using f(4) by (simp add: is_type_def)
  ultimately show ?thesis using ok f ew by (intro exI [of _ e]) simp
qed

text \<open>A session freshly created or opened on well-formed entries.\<close>

definition opened :: "entry list \<Rightarrow> string option \<Rightarrow> session \<Rightarrow> bool" where
  "opened es leaf s \<longleftrightarrow> wf_entries es \<and> leaf_ok es leaf \<and> new_session es leaf = Inr s"

lemma opened_reach_inv: "opened es leaf s0 \<Longrightarrow> session_reach pt s0 s \<Longrightarrow> session_inv pt s"
  using session_reach_inv session_inv_new by (auto simp: opened_def)

section \<open>A concrete session\<close>

definition text_entry :: "string \<Rightarrow> json \<Rightarrow> string \<Rightarrow> entry" where
  "text_entry i parent text = [(''type'', JStr ''message''), (''id'', JStr i), (''parentId'', parent), (''timestamp'', JNull),
     (''message'', JObj [(''role'', JStr ''user''), (''content'', JStr text), (''timestamp'', JInt 5)])]"

definition sample_entries :: "entry list" where
  "sample_entries = [text_entry ''a'' JNull ''hello'', text_entry ''b'' (JStr ''a'') ''world'']"

definition sample_session :: session where
  "sample_session = \<lparr>sn_entries = sample_entries, sn_by_id = index_of sample_entries, sn_leaf = Some ''b'', sn_version = 0,
     sn_lifetime = \<lparr>ls_message_count = 2, ls_total_tokens = 0, ls_cost = 0, ls_cache = zero_cache\<rparr>, sn_cache = None\<rparr>"

definition sample_outside :: outside where
  "sample_outside = \<lparr>os_candidates = [''c''], os_long_id = ''d'', os_timestamp = JNull, os_persist = None\<rparr>"

definition no_times :: "json \<Rightarrow> int option" where "no_times v = None"

lemma sample_opened: "opened sample_entries (Some ''b'') sample_session"
  by (simp add: opened_def wf_entries_def wf_entry_def sample_entries_def sample_session_def text_entry_def less_Suc_eq
     new_session_def lifetime_stats_of_def lifetime_add_def entry_usage_def is_type_def entry_type_def entry_key_def
     jget_def dict_get_def parent_of_def py_or_def zero_lifetime_def zero_cache_def numeral_2_eq_2 numeral_3_eq_3)

lemma sample_fresh: "fresh_ids sample_outside sample_session"
  by (simp add: fresh_ids_def sample_outside_def sample_session_def sample_entries_def text_entry_def index_of_def
     entry_key_def jget_def dict_get_def)

definition sample_next :: session where
  "sample_next = snd (run_op no_times sample_outside 0 (AppendCustomMessage ''note'' ''more'' True JNull)
     (snd (run_op no_times sample_outside 0 (ReadStats None) sample_session)))"

lemma sample_reach: "session_reach no_times sample_session sample_next"
proof -
  let ?m = "snd (run_op no_times sample_outside 0 (ReadStats None) sample_session)"
  have m: "session_reach no_times sample_session ?m"
    using session_reach.op [OF session_reach.start sample_fresh] .
  have "sn_by_id ?m ''d'' = None" by code_simp
  then have "fresh_ids sample_outside ?m" by (simp add: fresh_ids_def sample_outside_def)
  from session_reach.op [OF m this] show ?thesis by (simp only: sample_next_def)
qed

text \<open>
  C3. Whatever operations a session has been through, in whatever order and with whatever failures,
  the statistics it answers from its incremental caches are exactly those a scan of all its entries
  and a rebuild of the context give.
\<close>

theorem stats_agree_with_full_scan:
  assumes "opened es leaf s0" and "session_reach pt s0 s" and "stats_full pt now window s = Some (Inr r)"
  shows "map_option fst (stats pt now window s) = Some (Inr r)"
  by (rule stats_is_full [OF opened_reach_inv [OF assms(1,2)] assms(3)])

theorem stats_agree_with_full_scan_witness:
  "sn_cache sample_next \<noteq> None
   \<and> (\<exists>r. stats_full no_times 0 (Some 100) sample_next = Some (Inr r) \<and> st_message_count r = 2
        \<and> map_option fst (stats no_times 0 (Some 100) sample_next) = Some (Inr r))"
proof -
  have c: "sn_cache sample_next \<noteq> None" by code_simp
  have "case stats_full no_times 0 (Some 100) sample_next of Some (Inr r) \<Rightarrow> st_message_count r = 2 | _ \<Rightarrow> False"
    by code_simp
  then obtain r where "stats_full no_times 0 (Some 100) sample_next = Some (Inr r)" "st_message_count r = 2"
    by (auto split: option.splits sum.splits)
  with c stats_agree_with_full_scan [OF sample_opened sample_reach this(1)] show ?thesis by blast
qed

text \<open>
  C12. Every read of a session ends: the branch of the current leaf is a chain of distinct entries of
  the session, each the parent of the next, that ends at the leaf, and the context and the
  statistics are always an answer or an error.
\<close>

theorem session_reads_end:
  assumes "opened es leaf s0" and "session_reach pt s0 s"
  shows "(\<exists>br. get_branch None s = Some (Inr br) \<and> set br \<subseteq> set (sn_entries s)
      \<and> successively (\<lambda>a b. parent_of b = JStr (entry_key a)) br \<and> distinct (map entry_key br)
      \<and> (case sn_leaf s of None \<Rightarrow> br = [] | Some i \<Rightarrow> br \<noteq> [] \<and> entry_key (last br) = i))
    \<and> session_build pt now s \<noteq> None \<and> stats pt now window s \<noteq> None"
proof -
  have inv: "session_inv pt s" by (rule opened_reach_inv [OF assms])
  then have wf: "wf_entries (sn_entries s)" "leaf_ok (sn_entries s) (sn_leaf s)" "sn_by_id s = index_of (sn_entries s)"
    by (simp_all add: session_inv_def)
  have b: "session_build pt now s \<noteq> None" by (rule session_build_total [OF inv])
  then have "stats pt now window s \<noteq> None" by (auto simp: stats_def Let_def split: option.split sum.split)
  moreover have "get_branch None s = branch_from (index_of (sn_entries s)) (sn_leaf s)"
    by (simp add: get_branch_def wf(3))
  ultimately show ?thesis using branch_of_leaf [OF wf(1,2)] b
    by (simp add: chain_def linked_def [abs_def])
qed

theorem session_reads_end_witness:
  "(\<exists>br. get_branch None sample_next = Some (Inr br)) \<and> stats no_times 0 None sample_next \<noteq> None"
  using session_reads_end [OF sample_opened sample_reach, of 0 None] by blast



section \<open>Labels and names\<close>

text \<open>
  The last label written wins: after a label is set, its target answers it with surrounding
  space removed (an empty or removed label answers nothing), and the label of every other entry, the
  name of the session and the entries before it are what they were.
\<close>

theorem label_last_write:
  assumes "set_label ot now target label s = (Inr i, t)"
  shows "get_label target t = (case label of None \<Rightarrow> None | Some l \<Rightarrow> if l = [] then None else Some (str_strip l))
    \<and> (\<forall>x. x = target \<or> get_label x t = get_label x s) \<and> get_name t = get_name s
    \<and> (\<exists>e. sn_entries t = sn_entries s @ [e])"
proof -
  let ?p = "[(''targetId'', JStr target), (''label'', leaf_json label)]"
  define e where "e = make_entry ''label'' i (sn_leaf s) (os_timestamp ot) ?p"
  have pok: "payload_ok ?p" by simp
  have "append_entry ot now ''label'' ?p s = (Inr i, t)"
    using assms by (auto simp: set_label_def comp_defs split: if_splits)
  note ok = append_entry_ok [OF this pok, folded e_def]
  have ty: "is_type ty e \<longleftrightarrow> ty = ''label''" for ty
    using make_entry_fields(4) [OF pok] by (auto simp: is_type_def e_def)
  have tg: "jget e ''targetId'' = JStr target" "jget e ''label'' = leaf_json label"
    by (simp_all add: e_def make_entry_def jget_def dict_get_def map_of_merge_payload map_add_def)
  have "get_label x t = (if x = target then stripped (leaf_json label) else get_label x s)" for x
    using ok ty tg by (auto simp: get_label_def)
  moreover have "get_name t = get_name s" using ok ty by (simp add: get_name_def)
  ultimately show ?thesis using ok by (auto simp: stripped_def leaf_json_def split: option.split)
qed

theorem label_last_write_witness:
  "\<exists>t. set_label sample_outside 0 ''a'' (Some '' mark '') sample_session = (Inr ''c'', t)
    \<and> get_label ''a'' t = Some ''mark''"
proof -
  let ?run = "set_label sample_outside 0 ''a'' (Some '' mark '') sample_session"
  have "fst ?run = Inr ''c''" by code_simp
  then have run: "?run = (Inr ''c'', snd ?run)" by (metis prod.collapse)
  have "str_strip '' mark '' = ''mark''" by code_simp
  with label_last_write [OF run] run show ?thesis by auto
qed

end
