(* ===== verification/JsonText.thy ===== *)
theory JsonText
  imports PyValues
begin

text \<open>
  JSON documents as text: \<open>json.dumps(value, ensure_ascii=False, separators=(",", ":"))\<close>, the form
  every log line and every stored document has, and \<open>json.loads\<close>, which reads it back. The reader
  follows the standard library's scanner: white space between tokens, escapes, the number grammar,
  and objects in which a repeated key keeps its first position and its last value. An escape of a
  code point above 255 and the constants \<open>NaN\<close> and \<open>Infinity\<close> have no value in this model and are
  refused. The reader carries fuel; \<open>json_loads\<close> gives it two units per character: every
  call consumes a character within two levels, and \<open>loads_compact\<close> shows it enough for every
  document the runtime writes.
\<close>

section \<open>Compact output\<close>

definition comma_join :: "string list \<Rightarrow> string" where
  "comma_join xs = concat (case xs of [] \<Rightarrow> [] | y # ys \<Rightarrow> y # map (\<lambda>z. CHR '','' # z) ys)"

fun json_compact :: "json \<Rightarrow> string" where
  "json_compact JNull = ''null''"
| "json_compact (JBool b) = (if b then ''true'' else ''false'')"
| "json_compact (JInt i) = show_int i"
| "json_compact (JFloat q) = float_repr q"
| "json_compact (JStr s) = dumps_str s"
| "json_compact (JList xs) = CHR ''['' # comma_join (map json_compact xs) @ '']''"
| "json_compact (JObj d) =
     CHR ''{'' # comma_join (map (\<lambda>kv. dumps_str (fst kv) @ CHR '':'' # json_compact (snd kv)) d) @ ''}''"

section \<open>Reading\<close>

definition json_space :: "char \<Rightarrow> bool" where
  "json_space c \<longleftrightarrow> c = CHR '' '' \<or> c = CHR 0x09 \<or> c = CHR 0x0A \<or> c = CHR 0x0D"

definition skip_ws :: "string \<Rightarrow> string" where "skip_ws s = dropWhile json_space s"

definition hex_value :: "char \<Rightarrow> nat option" where
  "hex_value c = (let n = (of_char c :: nat) in
     if 48 \<le> n \<and> n \<le> 57 then Some (n - 48)
     else if 97 \<le> n \<and> n \<le> 102 then Some (n - 87)
     else if 65 \<le> n \<and> n \<le> 70 then Some (n - 55) else None)"

definition hex_escape :: "char \<Rightarrow> char \<Rightarrow> char \<Rightarrow> char \<Rightarrow> char option" where
  "hex_escape a b c d = (case (hex_value a, hex_value b, hex_value c, hex_value d) of
      (Some p, Some q, Some r, Some t) \<Rightarrow>
        let n = ((p * 16 + q) * 16 + r) * 16 + t in if n < 256 then Some (char_of n) else None
    | _ \<Rightarrow> None)"

definition simple_escape :: "char \<Rightarrow> char option" where
  "simple_escape c = (if c = CHR 0x22 \<or> c = CHR 0x5C \<or> c = CHR ''/'' then Some c
     else if c = CHR ''b'' then Some (CHR 0x08) else if c = CHR ''f'' then Some (CHR 0x0C)
     else if c = CHR ''n'' then Some (CHR 0x0A) else if c = CHR ''r'' then Some (CHR 0x0D)
     else if c = CHR ''t'' then Some (CHR 0x09) else None)"

text \<open>The body of a string up to its closing quote.\<close>

fun json_string :: "string \<Rightarrow> string \<Rightarrow> (string \<times> string) option" where
  "json_string acc [] = None"
| "json_string acc (c # cs) =
     (if c = CHR 0x22 then Some (rev acc, cs)
      else if c = CHR 0x5C then
        (case cs of
           [] \<Rightarrow> None
         | e # r \<Rightarrow>
             if e = CHR ''u'' then
               (case r of p # q # x # y # r' \<Rightarrow>
                  (case hex_escape p q x y of Some d \<Rightarrow> json_string (d # acc) r' | None \<Rightarrow> None)
                | _ \<Rightarrow> None)
             else (case simple_escape e of Some d \<Rightarrow> json_string (d # acc) r | None \<Rightarrow> None))
      else if of_char c < (32::nat) then None
      else json_string (c # acc) cs)"

text \<open>\<open>-?(0|[1-9][0-9]*)(\.[0-9]+)?([eE][+-]?[0-9]+)?\<close>; only a number with neither fraction nor
  exponent is an integer.\<close>

definition has_head :: "char \<Rightarrow> string \<Rightarrow> bool" where
  "has_head c s \<longleftrightarrow> s \<noteq> [] \<and> hd s = c"

definition int_digits :: "string \<Rightarrow> string" where
  "int_digits r = (if has_head (CHR ''0'') r then ''0'' else takeWhile decimal_digit r)"

definition fraction_digits :: "string \<Rightarrow> string" where
  "fraction_digits r = (if has_head (CHR ''.'') r then takeWhile decimal_digit (tl r) else [])"

definition exponent_part :: "string \<Rightarrow> (int \<times> string) option" where
  "exponent_part r =
     (if has_head (CHR ''e'') r \<or> has_head (CHR ''E'') r then
        (let (sg, er) = split_sign (tl r); ds = takeWhile decimal_digit er in
         if ds = [] then None else Some (sg * int (digits_value ds), drop (length ds) er))
      else None)"

definition unsigned_number :: "int \<Rightarrow> string \<Rightarrow> (json \<times> string) option" where
  "unsigned_number sg r =
     (let ip = int_digits r; r1 = drop (length ip) r; fp = fraction_digits r1;
          r2 = (if fp = [] then r1 else drop (Suc (length fp)) r1);
          mant = of_int sg * (of_nat (digits_value (ip @ fp)) / 10 ^ length fp)
      in if ip = [] then None
         else (case exponent_part r2 of
             Some (e, r3) \<Rightarrow> Some (JFloat (scale_ten mant e), r3)
           | None \<Rightarrow> if fp = [] then Some (JInt (sg * int (digits_value ip)), r2) else Some (JFloat mant, r2)))"

definition json_number :: "string \<Rightarrow> (json \<times> string) option" where
  "json_number s = (if has_head (CHR ''-'') s then unsigned_number (-1) (tl s) else unsigned_number 1 s)"

fun strip_prefix :: "string \<Rightarrow> string \<Rightarrow> string option" where
  "strip_prefix [] s = Some s"
| "strip_prefix (c # cs) [] = None"
| "strip_prefix (c # cs) (d # ds) = (if c = d then strip_prefix cs ds else None)"

definition json_word :: "string \<Rightarrow> (json \<times> string) option" where
  "json_word s = (case strip_prefix ''null'' s of Some r \<Rightarrow> Some (JNull, r) | None \<Rightarrow>
     (case strip_prefix ''true'' s of Some r \<Rightarrow> Some (JBool True, r) | None \<Rightarrow>
     (case strip_prefix ''false'' s of Some r \<Rightarrow> Some (JBool False, r) | None \<Rightarrow> json_number s)))"

fun json_value :: "nat \<Rightarrow> string \<Rightarrow> (json \<times> string) option"
and json_items :: "nat \<Rightarrow> string \<Rightarrow> json list \<Rightarrow> (json \<times> string) option"
and json_members :: "nat \<Rightarrow> string \<Rightarrow> (string, json) dict \<Rightarrow> (json \<times> string) option" where
  "json_value 0 s = None"
| "json_value (Suc n) [] = None"
| "json_value (Suc n) (c # cs) =
     (if c = CHR 0x22 then map_option (\<lambda>(t, r). (JStr t, r)) (json_string [] cs)
      else if c = CHR ''{'' then
        (let r = skip_ws cs in
         if r \<noteq> [] \<and> hd r = CHR ''}'' then Some (JObj [], tl r) else json_members n r [])
      else if c = CHR ''['' then
        (let r = skip_ws cs in
         if r \<noteq> [] \<and> hd r = CHR '']'' then Some (JList [], tl r) else json_items n r [])
      else json_word (c # cs))"
| "json_items 0 s acc = None"
| "json_items (Suc n) s acc = (case json_value n s of
       None \<Rightarrow> None
     | Some (v, r) \<Rightarrow> (case skip_ws r of
         [] \<Rightarrow> None
       | c # r' \<Rightarrow>
           if c = CHR '','' then json_items n (skip_ws r') (acc @ [v])
           else if c = CHR '']'' then Some (JList (acc @ [v]), r')
           else None))"
| "json_members 0 s acc = None"
| "json_members (Suc n) s acc = (case s of
       [] \<Rightarrow> None
     | q # cs \<Rightarrow>
         if q \<noteq> CHR 0x22 then None
         else (case json_string [] cs of
             None \<Rightarrow> None
           | Some (k, r) \<Rightarrow> (case skip_ws r of
               [] \<Rightarrow> None
             | c # r1 \<Rightarrow>
                 if c \<noteq> CHR '':'' then None
                 else (case json_value n (skip_ws r1) of
                     None \<Rightarrow> None
                   | Some (v, r2) \<Rightarrow> (case skip_ws r2 of
                       [] \<Rightarrow> None
                     | d # r3 \<Rightarrow>
                         if d = CHR '','' then json_members n (skip_ws r3) (AList.update k v acc)
                         else if d = CHR ''}'' then Some (JObj (AList.update k v acc), r3)
                         else None)))))"

definition json_loads :: "string \<Rightarrow> json option" where
  "json_loads s = (case json_value (2 * length s + 1) (skip_ws s) of
      Some (v, r) \<Rightarrow> if skip_ws r = [] then Some v else None
    | None \<Rightarrow> None)"

section \<open>Reading back what was written\<close>

text \<open>Documents whose text determines them: floats that are values of floats, and no key twice in an object.\<close>

fun exact_json :: "json \<Rightarrow> bool" where
  "exact_json (JFloat q) = exact_float q"
| "exact_json (JList xs) = list_all exact_json xs"
| "exact_json (JObj d) = (distinct (map fst d) \<and> list_all (\<lambda>kv. exact_json (snd kv)) d)"
| "exact_json _ = True"

lemma char_consts [simp]:
  "char_of (34::nat) = CHR 0x22" "char_of (92::nat) = CHR 0x5C" "char_of (8::nat) = CHR 0x08" "char_of (9::nat) = CHR 0x09"
  "char_of (48::nat) = CHR ''0''" "char_of (10::nat) = CHR 0x0A" "char_of (12::nat) = CHR 0x0C" "char_of (13::nat) = CHR 0x0D"
  by (simp_all add: char_of_eq_iff)

lemma hex_value_digit: "k < 16 \<Longrightarrow> hex_value (hex_digit k) = Some k"
  by (simp add: hex_value_def hex_digit_def Let_def)

lemma hex_escape_low:
  assumes "n < 32"
  shows "hex_escape (CHR ''0'') (CHR ''0'') (hex_digit (n div 16)) (hex_digit (n mod 16)) = Some (char_of n)"
proof -
  have z: "hex_value (CHR ''0'') = Some 0" by (simp add: hex_value_def)
  have "n div 16 < 16" "n div 16 * 16 + n mod 16 = n" using assms by simp_all
  with assms show ?thesis by (simp add: hex_escape_def z hex_value_digit Let_def)
qed

lemma json_string_escape:
  assumes "simple_escape e = Some d" and "e \<noteq> CHR ''u''"
  shows "json_string acc (CHR 0x5C # e # r) = json_string (d # acc) r"
  using assms by simp

lemma json_string_char: "json_string acc (dumps_char c @ r) = json_string (c # acc) r"
proof -
  define n where "n = (of_char c :: nat)"
  have c: "c = char_of n" by (simp add: n_def)
  consider "n = 34" | "n = 92" | "n = 8" | "n = 9" | "n = 10" | "n = 12" | "n = 13"
    | "n < 32" "n \<notin> {8, 9, 10, 12, 13}" | "n \<ge> 32" "n \<noteq> 34" "n \<noteq> 92" by force
  then show ?thesis
  proof cases
    case 8
    then have "dumps_char c = [CHR 0x5C, CHR ''u'', CHR ''0'', CHR ''0'', hex_digit (n div 16), hex_digit (n mod 16)]"
      by (simp add: dumps_char_def Let_def n_def [symmetric])
    with hex_escape_low [OF 8(1)] show ?thesis by (simp add: c)
  next
    case 9
    then have "dumps_char c = [c]" "c \<noteq> CHR 0x22" "c \<noteq> CHR 0x5C"
      by (auto simp: dumps_char_def Let_def n_def)
    with 9 show ?thesis by (simp add: n_def)
  qed (simp_all add: dumps_char_def Let_def n_def [symmetric] c simple_escape_def)
qed

lemma json_string_dumps: "json_string acc (concat (map dumps_char s) @ CHR 0x22 # r) = Some (rev acc @ s, r)"
  by (induction s arbitrary: acc) (simp_all add: json_string_char)

lemma dumps_str_eq: "dumps_str s = CHR 0x22 # concat (map dumps_char s) @ [CHR 0x22]"
  by (simp add: dumps_str_def)

lemma digit_not_space: "digit_of c \<noteq> None \<Longrightarrow> \<not> json_space c"
  by (auto simp: digit_of_def json_space_def Let_def split: if_splits)

lemma decimal_digit_char [simp]: "d < 10 \<Longrightarrow> decimal_digit (digit_char d)"
  by (simp add: decimal_digit_def)

lemma show_nat_digits: "list_all decimal_digit (show_nat n)"
  by (induction n rule: show_nat.induct) (subst show_nat.simps, simp)

lemma show_nat_nonempty [simp]: "show_nat n \<noteq> []"
  by (subst show_nat.simps) simp

lemma digits_value_snoc: "digits_value (ds @ [c]) = 10 * digits_value ds + the (digit_of c)"
  by (simp add: digits_value_def)

lemma digits_value_show [simp]: "digits_value (show_nat n) = n"
proof (induction n rule: show_nat.induct)
  case (1 n)
  show ?case
  proof (cases "n < 10")
    case True
    then show ?thesis by (subst show_nat.simps) (simp add: digits_value_def)
  next
    case False
    then show ?thesis using 1 by (subst show_nat.simps) (simp add: digits_value_snoc)
  qed
qed

lemma digit_char_zero: "d < 10 \<Longrightarrow> digit_char d = CHR ''0'' \<longleftrightarrow> d = 0"
  using digit_of_digit_char [of d] digit_of_digit_char [of 0] by (auto simp: digit_char_def simp del: digit_of_digit_char)

lemma show_nat_head: "hd (show_nat n) = CHR ''0'' \<longleftrightarrow> n = 0"
proof (induction n rule: show_nat.induct)
  case (1 n)
  show ?case
  proof (cases "n < 10")
    case True
    then show ?thesis by (subst show_nat.simps) (simp add: digit_char_zero)
  next
    case False
    then show ?thesis using 1 by (subst show_nat.simps) simp
  qed
qed

text \<open>The text after a value: nothing, or a separator or closing bracket.\<close>

definition delim :: "string \<Rightarrow> bool" where
  "delim r \<longleftrightarrow> r = [] \<or> hd r \<in> {CHR '','', CHR '']'', CHR ''}''}"

lemma delim_props:
  assumes "delim r"
  shows "takeWhile decimal_digit r = []" "\<not> has_head (CHR ''.'') r" "\<not> has_head (CHR ''e'') r" "\<not> has_head (CHR ''E'') r"
  using assms by (cases r; auto simp: delim_def has_head_def decimal_digit_def digit_of_def)+

lemma takeWhile_digits: "list_all decimal_digit ds \<Longrightarrow> delim r \<Longrightarrow> takeWhile decimal_digit (ds @ r) = ds"
  using delim_props(1) by (induction ds) auto

lemma number_nat:
  assumes "delim r"
  shows "int_digits (show_nat n @ r) = show_nat n"
proof (cases "n = 0")
  case True
  then show ?thesis by (simp add: int_digits_def has_head_def show_nat.simps digit_char_def)
next
  case False
  then show ?thesis using takeWhile_digits [OF show_nat_digits assms] show_nat_head [of n]
    by (simp add: has_head_def int_digits_def)
qed

lemma show_nat_not_minus: "\<not> has_head (CHR ''-'') (show_nat n @ r)"
proof -
  have "decimal_digit (hd (show_nat n))"
    using show_nat_digits [of n] show_nat_nonempty [of n] by (metis list.exhaust_sel list.pred_inject(2))
  then show ?thesis by (auto simp: has_head_def decimal_digit_def digit_of_def)
qed

lemma json_number_int:
  assumes "delim r"
  shows "json_number (show_int i @ r) = Some (JInt i, r)"
proof -
  note d = delim_props [OF assms]
  have "unsigned_number sg (show_nat n @ r) = Some (JInt (sg * int n), r)" for sg n
    by (simp add: unsigned_number_def number_nat [OF assms] fraction_digits_def exponent_part_def d)
  then show ?thesis
    by (cases "i < 0") (simp_all add: json_number_def show_int_def show_nat_not_minus, simp add: has_head_def)
qed

lemma show_nat_head_digit: "\<exists>c cs. show_nat n = c # cs \<and> decimal_digit c"
  using show_nat_digits [of n] show_nat_nonempty [of n] by (cases "show_nat n") auto

lemma show_int_head: "\<exists>c cs. show_int i = c # cs \<and> (decimal_digit c \<or> c = CHR ''-'')"
proof (cases "i < 0")
  case True
  then show ?thesis by (simp add: show_int_def)
next
  case False
  with show_nat_head_digit [of "nat i"] show ?thesis unfolding show_int_def by auto
qed

lemma json_word_int: "delim r \<Longrightarrow> json_word (show_int i @ r) = Some (JInt i, r)"
proof -
  assume d: "delim r"
  obtain c cs where c: "show_int i = c # cs" "decimal_digit c \<or> c = CHR ''-''"
    using show_int_head by blast
  then have "c \<noteq> CHR ''n''" "c \<noteq> CHR ''t''" "c \<noteq> CHR ''f''" by (auto simp: decimal_digit_def digit_of_def)
  with json_number_int [OF d, of i] c(1) show ?thesis by (simp add: json_word_def)
qed

section \<open>Floats as text\<close>

lemma digits_value_append: "digits_value (xs @ ys) = digits_value xs * 10 ^ length ys + digits_value ys"
proof (induction ys rule: rev_induct)
  case (snoc y ys)
  then show ?case
    using digits_value_snoc [of "xs @ ys" y] by (simp add: digits_value_snoc algebra_simps)
qed (simp add: digits_value_def)

lemma digits_value_zero [simp]: "digits_value (CHR ''0'' # ds) = digits_value ds" "digits_value (replicate n CHR ''0'' @ ds) = digits_value ds"
proof -
  show z: "digits_value (CHR ''0'' # ds) = digits_value ds" for ds
    by (simp add: digits_value_def digit_of_def)
  show "digits_value (replicate n CHR ''0'' @ ds) = digits_value ds"
    by (induction n) (simp_all add: z)
qed

lemma digits_value_zeros: "digits_value (ds @ replicate n CHR ''0'') = digits_value ds * 10 ^ n"
proof -
  have "digits_value (replicate n CHR ''0'') = 0"
    using digits_value_zero(2) [of n "[]"] by (simp add: digits_value_def)
  then show ?thesis
    by (simp add: digits_value_append)
qed

lemma digits_zero: "digits_value ''0'' = 0"
  by (simp add: digits_value_def digit_of_def)

lemma scale_ten_powi: "scale_ten q e = q * power_int 10 e"
  by (auto simp: scale_ten_def power_int_def inverse_eq_divide power_one_over)

lemma digit_zero [simp]: "decimal_digit (CHR ''0'')"
  by (simp add: decimal_digit_def digit_of_def)

lemma not_digit [simp]: "\<not> decimal_digit (CHR ''.'')" "\<not> decimal_digit (CHR ''e'')"
  by (simp_all add: decimal_digit_def digit_of_def)

lemma digits_before: "list_all decimal_digit ds \<Longrightarrow> \<not> decimal_digit c \<Longrightarrow> takeWhile decimal_digit (ds @ c # r) = ds"
  by (induction ds) auto

lemma int_digits_before:
  assumes "list_all decimal_digit ds" "ds \<noteq> []" "hd ds \<noteq> CHR ''0''" "\<not> decimal_digit c"
  shows "int_digits (ds @ c # r) = ds"
  using assms digits_before [OF assms(1,4)] by (simp add: int_digits_def has_head_def)

lemma fixed_number:
  assumes "int_digits (ip @ CHR ''.'' # fp @ r) = ip" "ip \<noteq> []" "fp \<noteq> []" "list_all decimal_digit fp" "delim r"
  shows "unsigned_number sg (ip @ CHR ''.'' # fp @ r)
    = Some (JFloat (of_int sg * (of_nat (digits_value (ip @ fp)) / 10 ^ length fp)), r)"
proof -
  have "fraction_digits (CHR ''.'' # fp @ r) = fp"
    using takeWhile_digits [OF assms(4,5)] by (simp add: fraction_digits_def has_head_def)
  moreover have "exponent_part r = None"
    using delim_props [OF assms(5)] by (simp add: exponent_part_def)
  ultimately show ?thesis
    using assms by (simp add: unsigned_number_def)
qed

lemma exponent_number:
  assumes "list_all decimal_digit (d # fp)" "d \<noteq> CHR ''0''" "list_all decimal_digit xs" "xs \<noteq> []" "delim r"
  shows "unsigned_number sg ((d # (if fp = [] then [] else CHR ''.'' # fp)) @ CHR ''e'' # (if neg then CHR ''-'' else CHR ''+'') # xs @ r)
    = Some (JFloat (scale_ten (of_int sg * (of_nat (digits_value (d # fp)) / 10 ^ length fp))
        ((if neg then -1 else 1) * int (digits_value xs))), r)"
proof -
  let ?e = "CHR ''e'' # (if neg then CHR ''-'' else CHR ''+'') # xs @ r"
  have e: "exponent_part ?e = Some ((if neg then -1 else 1) * int (digits_value xs), r)"
    using takeWhile_digits [OF assms(3,5)] assms(4) by (simp add: exponent_part_def has_head_def split_sign_def)
  show ?thesis
  proof (cases "fp = []")
    case True
    then show ?thesis
      using int_digits_before [of "[d]" "CHR ''e''"] assms(1,2) e
      by (simp add: unsigned_number_def fraction_digits_def has_head_def)
  next
    case False
    have "fraction_digits (CHR ''.'' # fp @ ?e) = fp"
      using digits_before [of fp "CHR ''e''"] assms(1) by (simp add: fraction_digits_def has_head_def)
    then show ?thesis
      using False int_digits_before [of "[d]" "CHR ''.''"] assms(1,2) e by (simp add: unsigned_number_def)
  qed
qed

lemma float_text_number:
  assumes ds: "list_all decimal_digit ds" "ds \<noteq> []" "hd ds \<noteq> CHR ''0''" and r: "delim r"
  shows "unsigned_number sg (float_text k ds @ r)
    = Some (JFloat (of_int sg * scale_ten (of_nat (digits_value ds)) (k - int (length ds))), r)"
proof -
  let ?v = "of_nat (digits_value ds) :: rat"
  consider "- 4 < k" "k \<le> 0" | "0 < k" "k \<le> 16" "length ds \<le> nat k" | "0 < k" "k \<le> 16" "nat k < length ds" | "k \<le> - 4 \<or> 16 < k"
    by linarith
  then show ?thesis
  proof cases
    case 1
    let ?fp = "replicate (nat (- k)) CHR ''0'' @ ds"
    have "unsigned_number sg (''0'' @ CHR ''.'' # ?fp @ r) = Some (JFloat (of_int sg * (of_nat (digits_value (''0'' @ ?fp)) / 10 ^ length ?fp)), r)"
      using ds r by (intro fixed_number) (auto simp: int_digits_def has_head_def list_all_iff)
    moreover have "of_nat (digits_value (''0'' @ ?fp)) / 10 ^ length ?fp = scale_ten ?v (k - int (length ds))"
    proof -
      have "nat (int (length ds) - k) = nat (- k) + length ds" "k - int (length ds) < 0"
        using 1(2) ds(2) by (linarith, cases ds) simp_all
      then show ?thesis
        by (simp add: scale_ten_def)
    qed
    ultimately have "unsigned_number sg (''0'' @ CHR ''.'' # ?fp @ r) = Some (JFloat (of_int sg * scale_ten ?v (k - int (length ds))), r)"
      by (simp only:)
    then show ?thesis
      using 1 by (simp add: float_text_def)
  next
    case 2
    let ?ip = "ds @ replicate (nat k - length ds) CHR ''0''"
    have "unsigned_number sg (?ip @ CHR ''.'' # ''0'' @ r) = Some (JFloat (of_int sg * (of_nat (digits_value (?ip @ ''0'')) / 10 ^ length ''0'')), r)"
      using ds r by (intro fixed_number int_digits_before) (auto simp: list_all_iff)
    moreover have "of_nat (digits_value (?ip @ ''0'')) / 10 ^ length ''0'' = scale_ten ?v (k - int (length ds))"
    proof -
      have "digits_value (?ip @ ''0'') = digits_value ds * 10 ^ (nat k - length ds) * 10"
        unfolding digits_value_append [of ?ip] digits_value_zeros digits_zero by simp
      moreover have "nat (k - int (length ds)) = nat k - length ds" "\<not> k - int (length ds) < 0"
        using 2 by auto
      ultimately show ?thesis
        by (simp add: scale_ten_def)
    qed
    ultimately have "unsigned_number sg (?ip @ CHR ''.'' # ''0'' @ r) = Some (JFloat (of_int sg * scale_ten ?v (k - int (length ds))), r)"
      by (simp only:)
    then show ?thesis
      using 2 by (simp add: float_text_def)
  next
    case 3
    let ?ip = "take (nat k) ds" and ?fp = "drop (nat k) ds"
    have "unsigned_number sg (?ip @ CHR ''.'' # ?fp @ r) = Some (JFloat (of_int sg * (of_nat (digits_value (?ip @ ?fp)) / 10 ^ length ?fp)), r)"
      using ds r 3 by (intro fixed_number int_digits_before) (auto simp: list_all_iff dest: in_set_takeD in_set_dropD)
    moreover have "of_nat (digits_value (?ip @ ?fp)) / 10 ^ length ?fp = scale_ten ?v (k - int (length ds))"
    proof -
      have "nat (int (length ds) - k) = length ds - nat k" "k - int (length ds) < 0"
        using 3 by linarith+
      then show ?thesis
        using 3 by (simp add: scale_ten_def)
    qed
    ultimately have "unsigned_number sg (?ip @ CHR ''.'' # ?fp @ r) = Some (JFloat (of_int sg * scale_ten ?v (k - int (length ds))), r)"
      by (simp only:)
    then show ?thesis
      using 3 by (simp add: float_text_def)
  next
    case 4
    obtain d fp where d: "ds = d # fp"
      using ds(2) by (cases ds) auto
    let ?x = "show_nat (nat \<bar>k - 1\<bar>)"
    let ?xs = "if length ?x < 2 then CHR ''0'' # ?x else ?x"
    have xs: "list_all decimal_digit ?xs" "?xs \<noteq> []" "digits_value ?xs = nat \<bar>k - 1\<bar>"
      using show_nat_digits by simp_all
    have "(if k \<le> 0 then -1 else 1) * int (digits_value ?xs) = k - 1"
      using 4 xs(3) by auto
    then have "unsigned_number sg ((d # (if fp = [] then [] else CHR ''.'' # fp)) @ CHR ''e'' # (if k \<le> 0 then CHR ''-'' else CHR ''+'') # ?xs @ r)
      = Some (JFloat (scale_ten (of_int sg * (?v / 10 ^ length fp)) (k - 1)), r)"
      using exponent_number [of d fp ?xs r sg "k \<le> 0"] ds xs r d by simp
    moreover have "scale_ten (of_int sg * (?v / 10 ^ length fp)) (k - 1) = of_int sg * scale_ten ?v (k - int (length ds))"
    proof -
      have "power_int 10 (k - 1 - int (length fp)) = power_int 10 (k - 1) / (10 ^ length fp :: rat)"
        by (simp add: power_int_diff)
      moreover have idx: "k - int (length ds) = k - 1 - int (length fp)"
        by (simp add: d)
      ultimately show ?thesis
        unfolding idx by (simp add: scale_ten_powi)
    qed
    moreover have "float_text k ds = (d # (if fp = [] then [] else CHR ''.'' # fp)) @ CHR ''e'' # (if k \<le> 0 then CHR ''-'' else CHR ''+'') # ?xs"
      using 4 by (auto simp: float_text_def d Let_def)
    ultimately show ?thesis
      by simp
  qed
qed

lemma strip_zeros_split: "\<exists>n. ds = strip_zeros ds @ replicate n CHR ''0''"
proof -
  have "rev ds = takeWhile (\<lambda>c. c = CHR ''0'') (rev ds) @ dropWhile (\<lambda>c. c = CHR ''0'') (rev ds)"
    by simp
  then have "ds = strip_zeros ds @ rev (takeWhile (\<lambda>c. c = CHR ''0'') (rev ds))"
    unfolding strip_zeros_def by (metis rev_append rev_rev_ident)
  moreover have "rev (takeWhile (\<lambda>c. c = CHR ''0'') xs) = replicate (length (takeWhile (\<lambda>c. c = CHR ''0'') xs)) CHR ''0''" for xs
    by (induction xs) (auto simp: replicate_append_same)
  ultimately show ?thesis
    by metis
qed

lemma json_number_float:
  assumes "exact_float q" "delim r"
  shows "json_number (float_repr q @ r) = Some (JFloat q, r)"
proof (cases "q = 0")
  case True
  have "unsigned_number 1 (''0'' @ CHR ''.'' # ''0'' @ r) = Some (JFloat (of_int 1 * (of_nat (digits_value (''0'' @ ''0'')) / 10 ^ length ''0'')), r)"
    using assms(2) by (intro fixed_number) (simp_all add: int_digits_def has_head_def)
  then show ?thesis
    using True by (simp add: float_repr_def json_number_def has_head_def digits_value_def digit_of_def)
next
  case False
  let ?k = "decimal_point \<bar>q\<bar>" and ?n = "significand \<bar>q\<bar>"
  have n: "of_int ?n = \<bar>q\<bar> * power_int 10 (17 - ?k)"
    using assms(1) False by (simp add: exact_float_def scale_ten_powi)
  then have pos: "0 < ?n"
    using False by (metis abs_ge_zero of_int_0_less_iff mult_pos_pos zero_less_abs_iff zero_less_power_int zero_less_numeral)
  let ?ds = "show_digits ?n"
  have ds: "?ds = show_nat (nat ?n)"
    using pos by (simp add: show_digits_nat)
  obtain z where z: "?ds = strip_zeros ?ds @ replicate z CHR ''0''"
    using strip_zeros_split by blast
  have digits: "list_all decimal_digit (strip_zeros ?ds)"
    using show_nat_digits [of "nat ?n"] z unfolding ds by (metis list_all_append)
  have nonempty: "strip_zeros ?ds \<noteq> []"
  proof
    assume "strip_zeros ?ds = []"
    then have "digits_value ?ds = 0"
      using z digits_value_zeros [of "[]" z] by (simp add: digits_value_def)
    then show False
      using pos by (simp add: ds)
  qed
  have head: "hd (strip_zeros ?ds) \<noteq> CHR ''0''"
    using show_nat_head [of "nat ?n"] pos z nonempty unfolding ds by (metis hd_append2 less_le_not_le nat_0_iff)
  have value_n: "digits_value (strip_zeros ?ds) * 10 ^ z = nat ?n"
    using digits_value_zeros [of "strip_zeros ?ds" z] z digits_value_show [of "nat ?n"] unfolding ds by metis
  have len: "int (length ?ds) = int (length (strip_zeros ?ds)) + int z"
    using arg_cong [OF z, of length] by simp
  have "scale_ten (of_nat (digits_value (strip_zeros ?ds))) (?k + int (length ?ds) - 17 - int (length (strip_zeros ?ds))) = \<bar>q\<bar>"
  proof -
    have shift: "power_int 10 (int z + e) = (10 ^ z * power_int 10 e :: rat)" for e
      by (simp add: power_int_add)
    have idx: "?k + int (length ?ds) - 17 - int (length (strip_zeros ?ds)) = int z + - (17 - ?k)"
      using len by simp
    have "scale_ten (of_nat (digits_value (strip_zeros ?ds))) (?k + int (length ?ds) - 17 - int (length (strip_zeros ?ds)))
        = (of_nat (digits_value (strip_zeros ?ds) * 10 ^ z) :: rat) * power_int 10 (- (17 - ?k))"
      unfolding idx by (simp add: scale_ten_powi shift)
    also have "\<dots> = of_int ?n * power_int 10 (- (17 - ?k))"
      using pos by (simp add: value_n)
    also have "\<dots> = \<bar>q\<bar>"
      by (simp add: n mult.assoc flip: power_int_add)
    finally show ?thesis .
  qed
  then have u: "unsigned_number sg (float_text (?k + int (length ?ds) - 17) (strip_zeros ?ds) @ r) = Some (JFloat (of_int sg * \<bar>q\<bar>), r)" for sg
    using float_text_number [OF digits nonempty head assms(2), of sg "?k + int (length ?ds) - 17"] by simp
  have plain: "\<not> has_head (CHR ''-'') (float_text k (strip_zeros ?ds) @ r)" for k
  proof -
    obtain d fp where d: "strip_zeros ?ds = d # fp" "decimal_digit d"
      using digits nonempty by (cases "strip_zeros ?ds") auto
    then have "hd (float_text k (d # fp) @ r) \<noteq> CHR ''-''"
      by (cases "nat k") (auto simp: float_text_def decimal_digit_def digit_of_def)
    then show ?thesis
      by (simp add: has_head_def d(1))
  qed
  show ?thesis
  proof (cases "q < 0")
    case True
    then show ?thesis
      using u [of "-1"] False by (simp add: json_number_def float_repr_def has_head_def Let_def)
  next
    case nonneg: False
    then show ?thesis
      using u [of 1] plain False by (simp add: json_number_def float_repr_def Let_def)
  qed
qed

text \<open>The text of a float starts as a number does, and is one line.\<close>

lemma float_text_chars: "set (float_text k ds) \<subseteq> set ds \<union> set (show_nat (nat \<bar>k - 1\<bar>)) \<union> {CHR ''0'', CHR ''.'', CHR ''e'', CHR ''-'', CHR ''+''}"
proof (cases "- 4 < k \<and> k \<le> 16")
  case True
  then show ?thesis
    using set_take_subset [of "nat k" ds] set_drop_subset [of "nat k" ds] by (auto simp: float_text_def)
next
  case False
  have "set (let x = show_nat (nat \<bar>k - 1\<bar>) in if length x < 2 then CHR ''0'' # x else x) \<subseteq> insert CHR ''0'' (set (show_nat (nat \<bar>k - 1\<bar>)))"
    by (auto simp: Let_def)
  with False show ?thesis
    using set_take_subset [of 1 ds] set_drop_subset [of 1 ds] unfolding float_text_def by auto
qed

lemma float_repr_chars: "c \<in> set (float_repr q) \<Longrightarrow> decimal_digit c \<or> c \<in> {CHR ''.'', CHR ''e'', CHR ''-'', CHR ''+''}"
proof -
  have "c \<in> set (strip_zeros (show_digits n)) \<Longrightarrow> decimal_digit c" for n
  proof -
    have "set (show_digits n) \<subseteq> Collect decimal_digit"
    proof (cases "0 \<le> n")
      case True
      then show ?thesis
        using show_nat_digits [of "nat n"] by (auto simp: show_digits_nat list_all_iff)
    qed (simp add: show_digits.simps [of n])
    moreover have "set (strip_zeros ds) \<subseteq> set ds" for ds
      by (auto simp: strip_zeros_def dest: set_dropWhileD)
    ultimately show "c \<in> set (strip_zeros (show_digits n)) \<Longrightarrow> decimal_digit c"
      by auto
  qed
  then have body: ?thesis if "c \<in> set (float_text k (strip_zeros (show_digits n)))" for k n
    using subsetD [OF float_text_chars that] show_nat_digits [of "nat \<bar>k - 1\<bar>"] by (auto simp: list_all_iff)
  assume c: "c \<in> set (float_repr q)"
  show ?thesis
  proof (cases "q = 0")
    case False
    let ?ds = "show_digits (significand \<bar>q\<bar>)"
    have "float_repr q = (if q < 0 then ''-'' else []) @ float_text (decimal_point \<bar>q\<bar> + int (length ?ds) - 17) (strip_zeros ?ds)"
      unfolding float_repr_def Let_def using False by (rule if_not_P)
    with c have "c = CHR ''-'' \<or> c \<in> set (float_text (decimal_point \<bar>q\<bar> + int (length ?ds) - 17) (strip_zeros ?ds))"
      by (cases "q < 0") simp_all
    with body show ?thesis
      by blast
  qed (use c in \<open>auto simp: float_repr_def\<close>)
qed

lemma float_repr_nonempty [simp]: "float_repr q \<noteq> []"
  by (simp add: float_repr_def float_text_def Let_def)

text \<open>The fuel a document needs, and its text is long enough to pay for it.\<close>

fun json_fuel :: "json \<Rightarrow> nat" where
  "json_fuel (JList xs) = 1 + sum_list (map (\<lambda>x. json_fuel x + 1) xs)"
| "json_fuel (JObj d) = 1 + sum_list (map (\<lambda>kv. json_fuel (snd kv) + 1) d)"
| "json_fuel _ = 1"

lemma comma_join_Cons: "comma_join (x # xs) = x @ (if xs = [] then [] else CHR '','' # comma_join xs)"
  by (cases xs) (simp_all add: comma_join_def)

lemma comma_join_length: "xs \<noteq> [] \<Longrightarrow> length (comma_join xs) + 1 = sum_list (map (\<lambda>x. length x + 1) xs)"
  by (induction xs) (auto simp: comma_join_Cons)

lemma json_fuel_bound: "json_fuel v \<le> 2 * length (json_compact v)"
proof (induction v)
  case (JList xs)
  have "sum_list (map (\<lambda>x. json_fuel x + 1) xs) \<le> 2 * sum_list (map (\<lambda>x. length x + 1) (map json_compact xs))"
    using JList by (induction xs) (auto, fastforce)
  then show ?case
    using comma_join_length [of "map json_compact xs"] by (cases "xs = []") auto
next
  case (JObj d)
  let ?f = "\<lambda>kv. dumps_str (fst kv) @ CHR '':'' # json_compact (snd kv)"
  have one: "json_fuel (snd kv) \<le> 2 * length (json_compact (snd kv))" if "kv \<in> set d" for kv
    using JObj [of kv "snd kv"] that by (cases kv) auto
  have "sum_list (map (\<lambda>kv. json_fuel (snd kv) + 1) d) \<le> 2 * sum_list (map (\<lambda>x. length x + 1) (map ?f d))"
    using one by (induction d) (auto, fastforce)
  then show ?case
    using comma_join_length [of "map ?f d"] by (cases "d = []") auto
next
  case (JInt i)
  have "show_int i \<noteq> []" by (simp add: show_int_def)
  then show ?case by (cases "show_int i") simp_all
next
  case (JFloat q)
  then show ?case by (cases "float_repr q") simp_all
qed (simp_all add: dumps_str_eq)

lemma compact_head:
  "\<exists>c cs. json_compact v = c # cs \<and> \<not> json_space c \<and> c \<noteq> CHR '']'' \<and> c \<noteq> CHR ''}''"
proof -
  have digit: "\<not> json_space c \<and> c \<noteq> CHR '']'' \<and> c \<noteq> CHR ''}''" if "decimal_digit c \<or> c = CHR ''-''" for c
    using that digit_not_space [of c] by (auto simp: decimal_digit_def digit_of_def json_space_def)
  show ?thesis
  proof (cases v)
    case (JInt i)
    then show ?thesis using show_int_head [of i] digit by auto
  next
    case (JFloat q)
    obtain c cs where c: "float_repr q = c # cs" by (cases "float_repr q") simp_all
    then show ?thesis using JFloat float_repr_chars [of c q] digit by (auto simp: json_space_def)
  qed (simp_all add: dumps_str_eq json_space_def)
qed

lemma skip_compact [simp]: "skip_ws (json_compact v @ r) = json_compact v @ r"
  using compact_head [of v] by (auto simp: skip_ws_def)

lemma skip_nonspace [simp]: "\<not> json_space c \<Longrightarrow> skip_ws (c # r) = c # r"
  by (simp add: skip_ws_def)

lemma json_space_simps [simp]: "\<not> json_space (CHR '','')" "\<not> json_space (CHR '']'')" "\<not> json_space (CHR ''}'')"
  "\<not> json_space (CHR '':'')" "\<not> json_space (CHR 0x22)"
  by (simp_all add: json_space_def)

lemma delim_simps [simp]: "delim []" "delim (CHR '','' # r)" "delim (CHR '']'' # r)" "delim (CHR ''}'' # r)"
  by (simp_all add: delim_def)

definition reads_back :: "json \<Rightarrow> bool" where
  "reads_back v \<longleftrightarrow> (\<forall>n r. json_fuel v \<le> n \<longrightarrow> delim r \<longrightarrow> json_value n (json_compact v @ r) = Some (v, r))"

lemma reads_backD: "reads_back v \<Longrightarrow> json_fuel v \<le> n \<Longrightarrow> delim r \<Longrightarrow> json_value n (json_compact v @ r) = Some (v, r)"
  by (simp add: reads_back_def)

lemma reads_backI:
  assumes "\<And>m r. json_fuel v \<le> Suc m \<Longrightarrow> delim r \<Longrightarrow> json_value (Suc m) (json_compact v @ r) = Some (v, r)"
  shows "reads_back v"
proof -
  have "1 \<le> json_fuel v" by (cases v) simp_all
  then show ?thesis using assms unfolding reads_back_def by (metis Suc_le_D One_nat_def le_trans)
qed

lemma items_back:
  assumes "list_all reads_back xs" and "xs \<noteq> []" and "sum_list (map (\<lambda>x. json_fuel x + 1) xs) \<le> n"
  shows "json_items n (comma_join (map json_compact xs) @ CHR '']'' # r) acc = Some (JList (acc @ xs), r)"
  using assms
proof (induction xs arbitrary: acc n)
  case (Cons x xs)
  then obtain m where n: "n = Suc m" by (cases n) auto
  show ?case
  proof (cases xs)
    case Nil
    with Cons.prems n show ?thesis by (simp add: comma_join_Cons reads_backD)
  next
    case (Cons y ys)
    have "skip_ws (comma_join (map json_compact xs) @ CHR '']'' # r) = comma_join (map json_compact xs) @ CHR '']'' # r"
      by (simp add: Cons comma_join_Cons)
    with Cons.prems n Cons Cons.IH [of m "acc @ [x]"] show ?thesis
      by (simp add: comma_join_Cons reads_backD)
  qed
qed simp

definition member_text :: "string \<times> json \<Rightarrow> string" where
  "member_text kv = dumps_str (fst kv) @ CHR '':'' # json_compact (snd kv)"

lemma update_fresh: "k \<notin> fst ` set acc \<Longrightarrow> AList.update k v acc = acc @ [(k, v)]"
  by (induction acc) auto

lemma members_back:
  assumes "list_all (\<lambda>kv. reads_back (snd kv)) d" and "d \<noteq> []" and "sum_list (map (\<lambda>kv. json_fuel (snd kv) + 1) d) \<le> n"
    and "distinct (map fst acc @ map fst d)"
  shows "json_members n (comma_join (map member_text d) @ CHR ''}'' # r) acc = Some (JObj (acc @ d), r)"
  using assms
proof (induction d arbitrary: acc n)
  case (Cons kv d)
  obtain k v where kv: "kv = (k, v)" by (cases kv)
  from Cons.prems obtain m where n: "n = Suc m" by (cases n) auto
  have upd: "AList.update k v acc = acc @ [(k, v)]" using Cons.prems(4) kv by (intro update_fresh) auto
  have rb: "reads_back v" "json_fuel v \<le> m" using Cons.prems n kv by auto
  show ?case
  proof (cases d)
    case Nil
    with n kv rb upd show ?thesis
      by (simp add: comma_join_Cons member_text_def dumps_str_eq json_string_dumps reads_backD)
  next
    case (Cons y ys)
    have "skip_ws (comma_join (map member_text d) @ CHR ''}'' # r) = comma_join (map member_text d) @ CHR ''}'' # r"
      by (simp add: Cons comma_join_Cons member_text_def dumps_str_eq)
    with Cons.prems n kv Cons rb upd Cons.IH [of m "acc @ [(k, v)]"] show ?thesis
      by (simp add: comma_join_Cons member_text_def dumps_str_eq json_string_dumps reads_backD)
  qed
qed simp

lemma exact_reads_back: "exact_json v \<Longrightarrow> reads_back v"
proof (induction v)
  case JNull
  have "json_value (Suc m) (''null'' @ r) = Some (JNull, r)" for m r by (simp add: json_word_def)
  then show ?case by (intro reads_backI) auto
next
  case (JBool b)
  have "json_value (Suc m) (''true'' @ r) = Some (JBool True, r)"
    "json_value (Suc m) (''false'' @ r) = Some (JBool False, r)" for m r by (simp_all add: json_word_def)
  then show ?case by (intro reads_backI) auto
next
  case (JInt i)
  have "json_value (Suc m) (show_int i @ r) = Some (JInt i, r)" if d: "delim r" for m r
  proof -
    obtain c cs where c: "show_int i = c # cs" "decimal_digit c \<or> c = CHR ''-''"
      using show_int_head by blast
    then have "c \<noteq> CHR 0x22" "c \<noteq> CHR ''{''" "c \<noteq> CHR ''[''" by (auto simp: decimal_digit_def digit_of_def)
    with json_word_int [OF d, of i] c(1) show ?thesis by simp
  qed
  then show ?case by (intro reads_backI) auto
next
  case (JFloat q)
  have "json_value (Suc m) (float_repr q @ r) = Some (JFloat q, r)" if d: "delim r" for m r
  proof -
    obtain c cs where c: "float_repr q = c # cs" by (cases "float_repr q") simp_all
    then have "decimal_digit c \<or> c \<in> {CHR ''.'', CHR ''e'', CHR ''-'', CHR ''+''}" using float_repr_chars [of c q] by simp
    then have "c \<noteq> CHR 0x22" "c \<noteq> CHR ''{''" "c \<noteq> CHR ''[''" "c \<noteq> CHR ''n''" "c \<noteq> CHR ''t''" "c \<noteq> CHR ''f''"
      by (auto simp: decimal_digit_def digit_of_def)
    with json_number_float [of q, OF _ d] JFloat c show ?thesis by (simp add: json_word_def)
  qed
  then show ?case by (intro reads_backI) auto
next
  case (JStr s)
  have "json_value (Suc m) (dumps_str s @ r) = Some (JStr s, r)" for m r
    by (simp add: dumps_str_eq json_string_dumps)
  then show ?case by (intro reads_backI) auto
next
  case (JList xs)
  then have all: "list_all reads_back xs" by (simp add: list_all_iff)
  have "json_value (Suc m) (json_compact (JList xs) @ r) = Some (JList xs, r)"
    if "sum_list (map (\<lambda>x. json_fuel x + 1) xs) \<le> m" for m r
  proof (cases xs)
    case (Cons y ys)
    then have "comma_join (map json_compact xs) @ CHR '']'' # r \<noteq> []"
      and head: "hd (comma_join (map json_compact xs) @ CHR '']'' # r) \<noteq> CHR '']''"
      and skip: "skip_ws (comma_join (map json_compact xs) @ CHR '']'' # r) = comma_join (map json_compact xs) @ CHR '']'' # r"
      using compact_head [of y] by (auto simp: comma_join_Cons)
    with items_back [OF all _ that, of r "[]"] Cons show ?thesis by (simp add: Let_def)
  qed (simp add: comma_join_def Let_def)
  then show ?case by (intro reads_backI) (simp del: json_compact.simps json_value.simps)
next
  case (JObj d)
  then have all: "list_all (\<lambda>kv. reads_back (snd kv)) d" and dist: "distinct (map fst d)"
    by (fastforce simp: list_all_iff)+
  have form: "json_compact (JObj d) = CHR ''{'' # comma_join (map member_text d) @ ''}''"
    by (simp add: member_text_def [abs_def])
  have "json_value (Suc m) (json_compact (JObj d) @ r) = Some (JObj d, r)"
    if "sum_list (map (\<lambda>kv. json_fuel (snd kv) + 1) d) \<le> m" for m r
  proof (cases d)
    case (Cons y ys)
    then have head: "hd (comma_join (map member_text d) @ CHR ''}'' # r) = CHR 0x22"
      and skip: "skip_ws (comma_join (map member_text d) @ CHR ''}'' # r) = comma_join (map member_text d) @ CHR ''}'' # r"
      by (simp_all add: comma_join_Cons member_text_def dumps_str_eq)
    with members_back [OF all _ that, of "[]" r] Cons dist show ?thesis
      unfolding form by (simp add: Let_def)
  qed (simp add: comma_join_def Let_def)
  then show ?case by (intro reads_backI) (simp del: json_compact.simps json_value.simps)
qed

lemma loads_compact: "exact_json v \<Longrightarrow> json_loads (json_compact v) = Some v"
proof -
  assume "exact_json v"
  with json_fuel_bound [of v] have "json_value (2 * length (json_compact v) + 1) (json_compact v @ []) = Some (v, [])"
    by (intro reads_backD exact_reads_back) simp_all
  moreover have "skip_ws (json_compact v) = json_compact v" using skip_compact [of v "[]"] by simp
  ultimately show ?thesis by (simp add: json_loads_def skip_ws_def)
qed

end
