(* ===== verification/PyText.thy ===== *)
theory PyText
  imports PyValues
begin

text \<open>
  Operations on text shared by the components: the line boundaries of \<open>str.splitlines\<close>, joining
  lines, the number of bytes of a text in UTF-8, and prefix test, search and replacement of texts.
\<close>

section \<open>Lines\<close>

definition lf :: string where "lf = [CHR 0x0A]"

definition nl2 :: string where "nl2 = [CHR 0x0A, CHR 0x0A]"

text \<open>The line boundaries of \<open>str.splitlines\<close> in the character range of the model.\<close>

definition line_break :: "char \<Rightarrow> bool" where
  "line_break c \<longleftrightarrow> (let n = (of_char c :: nat) in (10 \<le> n \<and> n \<le> 13) \<or> (28 \<le> n \<and> n \<le> 30) \<or> n = 133)"

fun splitlines_from :: "string \<Rightarrow> string \<Rightarrow> string list" where
  "splitlines_from acc [] = (if acc = [] then [] else [rev acc])"
| "splitlines_from acc (c # cs) =
     (if line_break c then
        rev acc # (if c = CHR 0x0D then
            (case cs of d # r \<Rightarrow> if d = CHR 0x0A then splitlines_from [] r else splitlines_from [] cs
             | [] \<Rightarrow> [])
          else splitlines_from [] cs)
      else splitlines_from (c # acc) cs)"

definition py_splitlines :: "string \<Rightarrow> string list" where
  "py_splitlines s = splitlines_from [] s"

definition one_line :: "string \<Rightarrow> bool" where
  "one_line s \<longleftrightarrow> list_all (\<lambda>c. \<not> line_break c) s"

lemma one_line_simps [simp]:
  "one_line []" "one_line (c # s) \<longleftrightarrow> \<not> line_break c \<and> one_line s" "one_line (s @ t) \<longleftrightarrow> one_line s \<and> one_line t"
  by (simp_all add: one_line_def)

lemma splitlines_one: "one_line l \<Longrightarrow> splitlines_from acc (l @ CHR 0x0A # r) = (rev acc @ l) # splitlines_from [] r"
  by (induction l arbitrary: acc) (simp_all add: line_break_def)

lemma splitlines_lines:
  "list_all one_line ls \<Longrightarrow> py_splitlines (concat (map (\<lambda>l. l @ [CHR 0x0A]) ls)) = ls"
  by (induction ls) (simp_all add: py_splitlines_def splitlines_one)

lemma splitlines_open:
  "one_line l \<Longrightarrow> l \<noteq> [] \<or> acc \<noteq> [] \<Longrightarrow> splitlines_from acc l = [rev acc @ l]"
  by (induction l arbitrary: acc) auto

fun join_with :: "string \<Rightarrow> string list \<Rightarrow> string" where
  "join_with sep [] = []"
| "join_with sep [x] = x"
| "join_with sep (x # y # ys) = x @ sep @ join_with sep (y # ys)"

lemma join_with_Cons: "ls \<noteq> [] \<Longrightarrow> join_with sep (l # ls) = l @ sep @ join_with sep ls"
  by (cases ls) simp_all

lemma join_with_append: "xs \<noteq> [] \<Longrightarrow> ys \<noteq> [] \<Longrightarrow> join_with sep (xs @ ys) = join_with sep xs @ sep @ join_with sep ys"
proof (induction xs)
  case (Cons x xs)
  then show ?case by (cases "xs = []") (simp_all add: join_with_Cons)
qed simp

text \<open>Splitting what was joined gives the lines back, unless the last of them is empty.\<close>

lemma splitlines_join:
  "list_all one_line ls \<Longrightarrow> ls \<noteq> [] \<Longrightarrow> last ls \<noteq> [] \<Longrightarrow> py_splitlines (join_with lf ls) = ls"
proof (induction ls)
  case (Cons l ls)
  then show ?case
    by (cases "ls = []") (simp_all add: py_splitlines_def join_with_Cons lf_def splitlines_one splitlines_open)
qed simp

lemma splitlines_join_empty:
  "list_all one_line ls \<Longrightarrow> py_splitlines (join_with lf (ls @ [[]])) = ls"
proof (induction ls)
  case (Cons l ls)
  then show ?case by (simp add: py_splitlines_def join_with_Cons lf_def splitlines_one)
qed (simp add: py_splitlines_def)

section \<open>UTF-8\<close>

text \<open>The number of bytes of \<open>text.encode("utf-8")\<close>; the characters of the model need at most two.\<close>

definition utf8_char :: "char \<Rightarrow> nat" where
  "utf8_char c = (if (of_char c :: nat) < 128 then 1 else 2)"

definition utf8_size :: "string \<Rightarrow> nat" where
  "utf8_size s = sum_list (map utf8_char s)"

lemma utf8_size_simps [simp]:
  "utf8_size [] = 0" "utf8_size (c # s) = utf8_char c + utf8_size s" "utf8_size (s @ t) = utf8_size s + utf8_size t"
  by (simp_all add: utf8_size_def)

lemma utf8_size_ge: "length s \<le> utf8_size s"
  by (induction s) (auto simp: utf8_char_def)

lemma utf8_lf [simp]: "utf8_size lf = 1"
  by (simp add: lf_def utf8_char_def)

lemma utf8_size_join: "ls \<noteq> [] \<Longrightarrow> utf8_size (join_with lf ls) + 1 = sum_list (map (\<lambda>l. utf8_size l + 1) ls)"
proof (induction ls)
  case (Cons l ls)
  then show ?case by (cases "ls = []") (auto simp: join_with_Cons)
qed simp

section \<open>startswith, in and replace\<close>

definition starts_with :: "string \<Rightarrow> string \<Rightarrow> bool" where
  "starts_with s t \<longleftrightarrow> take (length t) s = t"

definition ends_with :: "string \<Rightarrow> string \<Rightarrow> bool" where
  "ends_with s t \<longleftrightarrow> length t \<le> length s \<and> drop (length s - length t) s = t"

function py_replace :: "string \<Rightarrow> string \<Rightarrow> string \<Rightarrow> string" where
  "py_replace old new [] = []"
| "py_replace old new (c # cs) =
     (if old \<noteq> [] \<and> starts_with (c # cs) old then new @ py_replace old new (drop (length old - 1) cs)
      else c # py_replace old new cs)"
  by pat_completeness auto
termination by (relation "measure (\<lambda>(old, new, s). length s)") auto

fun contains :: "string \<Rightarrow> string \<Rightarrow> bool" where
  "contains [] t = (t = [])"
| "contains (c # cs) t = (starts_with (c # cs) t \<or> contains cs t)"

lemma starts_with_simps [simp]:
  "starts_with s []" "starts_with [] (d # t) = False" "starts_with (c # s) (d # t) = (c = d \<and> starts_with s t)"
  by (simp_all add: starts_with_def)

lemma contains_append: "contains s t \<Longrightarrow> contains (p @ s) t"
  by (induction p) auto

lemma contains_drop: "contains (drop n s) t \<Longrightarrow> contains s t"
  by (metis append_take_drop_id contains_append)

lemma contains_fresh_prefix: "t \<noteq> [] \<Longrightarrow> set p \<inter> set t = {} \<Longrightarrow> contains (p @ s) t \<Longrightarrow> contains s t"
  by (induction p) (auto simp: neq_Nil_conv)

lemma starts_with_length: "starts_with s t \<Longrightarrow> length t \<le> length s"
  unfolding starts_with_def by (metis length_take min.cobounded1)

lemma contains_length: "contains s t \<Longrightarrow> length t \<le> length s"
  by (induction s) (auto dest: starts_with_length)

lemma py_replace_id: "\<not> contains s old \<Longrightarrow> py_replace old new s = s"
  by (induction s) auto

text \<open>With a replacement that shares no character with the texts, replacing brings no text in, and
  leaves no occurrence of the text replaced.\<close>

lemma replace_starts_with:
  "set new \<inter> set t = {} \<Longrightarrow> new \<noteq> [] \<Longrightarrow> starts_with (py_replace old new s) t \<Longrightarrow> starts_with s t"
proof (induction s arbitrary: t)
  case (Cons c s)
  then show ?case
  proof (cases t)
    case (Cons d t')
    with Cons.prems have "\<not> (old \<noteq> [] \<and> starts_with (c # s) old)"
      by (cases new) (auto split: if_splits)
    with Cons Cons.prems Cons.IH [of t'] show ?thesis
      by auto
  qed simp
qed simp

lemma replace_brings_nothing:
  assumes "set new \<inter> set t = {}" "new \<noteq> []" "t \<noteq> []"
  shows "contains (py_replace old new s) t \<Longrightarrow> contains s t"
proof (induction s rule: length_induct)
  case (1 s)
  show ?case
  proof (cases s)
    case (Cons c cs)
    show ?thesis
    proof (cases "old \<noteq> [] \<and> starts_with (c # cs) old")
      case True
      let ?r = "drop (length old - 1) cs"
      have "contains (py_replace old new ?r) t"
        using 1(2) True Cons contains_fresh_prefix [OF assms(3,1)] by simp
      moreover have "length ?r < length s"
        using Cons by simp
      ultimately have "contains ?r t"
        using 1(1) by blast
      then show ?thesis
        using Cons contains_drop by simp
    next
      case False
      with 1(2) Cons have "starts_with (c # py_replace old new cs) t \<or> contains (py_replace old new cs) t"
        by auto
      then show ?thesis
      proof
        assume "starts_with (c # py_replace old new cs) t"
        then obtain t' where t': "t = c # t'" "starts_with (py_replace old new cs) t'"
          using assms(3) by (cases t) auto
        moreover have "set new \<inter> set t' = {}"
          using assms(1) t'(1) by auto
        ultimately have "starts_with cs t'"
          using replace_starts_with assms(2) by blast
        then show ?thesis
          unfolding Cons t'(1) by simp
      next
        assume "contains (py_replace old new cs) t"
        with 1(1) Cons show ?thesis
          by simp
      qed
    qed
  qed (use 1 in simp)
qed

lemma replace_removes:
  assumes "set new \<inter> set old = {}" "new \<noteq> []" "old \<noteq> []"
  shows "\<not> contains (py_replace old new s) old"
proof (induction s rule: length_induct)
  case (1 s)
  show ?case
  proof (cases s)
    case (Cons c cs)
    show ?thesis
    proof (cases "starts_with (c # cs) old")
      case True
      let ?r = "drop (length old - 1) cs"
      have "\<not> contains (py_replace old new ?r) old"
        using 1 Cons by simp
      then have "\<not> contains (new @ py_replace old new ?r) old"
        using contains_fresh_prefix [OF assms(3,1)] by blast
      then show ?thesis
        using Cons True assms(3) by simp
    next
      case False
      have "\<not> starts_with (c # py_replace old new cs) old"
      proof
        assume "starts_with (c # py_replace old new cs) old"
        then obtain o' where o': "old = c # o'" "starts_with (py_replace old new cs) o'"
          using assms(3) by (cases old) auto
        moreover have "set new \<inter> set o' = {}"
          using assms(1) o'(1) by auto
        ultimately have "starts_with cs o'"
          using replace_starts_with assms(2) by blast
        with False o'(1) show False
          by simp
      qed
      with 1 Cons False show ?thesis
        by simp
    qed
  qed (use assms in simp)
qed

end
