(* ===== verification/SessionFile.thy ===== *)
theory SessionFile
  imports SessionProps JsonText PyText "HOL-Library.List_Lexorder" "HOL-Library.Char_ord"
begin

text \<open>
  \<^verbatim>\<open>runtime/session.py\<close>, the log file: a header line and one line per entry, appended and never
  rewritten; \<open>_read_session\<close> with its tolerance for a torn last line; and the repository that
  creates, opens, lists, forks and deletes sessions in a directory, which is a map from session
  identifiers to file contents.
\<close>

section \<open>Writing and reading the file\<close>

definition entry_line :: "entry \<Rightarrow> string" where
  "entry_line e = json_compact (JObj e) @ [CHR 0x0A]"

definition invalid_session :: "string \<Rightarrow> exn" where
  "invalid_session msg = RunError ''invalid_session'' msg"

definition invalid_file :: "string \<Rightarrow> string \<Rightarrow> exn" where
  "invalid_file path msg = invalid_session (''Invalid JSONL session '' @ path @ '': '' @ msg)"

definition invalid_entry :: "string \<Rightarrow> nat \<Rightarrow> exn" where
  "invalid_entry path line = RunError ''invalid_entry'' (''Invalid JSONL session '' @ path @ '': line '' @ show_nat line)"

text \<open>The loop over the lines after the header; \<open>i\<close> counts from two, as \<open>enumerate\<close> does.\<close>

definition has_keys :: "json \<Rightarrow> bool" where
  "has_keys v \<longleftrightarrow> is_obj v \<and> list_all (\<lambda>k. map_of (obj_of v) k \<noteq> None) [''type'', ''id'', ''parentId'', ''timestamp'']"

definition leaf_after :: "entry \<Rightarrow> json" where
  "leaf_after e = (if is_type ''leaf'' e then jget e ''targetId'' else JStr (entry_key e))"

fun read_lines :: "string \<Rightarrow> nat \<Rightarrow> nat \<Rightarrow> string list \<Rightarrow> entry list \<Rightarrow> json \<Rightarrow> exn + entry list \<times> json" where
  "read_lines path last_line i [] es leaf = Inr (rev es, leaf)"
| "read_lines path last_line i (l # ls) es leaf =
     (if str_strip l = [] then read_lines path last_line (Suc i) ls es leaf
      else (case json_loads l of
          None \<Rightarrow> if i = last_line then Inr (rev es, leaf) else Inl (invalid_entry path i)
        | Some v \<Rightarrow> if \<not> has_keys v then Inl (invalid_entry path i)
            else read_lines path last_line (Suc i) ls (obj_of v # es) (leaf_after (obj_of v))))"

definition header_field_ok :: "entry \<Rightarrow> string \<Rightarrow> bool" where
  "header_field_ok h k \<longleftrightarrow> (case jget h k of JStr s \<Rightarrow> s \<noteq> [] | _ \<Rightarrow> False)"

definition header_ok :: "json \<Rightarrow> bool" where
  "header_ok v \<longleftrightarrow> is_obj v \<and> is_type ''session'' (obj_of v) \<and>
     (jget (obj_of v) ''version'' = JInt 3 \<or> jget (obj_of v) ''version'' = JFloat 3)"

definition read_session :: "string \<Rightarrow> string \<Rightarrow> bool \<Rightarrow> exn + entry \<times> entry list \<times> json" where
  "read_session path content header_only =
     (case py_splitlines content of
        [] \<Rightarrow> Inl (invalid_file path ''missing header'')
      | l # ls \<Rightarrow> (case json_loads l of
          None \<Rightarrow> Inl (invalid_file path ''bad header'')
        | Some h \<Rightarrow>
            if \<not> header_ok h then Inl (invalid_file path ''unsupported header'')
            else (case filter (\<lambda>k. \<not> header_field_ok (obj_of h) k) [''id'', ''timestamp'', ''cwd''] of
                k # _ \<Rightarrow> Inl (invalid_file path (''missing '' @ k))
              | [] \<Rightarrow>
                  if header_only then Inr (obj_of h, [], JNull)
                  else bind_res (read_lines path (length (l # ls)) 2 ls [] JNull) (\<lambda>(es, leaf).
                    Inr (obj_of h, es, leaf)))))"

section \<open>The repository\<close>

record metadata =
  md_id :: string
  md_created_at :: string
  md_cwd :: string
  md_parent :: "string option"
  md_metadata :: "(string, json) dict"

definition metadata_of :: "entry \<Rightarrow> metadata" where
  "metadata_of h = \<lparr>md_id = py_str (jget h ''id''), md_created_at = py_str (jget h ''timestamp''),
     md_cwd = py_str (jget h ''cwd''),
     md_parent = (if truthy (jget h ''parentSession'') then Some (py_str (jget h ''parentSession'')) else None),
     md_metadata = obj_of (jget h ''metadata'')\<rparr>"

definition id_char :: "char \<Rightarrow> bool" where
  "id_char c \<longleftrightarrow> c \<in> set (''abcdefghijklmnopqrstuvwxyzABCDEFGHIJKLMNOPQRSTUVWXYZ0123456789-_'')"

definition path_of :: "string \<Rightarrow> exn + string" where
  "path_of sid = (if sid = [] \<or> \<not> list_all id_char sid
     then Inl (invalid_session (''session id must contain only letters, digits, '-' or '_''  @ [CHR 0x27])) else Inr (sid @ ''.jsonl''))"

type_synonym disk = "string \<Rightarrow> string option"

definition header_of :: "string \<Rightarrow> string \<Rightarrow> string \<Rightarrow> string option \<Rightarrow> (string, json) dict \<Rightarrow> entry" where
  "header_of sid now cwd parent meta =
     [(''type'', JStr ''session''), (''version'', JInt 3), (''id'', JStr sid), (''timestamp'', JStr now), (''cwd'', JStr cwd)]
     @ (case parent of None \<Rightarrow> [] | Some p \<Rightarrow> if p = [] then [] else [(''parentSession'', JStr p)])
     @ (if meta = [] then [] else [(''metadata'', JObj meta)])"

definition leaf_of_json :: "json \<Rightarrow> string option" where
  "leaf_of_json v = (case v of JStr s \<Rightarrow> Some s | _ \<Rightarrow> None)"

definition create_session :: "string \<Rightarrow> string \<Rightarrow> string \<Rightarrow> string option \<Rightarrow> (string, json) dict \<Rightarrow> (disk, session) comp" where
  "create_session sid now cwd parent meta =
     seqc (lift_res (path_of sid)) (\<lambda>path.
     seqc (reads (\<lambda>d. d path)) (\<lambda>old.
     if old \<noteq> None then throw (RunError ''storage'' (''Session already exists: '' @ sid))
     else seqc (modifies (\<lambda>d. d(path \<mapsto> entry_line (header_of sid now cwd parent meta)))) (\<lambda>_.
       lift_res (new_session [] None))))"

definition open_session :: "string \<Rightarrow> (disk, metadata \<times> session) comp" where
  "open_session sid =
     seqc (lift_res (path_of sid)) (\<lambda>path.
     seqc (reads (\<lambda>d. d path)) (\<lambda>content. case content of
       None \<Rightarrow> throw (RunError ''not_found'' (''Session '' @ sid @ '' not found''))
     | Some text \<Rightarrow> seqc (lift_res (read_session path text False)) (\<lambda>(h, es, leaf).
         if jget h ''id'' \<noteq> JStr sid then throw (invalid_session (''Session header id differs from '' @ sid))
         else seqc (lift_res (new_session es (leaf_of_json leaf))) (\<lambda>s. ret (metadata_of h, s)))))"

definition delete_session :: "string \<Rightarrow> (disk, unit) comp" where
  "delete_session sid =
     seqc (lift_res (path_of sid)) (\<lambda>path.
     seqc (reads (\<lambda>d. d path)) (\<lambda>old.
     if old = None then throw (RunError ''not_found'' (''Session '' @ sid @ '' not found''))
     else modifies (\<lambda>d. d(path := None))))"

text \<open>An operation of an open session with its effect on the file: \<open>_append\<close> opens the file for
  appending and writes the line of each new entry; a deleted file comes back without a header.\<close>

definition on_file :: "string \<Rightarrow> (session, 'a) comp \<Rightarrow> (disk \<times> session, 'a) comp" where
  "on_file path m = (\<lambda>(d, s). case m s of (r, t) \<Rightarrow>
     let lines = concat (map entry_line (drop (length (sn_entries s)) (sn_entries t))) in
     (r, (if lines = [] then d else d(path \<mapsto> (case d path of None \<Rightarrow> [] | Some f \<Rightarrow> f) @ lines), t)))"

text \<open>The target of a fork and its branch. A missing target is the current leaf to \<open>get_branch\<close>.\<close>

definition fork_target :: "string option \<Rightarrow> string \<Rightarrow> session \<Rightarrow> string option" where
  "fork_target entry_id position s =
     (let target = (case entry_id of Some (c # cs) \<Rightarrow> Some (c # cs) | _ \<Rightarrow> sn_leaf s) in
      case target of
        None \<Rightarrow> None
      | Some t \<Rightarrow>
          if position = ''before'' then
            (case sn_by_id s t of
               None \<Rightarrow> None
             | Some e \<Rightarrow> if truthy (parent_of e) then Some (py_str (parent_of e)) else None)
          else Some t)"

fun fork_messages :: "string \<Rightarrow> (outside \<times> int) list \<Rightarrow> entry list \<Rightarrow> (disk \<times> session, unit) comp" where
  "fork_messages path ots [] = ret ()"
| "fork_messages path ots (e # es) =
     (if is_type ''message'' e then
        seqc (lift_res (entry_message e)) (\<lambda>m. case ots of
          [] \<Rightarrow> throw OutOfFuel
        | (ot, now) # ots' \<Rightarrow> seqc (on_file path (append_message_entry ot now m)) (\<lambda>_. fork_messages path ots' es))
      else fork_messages path ots es)"

definition fork_session :: "string \<Rightarrow> string option \<Rightarrow> string \<Rightarrow> string \<Rightarrow> string \<Rightarrow> string \<Rightarrow> (outside \<times> int) list \<Rightarrow> (disk, session) comp" where
  "fork_session sid entry_id position new_sid now source_path ots =
     seqc (open_session sid) (\<lambda>(md, src).
     case get_branch (fork_target entry_id position src) src of
       None \<Rightarrow> throw OutOfFuel
     | Some r \<Rightarrow> seqc (lift_res r) (\<lambda>branch.
       seqc (create_session new_sid now (md_cwd md) (Some source_path) []) (\<lambda>s0.
       seqc (lift_res (path_of new_sid)) (\<lambda>path.
       (\<lambda>d. case fork_messages path ots branch (d, s0) of
          (Inl x, (d', _)) \<Rightarrow> (Inl x, d')
        | (Inr _, (d', t)) \<Rightarrow> (Inr t, d'))))))"

definition list_sessions :: "string list \<Rightarrow> string option \<Rightarrow> disk \<Rightarrow> metadata list" where
  "list_sessions paths cwd d =
     (let found = concat (map (\<lambda>p. case d p of None \<Rightarrow> [] | Some f \<Rightarrow>
            (case read_session p f True of Inl _ \<Rightarrow> [] | Inr (h, _) \<Rightarrow> [metadata_of h])) paths);
          mine = filter (\<lambda>m. cwd = None \<or> cwd = Some (md_cwd m)) found
      in rev (sort_key md_created_at (rev mine)))"

end
