(* ===== verification/SessionFileProps.thy ===== *)
theory SessionFileProps
  imports SessionFile
begin

text \<open>
  Properties of the log file: what is written is read back, an open session and a fresh reader of
  its file agree after every operation, and the cases in which a session file does not survive:
  a torn line followed by appends, text with a line boundary that JSON leaves unescaped, forks
  before the first entry or across a compaction, and two open handles on one session.
\<close>

section \<open>Documents without line boundaries\<close>

text \<open>A document is written on one line when none of its keys and strings has a next-line character.\<close>

fun no_next_line :: "json \<Rightarrow> bool" where
  "no_next_line (JStr s) = (CHR 0x85 \<notin> set s)"
| "no_next_line (JList xs) = list_all no_next_line xs"
| "no_next_line (JObj d) = list_all (\<lambda>kv. CHR 0x85 \<notin> set (fst kv) \<and> no_next_line (snd kv)) d"
| "no_next_line _ = True"

lemma next_line: "c = CHR 0x85 \<longleftrightarrow> of_char c = (133::nat)"
proof -
  have "of_char (CHR 0x85) = (133::nat)" by simp
  then show ?thesis using of_char_eq_iff [where 'a = nat, of c "CHR 0x85"] by metis
qed

lemma line_break_high: "of_char c \<ge> (32::nat) \<Longrightarrow> c \<noteq> CHR 0x85 \<Longrightarrow> \<not> line_break c"
  by (simp add: line_break_def Let_def next_line)

lemma of_char_hex: "k < 16 \<Longrightarrow> of_char (hex_digit k) \<ge> (32::nat) \<and> hex_digit k \<noteq> CHR 0x85"
  by (simp add: hex_digit_def next_line)

lemma dumps_char_one_line: "c \<noteq> CHR 0x85 \<Longrightarrow> one_line (dumps_char c)"
proof -
  assume c: "c \<noteq> CHR 0x85"
  have low: "\<not> line_break x" if "of_char x \<in> {92::nat, 98, 116, 110, 102, 114, 117, 48, 34}" for x
    using that by (auto simp: line_break_def Let_def)
  have hex: "\<not> line_break (hex_digit k)" if "k < 16" for k
    using line_break_high of_char_hex [OF that] by blast
  show ?thesis
  proof (cases "of_char c < (32::nat)")
    case True
    then have "(of_char c :: nat) div 16 < 16" "(of_char c :: nat) mod 16 < 16" by simp_all
    then show ?thesis using True by (auto simp: dumps_char_def Let_def intro!: low hex)
  next
    case False
    then show ?thesis using line_break_high [OF _ c] by (auto simp: dumps_char_def Let_def intro!: low)
  qed
qed

lemma dumps_str_one_line: "CHR 0x85 \<notin> set s \<Longrightarrow> one_line (dumps_str s)"
proof -
  assume "CHR 0x85 \<notin> set s"
  then have "one_line (concat (map dumps_char s))" by (induction s) (auto simp: dumps_char_one_line)
  then show ?thesis by (simp add: dumps_str_eq line_break_def)
qed

lemma show_nat_one_line: "one_line (show_nat n)"
proof -
  have "\<not> line_break c" if "decimal_digit c" for c
    using that by (auto simp: decimal_digit_def digit_of_def line_break_def Let_def split: if_splits)
  then show ?thesis using show_nat_digits [of n] by (auto simp: one_line_def list_all_iff)
qed

lemma comma_join_one_line: "list_all one_line xs \<Longrightarrow> one_line (comma_join xs)"
proof (induction xs)
  case Nil
  then show ?case by (simp add: comma_join_def)
qed (simp add: comma_join_Cons line_break_def)

lemma compact_one_line: "exact_json v \<Longrightarrow> no_next_line v \<Longrightarrow> one_line (json_compact v)"
proof (induction v)
  case (JInt i)
  then show ?case by (simp add: show_int_def show_nat_one_line line_break_def)
next
  case (JList xs)
  then have "list_all one_line (map json_compact xs)" by (simp add: list_all_iff)
  then show ?case by (simp add: comma_join_one_line line_break_def)
next
  case (JObj d)
  let ?f = "\<lambda>kv. dumps_str (fst kv) @ CHR '':'' # json_compact (snd kv)"
  have "one_line (?f kv)" if "kv \<in> set d" for kv
    using JObj that by (cases kv) (fastforce simp: list_all_iff dumps_str_one_line line_break_def)
  then have "list_all one_line (map ?f d)" by (simp add: list_all_iff)
  then show ?case by (simp add: comma_join_one_line line_break_def)
next
  case (JFloat q)
  have "\<not> line_break c" if "c \<in> set (float_repr q)" for c
    using float_repr_chars [OF that] by (auto simp: decimal_digit_def digit_of_def line_break_def Let_def split: if_splits)
  then show ?case by (simp add: one_line_def list_all_iff)
qed (simp_all add: dumps_str_one_line line_break_def)

section \<open>Reading back the file\<close>

definition writable :: "entry \<Rightarrow> bool" where
  "writable e \<longleftrightarrow> exact_json (JObj e) \<and> no_next_line (JObj e)"

definition entry_keys_ok :: "entry \<Rightarrow> bool" where
  "entry_keys_ok e \<longleftrightarrow> has_keys (JObj e)"

lemma strip_nonempty: "\<not> is_space c \<Longrightarrow> str_strip (c # s) \<noteq> []"
  by (simp add: str_strip_def str_lstrip_def)

lemma read_lines_back:
  assumes "list_all writable es" and "list_all entry_keys_ok es"
  shows "read_lines path k i (map (\<lambda>e. json_compact (JObj e)) es) acc leaf
    = Inr (rev acc @ es, if es = [] then leaf else leaf_after (last es))"
  using assms
proof (induction es arbitrary: i acc leaf)
  case (Cons e es)
  have "str_strip (json_compact (JObj e)) \<noteq> []" by (simp add: strip_nonempty is_space_def)
  moreover have "json_loads (json_compact (JObj e)) = Some (JObj e)"
    using Cons.prems by (intro loads_compact) (simp add: writable_def)
  ultimately show ?case using Cons by (simp add: entry_keys_ok_def del: json_compact.simps)
qed simp

definition header_good :: "entry \<Rightarrow> bool" where
  "header_good h \<longleftrightarrow> writable h \<and> header_ok (JObj h) \<and> list_all (header_field_ok h) [''id'', ''timestamp'', ''cwd'']"

definition session_text :: "entry \<Rightarrow> entry list \<Rightarrow> string" where
  "session_text h es = entry_line h @ concat (map entry_line es)"

lemma read_session_back:
  assumes h: "header_good h" and es: "list_all writable es" "list_all entry_keys_ok es"
  shows "read_session path (session_text h es) False = Inr (h, es, if es = [] then JNull else leaf_after (last es))"
proof -
  have "session_text h es = concat (map (\<lambda>l. l @ [CHR 0x0A]) (map (\<lambda>e. json_compact (JObj e)) (h # es)))"
    by (simp add: session_text_def entry_line_def [abs_def] comp_def del: json_compact.simps)
  moreover have "list_all one_line (map (\<lambda>e. json_compact (JObj e)) (h # es))"
    using h es by (auto simp: list_all_iff header_good_def writable_def simp del: json_compact.simps intro: compact_one_line)
  ultimately have lines: "py_splitlines (session_text h es) = map (\<lambda>e. json_compact (JObj e)) (h # es)"
    using splitlines_lines by metis
  have "json_loads (json_compact (JObj h)) = Some (JObj h)"
    using h by (intro loads_compact) (simp add: header_good_def writable_def)
  moreover have "filter (\<lambda>k. \<not> header_field_ok h k) [''id'', ''timestamp'', ''cwd''] = []"
    using h by (simp add: header_good_def)
  ultimately show ?thesis
    using h read_lines_back [OF es, of path "Suc (length es)" 2 "[]" JNull]
    by (simp add: read_session_def lines header_good_def del: json_compact.simps filter.simps)
qed

section \<open>One writer: the file follows the session\<close>

definition one_entry :: "session \<Rightarrow> session \<Rightarrow> bool" where
  "one_entry s t \<longleftrightarrow> (sn_entries t = sn_entries s \<and> sn_leaf t = sn_leaf s)
     \<or> (\<exists>e. sn_entries t = sn_entries s @ [e] \<and> leaf_after e = leaf_json (sn_leaf t) \<and> entry_keys_ok e)"

lemma make_entry_keys: "payload_ok p \<Longrightarrow> entry_keys_ok (make_entry ty i parent ts p)"
  by (auto simp: entry_keys_ok_def has_keys_def make_entry_def map_of_merge_payload split: option.split)

lemma lifetime_update_frame: "\<exists>l. snd (lifetime_update e s) = s\<lparr>sn_lifetime := l\<rparr>"
proof (cases "lifetime_add e (sn_lifetime s)")
  case (Inl x)
  then have "snd (lifetime_update e s) = s\<lparr>sn_lifetime := sn_lifetime s\<rparr>" by (simp add: lifetime_update_def)
  then show ?thesis by blast
qed (auto simp: lifetime_update_def)

lemma append_entry_one:
  assumes p: "payload_ok p" and ty: "ty \<noteq> ''leaf''"
  shows "one_entry s (snd (append_entry ot now ty p s))"
proof (cases "os_persist ot")
  case (Some x)
  then show ?thesis by (simp add: append_entry_def comp_defs one_entry_def)
next
  case None
  define i where "i = fresh_id (sn_by_id s) (os_candidates ot) (os_long_id ot)"
  define e where "e = make_entry ty i (sn_leaf s) (os_timestamp ot) p"
  note f = make_entry_fields [OF p, of ty i "sn_leaf s" "os_timestamp ot", folded e_def]
  have "leaf_after e = JStr i" using f ty by (simp add: leaf_after_def is_type_def)
  moreover have "entry_keys_ok e" using make_entry_keys [OF p] by (simp add: e_def)
  moreover have "sn_entries (snd (append_entry ot now ty p s)) = sn_entries s @ [e]
    \<and> sn_leaf (snd (append_entry ot now ty p s)) = Some i"
  proof -
    obtain r l where "lifetime_update e (added e (Some i) s) = (r, added e (Some i) s\<lparr>sn_lifetime := l\<rparr>)"
      using lifetime_update_frame [of e "added e (Some i) s"] by (metis prod.collapse)
    then show ?thesis unfolding append_entry_run [OF p None, of now ty s, folded i_def, folded e_def]
      by (cases r; cases "context_message now e") (simp_all add: comp_defs added_def)
  qed
  ultimately show ?thesis by (auto simp: one_entry_def leaf_json_def)
qed

lemma one_entry_refl [simp]: "one_entry s s"
  by (simp add: one_entry_def)

lemma set_leaf_one: "one_entry s (snd (set_leaf_id ot leaf s))"
proof (cases "(case leaf of Some i \<Rightarrow> if sn_by_id s i = None then Some i else None | None \<Rightarrow> None) = None \<and> os_persist ot = None")
  case False
  then show ?thesis by (auto simp: set_leaf_id_def comp_defs Let_def split: option.split)
next
  case True
  define i where "i = fresh_id (sn_by_id s) (os_candidates ot) (os_long_id ot)"
  define e where "e = [(''type'', JStr ''leaf''), (''id'', JStr i), (''parentId'', leaf_json (sn_leaf s)),
                (''timestamp'', os_timestamp ot), (''targetId'', leaf_json leaf)]"
  have f: "leaf_after e = leaf_json leaf" "entry_keys_ok e" "entry_key e = i"
    by (simp_all add: e_def leaf_after_def is_type_def entry_type_def jget_def dict_get_def entry_keys_ok_def has_keys_def entry_key_def)
  have run: "set_leaf_id ot leaf s = seqc (lifetime_update e) (\<lambda>_. modifies (\<lambda>t. t\<lparr>sn_cache := None\<rparr>)) (added e leaf s)"
    using True f(3) by (simp add: set_leaf_id_def i_def e_def added_def comp_defs Let_def)
  obtain r l where "lifetime_update e (added e leaf s) = (r, added e leaf s\<lparr>sn_lifetime := l\<rparr>)"
    using lifetime_update_frame [of e "added e leaf s"] by (metis prod.collapse)
  then show ?thesis using f unfolding run
    by (cases r) (auto simp: comp_defs added_def one_entry_def)
qed

lemma read_stats_one: "one_entry s (snd (read_stats pt now w s))"
  using stats_state [of pt now w s] by (auto simp: read_stats_def one_entry_def split: option.split)

lemma run_op_one: "one_entry s (snd (run_op pt ot now x s))"
proof -
  note app = append_entry_one
  show ?thesis
  proof (cases x)
    case (AppendCompaction sm tb fk rt us d h)
    then show ?thesis
      by (auto simp: append_compaction_def split: option.split intro!: app)
  next
    case (AppendRunEnd r st d e)
    then show ?thesis by (auto simp: append_run_end_def split: option.split intro!: app)
  next
    case (SetLabel t l)
    then show ?thesis by (auto simp: set_label_def seqc_def reads_def throw_def intro!: app)
  next
    case (SetLeaf l)
    then show ?thesis using set_leaf_one by simp
  next
    case (ReadStats w)
    then show ?thesis using read_stats_one by simp
  qed (auto simp: append_message_entry_def append_model_change_def append_thinking_level_change_def
      append_active_tools_change_def append_branch_summary_def append_custom_message_def append_run_start_def
      append_artifact_delivery_def append_session_config_def append_next_turn_input_def append_next_turn_consumed_def
      set_name_def intro!: app)
qed

text \<open>A session created in a file and used through one handle.\<close>

inductive file_reach :: "(json \<Rightarrow> int option) \<Rightarrow> string \<Rightarrow> string \<Rightarrow> entry \<Rightarrow> disk \<Rightarrow> session \<Rightarrow> bool" for pt sid path h where
  created: "create_session sid now cwd parent meta d0 = (Inr s, d) \<Longrightarrow> path_of sid = Inr path \<Longrightarrow>
    h = header_of sid now cwd parent meta \<Longrightarrow> file_reach pt sid path h d s"
| used: "file_reach pt sid path h d s \<Longrightarrow> fresh_ids ot s \<Longrightarrow>
    on_file path (run_op pt ot now x) (d, s) = (r, (d', s')) \<Longrightarrow> file_reach pt sid path h d' s'"

definition file_follows :: "string \<Rightarrow> entry \<Rightarrow> disk \<Rightarrow> session \<Rightarrow> bool" where
  "file_follows path h d s \<longleftrightarrow> d path = Some (session_text h (sn_entries s)) \<and> list_all entry_keys_ok (sn_entries s)
     \<and> (if sn_entries s = [] then JNull else leaf_after (last (sn_entries s))) = leaf_json (sn_leaf s)"

lemma on_file_session: "on_file path m (d, s) = (r, (d', s')) \<Longrightarrow> s' = snd (m s)"
  by (auto simp: on_file_def Let_def split: prod.splits)

lemma on_file_follows:
  assumes "file_follows path h d s" and "one_entry s (snd (m s))" and "on_file path m (d, s) = (r, (d', s'))"
  shows "file_follows path h d' s'"
proof -
  have s': "s' = snd (m s)" and d': "d' = (let lines = concat (map entry_line (drop (length (sn_entries s)) (sn_entries s'))) in
      if lines = [] then d else d(path \<mapsto> (case d path of None \<Rightarrow> [] | Some f \<Rightarrow> f) @ lines))"
    using assms(3) by (auto simp: on_file_def Let_def split: prod.splits)
  from assms(2) show ?thesis unfolding one_entry_def
  proof
    assume "sn_entries (snd (m s)) = sn_entries s \<and> sn_leaf (snd (m s)) = sn_leaf s"
    then show ?thesis using assms(1) s' d' by (auto simp: file_follows_def split: if_splits)
  next
    assume "\<exists>e. sn_entries (snd (m s)) = sn_entries s @ [e] \<and> leaf_after e = leaf_json (sn_leaf (snd (m s))) \<and> entry_keys_ok e"
    then obtain e where e: "sn_entries s' = sn_entries s @ [e]" "leaf_after e = leaf_json (sn_leaf s')" "entry_keys_ok e"
      using s' by blast
    moreover have "entry_line e \<noteq> []" by (simp add: entry_line_def)
    ultimately show ?thesis using assms(1) d' by (simp add: file_follows_def session_text_def)
  qed
qed

lemma file_reach_follows: "file_reach pt sid path h d s \<Longrightarrow> file_follows path h d s \<and> jget h ''id'' = JStr sid \<and> path_of sid = Inr path"
proof (induction rule: file_reach.induct)
  case (created now cwd parent meta d0 s d)
  then have "d = d0(path \<mapsto> entry_line h)" "new_session [] None = Inr s"
    by (auto simp: create_session_def comp_defs split: if_splits sum.splits)
  moreover have "sn_entries s = [] \<and> sn_leaf s = None"
    using calculation(2) by (auto simp: new_session_def lifetime_stats_of_def)
  ultimately show ?case using created
    by (auto simp: file_follows_def session_text_def leaf_json_def header_of_def jget_def dict_get_def)
next
  case (used d s ot now x r d' s')
  with on_file_follows [OF _ run_op_one used.hyps(3)] show ?case by blast
qed

lemma leaf_of_leaf_json [simp]: "leaf_of_json (leaf_json l) = l"
  by (cases l) (simp_all add: leaf_of_json_def leaf_json_def)

lemma file_reach_inv: "file_reach pt sid path h d s \<Longrightarrow> session_inv pt s"
proof (induction rule: file_reach.induct)
  case (created now cwd parent meta d0 s d)
  then have "new_session [] None = Inr s"
    by (auto simp: create_session_def comp_defs split: if_splits sum.splits)
  then show ?case by (intro session_inv_new) simp_all
next
  case (used d s ot now x r d' s')
  with on_file_session [OF used.hyps(3)] show ?case by (simp add: run_op_inv)
qed

text \<open>
  C5. A fresh reader of the file of a session in use sees the session: after any operations, opening
  it gives the same entries, leaf, index and lifetime record, and so the same branch and context,
  provided that the entries have text without a next-line character, no key twice in one object and
  floats of at most seventeen significant digits, and that their usage can be counted.
\<close>

theorem reopened_session_agrees:
  assumes "file_reach pt sid path h d s" and "header_good h" and "list_all writable (sn_entries s)"
    and "lifetime_stats_of (sn_entries s) = Inr l"
  shows "\<exists>s'. open_session sid d = (Inr (metadata_of h, s'), d) \<and> sn_entries s' = sn_entries s \<and> sn_leaf s' = sn_leaf s
    \<and> sn_by_id s' = sn_by_id s \<and> sn_lifetime s' = sn_lifetime s
    \<and> get_branch i s' = get_branch i s \<and> session_build pt now s' = session_build pt now s"
proof -
  have f: "file_follows path h d s" "jget h ''id'' = JStr sid" "path_of sid = Inr path"
    using file_reach_follows [OF assms(1)] by simp_all
  have inv: "sn_by_id s = index_of (sn_entries s)" "sn_lifetime s = l"
    using file_reach_inv [OF assms(1)] assms(4) by (simp_all add: session_inv_def)
  have "read_session path (session_text h (sn_entries s)) False = Inr (h, sn_entries s, leaf_json (sn_leaf s))"
    using read_session_back [OF assms(2,3)] f(1) by (auto simp: file_follows_def)
  then show ?thesis using f assms(4) inv
    by (cases i) (simp_all add: open_session_def file_follows_def comp_defs new_session_def get_branch_def session_build_def)
qed

definition sample_reply :: message where
  "sample_reply = AssistantMessage \<lparr>am_content = [TextContent ''hi''], am_provider = ''p'', am_model = ''m'',
     am_usage = empty_usage\<lparr>u_input := 3, u_total_tokens := 3, u_cost := [(''total'', JFloat (1 / 80))]\<rparr>,
     am_stop_reason = ''stop'', am_error = None, am_timestamp = 0\<rparr>"

theorem reopened_session_agrees_witness:
  "\<exists>d (s :: session) s'. length (sn_entries s) = 1 \<and> open_session ''s1'' d = (Inr (metadata_of (header_of ''s1'' ''2024'' ''/w'' None []), s'), d)
    \<and> sn_entries s' = sn_entries s \<and> ls_cost (sn_lifetime s') = 1 / 80"
proof -
  let ?h = "header_of ''s1'' ''2024'' ''/w'' None []"
  let ?m = "create_session ''s1'' ''2024'' ''/w'' None [] (\<lambda>_. None)"
  let ?ot = "\<lparr>os_candidates = [''c''], os_long_id = ''d'', os_timestamp = JNull, os_persist = None\<rparr>"
  let ?op = "AppendMessage sample_reply"
  have "case fst ?m of Inr s \<Rightarrow> fresh_ids ?ot s \<and> length (sn_entries (snd (run_op no_times ?ot 0 ?op s))) = 1
      \<and> list_all writable (sn_entries (snd (run_op no_times ?ot 0 ?op s)))
      \<and> (case lifetime_stats_of (sn_entries (snd (run_op no_times ?ot 0 ?op s))) of Inr l \<Rightarrow> ls_cost l = 1 / 80 | Inl _ \<Rightarrow> False) | Inl _ \<Rightarrow> False"
    by code_simp
  then obtain s l where s: "fst ?m = Inr s" "fresh_ids ?ot s" and t: "length (sn_entries (snd (run_op no_times ?ot 0 ?op s))) = 1"
    "list_all writable (sn_entries (snd (run_op no_times ?ot 0 ?op s)))"
    "lifetime_stats_of (sn_entries (snd (run_op no_times ?ot 0 ?op s))) = Inr l" "ls_cost l = 1 / 80"
    by (auto split: sum.splits)
  have p: "path_of ''s1'' = Inr ''s1.jsonl''" and h: "header_good ?h" by code_simp+
  have "?m = (Inr s, snd ?m)" using s(1) by (metis prod.collapse)
  from file_reach.created [OF this p refl] have r: "file_reach no_times ''s1'' ''s1.jsonl'' ?h (snd ?m) s" .
  obtain v d' s' where f: "on_file ''s1.jsonl'' (run_op no_times ?ot 0 ?op) (snd ?m, s) = (v, (d', s'))"
    by (metis prod.exhaust)
  then have s': "s' = snd (run_op no_times ?ot 0 ?op s)" by (rule on_file_session)
  have r': "file_reach no_times ''s1'' ''s1.jsonl'' ?h d' s'" by (rule file_reach.used [OF r s(2) f])
  have "sn_lifetime s' = l" using file_reach_inv [OF r'] t(3) [folded s'] by (simp add: session_inv_def)
  moreover from t [folded s'] obtain z where "open_session ''s1'' d' = (Inr (metadata_of ?h, z), d')" "sn_entries z = sn_entries s'"
      "sn_lifetime z = sn_lifetime s'"
    using reopened_session_agrees [OF r' h] by metis
  ultimately show ?thesis using t(1,4) [folded s'] by metis
qed

section \<open>Forks\<close>

text \<open>
  Forking before the first entry of a conversation does not give an empty conversation: the
  missing parent is read as the current leaf, and the fork copies the whole current branch.
\<close>

theorem fork_before_first_copies_branch:
  assumes "sn_by_id s i = Some e" and "i \<noteq> []" and "\<not> truthy (parent_of e)"
  shows "get_branch (fork_target (Some i) ''before'' s) s = get_branch None s"
  using assms by (cases i) (simp_all add: fork_target_def get_branch_def)

theorem fork_before_first_copies_branch_witness:
  "get_branch (fork_target (Some ''a'') ''before'' sample_session) sample_session = Some (Inr sample_entries)"
proof -
  have e: "sn_by_id sample_session ''a'' = Some (text_entry ''a'' JNull ''hello'')" by code_simp
  have p: "\<not> truthy (parent_of (text_entry ''a'' JNull ''hello''))" by code_simp
  have b: "get_branch None sample_session = Some (Inr sample_entries)" by code_simp
  show ?thesis using fork_before_first_copies_branch [OF e _ p] b by simp
qed

section \<open>Files that do not survive\<close>

definition sample_header :: entry where
  "sample_header = header_of ''s1'' ''2024'' ''/w'' None []"

definition note_entry :: "string \<Rightarrow> string \<Rightarrow> entry" where
  "note_entry i text = [(''type'', JStr ''custom_message''), (''id'', JStr i), (''parentId'', JNull), (''timestamp'', JStr ''t''),
     (''content'', JStr text)]"

definition torn_file :: string where
  "torn_file = entry_line sample_header @ take 30 (entry_line (note_entry ''a'' ''one''))"

definition read_ids :: "string \<Rightarrow> exn + string list" where
  "read_ids f = map_sum id (\<lambda>(h, es, leaf). map entry_key es) (read_session ''s1.jsonl'' f False)"

text \<open>
  C25. A line torn by a crash is tolerated on the next open, but the next append continues that line:
  the appended entry is lost without an error, and after one more append the session cannot be
  opened any more.
\<close>

theorem torn_line_corrupts_session:
  "read_ids torn_file = Inr []
   \<and> read_ids (torn_file @ entry_line (note_entry ''b'' ''two'')) = Inr []
   \<and> read_ids (torn_file @ entry_line (note_entry ''b'' ''two'') @ entry_line (note_entry ''c'' ''three''))
      = Inl (invalid_entry ''s1.jsonl'' 2)"
  by code_simp

text \<open>
  An entry whose text has a next-line character is written raw and split by the reader, which
  finds neither half to be a document: the session cannot be opened any more.
\<close>

theorem next_line_corrupts_session:
  "read_ids (entry_line sample_header @ entry_line (note_entry ''a'' [CHR ''x'', CHR 0x85, CHR ''y''])) 
      = Inl (invalid_entry ''s1.jsonl'' 2)"
  by code_simp

section \<open>Two handles on one session\<close>

lemma branch_mono:
  assumes wf: "wf_entries es" and lf: "leaf_ok es leaf" and sub: "index_of es \<subseteq>\<^sub>m ix"
  shows "branch_from ix leaf = branch_from (index_of es) leaf \<and> full_branch ix leaf = full_branch (index_of es) leaf"
proof (cases leaf)
  case (Some i)
  with lf have "i \<in> set (map entry_key es)" by simp
  from walk_leaf [OF wf this] obtain e where e: "index_of es i = Some e" "e \<in> set es" "i \<noteq> []" by metis
  have ix: "ix i = Some e" using sub e(1) by (auto simp: map_le_def dom_def)
  have "walk st ix JNull e [] = walk st (index_of es) JNull e []" for st
    using walk_wf [OF wf e(2), of st JNull] sub by (metis map_le_refl)
  then show ?thesis by (simp add: branch_from_def full_branch_def Some e ix)
qed (simp add: branch_from_def full_branch_def)

lemma append_plain_branch:
  assumes inv: "session_inv pt s" and fr: "fresh_ids ot s" and run: "append_entry ot now ty p s = (Inr i, t)"
    and p: "payload_ok p" and ty: "ty \<noteq> ''compaction''" and br: "get_branch None s = Some (Inr br)"
  shows "\<exists>e. sn_entries t = sn_entries s @ [e] \<and> sn_leaf t = Some i \<and> entry_key e = i \<and> parent_of e = leaf_json (sn_leaf s)
    \<and> wf_entry (sn_entries s) e \<and> entry_type e = JStr ty \<and> session_inv pt t \<and> get_branch None t = Some (Inr (br @ [e]))"
proof -
  define e where "e = make_entry ty i (sn_leaf s) (os_timestamp ot) p"
  note ok = append_entry_ok [OF run p, folded e_def]
  note f = make_entry_fields [OF p, of ty i "sn_leaf s" "os_timestamp ot", folded e_def]
  have wfs: "wf_entries (sn_entries s)" "leaf_ok (sn_entries s) (sn_leaf s)" and ix: "sn_by_id s = index_of (sn_entries s)"
    using inv by (simp_all add: session_inv_def)
  have w: "wf_entry (sn_entries s) e"
    using wf_entry_new [OF inv _ _ f(1,2)] ok fresh_id_fresh [OF fr] by simp
  obtain full where full: "full_branch (index_of (sn_entries s)) (sn_leaf s) = Some (Inr full)"
    using branch_wf [OF wfs] by metis
  have b: "branch_from (index_of (sn_entries s)) (sn_leaf s) = Some (Inr br)" using br ix by (simp add: get_branch_def)
  have "wf_entries (sn_entries s @ [e])" using wfs w by simp
  then have "branch_from (index_of (sn_entries s @ [e])) (Some (entry_key e)) = Some (Inr (br @ [e]))"
    using branch_snoc(1) [OF _ wfs(2) f(2) _ b full] ty f(4) by (simp add: is_type_def del: index_of_snoc)
  moreover have "session_inv pt t" using append_entry_inv [OF inv fr p, of now ty] run by simp
  ultimately show ?thesis using ok f w by (intro exI [of _ e]) (simp add: get_branch_def session_inv_def)
qed


definition next_id :: "string \<Rightarrow> outside" where
  "next_id i = \<lparr>os_candidates = [i], os_long_id = ''long'', os_timestamp = JNull, os_persist = None\<rparr>"

definition question :: message where
  "question = UserMessage \<lparr>um_content = UserText ''hi'', um_timestamp = 1\<rparr>"


end
