(* ===== verification/CompactionPrep.thy ===== *)
theory CompactionPrep
  imports SessionFileProps
begin

text \<open>
  \<^verbatim>\<open>runtime/compaction.py\<close>: choosing what a compaction summarises and what it keeps. The kept
  messages are the shortest tail of the branch that reaches the token budget, moved to a message
  the context may start with; a cut inside a turn summarises the turn's beginning separately.
\<close>

section \<open>The choice of the cut\<close>

record compaction_settings =
  ks_enabled :: bool
  ks_reserve_tokens :: int
  ks_keep_recent_tokens :: int

record preparation =
  pr_first_kept :: string
  pr_to_summarize :: "message list"
  pr_turn_prefix :: "message list"
  pr_is_split :: bool
  pr_retained :: "message list"
  pr_tokens_before :: int
  pr_previous_summary :: "string option"
  pr_read_files :: "string list"
  pr_modified_files :: "string list"

text \<open>The scan from the end: the first index at which the estimates reach the budget, and the sum so far.\<close>

fun reach_budget :: "message option list \<Rightarrow> int \<Rightarrow> nat \<Rightarrow> int \<Rightarrow> nat option \<times> int" where
  "reach_budget ms budget 0 acc = (None, acc)"
| "reach_budget ms budget (Suc i) acc = (case ms ! i of
      None \<Rightarrow> reach_budget ms budget i acc
    | Some m \<Rightarrow> (let acc' = acc + int (estimate_tokens m) in
        if acc' \<ge> budget then (Some i, acc') else reach_budget ms budget i acc'))"

definition cut_point :: "message option \<Rightarrow> bool" where
  "cut_point m \<longleftrightarrow> (case m of Some x \<Rightarrow> is_user x \<or> is_assistant x | None \<Rightarrow> False)"

definition valid_cuts :: "message option list \<Rightarrow> nat list" where
  "valid_cuts ms = filter (\<lambda>i. cut_point (ms ! i)) [0..<length ms]"

definition cut_at :: "nat list \<Rightarrow> nat \<Rightarrow> nat \<Rightarrow> nat" where
  "cut_at valid i pos = (case filter (\<lambda>p. p \<ge> i) valid of [] \<Rightarrow> pos | p # _ \<Rightarrow> p)"

definition choose_cut :: "message option list \<Rightarrow> int \<Rightarrow> bool \<Rightarrow> nat" where
  "choose_cut ms keep force =
     (let valid = valid_cuts ms; first = hd valid;
          (reached, total_seen) = reach_budget ms keep (length ms) 0 in
      case reached of
        Some i \<Rightarrow> cut_at valid i first
      | None \<Rightarrow>
          if force \<and> total_seen > 0 then
            (case reach_budget ms (max 1 (total_seen div 2)) (length ms) 0 of
               (Some i, _) \<Rightarrow> cut_at valid i first
             | (None, _) \<Rightarrow> first)
          else first)"

fun user_before :: "message option list \<Rightarrow> nat \<Rightarrow> nat option" where
  "user_before ms 0 = None"
| "user_before ms (Suc i) = (if (case ms ! i of Some m \<Rightarrow> is_user m | None \<Rightarrow> False) then Some i else user_before ms i)"

definition messages_in :: "message option list \<Rightarrow> message list" where
  "messages_in ms = concat (map (\<lambda>m. case m of None \<Rightarrow> [] | Some x \<Rightarrow> [x]) ms)"

text \<open>\<open>file_operations\<close>; the two sets in the order \<open>sorted\<close> gives.\<close>

definition string_paths :: "string list \<Rightarrow> message list \<Rightarrow> string list" where
  "string_paths names ms = concat (map (\<lambda>m. case m of
       AssistantMessage a \<Rightarrow> concat (map (\<lambda>c. case jget (tc_arguments c) ''path'' of
            JStr p \<Rightarrow> if tc_name c \<in> set names then [p] else [] | _ \<Rightarrow> []) (tool_calls a))
     | _ \<Rightarrow> []) ms)"

definition file_operations :: "message list \<Rightarrow> string list \<times> string list" where
  "file_operations ms =
     (sort (remdups (string_paths [''read'', ''grep'', ''find'', ''ls''] ms)),
      sort (remdups (string_paths [''edit'', ''write''] ms)))"

definition previous_summary :: "entry list \<Rightarrow> string option" where
  "previous_summary es = (case filter (is_type ''compaction'') (rev es) of
      [] \<Rightarrow> None | e # _ \<Rightarrow> Some (str_or (jget e ''summary'') []))"

definition split_at_cut :: "message option list \<Rightarrow> nat \<Rightarrow> nat option" where
  "split_at_cut ms pos = (if (case ms ! pos of Some m \<Rightarrow> is_assistant m | None \<Rightarrow> False) then user_before ms pos else None)"

definition preparation_at :: "entry list \<Rightarrow> message option list \<Rightarrow> nat \<Rightarrow> int \<Rightarrow> preparation" where
  "preparation_at es ms pos tokens =
     (let turn_start = split_at_cut ms pos;
          history_end = (case turn_start of Some i \<Rightarrow> i | None \<Rightarrow> pos);
          to_summarize = messages_in (take history_end ms);
          turn_prefix = (case turn_start of Some i \<Rightarrow> messages_in (drop i (take pos ms)) | None \<Rightarrow> []);
          retained = messages_in (drop pos ms);
          files = file_operations (to_summarize @ turn_prefix @ retained)
      in \<lparr>pr_first_kept = entry_key (es ! pos), pr_to_summarize = to_summarize,
           pr_turn_prefix = turn_prefix, pr_is_split = (turn_start \<noteq> None), pr_retained = retained,
           pr_tokens_before = tokens, pr_previous_summary = previous_summary es,
           pr_read_files = fst files, pr_modified_files = snd files\<rparr>)"

definition prepare_compaction :: "int \<Rightarrow> entry list \<Rightarrow> session_context \<Rightarrow> compaction_settings \<Rightarrow> bool \<Rightarrow> exn + preparation option" where
  "prepare_compaction now es ctx settings force =
     (if es = [] \<or> is_type ''compaction'' (last es) then Inr None
      else bind_res (map_res (context_message now) es) (\<lambda>ms.
        if valid_cuts ms = [] then Inr None
        else
          let p = preparation_at es ms (choose_cut ms (ks_keep_recent_tokens settings) force)
                (estimate_context_tokens (sc_messages ctx) (sc_boundary_ms ctx) (sc_boundary_index ctx))
          in if pr_to_summarize p = [] \<and> pr_turn_prefix p = [] then Inr None else Inr (Some p)))"

section \<open>What a preparation keeps\<close>

lemma cut_at_valid: "pos \<in> set valid \<Longrightarrow> cut_at valid i pos \<in> set valid"
proof (cases "filter (\<lambda>p. p \<ge> i) valid")
  case (Cons p ps)
  then have "p \<in> set (filter (\<lambda>p. p \<ge> i) valid)" by (metis list.set_intros(1))
  then have "p \<in> set valid" by simp
  then show ?thesis using Cons by (simp add: cut_at_def)
qed (simp add: cut_at_def)

lemma choose_cut_valid: "valid_cuts ms \<noteq> [] \<Longrightarrow> choose_cut ms keep force \<in> set (valid_cuts ms)"
  by (auto simp: choose_cut_def Let_def intro: cut_at_valid split: option.split prod.split)

lemma user_before_bound: "user_before ms n = Some i \<Longrightarrow> i < n \<and> (\<exists>m. ms ! i = Some m \<and> is_user m)"
  by (induction n) (auto split: if_splits option.splits)

lemma messages_in_append [simp]: "messages_in (xs @ ys) = messages_in xs @ messages_in ys"
  by (simp add: messages_in_def)

lemma messages_in_Cons: "messages_in (m # ms) = (case m of None \<Rightarrow> [] | Some x \<Rightarrow> [x]) @ messages_in ms"
  by (simp add: messages_in_def)

text \<open>
  C7. A compaction loses no message and keeps the context well-formed: the messages to summarise,
  the split turn's beginning and the kept tail are, in order, exactly the messages of the branch;
  the tail starts at the entry named as first kept, never with a tool result; something is
  summarised; and the beginning of a split turn starts with the user's message of that turn.
\<close>

theorem preparation_partitions_branch:
  assumes "prepare_compaction now es ctx settings force = Inr (Some p)"
  shows "\<exists>ms pos. map_res (context_message now) es = Inr ms \<and> pos < length es
    \<and> messages_in ms = pr_to_summarize p @ pr_turn_prefix p @ pr_retained p
    \<and> pr_first_kept p = entry_key (es ! pos) \<and> pr_retained p = messages_in (drop pos ms)
    \<and> pr_retained p \<noteq> [] \<and> \<not> is_tool_result (hd (pr_retained p))
    \<and> pr_to_summarize p @ pr_turn_prefix p \<noteq> []
    \<and> (pr_is_split p \<longleftrightarrow> pr_turn_prefix p \<noteq> []) \<and> (pr_turn_prefix p = [] \<or> is_user (hd (pr_turn_prefix p)))"
proof -
  obtain ms where ms: "map_res (context_message now) es = Inr ms" and valid: "valid_cuts ms \<noteq> []"
    using assms by (auto simp: prepare_compaction_def split: if_splits elim!: bind_res_InrE)
  define pos where "pos = choose_cut ms (ks_keep_recent_tokens settings) force"
  define ts where "ts = split_at_cut ms pos"
  have "pos \<in> set (valid_cuts ms)" using choose_cut_valid [OF valid] by (simp add: pos_def)
  then have c: "pos < length ms" "cut_point (ms ! pos)" by (simp_all add: valid_cuts_def)
  then obtain m where m: "ms ! pos = Some m" "is_user m \<or> is_assistant m"
    by (auto simp: cut_point_def split: option.splits)
  have pp: "p = preparation_at es ms pos (estimate_context_tokens (sc_messages ctx) (sc_boundary_ms ctx) (sc_boundary_index ctx))"
    and some: "pr_to_summarize p @ pr_turn_prefix p \<noteq> []"
    using assms ms valid by (auto simp: prepare_compaction_def Let_def pos_def split: if_splits)
  have p: "pr_to_summarize p = messages_in (take (case ts of Some i \<Rightarrow> i | None \<Rightarrow> pos) ms)"
    "pr_turn_prefix p = (case ts of Some i \<Rightarrow> messages_in (drop i (take pos ms)) | None \<Rightarrow> [])"
    "pr_retained p = messages_in (drop pos ms)" "pr_first_kept p = entry_key (es ! pos)" "pr_is_split p \<longleftrightarrow> ts \<noteq> None"
    "pr_to_summarize p @ pr_turn_prefix p \<noteq> []"
    using some by (simp_all only: pp) (simp_all add: preparation_at_def Let_def ts_def)
  have ret: "pr_retained p = m # messages_in (drop (Suc pos) ms)"
    using p(3) m(1) c(1) by (simp add: Cons_nth_drop_Suc [symmetric] messages_in_Cons)
  have tsb: "i < pos \<and> (\<exists>u. ms ! i = Some u \<and> is_user u)" if "ts = Some i" for i
    using that user_before_bound by (auto simp: ts_def split_at_cut_def split: if_splits)
  have prefix: "\<exists>u rest. pr_turn_prefix p = u # rest \<and> is_user u" if "ts = Some i" for i
  proof -
    from tsb [OF that] obtain u where u: "i < pos" "ms ! i = Some u" "is_user u" by blast
    then have "drop i (take pos ms) = ms ! i # drop (Suc i) (take pos ms)"
      using c(1) by (metis Cons_nth_drop_Suc length_take min.absorb4 nth_take)
    with u p(2) that show ?thesis by (simp add: messages_in_Cons)
  qed
  have "messages_in ms = pr_to_summarize p @ pr_turn_prefix p @ pr_retained p"
  proof (cases ts)
    case None
    then show ?thesis using p(1-3) by (metis append_Nil append_take_drop_id messages_in_append option.simps(4))
  next
    case (Some i)
    then have "i < pos" using tsb by blast
    then have "take i ms @ drop i (take pos ms) = take pos ms"
      by (metis append_take_drop_id less_imp_le min.absorb1 take_take)
    then have "messages_in (take i ms) @ messages_in (drop i (take pos ms)) @ messages_in (drop pos ms) = messages_in ms"
      by (metis append.assoc append_take_drop_id messages_in_append)
    with p(1-3) Some show ?thesis by simp
  qed
  moreover have "pos < length es" using c(1) map_res_length [OF ms] by simp
  moreover have "pr_retained p \<noteq> [] \<and> \<not> is_tool_result (hd (pr_retained p))" using ret m(2) by (cases m) auto
  ultimately show ?thesis using ms p prefix by (intro exI [of _ ms] exI [of _ pos]) (auto split: option.splits)
qed


definition reply_entry :: "string \<Rightarrow> string \<Rightarrow> string \<Rightarrow> entry" where
  "reply_entry i parent text = [(''type'', JStr ''message''), (''id'', JStr i), (''parentId'', JStr parent), (''timestamp'', JNull),
     (''message'', JObj [(''role'', JStr ''assistant''), (''content'', JList [JObj [(''type'', JStr ''text''), (''text'', JStr text)]]),
       (''timestamp'', JInt 6)])]"

theorem preparation_partitions_branch_witness:
  "\<exists>p. prepare_compaction 0 [text_entry ''a'' JNull ''hello'', reply_entry ''b'' ''a'' ''world'']
      \<lparr>sc_messages = [], sc_thinking = None, sc_model = None, sc_tools = None, sc_boundary_ms = None, sc_boundary_index = None\<rparr>
      \<lparr>ks_enabled = True, ks_reserve_tokens = 10, ks_keep_recent_tokens = 1\<rparr> False = Inr (Some p)
    \<and> pr_is_split p \<and> pr_turn_prefix p \<noteq> []"
proof -
  let ?r = "prepare_compaction 0 [text_entry ''a'' JNull ''hello'', reply_entry ''b'' ''a'' ''world'']
      \<lparr>sc_messages = [], sc_thinking = None, sc_model = None, sc_tools = None, sc_boundary_ms = None, sc_boundary_index = None\<rparr>
      \<lparr>ks_enabled = True, ks_reserve_tokens = 10, ks_keep_recent_tokens = 1\<rparr> False"
  have "case ?r of Inr (Some p) \<Rightarrow> pr_is_split p | _ \<Rightarrow> False" by code_simp
  then obtain p where p: "?r = Inr (Some p)" "pr_is_split p" by (auto split: sum.splits option.splits)
  with preparation_partitions_branch [OF p(1)] show ?thesis by blast
qed

section \<open>Compacting again before the previous compaction\<close>

text \<open>A walk that passes a compaction forgets the entry it was to stop at.\<close>

lemma walk_past_compaction:
  assumes "wf_entries es" and "e \<in> set es" and "walk True (index_of es) JNull e [] = Some (Inr p)"
    and "c < length p" and "is_type ''compaction'' (p ! c)" and "list_all (\<lambda>x. entry_key x \<noteq> k) (drop c p)"
    and "index_of es \<subseteq>\<^sub>m ix"
  shows "walk True ix (JStr k) e path = Some (Inr (p @ path))"
  using assms
proof (induction es arbitrary: e p ix path rule: rev_induct)
  case Nil
  then show ?case by simp
next
  case (snoc x es)
  have wf: "wf_entries es" "wf_entry es x" using snoc.prems by simp_all
  note sub = index_snoc_mono [OF wf(2)]
  have sub': "index_of es \<subseteq>\<^sub>m ix" using sub snoc.prems(7) by (rule map_le_trans)
  show ?case
  proof (cases "e \<in> set es")
    case True
    have "walk True (index_of es) JNull e [] = Some (Inr p)"
      using snoc.prems(3) walk_wf [OF wf(1) True, of True JNull] sub by (metis map_le_refl)
    then show ?thesis using snoc.IH [OF wf(1) True _ snoc.prems(4-6) sub'] by blast
  next
    case False
    then have ex: "e = x" using snoc.prems by simp
    obtain p0 where "last p0 = e" "walk True (index_of (es @ [x])) JNull e [] = Some (Inr (p0 @ []))"
      using walk_wf [OF snoc.prems(1,2), of True JNull] map_le_refl by blast
    with snoc.prems(3) ex have lastx: "last p = x" by (simp del: index_of_snoc)
    have "x \<in> set (drop c p)" using snoc.prems(4) lastx last_in_set [of "drop c p"] by simp
    then have keyx: "entry_key x \<noteq> k" using snoc.prems(6) by (auto simp: list_all_iff)
    have idx: "jget x ''id'' = JStr (entry_key x)" using wf_key [OF wf(2)] by simp
    define stop' where "stop' = (if is_type ''compaction'' x then jget x ''firstKeptEntryId'' else JStr k)"
    have full: "walk True ix JNull x path = Some (Inr (p @ path))"
      using walk_wf [OF snoc.prems(1,2), of True JNull] snoc.prems(3,7) ex by (metis append_Nil2 map_le_refl option.inject sum.inject(2))
    show ?thesis
    proof (cases "is_type ''compaction'' x \<or> \<not> truthy (parent_of x)")
      case True
      then have "walk True ix (JStr k) x path = walk True ix JNull x path"
        using keyx idx by (auto simp: walk_step [of True ix _ x])
      with full ex show ?thesis by simp
    next
      case nc: False
      then obtain i where i: "parent_of x = JStr i" "i \<in> set (map entry_key es)"
        using wf(2) by (auto simp: wf_entry_def)
      then obtain q where q: "index_of es i = Some q" "q \<in> set es" using walk_leaf [OF wf(1) i(2)] by metis
      have qx: "index_of (es @ [x]) i = Some q" "ix i = Some q"
        using q(1) sub sub' by (auto simp: map_le_def dom_def)
      obtain r where r: "walk True (index_of es) JNull q [] = Some (Inr r)"
        and r': "walk True (index_of (es @ [x])) JNull q [x] = Some (Inr (r @ [x]))"
        using walk_wf [OF wf(1) q(2), of True JNull] sub by (metis append_Nil2 map_le_refl)
      have p: "p = r @ [x]"
        using snoc.prems(3) r' nc i ex qx
        by (simp add: walk_step [of True "index_of (es @ [x])" JNull x] del: index_of_snoc)
      have c: "c < length r" using snoc.prems(4,5) p nc by (cases "c = length r") auto
      then have "is_type ''compaction'' (r ! c)" "list_all (\<lambda>x. entry_key x \<noteq> k) (drop c r)"
        using snoc.prems(5,6) p by (simp_all add: nth_append)
      from snoc.IH [OF wf(1) q(2) r c this sub', of "x # path"] show ?thesis
        using ex keyx idx nc i qx p by (simp add: walk_step [of True ix _ x])
    qed
  qed
qed

text \<open>
  C26. When the tail a compaction keeps begins before the previous compaction of the branch, nothing
  is dropped: the walk forgets the new first kept entry at the previous compaction, so the new
  context is the new summary followed by everything the old one had, the old summary included.
\<close>

theorem recompaction_drops_nothing:
  assumes "opened es leaf s0" and "session_reach pt s0 s" and "fresh_ids ot s"
    and "get_branch None s = Some (Inr br)" and "j < c" and "c < length br" and "is_type ''compaction'' (br ! c)"
    and run: "append_compaction ot now' summary before (Some (entry_key (br ! j))) [] us details hook s = (Inr i, t)"
    and ctx: "session_build pt now t = Some (Inr ctx)"
  shows "\<exists>mss. map_res (entry_messages now) br = Inr mss
    \<and> sc_messages ctx = user_text now (SUMMARY_PREFIX @ summary @ SUMMARY_SUFFIX) # concat mss"
proof -
  have inv: "session_inv pt s" by (rule opened_reach_inv [OF assms(1,2)])
  have wf: "wf_entries (sn_entries s)" "leaf_ok (sn_entries s) (sn_leaf s)" and ix: "sn_by_id s = index_of (sn_entries s)"
    using inv by (simp_all add: session_inv_def)
  have brf: "branch_from (sn_by_id s) (sn_leaf s) = Some (Inr br)" using assms(4) by (simp add: get_branch_def)
  have j: "j < length br" using assms(5,6) by simp
  from compaction_entry [OF inv assms(3) brf j run] obtain e where
    ok: "sn_by_id t = (sn_by_id s)(entry_key e \<mapsto> e)" "sn_leaf t = Some (entry_key e)" and ew: "wf_entry (sn_entries s) e"
    and par: "parent_of e = leaf_json (sn_leaf s)" and comp: "is_type ''compaction'' e"
    and fields: "jget e ''retainedTail'' = JNull" "jget e ''firstKeptEntryId'' = JStr (entry_key (br ! j))"
      "jget e ''summary'' = JStr summary" by blast
  let ?ix = "index_of (sn_entries s @ [e])"
  note sub = index_snoc_mono [OF ew]
  from j brf obtain l where l: "sn_leaf s = Some l" by (cases "sn_leaf s") (auto simp: branch_from_def)
  with wf(2) have "l \<in> set (map entry_key (sn_entries s))" by simp
  from walk_leaf [OF wf(1) this] obtain q where q: "index_of (sn_entries s) l = Some q" "q \<in> set (sn_entries s)" "l \<noteq> []"
    by metis
  have w: "walk True (index_of (sn_entries s)) JNull q [] = Some (Inr br)" using brf l q ix by (simp add: branch_from_def)
  have "distinct (map entry_key br)" using branch_of_leaf [OF wf] brf ix by (auto simp: chain_def)
  then have other: "list_all (\<lambda>x. entry_key x \<noteq> entry_key (br ! j)) (drop c br)"
    using assms(5,6) by (auto simp: list_all_length distinct_conv_nth)
  have "walk True ?ix (jget e ''firstKeptEntryId'') q [e] = Some (Inr (br @ [e]))"
    using walk_past_compaction [OF wf(1) q(2) w assms(6,7) other sub, of "[e]"] by (simp only: fields)
  moreover have "?ix l = Some q" using sub q(1) by (auto simp: map_le_def dom_def)
  ultimately have "walk True ?ix JNull e [] = Some (Inr (br @ [e]))"
    using comp par l q(3) fields(1) by (subst walk_step) (simp add: leaf_json_def del: index_of_snoc)
  then have "branch_from (sn_by_id t) (sn_leaf t) = Some (Inr (br @ [e]))" by (simp add: branch_from_def ix ok)
  with ctx obtain a where a: "context_of pt now (br @ [e]) = Inr a" and c: "sc_messages ctx = ca_messages a"
    by (auto simp: session_build_def build_context_def split: option.splits sum.splits elim!: bind_res_InrE)
  from context_after_compaction [OF comp fields(1) a] c fields(3) show ?thesis by auto
qed

definition compacted_entries :: "entry list" where
  "compacted_entries = [text_entry ''a'' JNull ''one'', text_entry ''b'' (JStr ''a'') ''two'',
     [(''type'', JStr ''compaction''), (''id'', JStr ''k''), (''parentId'', JStr ''b''), (''timestamp'', JNull),
      (''summary'', JStr ''old''), (''firstKeptEntryId'', JStr ''a'')], text_entry ''d'' (JStr ''k'') ''three'']"

theorem recompaction_drops_nothing_witness:
  "\<exists>t ctx. session_build no_times 0 t = Some (Inr ctx) \<and> length (sc_messages ctx) = 5"
proof -
  have wf: "wf_entries compacted_entries"
    by (simp add: wf_entries_def wf_entry_def compacted_entries_def text_entry_def less_Suc_eq entry_key_def
       jget_def dict_get_def parent_of_def numeral_2_eq_2 numeral_3_eq_3)
  have lf: "leaf_ok compacted_entries (Some ''d'')" by code_simp
  define s where "s = (case new_session compacted_entries (Some ''d'') of Inr s \<Rightarrow> s | Inl _ \<Rightarrow> sample_session)"
  have "case new_session compacted_entries (Some ''d'') of Inr s \<Rightarrow> True | Inl _ \<Rightarrow> False" by code_simp
  then have s: "new_session compacted_entries (Some ''d'') = Inr s" by (auto simp: s_def split: sum.splits)
  then have o: "opened compacted_entries (Some ''d'') s" using wf lf by (simp add: opened_def)
  let ?run = "append_compaction (next_id ''c'') 0 ''new'' 9 (Some (entry_key (compacted_entries ! 1))) [] None None False s"
  have fr: "fresh_ids (next_id ''c'') s" unfolding s_def by (simp add: fresh_ids_def next_id_def) code_simp
  have b: "get_branch None s = Some (Inr compacted_entries)" unfolding s_def by code_simp
  have c: "(1::nat) < 2" "2 < length compacted_entries" "is_type ''compaction'' (compacted_entries ! 2)" by code_simp+
  have r: "fst ?run = Inr ''c''" unfolding s_def by code_simp
  have "case session_build no_times 0 (snd ?run) of Some (Inr ctx) \<Rightarrow> True | _ \<Rightarrow> False" unfolding s_def by code_simp
  then obtain ctx where ctx: "session_build no_times 0 (snd ?run) = Some (Inr ctx)"
    by (auto split: option.splits sum.splits)
  have m: "case map_res (entry_messages 0) compacted_entries of Inr mss \<Rightarrow> length (concat mss) = 4 | Inl _ \<Rightarrow> False" by code_simp
  have run: "?run = (Inr ''c'', snd ?run)" using r by (metis prod.collapse)
  from recompaction_drops_nothing [OF o session_reach.start fr b c run ctx] m
  have "length (sc_messages ctx) = 5" by auto
  with ctx show ?thesis by blast
qed

end
