(* ===== verification/Summarization.thy ===== *)
theory Summarization
  imports CompactionPrep
begin

text \<open>
  \<^verbatim>\<open>runtime/summarization.py\<close>: turning messages into text, cutting the text into units, and the
  rolling summary that folds the units, as many per request as fit, into one summary. The inference
  request is a computation of the caller that gets the number of the request, the system prompt,
  the prompt and the output limit. Fractions of a token budget are exact before truncation.
\<close>

section \<open>Truncation and serialisation\<close>

definition HARD_TRUNCATION_MARKER :: string where
  "HARD_TRUNCATION_MARKER = nl2 @ ''[... content hard-truncated to fit summarization budget]''"

definition truncate_text :: "string \<Rightarrow> int \<Rightarrow> bool \<Rightarrow> string" where
  "truncate_text v max_chars tool_result =
     (if int (length v) \<le> max_chars then v
      else if max_chars \<le> 0 then []
      else
        let marker = (if tool_result then nl2 @ ''[... '' @ show_int (int (length v) - max_chars) @ '' more characters truncated]''
              else HARD_TRUNCATION_MARKER);
            n = nat max_chars
        in if length marker \<ge> n then take n marker else take (n - length marker) v @ marker)"

lemma truncate_length: "0 \<le> n \<Longrightarrow> int (length (truncate_text v n tr)) \<le> n"
  by (auto simp: truncate_text_def Let_def min_def)

definition text_parts :: "content list \<Rightarrow> string list" where
  "text_parts ps = concat (map (\<lambda>p. case p of TextContent t \<Rightarrow> [t] | _ \<Rightarrow> []) ps)"

fun assistant_part :: "content \<Rightarrow> string list" where
  "assistant_part (TextContent t) = [t]"
| "assistant_part (ThinkingContent t) = [''[thinking]'' @ [CHR 0x0A] @ t]"
| "assistant_part (ToolCall i n args) = [''[tool] '' @ n @ '' '' @ json_dumps (JObj args)]"
| "assistant_part (ImageContent d m) = []"

fun serialize_message :: "message \<Rightarrow> string list" where
  "serialize_message (UserMessage u) = [''User: '' @ (case um_content u of UserText s \<Rightarrow> s
     | UserParts ps \<Rightarrow> join_with lf (text_parts ps))]"
| "serialize_message (AssistantMessage a) = (if failed_stop (am_stop_reason a) then []
     else [''Assistant: '' @ join_with lf (concat (map assistant_part (am_content a)))])"
| "serialize_message (ToolResultMessage t) =
     [''Tool ('' @ tm_tool_name t @ ''): '' @ truncate_text (join_with lf (text_parts (tm_content t))) 2000 True]"

definition serialize_conversation :: "message list \<Rightarrow> string" where
  "serialize_conversation ms = join_with nl2 (concat (map serialize_message ms))"

text \<open>Turns begin at user messages; a turn whose text is too long is cut into its messages.\<close>

fun split_turns :: "message list \<Rightarrow> message list \<Rightarrow> message list list" where
  "split_turns cur [] = (if cur = [] then [] else [cur])"
| "split_turns cur (m # ms) =
     (if is_user m \<and> cur \<noteq> [] then cur # split_turns [m] ms else split_turns (cur @ [m]) ms)"

definition turn_units :: "nat \<Rightarrow> message list \<Rightarrow> string list" where
  "turn_units max_chars turn =
     (let s = serialize_conversation turn in
      if s \<noteq> [] \<and> length s \<le> max_chars then [s]
      else if s \<noteq> [] then filter (\<lambda>v. v \<noteq> []) (map (\<lambda>m. serialize_conversation [m]) turn)
      else [])"

definition conversation_units :: "message list \<Rightarrow> nat \<Rightarrow> string list" where
  "conversation_units ms max_chars = concat (map (turn_units max_chars) (split_turns [] ms))"

section \<open>Usage\<close>

text \<open>\<open>_combine_usage\<close>. The keys of the combined cost come from a set, in no order the code fixes;
  here they come in the order of the first and then the second operand.\<close>

definition combine_cost :: "(string, json) dict \<Rightarrow> (string, json) dict \<Rightarrow> exn + (string, json) dict" where
  "combine_cost c d = map_res (\<lambda>k. bind_res (py_float (dict_get c k (JInt 0))) (\<lambda>x.
     bind_res (py_float (dict_get d k (JInt 0))) (\<lambda>y. Inr (k, JFloat (x + y)))))
     (map fst c @ filter (\<lambda>k. k \<notin> fst ` set c) (map fst d))"

definition combine_usage :: "usage \<Rightarrow> usage \<Rightarrow> exn + usage" where
  "combine_usage a b = bind_res (combine_cost (u_cost a) (u_cost b)) (\<lambda>cost.
     let r = (case u_reasoning a of None \<Rightarrow> 0 | Some x \<Rightarrow> x) + (case u_reasoning b of None \<Rightarrow> 0 | Some x \<Rightarrow> x) in
     Inr \<lparr>u_input = u_input a + u_input b, u_output = u_output a + u_output b,
       u_cache_read = u_cache_read a + u_cache_read b, u_cache_write = u_cache_write a + u_cache_write b,
       u_total_tokens = u_total_tokens a + u_total_tokens b,
       u_reasoning = (if r = 0 then None else Some r), u_cost = cost\<rparr>)"

section \<open>The rolling summary\<close>

record summary_model =
  sm_context_window :: int
  sm_max_output_tokens :: int

definition output_tokens :: "summary_model \<Rightarrow> int \<Rightarrow> int" where
  "output_tokens m reserve = max 1 (min (min (trunc_rat (of_int reserve * 4 / 5)) (sm_max_output_tokens m))
     (max 1 (trunc_rat (of_int (sm_context_window m) / 4))))"

definition input_chars :: "summary_model \<Rightarrow> int \<Rightarrow> int" where
  "input_chars m reserve =
     (let safety = min 4096 (max 64 (trunc_rat (of_int (sm_context_window m) / 20)));
          input_tokens = max 1 (sm_context_window m - output_tokens m reserve - safety)
      in max 4 (input_tokens * 4))"

fun select_units :: "int \<Rightarrow> string list \<Rightarrow> string list \<Rightarrow> int \<Rightarrow> string list \<times> string list" where
  "select_units budget [] sel n = (sel, [])"
| "select_units budget (u # us) sel n =
     (if sel \<noteq> [] \<and> n + int (length u) + 2 > budget then (sel, u # us)
      else
        let u' = (if sel = [] \<and> int (length u) > budget then truncate_text u budget False else u);
            n' = n + int (length u') + 2
        in if n' \<ge> budget then (sel @ [u'], us) else select_units budget us (sel @ [u']) n')"

text \<open>The texts of the prompts are parameters of the layout only through their lengths; the long
  instruction texts themselves are arguments.\<close>

record prompt_texts =
  pt_system :: string
  pt_first :: string
  pt_update :: string

definition conversation_wrapper :: "string \<Rightarrow> string" where
  "conversation_wrapper c = ''<conversation>'' @ lf @ c @ lf @ ''</conversation>'' @ nl2"

definition previous_wrapper :: "string \<Rightarrow> string" where
  "previous_wrapper p = ''<previous-summary>'' @ lf @ p @ lf @ ''</previous-summary>'' @ nl2"

definition shorten_prompts :: "int \<Rightarrow> string \<Rightarrow> string \<Rightarrow> string \<times> string" where
  "shorten_prompts chars system instructions =
     (let least = int (length (conversation_wrapper [])) + 1 in
      if int (length system) + int (length instructions) + least > chars then
        (let sys = truncate_text system (max 0 (chars div 4)) False in
         (sys, truncate_text instructions (max 0 (chars - int (length sys) - least)) False))
      else (system, instructions))"

definition build_prompt :: "int \<Rightarrow> prompt_texts \<Rightarrow> nat \<Rightarrow> string list \<Rightarrow> string \<Rightarrow> string \<times> string \<times> string list" where
  "build_prompt chars pt index units current =
     (let (system, instructions) = shorten_prompts chars (pt_system pt) (if index = 0 then pt_first pt else pt_update pt);
          fixed = int (length system) + int (length instructions) + int (length (conversation_wrapper []))
            + int (length (previous_wrapper []));
          previous = truncate_text current (max 0 ((chars - fixed) div 2)) False;
          (selected, rest) = select_units (max 1 (chars - fixed - int (length previous))) units [] 0;
          prompt = conversation_wrapper (join_with nl2 selected)
            @ (if previous = [] then [] else previous_wrapper previous) @ instructions
      in (system, truncate_text prompt (max 0 (chars - int (length system))) False, rest))"

lemma select_units_length: "length (snd (select_units b us sel n)) \<le> length us"
proof (induction us arbitrary: sel n)
  case (Cons u us)
  then show ?case by (simp add: Let_def le_SucI)
qed simp

lemma select_units_progress: "us \<noteq> [] \<Longrightarrow> length (snd (select_units b us [] n)) < length us"
proof (cases us)
  case (Cons u vs)
  then show ?thesis
    using select_units_length [of b vs "[u]"] by (auto simp: Let_def less_Suc_eq_le select_units_length)
qed simp

lemma build_prompt_progress:
  "build_prompt chars pt index units current = (sys, pr, rest) \<Longrightarrow> units \<noteq> [] \<Longrightarrow> length rest < length units"
  using select_units_progress by (auto simp: build_prompt_def Let_def split: prod.splits) (metis snd_conv)

text \<open>\<open>_summary_request\<close> after the response: a failed or empty one is an error.\<close>

definition runtime_error :: "string \<Rightarrow> exn" where "runtime_error s = RuntimeError s"

definition summary_text :: "assistant_message \<Rightarrow> exn + string" where
  "summary_text a =
     (if failed_stop (am_stop_reason a) then
        Inl (runtime_error (case am_error a of Some (c # cs) \<Rightarrow> c # cs | _ \<Rightarrow> ''Summarization failed''))
      else if str_strip (assistant_text a) = [] then Inl (runtime_error ''Summarization returned an empty summary'')
      else Inr (str_strip (assistant_text a)))"

type_synonym 's inference = "nat \<Rightarrow> string \<Rightarrow> string \<Rightarrow> int \<Rightarrow> ('s, assistant_message) comp"

function rolling_loop :: "'s inference \<Rightarrow> int \<Rightarrow> int \<Rightarrow> prompt_texts \<Rightarrow> nat \<Rightarrow> string list \<Rightarrow> string \<Rightarrow> usage
    \<Rightarrow> ('s, string \<times> usage) comp" where
  "rolling_loop ask chars out pt index units current us =
     (if units = [] then ret (current, us)
      else (case build_prompt chars pt index units current of (system, prompt, rest) \<Rightarrow>
        seqc (ask index system prompt out) (\<lambda>response.
        seqc (lift_res (summary_text response)) (\<lambda>txt.
        seqc (lift_res (combine_usage us (am_usage response))) (\<lambda>us'.
        rolling_loop ask chars out pt (Suc index) rest txt us')))))"
  by pat_completeness auto

termination
  by (relation "measure (\<lambda>(ask, chars, out, pt, index, units, current, us). length units)")
    (auto dest: build_prompt_progress [OF sym])

declare rolling_loop.simps [simp del]

definition rolling_summary :: "'s inference \<Rightarrow> summary_model \<Rightarrow> int \<Rightarrow> prompt_texts \<Rightarrow> message list \<Rightarrow> string option
    \<Rightarrow> ('s, string \<times> usage) comp" where
  "rolling_summary ask m reserve pt ms previous =
     (let chars = input_chars m reserve; units = conversation_units ms (nat chars) in
      if units = [] then throw (runtime_error ''Summarization has no valid conversation content'')
      else rolling_loop ask chars (output_tokens m reserve) pt 0 units (case previous of None \<Rightarrow> [] | Some p \<Rightarrow> p) empty_usage)"

section \<open>Compactions and branch summaries\<close>

record summary_texts =
  tx_system :: string
  tx_summarize :: string
  tx_update :: string
  tx_branch :: string
  tx_prefix :: string

record compaction_result =
  cr_summary :: string
  cr_first_kept :: string
  cr_tokens_before :: int
  cr_retained :: "message list"
  cr_usage :: usage
  cr_read_files :: "string list"
  cr_modified_files :: "string list"

definition nonempty :: "string option \<Rightarrow> bool" where
  "nonempty x \<longleftrightarrow> (case x of Some (c # cs) \<Rightarrow> True | _ \<Rightarrow> False)"

definition with_focus :: "string \<Rightarrow> string option \<Rightarrow> string" where
  "with_focus instructions custom = (case custom of Some (c # cs) \<Rightarrow>
     instructions @ nl2 @ ''Additional focus: '' @ c # cs | _ \<Rightarrow> instructions)"

definition texts_for :: "summary_texts \<Rightarrow> string \<Rightarrow> prompt_texts" where
  "texts_for tx instructions = \<lparr>pt_system = tx_system tx, pt_first = instructions, pt_update = tx_update tx\<rparr>"

definition file_list :: "string \<Rightarrow> string list \<Rightarrow> string" where
  "file_list title paths = (if paths = [] then [] else nl2 @ title @ lf @ join_with lf (map (\<lambda>p. ''- '' @ p) paths))"

definition add_summary :: "'s inference \<Rightarrow> summary_model \<Rightarrow> int \<Rightarrow> prompt_texts \<Rightarrow> message list \<Rightarrow> string option \<Rightarrow> usage
    \<Rightarrow> ('s, string \<times> usage) comp" where
  "add_summary ask m reserve pt ms previous us =
     seqc (rolling_summary ask m reserve pt ms previous) (\<lambda>(summary, u).
     seqc (lift_res (combine_usage us u)) (\<lambda>us'. ret (summary, us')))"

definition compact_preparation :: "'s inference \<Rightarrow> summary_model \<Rightarrow> summary_texts \<Rightarrow> compaction_settings \<Rightarrow> string option
    \<Rightarrow> preparation \<Rightarrow> ('s, compaction_result) comp" where
  "compact_preparation ask m tx settings custom p =
     (let prev = pr_previous_summary p;
          instructions = with_focus (if nonempty prev then tx_update tx else tx_summarize tx) custom;
          reserve = ks_reserve_tokens settings in
      seqc (if pr_to_summarize p \<noteq> []
          then add_summary ask m reserve (texts_for tx instructions) (pr_to_summarize p) prev empty_usage
          else ret (case prev of None \<Rightarrow> [] | Some s \<Rightarrow> s, empty_usage)) (\<lambda>(history, us).
      seqc (if pr_is_split p \<and> pr_turn_prefix p \<noteq> [] then
          seqc (add_summary ask m reserve (texts_for tx (tx_prefix tx)) (pr_turn_prefix p) None us) (\<lambda>(prefix, us').
          ret ((if history = [] then ''No prior history.'' else history) @ nl2 @ ''---'' @ nl2
            @ ''**Turn Context (split turn):**'' @ nl2 @ prefix, us'))
        else ret (history, us)) (\<lambda>(summary, us').
      if str_strip summary = [] then throw (runtime_error ''Compaction summarization returned an empty summary'')
      else ret \<lparr>cr_summary = summary @ file_list ''Files read:'' (pr_read_files p) @ file_list ''Files modified:'' (pr_modified_files p),
        cr_first_kept = pr_first_kept p, cr_tokens_before = pr_tokens_before p, cr_retained = pr_retained p, cr_usage = us',
        cr_read_files = pr_read_files p, cr_modified_files = pr_modified_files p\<rparr>)))"

definition file_details :: "string list \<Rightarrow> string list \<Rightarrow> (string, json) dict" where
  "file_details r w = [(''readFiles'', JList (map JStr r)), (''modifiedFiles'', JList (map JStr w))]"

definition summarize_branch :: "'s inference \<Rightarrow> summary_model \<Rightarrow> summary_texts \<Rightarrow> string option \<Rightarrow> bool \<Rightarrow> message list
    \<Rightarrow> ('s, string \<times> usage \<times> (string, json) dict) comp" where
  "summarize_branch ask m tx custom replace ms =
     (let instructions = (if replace \<and> nonempty custom then (case custom of Some c \<Rightarrow> c | None \<Rightarrow> [])
            else if replace then tx_branch tx else with_focus (tx_branch tx) custom);
          reserve = min 2560 (max 1 (sm_context_window m div 4)) in
      seqc (rolling_summary ask m reserve (texts_for tx instructions) ms None) (\<lambda>(text, us).
      let files = file_operations ms in
      ret (''The user explored a different conversation branch before returning here.'' @ lf
        @ ''Summary of that exploration:'' @ nl2 @ text, us, file_details (fst files) (snd files))))"

section \<open>Requests fit the window\<close>

lemma shorten_system: "0 \<le> chars \<Longrightarrow> shorten_prompts chars s i = (sys, ins) \<Longrightarrow> int (length sys) \<le> chars"
proof -
  assume c: "0 \<le> chars" and sh: "shorten_prompts chars s i = (sys, ins)"
  have "int (length (truncate_text s (max 0 (chars div 4)) False)) \<le> chars"
    using truncate_length [of "max 0 (chars div 4)" s False] c by linarith
  with sh show ?thesis by (auto simp: shorten_prompts_def Let_def split: if_splits)
qed

lemma build_prompt_fits:
  assumes "0 \<le> chars" and "build_prompt chars pt index units current = (system, prompt, rest)"
  shows "int (length system) + int (length prompt) \<le> chars"
proof -
  obtain sys ins where s: "shorten_prompts chars (pt_system pt) (if index = 0 then pt_first pt else pt_update pt) = (sys, ins)"
    by fastforce
  from assms(2) s obtain x where "system = sys" "prompt = truncate_text x (max 0 (chars - int (length sys))) False"
    by (auto simp: build_prompt_def Let_def split: prod.splits)
  with truncate_length [of "max 0 (chars - int (length sys))" x False] shorten_system [OF assms(1) s] show ?thesis by auto
qed


lemma input_chars_nonneg: "0 \<le> input_chars m reserve"
  by (simp add: input_chars_def Let_def)

definition refuse_longer :: "int \<Rightarrow> 's inference \<Rightarrow> 's inference" where
  "refuse_longer chars ask = (\<lambda>index system prompt out.
     if int (length system) + int (length prompt) \<le> chars then ask index system prompt out else throw AssertionError)"

lemma rolling_loop_within:
  "0 \<le> chars \<Longrightarrow> rolling_loop (refuse_longer chars ask) chars out pt index units current us = rolling_loop ask chars out pt index units current us"
proof (induction ask chars out pt index units current us rule: rolling_loop.induct)
  case (1 ask chars out pt index units current us)
  show ?case
  proof (cases "units = []")
    case False
    obtain sys pr rest where b: "build_prompt chars pt index units current = (sys, pr, rest)" by (cases "build_prompt chars pt index units current") 
    have w: "refuse_longer chars ask index sys pr out = ask index sys pr out"
      using build_prompt_fits [OF 1(2) b] by (simp add: refuse_longer_def)
    have "rolling_loop (refuse_longer chars ask) chars out pt (Suc index) rest reply = rolling_loop ask chars out pt (Suc index) rest reply" for reply
      using 1(1) [OF False b [symmetric] refl] 1(2) by (intro ext) simp
    then show ?thesis using False by (simp add: rolling_loop.simps [of _ chars out pt index units] b w)
  qed (simp add: rolling_loop.simps)
qed

text \<open>
  C8. Whatever the messages, the previous summary, the instructions and the replies are, every
  request of a rolling summary fits the model: system prompt and prompt together never exceed the
  characters its context window leaves for input. A caller that refuses longer requests sees no
  difference.
\<close>

theorem summary_requests_fit_window:
  "rolling_summary (refuse_longer (input_chars m reserve) ask) m reserve pt ms previous = rolling_summary ask m reserve pt ms previous"
  by (simp add: rolling_summary_def Let_def rolling_loop_within input_chars_nonneg)

end
