(* ===== verification/SessionAgent.thy ===== *)
theory SessionAgent
  imports Summarization AgentRun
begin

text \<open>
  \<^verbatim>\<open>runtime/agent.py\<close>, the operations of an agent on its session: the compactor the run engine
  calls, explicit compaction, and navigation to another entry with an optional summary of the branch
  left behind. The state pairs whatever the model provider keeps with the session.
\<close>

type_synonym 'o agent_state = "'o \<times> session \<times> nat"

definition on_provider :: "('o, 'a) comp \<Rightarrow> ('o agent_state, 'a) comp" where
  "on_provider m = (\<lambda>(p, s, n). case m p of (r, p') \<Rightarrow> (r, (p', s, n)))"

definition on_session :: "(session, 'a) comp \<Rightarrow> ('o agent_state, 'a) comp" where
  "on_session m = (\<lambda>(p, s, n). case m s of (r, s') \<Rightarrow> (r, (p, s', n)))"

text \<open>A read of the session that may not return; reachable sessions always do.\<close>

definition returning :: "(exn + 'a) option \<Rightarrow> exn + 'a" where
  "returning r = (case r of None \<Rightarrow> Inl OutOfFuel | Some x \<Rightarrow> x)"

definition read_session_state :: "(session \<Rightarrow> (exn + 'a) option) \<Rightarrow> ('o agent_state, 'a) comp" where
  "read_session_state f = on_session (\<lambda>s. (returning (f s), s))"

section \<open>Compaction\<close>

text \<open>Each overflow compaction of a run halves the tail it keeps.\<close>

definition overflow_settings :: "compaction_settings \<Rightarrow> nat \<Rightarrow> compaction_settings" where
  "overflow_settings settings n = settings\<lparr>ks_keep_recent_tokens := max 1 (ks_keep_recent_tokens settings div 2 ^ n)\<rparr>"

definition compact_session :: "'o inference \<Rightarrow> summary_model \<Rightarrow> summary_texts \<Rightarrow> compaction_settings \<Rightarrow> (json \<Rightarrow> int option)
    \<Rightarrow> outside \<Rightarrow> int \<Rightarrow> string \<Rightarrow> string option \<Rightarrow> ('o agent_state, compaction_result \<times> string) comp" where
  "compact_session ask m tx settings0 pt ot now reason custom =
     seqc (reads (\<lambda>(p, s, n). n)) (\<lambda>n.
     let overflow = (reason = ''overflow'');
         settings = (if overflow then overflow_settings settings0 n else settings0) in
     seqc (if overflow then modifies (\<lambda>(p, s, n). (p, s, n + 1)) else ret ()) (\<lambda>_.
     seqc (read_session_state (get_branch None)) (\<lambda>branch.
     seqc (if branch = [] \<or> is_type ''compaction'' (last branch) then ret None
       else seqc (read_session_state (session_build pt now)) (\<lambda>ctx.
         lift_res (prepare_compaction now branch ctx settings overflow))) (\<lambda>prep.
     case prep of
       None \<Rightarrow> throw (runtime_error ''Session does not need compaction'')
     | Some p \<Rightarrow>
       seqc (on_provider (compact_preparation ask m tx settings custom p)) (\<lambda>result.
       seqc (on_session (append_compaction ot now (cr_summary result) (cr_tokens_before result) (Some (cr_first_kept result)) []
          (Some (cr_usage result))
          (Some (JObj (file_details (cr_read_files result) (cr_modified_files result) @ [(''reason'', JStr reason)]))) False))
         (\<lambda>entry_id. ret (result, entry_id)))))))"

definition compact_context :: "'o inference \<Rightarrow> summary_model \<Rightarrow> summary_texts \<Rightarrow> compaction_settings \<Rightarrow> (json \<Rightarrow> int option)
    \<Rightarrow> outside \<Rightarrow> int \<Rightarrow> string \<Rightarrow> ('o agent_state, context_update) comp" where
  "compact_context ask m tx settings pt ot now reason =
     seqc (compact_session ask m tx settings pt ot now reason None) (\<lambda>(result, entry_id).
     seqc (read_session_state (session_build pt now)) (\<lambda>ctx.
     ret \<lparr>cu_messages = sc_messages ctx, cu_summary = cr_summary result, cu_tokens_before = cr_tokens_before result,
       cu_first_kept_id = Some (cr_first_kept result), cu_usage = cr_usage result,
       cu_details = file_details (cr_read_files result) (cr_modified_files result) @ [(''compactionEntryId'', JStr entry_id)],
       cu_boundary_ms = sc_boundary_ms ctx, cu_boundary_index = sc_boundary_index ctx\<rparr>))"

text \<open>\<open>SessionAgent.compact\<close>: a compaction the user asked for, under the clamped policy, with a
  compactor of its own.\<close>

definition policy_settings :: "context_policy \<Rightarrow> int \<Rightarrow> compaction_settings" where
  "policy_settings p window = (let q = effective_context_policy p window in
     \<lparr>ks_enabled = cp_enabled q, ks_reserve_tokens = cp_reserve_tokens q, ks_keep_recent_tokens = cp_keep_recent_tokens q\<rparr>)"

definition explicit_compact :: "'o inference \<Rightarrow> summary_model \<Rightarrow> summary_texts \<Rightarrow> context_policy \<Rightarrow> (json \<Rightarrow> int option)
    \<Rightarrow> outside \<Rightarrow> int \<Rightarrow> string option \<Rightarrow> ('o agent_state, compaction_result) comp" where
  "explicit_compact ask m tx policy pt ot now custom =
     seqc (modifies (\<lambda>(p, s, n). (p, s, 0))) (\<lambda>_.
     seqc (compact_session ask m tx (policy_settings (policy\<lparr>cp_enabled := True\<rparr>) (sm_context_window m)) pt ot now ''explicit'' custom)
       (\<lambda>(result, entry_id). ret result))"

section \<open>Navigation\<close>

record navigation =
  nv_old_leaf :: "string option"
  nv_new_leaf :: "string option"
  nv_summary_entry :: "string option"

definition abandoned :: "entry list \<Rightarrow> entry list \<Rightarrow> entry list" where
  "abandoned old_branch target_branch =
     filter (\<lambda>e. jget e ''id'' \<notin> (\<lambda>t. jget t ''id'') ` set target_branch) old_branch"

definition abandoned_messages :: "entry list \<Rightarrow> exn + message list" where
  "abandoned_messages es = map_res entry_message (filter (is_type ''message'') es)"

text \<open>\<open>navigate_tree\<close> up to the move: reads, and the summary of the abandoned entries.\<close>

definition navigation_summary :: "'o inference \<Rightarrow> summary_model \<Rightarrow> summary_texts \<Rightarrow> string \<Rightarrow> bool \<Rightarrow> string option \<Rightarrow> bool
    \<Rightarrow> ('o agent_state, (string \<times> usage \<times> (string, json) dict) option) comp" where
  "navigation_summary ask m tx target summarize custom replace =
     seqc (reads (\<lambda>(p, s, n). s)) (\<lambda>s.
     if sn_by_id s target = None then throw (ValueError (''Entry '' @ target @ '' not found'')) else
     seqc (read_session_state (get_branch (sn_leaf s))) (\<lambda>old_branch.
     seqc (read_session_state (get_branch (Some target))) (\<lambda>target_branch.
     let gone = abandoned old_branch target_branch in
     if summarize \<and> gone \<noteq> [] then
       seqc (lift_res (abandoned_messages gone)) (\<lambda>ms.
       seqc (on_provider (summarize_branch ask m tx custom replace ms)) (\<lambda>r. ret (Some r)))
     else ret None)))"

definition navigation_move :: "(nat \<Rightarrow> outside) \<Rightarrow> int \<Rightarrow> string \<Rightarrow> string option \<Rightarrow> string option
    \<Rightarrow> (string \<times> usage \<times> (string, json) dict) option \<Rightarrow> ('o agent_state, navigation) comp" where
  "navigation_move ot now target label old_leaf smr =
     seqc (on_session (set_leaf_id (ot 0) (Some target))) (\<lambda>_.
     seqc (case smr of None \<Rightarrow> ret None
       | Some (summary, us, details) \<Rightarrow>
           seqc (on_session (append_branch_summary (ot 1) now
              (case old_leaf of Some (c # cs) \<Rightarrow> c # cs | _ \<Rightarrow> target) summary (Some us) (Some (JObj details)) False))
             (\<lambda>i. ret (Some i))) (\<lambda>summary_entry.
     seqc (if nonempty label
       then seqc (on_session (set_label (ot 2) now (case summary_entry of Some (c # cs) \<Rightarrow> c # cs | _ \<Rightarrow> target) label)) (\<lambda>_. ret ())
       else ret ()) (\<lambda>_.
     seqc (reads (\<lambda>(p, s, n). sn_leaf s)) (\<lambda>new_leaf.
     ret \<lparr>nv_old_leaf = old_leaf, nv_new_leaf = new_leaf, nv_summary_entry = summary_entry\<rparr>))))"

definition navigate_tree :: "'o inference \<Rightarrow> summary_model \<Rightarrow> summary_texts \<Rightarrow> (nat \<Rightarrow> outside) \<Rightarrow> int \<Rightarrow> string \<Rightarrow> bool
    \<Rightarrow> string option \<Rightarrow> bool \<Rightarrow> string option \<Rightarrow> ('o agent_state, navigation) comp" where
  "navigate_tree ask m tx ot now target summarize custom replace label =
     seqc (reads (\<lambda>(p, s, n). sn_leaf s)) (\<lambda>old_leaf.
     seqc (navigation_summary ask m tx target summarize custom replace) (navigation_move ot now target label old_leaf))"

text \<open>\<open>_emit\<close> before the observers: the messages a run completes are appended to the session, the
  transient ones are not.\<close>

definition record_message :: "outside \<Rightarrow> int \<Rightarrow> string \<Rightarrow> (string, json) dict \<Rightarrow> (session, unit) comp" where
  "record_message ot now ty data =
     (if ty = ''message_end'' \<and> \<not> truthy (jget data ''transient'') then
        (case jget data ''message'' of
           JObj d \<Rightarrow> seqc (lift_res (message_from_dict d)) (\<lambda>m. seqc (append_message_entry ot now m) (\<lambda>_. ret ()))
         | _ \<Rightarrow> ret ())
      else ret ())"

section \<open>What navigation leaves behind\<close>

lemma wp_on_session [simp]: "wp (on_session m) Q E (p, s, n) = wp m (\<lambda>x t. Q x (p, t, n)) (\<lambda>e t. E e (p, t, n)) s"
  by (auto simp: wp_def on_session_def split: prod.splits sum.splits)

lemma wp_on_provider [simp]: "wp (on_provider m) Q E (p, s, n) = wp m (\<lambda>x q. Q x (q, s, n)) (\<lambda>e q. E e (q, s, n)) p"
  by (auto simp: wp_def on_provider_def split: prod.splits sum.splits)

lemma wp_read_session [simp]:
  "wp (read_session_state f) Q E (p, s, n) = (case returning (f s) of Inl e \<Rightarrow> E e (p, s, n) | Inr x \<Rightarrow> Q x (p, s, n))"
  by (simp add: read_session_state_def) (simp add: wp_def)

lemma wp_anything: "(\<And>x t. Q x t) \<Longrightarrow> (\<And>e t. E e t) \<Longrightarrow> wp m Q E s"
  by (auto simp: wp_def split: prod.splits sum.splits)

text \<open>The entries after \<open>i\<close>, each the child of the one before, ending at \<open>j\<close>.\<close>

fun follows :: "string \<Rightarrow> entry list \<Rightarrow> string \<Rightarrow> bool" where
  "follows i [] j = (i = j)"
| "follows i (e # es) j = (parent_of e = JStr i \<and> follows (entry_key e) es j)"

definition grown :: "session \<Rightarrow> session \<Rightarrow> bool" where
  "grown s t \<longleftrightarrow> (\<exists>es. sn_entries t = sn_entries s @ es)"

lemma grown_refl [simp]: "grown s s" by (simp add: grown_def)

lemma grown_trans: "grown s t \<Longrightarrow> grown t u \<Longrightarrow> grown s u" by (auto simp: grown_def)

interpretation growing: state_preorder grown
  by unfold_locales (auto intro: grown_trans)

lemma append_entry_grows: "grown s (snd (append_entry ot now ty p s))"
  by (auto simp: append_entry_def lifetime_update_def comp_defs Let_def grown_def split: option.splits sum.splits prod.splits)

lemma set_leaf_grows: "grown s (snd (set_leaf_id ot l s))"
  by (auto simp: set_leaf_id_def lifetime_update_def comp_defs Let_def grown_def split: option.splits sum.splits prod.splits)

lemma append_entry_wp:
  assumes "payload_ok p"
  shows "wp (append_entry ot now ty p)
    (\<lambda>i t. \<exists>e. sn_entries t = sn_entries s @ [e] \<and> entry_key e = i \<and> entry_type e = JStr ty
       \<and> parent_of e = leaf_json (sn_leaf s) \<and> sn_leaf t = Some i) (\<lambda>e t. grown s t) s"
  unfolding wp_outcome
proof (intro allI conjI impI)
  fix t i assume r: "append_entry ot now ty p s = (Inr i, t)"
  have "parent_of (make_entry ty i l ts p) = leaf_json l" "entry_key (make_entry ty i l ts p) = i"
    "entry_type (make_entry ty i l ts p) = JStr ty" for l ts
    using make_entry_fields [OF assms] by simp_all
  with append_entry_ok [OF r assms] show "\<exists>e. sn_entries t = sn_entries s @ [e] \<and> entry_key e = i \<and> entry_type e = JStr ty
       \<and> parent_of e = leaf_json (sn_leaf s) \<and> sn_leaf t = Some i" by auto
next
  fix t e assume "append_entry ot now ty p s = (Inl e, t)"
  then show "grown s t" using append_entry_grows [of s ot now ty p] by simp
qed

lemma set_leaf_wp:
  "wp (set_leaf_id ot (Some i))
    (\<lambda>_ t. \<exists>e. sn_entries t = sn_entries s @ [e] \<and> entry_type e = JStr ''leaf'' \<and> jget e ''targetId'' = JStr i
       \<and> sn_leaf t = Some i) (\<lambda>e t. grown s t) s"
  using set_leaf_grows [of s ot "Some i"] unfolding wp_outcome
  by (auto simp: set_leaf_id_def lifetime_update_def comp_defs Let_def leaf_json_def jget_def entry_type_def
      split: option.splits sum.splits prod.splits if_splits)

lemma navigation_summary_keeps:
  "wp (navigation_summary ask m tx target sm custom rp) (\<lambda>_ t. \<exists>p'. t = (p', s, n)) (\<lambda>_ t. \<exists>p'. t = (p', s, n)) (p, s, n)"
  by (auto simp: navigation_summary_def Let_def wp_anything split: sum.split)

definition summary_entry_types :: "'a option \<Rightarrow> string option \<Rightarrow> json list" where
  "summary_entry_types smr label =
     (case smr of None \<Rightarrow> [] | Some _ \<Rightarrow> [JStr ''branch_summary'']) @ (if nonempty label then [JStr ''label''] else [])"

definition navigated :: "string \<Rightarrow> json list \<Rightarrow> session \<Rightarrow> session \<Rightarrow> bool" where
  "navigated target types s t \<longleftrightarrow> (\<exists>mark more leaf. sn_entries t = sn_entries s @ mark # more \<and> entry_type mark = JStr ''leaf''
     \<and> jget mark ''targetId'' = JStr target \<and> map entry_type more = types \<and> sn_leaf t = Some leaf \<and> follows target more leaf)"

lemma follows_snoc: "follows i es j \<Longrightarrow> parent_of e = JStr j \<Longrightarrow> follows i (es @ [e]) (entry_key e)"
  by (induction es arbitrary: i) auto

lemma navigated_append:
  assumes "navigated target types s t" and "payload_ok p"
  shows "wp (append_entry ot now ty p) (\<lambda>_ u. navigated target (types @ [JStr ty]) s u) (\<lambda>_ u. grown s u) t"
proof (rule wp_mono [OF append_entry_wp [OF assms(2)]])
  show "navigated target (types @ [JStr ty]) s u"
    if "\<exists>e. sn_entries u = sn_entries t @ [e] \<and> entry_key e = i \<and> entry_type e = JStr ty
       \<and> parent_of e = leaf_json (sn_leaf t) \<and> sn_leaf u = Some i" for i u
    using that assms(1) follows_snoc by (fastforce simp: navigated_def leaf_json_def)
  show "grown s u" if "grown t u" for u
    using that assms(1) by (auto simp: navigated_def grown_def)
qed

lemma payload_ok_branch_summary [simp]:
  "payload_ok ([(''fromId'', JStr f), (''summary'', JStr sm), (''fromHook'', JBool h)] @ opt_entry ''usage'' u @ opt_entry ''details'' d)"
  by simp

lemma navigated_label: "navigated target types s t \<Longrightarrow>
  wp (set_label ot now i l) (\<lambda>_ u. navigated target (types @ [JStr ''label'']) s u) (\<lambda>_ u. grown s u) t"
  unfolding set_label_def by (auto simp: navigated_append) (auto simp: navigated_def grown_def)

lemma navigated_summary: "navigated target types s t \<Longrightarrow>
  wp (append_branch_summary ot now f sm us d h) (\<lambda>_ u. navigated target (types @ [JStr ''branch_summary'']) s u) (\<lambda>_ u. grown s u) t"
  unfolding append_branch_summary_def by (rule navigated_append) simp_all

lemma set_leaf_navigates:
  "wp (set_leaf_id ot (Some i)) (\<lambda>_ t. navigated i [] s t) (\<lambda>_ t. grown s t) s"
  by (rule wp_mono [OF set_leaf_wp]) (auto simp: navigated_def)

text \<open>
  C11. Navigation moves the place in the tree only when everything it needs is there. If the target
  is unknown, a branch cannot be read or the summary of the abandoned branch fails at any request,
  the session is exactly as it was and that error is the answer. Otherwise no entry is lost
  whatever happens, and a navigation that returns has recorded the move to the target, followed on
  the target by the summary, if one was made, and the label, if one was given, each the child of
  the entry before it; the leaf it reports is the last of these.
\<close>

theorem navigation_outcome:
  "case navigate_tree ask m tx ot now target sm custom rp label (p, s, n) of (r, (p', t, n')) \<Rightarrow>
    (case fst (navigation_summary ask m tx target sm custom rp (p, s, n)) of
       Inl e \<Rightarrow> r = Inl e \<and> t = s
     | Inr smr \<Rightarrow> (case r of
          Inl e \<Rightarrow> grown s t
        | Inr v \<Rightarrow> nv_old_leaf v = sn_leaf s \<and> nv_new_leaf v = sn_leaf t
            \<and> navigated target (summary_entry_types smr label) s t))"
proof -
  obtain q p1 s1 n1 where ns: "navigation_summary ask m tx target sm custom rp (p, s, n) = (q, (p1, s1, n1))"
    by (metis surj_pair)
  have same: "s1 = s" using navigation_summary_keeps [of ask m tx target sm custom rp s n p]
    by (cases q) (auto simp: wp_outcome ns)
  let ?rest = "navigation_move ot now target label (sn_leaf s)"
  have run: "navigate_tree ask m tx ot now target sm custom rp label (p, s, n)
      = (case q of Inl e \<Rightarrow> (Inl e, (p1, s, n1)) | Inr smr \<Rightarrow> ?rest smr (p1, s, n1))"
    unfolding navigate_tree_def by (simp add: seqc_def reads_def ns same split: sum.split)
  let ?Q = "\<lambda>smr v t. nv_old_leaf v = sn_leaf s \<and> nv_new_leaf v = sn_leaf (fst (snd t))
     \<and> navigated target (summary_entry_types smr label) s (fst (snd t))"
  have "wp (?rest smr) (?Q smr) (\<lambda>e t. grown s (fst (snd t))) (p1, s, n1)" for smr
    unfolding navigation_move_def wp_seqc wp_on_session
  proof (rule wp_mono [OF set_leaf_navigates], goal_cases)
    case (1 _ t)
    show ?case
    proof (cases smr)
      case None
      show ?thesis using 1 navigated_label [OF 1] by (simp add: None summary_entry_types_def)
    next
      case (Some x)
      obtain sum us d where x: "x = (sum, us, d)" by (cases x)
      show ?thesis by (simp add: Some x, rule wp_mono [OF navigated_summary [OF 1]])
        (use navigated_label [where types = "[JStr ''branch_summary'']"] in \<open>auto simp: summary_entry_types_def\<close>)
    qed
  qed simp
  then have "case ?rest smr (p1, s, n1) of (Inl e, t) \<Rightarrow> grown s (fst (snd t)) | (Inr v, t) \<Rightarrow> ?Q smr v t" for smr
    unfolding wp_def by (fastforce split: prod.splits sum.splits)
  then show ?thesis unfolding run
    by (cases q) (auto simp: ns same split: prod.split sum.split, (fastforce split: prod.splits sum.splits)+)
qed

end
