(* ===== verification/ToolText.thy ===== *)
theory ToolText
  imports PyText
begin

text \<open>
  \<^verbatim>\<open>tool/base.py\<close>, the limits on what a tool shows, and the text branch of the read tool of
  \<^verbatim>\<open>tool/filesystem.py\<close>. A file is its bytes, each a character of the model; \<open>decode\<close> stands for
  \<open>bytes.decode("utf-8", errors="replace")\<close>.
\<close>

section \<open>Limits\<close>

definition DEFAULT_MAX_LINES :: nat where "DEFAULT_MAX_LINES = 2000"

definition DEFAULT_MAX_BYTES :: nat where "DEFAULT_MAX_BYTES = 50 * 1024"

text \<open>\<open>f"{size / 1024:.1f}KB"\<close>: one decimal, ties to even.\<close>

definition tenths :: "nat \<Rightarrow> nat" where
  "tenths n = (let q = 10 * n div 1024; r = 10 * n mod 1024 in
     if r > 512 \<or> (r = 512 \<and> odd q) then q + 1 else q)"

definition format_size :: "nat \<Rightarrow> string" where
  "format_size n = (if n < 1024 then show_nat n @ ''B''
     else show_nat (tenths n div 10) @ ''.'' @ show_nat (tenths n mod 10) @ ''KB'')"

record truncation =
  tr_by :: "string option"
  tr_total_lines :: nat
  tr_output_lines :: nat
  tr_first_exceeds :: bool

fun take_lines :: "nat \<Rightarrow> nat \<Rightarrow> string list \<Rightarrow> string list \<Rightarrow> nat \<Rightarrow> string list \<times> string option \<times> bool" where
  "take_lines max_lines max_bytes [] selected acc = (selected, None, False)"
| "take_lines max_lines max_bytes (l # ls) selected acc =
     (let n = utf8_size (l @ lf) in
      if selected = [] \<and> n > max_bytes then (selected, Some ''bytes'', True)
      else if length selected \<ge> max_lines then (selected, Some ''lines'', False)
      else if acc + n > max_bytes then (selected, Some ''bytes'', False)
      else take_lines max_lines max_bytes ls (selected @ [l]) (acc + n))"

definition truncate_head :: "nat \<Rightarrow> nat \<Rightarrow> string \<Rightarrow> string \<times> truncation" where
  "truncate_head max_lines max_bytes text =
     (let lines = py_splitlines text;
          (selected, by, exceeds) = take_lines max_lines max_bytes lines [] 0;
          output = join_with lf selected @ (if ends_with text lf \<and> length selected = length lines then lf else [])
      in (output, \<lparr>tr_by = by, tr_total_lines = length lines, tr_output_lines = length selected, tr_first_exceeds = exceeds\<rparr>))"

fun drop_over :: "nat \<Rightarrow> string list \<Rightarrow> string list" where
  "drop_over max_bytes [] = []"
| "drop_over max_bytes (l # ls) =
     (if utf8_size (join_with lf (l # ls)) > max_bytes then drop_over max_bytes ls else l # ls)"

definition truncate_tail :: "nat \<Rightarrow> nat \<Rightarrow> string \<Rightarrow> string \<times> bool" where
  "truncate_tail max_lines max_bytes text =
     (let lines = py_splitlines text in
      if length lines \<le> max_lines \<and> utf8_size text \<le> max_bytes then (text, False)
      else (join_with lf (drop_over max_bytes (if max_lines = 0 then lines else drop (length lines - max_lines) lines)), True))"

definition truncate_limited :: "string list \<Rightarrow> nat \<Rightarrow> string \<times> truncation" where
  "truncate_limited lines limit =
     (case truncate_head DEFAULT_MAX_LINES DEFAULT_MAX_BYTES (join_with lf (take limit lines)) of (visible, d) \<Rightarrow>
        (visible, d\<lparr>tr_total_lines := length lines,
           tr_by := (if length lines > limit \<and> tr_by d = None then Some ''lines'' else tr_by d)\<rparr>))"

section \<open>Reading a window of a file\<close>

text \<open>The lines \<open>readline\<close> delivers: up to each newline, and what follows the last one, if anything.\<close>

fun split_lf :: "string \<Rightarrow> string \<Rightarrow> string list" where
  "split_lf acc [] = (if acc = [] then [] else [rev acc])"
| "split_lf acc (c # cs) = (if c = CHR 0x0A then rev acc # split_lf [] cs else split_lf (c # acc) cs)"

definition strip_cr :: "string \<Rightarrow> string" where
  "strip_cr s = (if s \<noteq> [] \<and> last s = CHR 0x0D then butlast s else s)"

record window_scan =
  ws_selected :: "string list"
  ws_bytes :: nat
  ws_first :: nat
  ws_stopped :: bool

definition window_line :: "(string \<Rightarrow> string) \<Rightarrow> string \<Rightarrow> window_scan \<Rightarrow> window_scan" where
  "window_line decode content w =
     (let retained = take (DEFAULT_MAX_BYTES + 1) content;
          w1 = (if ws_selected w = [] then w\<lparr>ws_first := length content\<rparr> else w);
          text = strip_cr (decode retained);
          n = utf8_size (text @ lf)
      in if length retained > DEFAULT_MAX_BYTES \<or> length (ws_selected w) \<ge> DEFAULT_MAX_LINES
            \<or> ws_bytes w + n > DEFAULT_MAX_BYTES
         then w1\<lparr>ws_stopped := True\<rparr>
         else w1\<lparr>ws_selected := ws_selected w @ [text], ws_bytes := ws_bytes w + n\<rparr>)"

fun scan_window :: "(string \<Rightarrow> string) \<Rightarrow> int \<Rightarrow> int option \<Rightarrow> int \<Rightarrow> string list \<Rightarrow> window_scan \<Rightarrow> window_scan" where
  "scan_window decode start limit i [] w = w"
| "scan_window decode start limit i (l # ls) w =
     scan_window decode start limit (i + 1) ls
       (if i \<ge> start \<and> (case limit of None \<Rightarrow> True | Some n \<Rightarrow> i < start + n) \<and> \<not> ws_stopped w
        then window_line decode l w else w)"

record text_window =
  tw_text :: string
  tw_size :: nat
  tw_total :: int
  tw_first :: nat

definition long_line :: string where
  "long_line = replicate (DEFAULT_MAX_BYTES + 1) (CHR ''x'')"

definition sentinel :: "window_scan \<Rightarrow> string" where
  "sentinel w = (let text = join_with lf (ws_selected w); long = long_line in
     if \<not> ws_stopped w then text
     else if ws_selected w = [] then long
     else if length (ws_selected w) \<ge> DEFAULT_MAX_LINES then text @ lf @ ''truncated''
     else text @ lf @ long)"

definition read_text_window :: "(string \<Rightarrow> string) \<Rightarrow> string \<Rightarrow> int \<Rightarrow> int option \<Rightarrow> text_window" where
  "read_text_window decode content start limit =
     (let lines = split_lf [] content;
          w = scan_window decode start limit 0 lines \<lparr>ws_selected = [], ws_bytes = 0, ws_first = 0, ws_stopped = False\<rparr>;
          w' = (if lines = [] \<and> start = 0 then w\<lparr>ws_selected := ws_selected w @ [[]]\<rparr> else w)
      in \<lparr>tw_text = sentinel w', tw_size = length content,
           tw_total = (if lines = [] then 1 else int (length lines)), tw_first = ws_first w\<rparr>)"

record read_result =
  rd_output :: string
  rd_selected_lines :: nat
  rd_start :: int
  rd_total :: int
  rd_truncation :: truncation

definition oversized_note :: "string \<Rightarrow> int \<Rightarrow> nat \<Rightarrow> string" where
  "oversized_note path line n =
     ''[Line '' @ show_int line @ '' is '' @ format_size n @ '', exceeds '' @ format_size DEFAULT_MAX_BYTES
     @ '' limit. Use bash: sed -n '' @ [CHR 0x27] @ show_int line @ ''p'' @ [CHR 0x27] @ '' '' @ path
     @ '' | head -c '' @ show_nat DEFAULT_MAX_BYTES @ '']''"

definition continue_note :: "int \<Rightarrow> int \<Rightarrow> string" where
  "continue_note first_line next_offset =
     nl2 @ ''[Showing lines '' @ show_int first_line @ ''-'' @ show_int (next_offset - 1)
     @ ''. Continue with offset='' @ show_int next_offset @ ''.]''"

definition beyond_end :: "int \<Rightarrow> int \<Rightarrow> exn" where
  "beyond_end offset lines = ValueError (''Offset '' @ show_int offset @ '' is beyond end of file ('' @ show_int lines @ '' lines total)'')"

definition read_shown :: "string \<Rightarrow> int \<Rightarrow> text_window \<Rightarrow> string \<times> truncation \<Rightarrow> read_result" where
  "read_shown path start win head = (case head of (output, t) \<Rightarrow>
     \<lparr>rd_output = (if tr_first_exceeds t then oversized_note path (start + 1) (tw_first win)
        else if tr_by t \<noteq> None then output @ continue_note (start + 1) (start + int (tr_output_lines t) + 1)
        else output),
      rd_selected_lines = tr_output_lines t, rd_start = start + 1, rd_total = tw_total win, rd_truncation = t\<rparr>)"

definition read_text :: "(string \<Rightarrow> string) \<Rightarrow> string \<Rightarrow> string \<Rightarrow> int \<Rightarrow> int option \<Rightarrow> exn + read_result" where
  "read_text decode path content offset limit =
     (let start = max 0 (offset - 1); win = read_text_window decode content start limit in
      if start \<ge> tw_total win then Inl (beyond_end offset (tw_total win))
      else Inr (read_shown path start win (truncate_head DEFAULT_MAX_LINES DEFAULT_MAX_BYTES (tw_text win))))"

section \<open>The output of a command\<close>

text \<open>The bash tool keeps the last bytes the command wrote and counts bytes and lines as they come.\<close>

record bash_capture =
  bc_tail :: string
  bc_bytes :: nat
  bc_newlines :: nat
  bc_ended :: bool

definition bash_pump :: "string \<Rightarrow> bash_capture \<Rightarrow> bash_capture" where
  "bash_pump chunk b = (if chunk = [] then b else let tail = bc_tail b @ chunk in
     \<lparr>bc_tail = (if length tail > DEFAULT_MAX_BYTES + 4 then drop (length tail - DEFAULT_MAX_BYTES - 4) tail else tail),
      bc_bytes = bc_bytes b + length chunk,
      bc_newlines = bc_newlines b + length (filter (\<lambda>c. c = CHR 0x0A) chunk),
      bc_ended = ends_with chunk lf\<rparr>)"

definition bash_captured :: "string list \<Rightarrow> bash_capture" where
  "bash_captured chunks = fold bash_pump chunks \<lparr>bc_tail = [], bc_bytes = 0, bc_newlines = 0, bc_ended = False\<rparr>"

record bash_result =
  br_text :: string
  br_visible :: string
  br_lines :: nat
  br_truncated :: bool

definition rstrip_lf :: "string \<Rightarrow> string" where
  "rstrip_lf s = rev (dropWhile (\<lambda>c. c = CHR 0x0A) (rev s))"

definition bash_render :: "(string \<Rightarrow> string) \<Rightarrow> string \<Rightarrow> int option \<Rightarrow> bash_capture \<Rightarrow> bash_result" where
  "bash_render decode full_path exit_code b =
     (let lines = bc_newlines b + (if bc_bytes b \<noteq> 0 \<and> \<not> bc_ended b then 1 else 0);
          (visible, tail_truncated) = truncate_tail DEFAULT_MAX_LINES DEFAULT_MAX_BYTES (rstrip_lf (decode (bc_tail b)));
          truncated = (bc_bytes b > DEFAULT_MAX_BYTES \<or> lines > 2000 \<or> tail_truncated)
      in \<lparr>br_text = (if visible = [] then ''(no output)'' else visible)
            @ (case exit_code of Some n \<Rightarrow> if n \<noteq> 0 then nl2 @ ''Command exited with code '' @ show_int n else [] | None \<Rightarrow> [])
            @ (if truncated then nl2 @ ''[Output truncated. Full output: '' @ full_path @ '']'' else []),
          br_visible = visible, br_lines = lines, br_truncated = truncated\<rparr>)"

end
