(* ===== verification/ToolTextProps.thy ===== *)
theory ToolTextProps
  imports ToolText
begin

text \<open>
  What the limits guarantee: bounded output, and a read that can be continued without losing a
  line; and two inputs on which they do not do what the notes they print say.
\<close>

section \<open>The lines a limit lets through\<close>

definition weight :: "string list \<Rightarrow> nat" where
  "weight ls = sum_list (map (\<lambda>l. utf8_size l + 1) ls)"

lemma weight_simps [simp]: "weight [] = 0" "weight (l # ls) = utf8_size l + 1 + weight ls" "weight (ls @ ms) = weight ls + weight ms"
  by (simp_all add: weight_def)

lemma utf8_join_weight: "ls \<noteq> [] \<Longrightarrow> utf8_size (join_with lf ls) + 1 = weight ls"
  using utf8_size_join [of ls] by (simp add: weight_def)

lemma take_lines_spec:
  assumes "take_lines ml mb ls sel acc = (out, by, ex)" and "length sel \<le> ml" and "acc \<le> mb"
  shows "\<exists>k\<le>length ls. out = sel @ take k ls \<and> (by = None \<longleftrightarrow> k = length ls) \<and> length out \<le> ml
    \<and> acc + weight (take k ls) \<le> mb \<and> (ex \<longrightarrow> out = [] \<and> by \<noteq> None)"
  using assms
proof (induction ml mb ls sel acc rule: take_lines.induct)
  case (1 ml mb sel acc)
  then show ?case by auto
next
  case (2 ml mb l ls sel acc)
  let ?n = "utf8_size (l @ lf)"
  consider "sel = [] \<and> ?n > mb" | "\<not> (sel = [] \<and> ?n > mb)" "length sel \<ge> ml" | "\<not> (sel = [] \<and> ?n > mb)" "length sel < ml" "acc + ?n > mb"
    | "\<not> (sel = [] \<and> ?n > mb)" "\<not> length sel \<ge> ml" "\<not> acc + ?n > mb" by linarith
  then show ?case
  proof cases
    case 4
    then have "take_lines ml mb ls (sel @ [l]) (acc + ?n) = (out, by, ex)" using 2(2) by (auto simp: Let_def)
    from 2(1) [OF refl 4 this] 4 obtain k where "k \<le> length ls" "out = (sel @ [l]) @ take k ls"
      "by = None \<longleftrightarrow> k = length ls" "length out \<le> ml" "acc + ?n + weight (take k ls) \<le> mb" "ex \<longrightarrow> out = [] \<and> by \<noteq> None"
      by auto
    then show ?thesis by (intro exI [of _ "Suc k"]) auto
  qed (use 2(2-4) in \<open>auto simp: Let_def intro!: exI [of _ 0]\<close>)
qed

lemma take_lines_all:
  "weight ls + acc \<le> mb \<Longrightarrow> length sel + length ls \<le> ml \<Longrightarrow>
     take_lines ml mb (ls @ ms) sel acc = take_lines ml mb ms (sel @ ls) (acc + weight ls)"
proof (induction ls arbitrary: sel acc)
  case (Cons l ls)
  then show ?case using Cons.IH [of "acc + (utf8_size l + 1)" "sel @ [l]"] by (simp add: Let_def ac_simps)
qed simp

lemma take_lines_nonempty: "take_lines ml mb ls (sel @ [l]) acc = (out, bb, ex) \<Longrightarrow> out \<noteq> []"
  by (induction ml mb ls "sel @ [l]" acc arbitrary: sel l rule: take_lines.induct) (auto simp: Let_def split: if_splits)

lemma truncate_head_spec:
  assumes "truncate_head ml mb text = (out, t)"
  shows "\<exists>k\<le>length (py_splitlines text). tr_output_lines t = k \<and> k \<le> ml \<and> weight (take k (py_splitlines text)) \<le> mb
    \<and> (tr_by t = None \<longleftrightarrow> k = length (py_splitlines text))
    \<and> out = join_with lf (take k (py_splitlines text)) @ (if ends_with text lf \<and> k = length (py_splitlines text) then lf else [])"
proof -
  obtain sel bb ex where t: "take_lines ml mb (py_splitlines text) [] 0 = (sel, bb, ex)" by (cases "take_lines ml mb (py_splitlines text) [] 0")
  from take_lines_spec [OF t] obtain k where "k \<le> length (py_splitlines text)" "sel = take k (py_splitlines text)"
    "bb = None \<longleftrightarrow> k = length (py_splitlines text)" "length sel \<le> ml" "weight (take k (py_splitlines text)) \<le> mb" by auto
  with assms t show ?thesis by (auto simp: truncate_head_def Let_def min_def)
qed

lemma splitlines_nonempty: "t \<noteq> [] \<or> acc \<noteq> [] \<Longrightarrow> splitlines_from acc t \<noteq> []"
  by (induction t arbitrary: acc) auto

lemma drop_over_bound: "utf8_size (join_with lf (drop_over mb ls)) \<le> mb"
  by (induction ls) auto

text \<open>
  C23. Whatever a tool has to show, the text it shows fits: cut from the front or from the back, it
  takes at most the bytes allowed in UTF-8, and a cut from the front shows at most the lines
  allowed, which are the first lines of the text.
\<close>

theorem shown_text_bounded:
  "utf8_size (fst (truncate_tail ml mb text)) \<le> mb
   \<and> utf8_size (fst (truncate_head ml mb text)) \<le> mb
   \<and> (let k = tr_output_lines (snd (truncate_head ml mb text)) in
      k \<le> ml \<and> k \<le> length (py_splitlines text)
      \<and> py_splitlines text = take k (py_splitlines text) @ drop k (py_splitlines text)
      \<and> (\<exists>end. fst (truncate_head ml mb text) = join_with lf (take k (py_splitlines text)) @ end \<and> end \<in> {[], lf}))"
proof -
  obtain out t where h: "truncate_head ml mb text = (out, t)" by fastforce
  obtain k where k: "k \<le> length (py_splitlines text)" "tr_output_lines t = k" "k \<le> ml" "weight (take k (py_splitlines text)) \<le> mb"
    "out = join_with lf (take k (py_splitlines text)) @ (if ends_with text lf \<and> k = length (py_splitlines text) then lf else [])"
    using truncate_head_spec [OF h] by blast
  have "utf8_size out \<le> mb"
  proof (cases "take k (py_splitlines text) = []")
    case True
    moreover have "\<not> (ends_with text lf \<and> k = length (py_splitlines text))"
      using True splitlines_nonempty [of "text" "[]"] by (cases "text = []") (auto simp: py_splitlines_def ends_with_def lf_def)
    ultimately show ?thesis unfolding k(5) True by (simp only: if_False) simp
  next
    case False
    then show ?thesis using utf8_join_weight [OF False] k(4,5) by auto
  qed
  moreover have "utf8_size (fst (truncate_tail ml mb text)) \<le> mb"
    using drop_over_bound by (simp add: truncate_tail_def Let_def)
  ultimately show ?thesis using h k by (auto simp: Let_def)
qed

section \<open>Reading on\<close>

text \<open>Lines of a file in ASCII: without newlines and carriage returns. A plain line has no line
  boundary of any kind.\<close>

definition file_line :: "string \<Rightarrow> bool" where
  "file_line l \<longleftrightarrow> list_all (\<lambda>c. (of_char c :: nat) < 128 \<and> c \<noteq> CHR 0x0A \<and> c \<noteq> CHR 0x0D) l"

definition plain_line :: "string \<Rightarrow> bool" where
  "plain_line l \<longleftrightarrow> list_all (\<lambda>c. (of_char c :: nat) < 128 \<and> \<not> line_break c) l"

definition decodes_ascii :: "(string \<Rightarrow> string) \<Rightarrow> bool" where
  "decodes_ascii decode \<longleftrightarrow> (\<forall>s. list_all (\<lambda>c. (of_char c :: nat) < 128) s \<longrightarrow> decode s = s)"

lemma cr_breaks: "line_break (CHR 0x0D)" "line_break (CHR 0x0A)"
  by (simp_all add: line_break_def)

lemma plain_one_line: "plain_line l \<Longrightarrow> one_line l"
  by (simp add: plain_line_def one_line_def list_all_iff)

lemma plain_file_line: "plain_line l \<Longrightarrow> file_line l"
  using cr_breaks by (auto simp: plain_line_def file_line_def list_all_iff)

lemma plain_file_lines: "list_all plain_line ls \<Longrightarrow> list_all file_line ls"
  by (simp add: list_all_iff plain_file_line)

lemma file_line_decode: "file_line l \<Longrightarrow> decodes_ascii decode \<Longrightarrow> decode (take n l) = take n l"
  by (auto simp: file_line_def decodes_ascii_def list_all_iff dest: in_set_takeD)

lemma file_line_size: "file_line l \<Longrightarrow> utf8_size l = length l"
  by (induction l) (auto simp: file_line_def utf8_char_def)

lemma file_line_strip: "file_line l \<Longrightarrow> strip_cr (take n l) = take n l"
proof -
  assume l: "file_line l"
  have "last (take n l) \<noteq> CHR 0x0D" if "take n l \<noteq> []"
    using l last_in_set [OF that] in_set_takeD [of "last (take n l)" n l] by (auto simp: file_line_def list_all_iff)
  then show ?thesis by (auto simp: strip_cr_def)
qed

lemma split_lf_lines: "list_all file_line ls \<Longrightarrow> split_lf [] (concat (map (\<lambda>l. l @ lf) ls)) = ls"
proof (induction ls)
  case (Cons l ls)
  have "file_line m \<Longrightarrow> split_lf acc (m @ CHR 0x0A # r) = (rev acc @ m) # split_lf [] r" for m acc r
    by (induction m arbitrary: acc) (auto simp: file_line_def)
  with Cons show ?case by (simp add: lf_def)
qed simp

text \<open>The streaming scan selects the lines the limits let through.\<close>

lemma scan_window_selects:
  assumes "list_all file_line ls" and "decodes_ascii decode" and "start \<le> i" and "\<not> ws_stopped w"
    and "take_lines DEFAULT_MAX_LINES DEFAULT_MAX_BYTES ls (ws_selected w) (ws_bytes w) = (out, bb, ex)"
  shows "ws_selected (scan_window decode start None i ls w) = out \<and> (ws_stopped (scan_window decode start None i ls w) \<longleftrightarrow> bb \<noteq> None)
    \<and> (ws_selected w = [] \<longrightarrow> out = [] \<longrightarrow> ls \<noteq> [] \<longrightarrow> ws_first (scan_window decode start None i ls w) = length (hd ls))"
  using assms
proof (induction ls arbitrary: i w)
  case (Cons l ls)
  have stuck: "scan_window decode start None i ms v = v" if "ws_stopped v" for i ms and v :: window_scan
    using that by (induction ms arbitrary: i) auto
  have pl: "file_line l" and pls: "list_all file_line ls" using Cons.prems(1) by simp_all
  have n: "utf8_size (l @ lf) = length l + 1" using file_line_size [OF pl] by simp
  have line: "window_line decode l w =
      (let w1 = (if ws_selected w = [] then w\<lparr>ws_first := length l\<rparr> else w) in
       if length l > DEFAULT_MAX_BYTES \<or> length (ws_selected w) \<ge> DEFAULT_MAX_LINES \<or> ws_bytes w + (length l + 1) > DEFAULT_MAX_BYTES
       then w1\<lparr>ws_stopped := True\<rparr> else w1\<lparr>ws_selected := ws_selected w @ [l], ws_bytes := ws_bytes w + (length l + 1)\<rparr>)"
    using file_line_decode [OF pl Cons.prems(2), of "length l"] file_line_strip [OF pl, of "length l"] file_line_size [OF pl]
    by (auto simp: window_line_def Let_def min_def)
  show ?case
  proof (cases "length l > DEFAULT_MAX_BYTES \<or> length (ws_selected w) \<ge> DEFAULT_MAX_LINES \<or> ws_bytes w + (length l + 1) > DEFAULT_MAX_BYTES")
    case True
    then have "out = ws_selected w \<and> bb \<noteq> None" using Cons.prems(5) n by (auto simp: Let_def split: if_splits)
    moreover have "ws_stopped (window_line decode l w)" "ws_selected (window_line decode l w) = ws_selected w"
      "ws_selected w = [] \<longrightarrow> ws_first (window_line decode l w) = length l"
      using True by (auto simp: line Let_def)
    ultimately show ?thesis using Cons.prems(3,4) by (simp add: stuck)
  next
    case False
    let ?w = "window_line decode l w"
    have w: "ws_selected ?w = ws_selected w @ [l]" "ws_bytes ?w = ws_bytes w + (length l + 1)" "\<not> ws_stopped ?w"
      using False Cons.prems(4) by (auto simp: line Let_def)
    have t: "take_lines DEFAULT_MAX_LINES DEFAULT_MAX_BYTES ls (ws_selected ?w) (ws_bytes ?w) = (out, bb, ex)"
      using Cons.prems(5) False n w by (auto simp: Let_def split: if_splits)
    have "out \<noteq> []" using t w(1) by (auto simp: take_lines_nonempty)
    with Cons.IH [OF pls Cons.prems(2) _ w(3) t, of "i + 1"] Cons.prems(3,4) show ?thesis by simp
  qed
qed simp

lemma max_lines_pos: "0 < DEFAULT_MAX_LINES"
  by (simp add: DEFAULT_MAX_LINES_def)

lemma utf8_long: "utf8_size long_line = DEFAULT_MAX_BYTES + 1" "one_line long_line" "long_line \<noteq> []"
proof -
  have "utf8_size (replicate n (CHR ''x'')) = n \<and> one_line (replicate n (CHR ''x''))" for n
    by (induction n) (simp_all add: utf8_char_def line_break_def)
  then show "utf8_size long_line = DEFAULT_MAX_BYTES + 1" "one_line long_line"
    unfolding long_line_def by blast+
  show "long_line \<noteq> []" by (simp add: long_line_def)
qed

lemma ends_lf: "ends_with s lf \<longleftrightarrow> s \<noteq> [] \<and> last s = CHR 0x0A"
  by (cases s rule: rev_cases) (auto simp: ends_with_def lf_def)

text \<open>What \<open>truncate_head\<close> makes of the scanned window.\<close>

lemma truncate_head_plain:
  assumes "list_all one_line ls" and "ls \<noteq> []" and "weight ls \<le> mb" and "length ls \<le> ml"
  shows "\<exists>t. truncate_head ml mb (join_with lf ls) = (join_with lf ls, t) \<and> tr_by t = None \<and> \<not> tr_first_exceeds t"
proof (cases "last ls = []")
  case False
  have "\<not> ends_with (join_with lf ls) lf"
  proof -
    have "last (join_with lf ls) = last (last ls)" "join_with lf ls \<noteq> []" using assms(2) False
      by (induction ls) (auto simp: join_with_Cons split: if_splits)
    moreover have "last (last ls) \<in> set (last ls)" "last ls \<in> set ls" using assms(2) False by simp_all
    ultimately show ?thesis using assms(1) cr_breaks by (force simp: ends_lf one_line_def list_all_iff)
  qed
  then show ?thesis using take_lines_all [of ls 0 mb "[]" ml "[]"] assms splitlines_join [OF assms(1,2) False]
    by (simp add: truncate_head_def Let_def)
next
  case True
  then obtain ms where ls: "ls = ms @ [[]]" using assms(2) by (metis append_butlast_last_id)
  have w: "weight ms \<le> mb" "length ms \<le> ml" using assms(3,4) ls by auto
  have ends: "ms \<noteq> [] \<Longrightarrow> ends_with (join_with lf ls) lf" unfolding ls by (simp add: join_with_append ends_with_def lf_def)
  have "join_with lf ls = join_with lf ms @ (if ms = [] then [] else lf)" unfolding ls by (simp add: join_with_append)
  moreover have "ms = [] \<Longrightarrow> \<not> ends_with (join_with lf ls) lf" unfolding ls by (simp add: ends_with_def lf_def)
  ultimately show ?thesis using take_lines_all [of ms 0 mb "[]" ml "[]"] w splitlines_join_empty [of ms] assms(1) ends
    by (auto simp: truncate_head_def Let_def ls)
qed

lemma truncate_head_stopped:
  assumes "list_all one_line ls" and "one_line x" and "x \<noteq> []" and "weight ls \<le> mb" and "length ls \<le> ml"
    and "length ls \<ge> ml \<or> weight ls + utf8_size x + 1 > mb" and "ml > 0"
  shows "\<exists>t. truncate_head ml mb (join_with lf (ls @ [x])) = (join_with lf ls, t) \<and> tr_by t \<noteq> None
     \<and> tr_output_lines t = length ls \<and> (tr_first_exceeds t \<longleftrightarrow> ls = [])"
proof -
  have "py_splitlines (join_with lf (ls @ [x])) = ls @ [x]"
    by (rule splitlines_join) (use assms in auto)
  moreover have "take_lines ml mb (ls @ [x]) [] 0 = take_lines ml mb [x] ls (weight ls)"
    using take_lines_all [of ls 0 mb "[]" ml "[x]"] assms by simp
  ultimately show ?thesis using assms(6,7) by (auto simp: truncate_head_def Let_def)
qed

lemma read_text_run:
  fixes decode :: "string \<Rightarrow> string"
  assumes "list_all file_line ls" and "1 \<le> offset" and "offset \<le> int (length ls)"
  defines "w \<equiv> scan_window decode (offset - 1) None 0 ls \<lparr>ws_selected = [], ws_bytes = 0, ws_first = 0, ws_stopped = False\<rparr>"
  shows "read_text decode path (concat (map (\<lambda>l. l @ lf) ls)) offset None =
      Inr (read_shown path (offset - 1)
        \<lparr>tw_text = sentinel w, tw_size = length (concat (map (\<lambda>l. l @ lf) ls)), tw_total = int (length ls), tw_first = ws_first w\<rparr>
        (truncate_head DEFAULT_MAX_LINES DEFAULT_MAX_BYTES (sentinel w)))"
proof -
  have "ls \<noteq> []" using assms(2,3) by auto
  then have "read_text_window decode (concat (map (\<lambda>l. l @ lf) ls)) (offset - 1) None
      = \<lparr>tw_text = sentinel w, tw_size = length (concat (map (\<lambda>l. l @ lf) ls)), tw_total = int (length ls), tw_first = ws_first w\<rparr>"
    by (simp add: read_text_window_def Let_def split_lf_lines [OF assms(1)] w_def)
  then show ?thesis using assms(2,3) by (simp add: read_text_def Let_def)
qed

text \<open>
  C24. Reading a file of plain lines on from where the last read stopped loses nothing. A read from
  line \<open>offset\<close> that says nothing about truncation shows every remaining line. A truncated one
  shows at least one line, and names as the next offset exactly the line after the last one shown.
  Only a line longer than the limit shows as a note, which gives its length.
\<close>

theorem read_continues:
  assumes "list_all plain_line ls" and "decodes_ascii decode" and "1 \<le> offset" and "offset \<le> int (length ls)"
  shows "\<exists>r. read_text decode path (concat (map (\<lambda>l. l @ lf) ls)) offset None = Inr r
    \<and> rd_start r = offset \<and> rd_total r = int (length ls)
    \<and> (let shown = drop (nat (offset - 1)) ls in
        if tr_by (rd_truncation r) = None then rd_output r = join_with lf shown
        else if rd_selected_lines r = 0 then length (hd shown) \<ge> DEFAULT_MAX_BYTES
             \<and> rd_output r = oversized_note path offset (length (hd shown))
        else (\<exists>k. rd_selected_lines r = k \<and> 0 < k \<and> k < length shown
             \<and> rd_output r = join_with lf (take k shown) @ continue_note offset (offset + int k)))"
proof -
  define shown where "shown = drop (nat (offset - 1)) ls"
  have shown: "shown \<noteq> []" "list_all plain_line shown" using assms by (auto simp: shown_def list_all_iff dest: in_set_dropD)
  then have ones: "list_all one_line shown" by (auto simp: list_all_iff plain_one_line)
  obtain out bb ex where t: "take_lines DEFAULT_MAX_LINES DEFAULT_MAX_BYTES shown [] 0 = (out, bb, ex)"
    by (cases "take_lines DEFAULT_MAX_LINES DEFAULT_MAX_BYTES shown [] 0")
  from take_lines_spec [OF t] obtain k where k: "k \<le> length shown" "out = take k shown" "bb = None \<longleftrightarrow> k = length shown"
    "k \<le> DEFAULT_MAX_LINES" "weight (take k shown) \<le> DEFAULT_MAX_BYTES" by (auto simp: min_def)
  let ?init = "\<lparr>ws_selected = [], ws_bytes = 0, ws_first = 0, ws_stopped = False\<rparr>"
  let ?w = "scan_window decode (offset - 1) None 0 ls ?init"
  have skip: "scan_window decode s None i ms w = scan_window decode s None (i + int m) (drop m ms) w"
    if "i + int m \<le> s" "m \<le> length ms" for s i m ms and w :: window_scan
    using that by (induction m arbitrary: i ms) (auto simp: Suc_le_length_iff algebra_simps)
  have "0 + int (nat (offset - 1)) \<le> offset - 1" "nat (offset - 1) \<le> length ls" "0 + int (nat (offset - 1)) = offset - 1"
    using assms(3,4) by auto
  with skip [of 0 "nat (offset - 1)" "offset - 1" ls ?init] have "?w = scan_window decode (offset - 1) None (offset - 1) shown ?init"
    by (simp only: shown_def)
  with scan_window_selects [OF plain_file_lines [OF shown(2)] assms(2) order_refl, of ?init] t
  have w: "ws_selected ?w = out" "ws_stopped ?w \<longleftrightarrow> bb \<noteq> None" "out = [] \<longrightarrow> ws_first ?w = length (hd shown)"
    using shown(1) by auto
  have out: "list_all one_line out" "weight out \<le> DEFAULT_MAX_BYTES" "length out \<le> DEFAULT_MAX_LINES"
    using ones k by (auto simp: list_all_iff dest: in_set_takeD)
  let ?win = "\<lparr>tw_text = sentinel ?w, tw_size = length (concat (map (\<lambda>l. l @ lf) ls)), tw_total = int (length ls), tw_first = ws_first ?w\<rparr>"
  note run = read_text_run [OF plain_file_lines [OF assms(1)] assms(3,4), of decode path]
  let ?r = "read_shown path (offset - 1) ?win (truncate_head DEFAULT_MAX_LINES DEFAULT_MAX_BYTES (sentinel ?w))"
  have fields: "rd_start ?r = offset" "rd_total ?r = int (length ls)"
    by (simp_all add: read_shown_def split: prod.split)
  consider "bb = None" | "bb \<noteq> None" "out = []" | "bb \<noteq> None" "out \<noteq> []" by blast
  then have main: "if tr_by (rd_truncation ?r) = None then rd_output ?r = join_with lf shown
        else if rd_selected_lines ?r = 0 then length (hd shown) \<ge> DEFAULT_MAX_BYTES
             \<and> rd_output ?r = oversized_note path offset (length (hd shown))
        else (\<exists>k. rd_selected_lines ?r = k \<and> 0 < k \<and> k < length shown
             \<and> rd_output ?r = join_with lf (take k shown) @ continue_note offset (offset + int k))"
  proof cases
    case 1
    then have "out = shown" using k by simp
    moreover have "sentinel ?w = join_with lf out" using w 1 by (simp add: sentinel_def Let_def)
    ultimately obtain t where "truncate_head DEFAULT_MAX_LINES DEFAULT_MAX_BYTES (sentinel ?w) = (join_with lf shown, t)"
      "tr_by t = None" "\<not> tr_first_exceeds t"
      using truncate_head_plain [OF ones shown(1), of DEFAULT_MAX_BYTES DEFAULT_MAX_LINES] out by auto
    then show ?thesis by (simp add: read_shown_def)
  next
    case 2
    have "sentinel ?w = join_with lf ([] @ [long_line])" using w 2 by (simp add: sentinel_def Let_def)
    moreover have "long_line \<noteq> []" "0 \<ge> DEFAULT_MAX_LINES \<or> weight [] + utf8_size long_line + 1 > DEFAULT_MAX_BYTES"
      using utf8_long by simp_all
    ultimately obtain t where "truncate_head DEFAULT_MAX_LINES DEFAULT_MAX_BYTES (sentinel ?w) = ([], t)"
      "tr_by t \<noteq> None" "tr_output_lines t = 0" "tr_first_exceeds t"
      using truncate_head_stopped [of "[]" long_line DEFAULT_MAX_BYTES DEFAULT_MAX_LINES] utf8_long(2) max_lines_pos by auto
    moreover have "length (hd shown) \<ge> DEFAULT_MAX_BYTES"
      using t 2 max_lines_pos shown file_line_size [of "hd shown"] plain_file_line
      by (cases shown) (auto simp: Let_def split: if_splits dest: take_lines_nonempty [where sel = "[]", simplified])
    ultimately show ?thesis using w(3) 2 by (auto simp: read_shown_def)
  next
    case 3
    define x where "x = (if length out \<ge> DEFAULT_MAX_LINES then ''truncated'' else long_line)"
    have "sentinel ?w = join_with lf (out @ [x])" using w 3 by (simp add: sentinel_def Let_def x_def join_with_append)
    moreover have "one_line x" using utf8_long(2) by (simp add: x_def) (simp add: line_break_def)
    moreover have "x \<noteq> []" using utf8_long(3) by (simp add: x_def)
    moreover have "length out \<ge> DEFAULT_MAX_LINES \<or> weight out + utf8_size x + 1 > DEFAULT_MAX_BYTES"
      using utf8_long(1) by (simp add: x_def)
    ultimately obtain t where "truncate_head DEFAULT_MAX_LINES DEFAULT_MAX_BYTES (sentinel ?w) = (join_with lf out, t)"
      "tr_by t \<noteq> None" "tr_output_lines t = length out" "\<not> tr_first_exceeds t"
      using truncate_head_stopped [OF out(1), of x DEFAULT_MAX_BYTES DEFAULT_MAX_LINES] out(2,3) max_lines_pos 3 by auto
    then show ?thesis using 3 k by (auto simp: read_shown_def)
  qed
  show ?thesis by (rule exI [of _ ?r], unfold Let_def, fold shown_def) (intro conjI run fields main)
qed

theorem read_continues_witness:
  "\<exists>r. read_text (\<lambda>s. s) ''f'' (''ab'' @ lf @ lf @ ''c'' @ lf) 3 None = Inr r \<and> rd_output r = ''c''"
proof -
  let ?ls = "[''ab'', [], ''c'']"
  have "list_all plain_line ?ls" by (simp add: plain_line_def line_break_def)
  moreover have "decodes_ascii (\<lambda>s. s)" by (simp add: decodes_ascii_def)
  ultimately obtain r where "read_text (\<lambda>s. s) ''f'' (concat (map (\<lambda>l. l @ lf) ?ls)) 3 None = Inr r"
    "let shown = drop (nat (3 - 1)) ?ls in
        if tr_by (rd_truncation r) = None then rd_output r = join_with lf shown
        else if rd_selected_lines r = 0 then length (hd shown) \<ge> DEFAULT_MAX_BYTES
             \<and> rd_output r = oversized_note ''f'' 3 (length (hd shown))
        else (\<exists>k. rd_selected_lines r = k \<and> 0 < k \<and> k < length shown
             \<and> rd_output r = join_with lf (take k shown) @ continue_note 3 (3 + int k))"
    using read_continues [of ?ls "\<lambda>s. s" 3 "''f''"] by auto
  moreover have "\<not> length (hd (drop (nat (3 - 1)) ?ls)) \<ge> DEFAULT_MAX_BYTES" by (simp add: DEFAULT_MAX_BYTES_def)
  moreover have "drop (nat (3 - 1)) ?ls = [''c'']" by simp
  ultimately show ?thesis by (auto simp: Let_def split: if_splits)
qed

section \<open>Lines of a file and lines of a text\<close>

text \<open>
  The scan counts lines by their newline characters, the limit by every character that ends a
  line for \<open>str.splitlines\<close>. In a file with a form feed in each of its more than two thousand
  lines, the first read shows one thousand lines and tells the reader to continue with line 2001:
  following it, the lines in between are never shown.
\<close>

definition form_feed_line :: string where "form_feed_line = ''a'' @ [CHR 0x0C] @ ''b''"

lemma splitlines_form_feed:
  "py_splitlines (concat (replicate m (form_feed_line @ lf)) @ x) = concat (replicate m [''a'', ''b'']) @ py_splitlines x"
  by (induction m) (simp_all add: py_splitlines_def form_feed_line_def lf_def line_break_def)

lemma join_replicate: "join_with lf (replicate m l @ [x]) = concat (replicate m (l @ lf)) @ x"
  by (induction m) (simp_all add: join_with_Cons)

lemma weight_replicate: "weight (replicate m l) = m * (utf8_size l + 1)" "weight (concat (replicate m ls)) = m * weight ls"
  by (induction m) simp_all

theorem form_feed_skips_lines:
  assumes "decodes_ascii decode" and "n > 2000"
  shows "\<exists>r. read_text decode path (concat (replicate n (form_feed_line @ lf))) 1 None = Inr r
    \<and> rd_output r = join_with lf (concat (replicate 1000 [''a'', ''b''])) @ continue_note 1 2001"
proof -
  define h :: nat where "h = 1000"
  have lim: "DEFAULT_MAX_LINES = h + h" "h * 8 \<le> DEFAULT_MAX_BYTES" "h > 0" "h + h < n" "int h = 1000"
    using assms(2) by (simp_all add: h_def DEFAULT_MAX_LINES_def DEFAULT_MAX_BYTES_def)
  let ?ls = "replicate n form_feed_line" and ?init = "\<lparr>ws_selected = [], ws_bytes = 0, ws_first = 0, ws_stopped = False\<rparr>"
  have ff: "file_line form_feed_line" "utf8_size form_feed_line = 3"
    by (simp_all add: file_line_def form_feed_line_def utf8_char_def)
  then have fls: "list_all file_line ?ls" by (simp add: list_all_iff)
  obtain d where n: "n = (h + h) + Suc d" using lim(4) less_iff_Suc_add by auto
  have "take_lines DEFAULT_MAX_LINES DEFAULT_MAX_BYTES ?ls [] 0
      = take_lines DEFAULT_MAX_LINES DEFAULT_MAX_BYTES (replicate (Suc d) form_feed_line) (replicate (h + h) form_feed_line) ((h + h) * 4)"
    unfolding n replicate_add [of "h + h"]
    using take_lines_all [of "replicate (h + h) form_feed_line" 0 DEFAULT_MAX_BYTES "[]" DEFAULT_MAX_LINES] lim ff
    by (simp add: weight_replicate)
  then have t: "take_lines DEFAULT_MAX_LINES DEFAULT_MAX_BYTES ?ls [] 0 = (replicate (h + h) form_feed_line, Some ''lines'', False)"
    using lim by (simp add: Let_def)
  have win: "ws_selected (scan_window decode 0 None 0 ?ls ?init) = replicate (h + h) form_feed_line"
     "ws_stopped (scan_window decode 0 None 0 ?ls ?init)"
    using scan_window_selects [OF fls assms(1) order_refl [of 0], of ?init] t by auto
  have content: "concat (replicate n (form_feed_line @ lf)) = concat (map (\<lambda>l. l @ lf) ?ls)" by simp
  have one: "1 \<le> (1::int)" "(1::int) \<le> int (length ?ls)" "(1::int) - 1 = 0" using n by simp_all
  obtain tw where run: "read_text decode path (concat (replicate n (form_feed_line @ lf))) 1 None
      = Inr (read_shown path 0 tw (truncate_head DEFAULT_MAX_LINES DEFAULT_MAX_BYTES (sentinel (scan_window decode 0 None 0 ?ls ?init))))"
    using read_text_run [OF fls one(1,2), of decode path] unfolding one(3) content [symmetric] by blast
  let ?text = "join_with lf (replicate (h + h) form_feed_line @ [''truncated''])"
  have sent: "sentinel (scan_window decode 0 None 0 ?ls ?init) = ?text"
    using win lim by (simp add: sentinel_def Let_def join_with_append)
  have "py_splitlines ?text = concat (replicate (h + h) [''a'', ''b'']) @ py_splitlines ''truncated''"
    unfolding join_replicate splitlines_form_feed ..
  then have lines: "py_splitlines ?text = concat (replicate h [''a'', ''b'']) @ concat (replicate h [''a'', ''b'']) @ [''truncated'']"
    by (simp add: replicate_add py_splitlines_def [of "''truncated''"] line_break_def)
  have len: "length (concat (replicate m [''a'', ''b''])) = m + m" for m by (induction m) simp_all
  obtain y ys where ys: "concat (replicate h [''a'', ''b'']) @ [''truncated''] = y # ys" by (cases "concat (replicate h [''a'', ''b'']) @ [''truncated'']") auto
  have "take_lines DEFAULT_MAX_LINES DEFAULT_MAX_BYTES (py_splitlines ?text) [] 0
      = (concat (replicate h [''a'', ''b'']), Some ''lines'', False)"
    unfolding lines ys
    using take_lines_all [of "concat (replicate h [''a'', ''b''])" 0 DEFAULT_MAX_BYTES "[]" DEFAULT_MAX_LINES "y # ys"] lim len [of h]
    by (auto simp: weight_replicate utf8_char_def Let_def)
  moreover have "h + h \<noteq> length (py_splitlines ?text)" unfolding lines using len [of h] lim(3) by simp
  ultimately obtain tr where "truncate_head DEFAULT_MAX_LINES DEFAULT_MAX_BYTES ?text = (join_with lf (concat (replicate h [''a'', ''b''])), tr)"
    "tr_by tr = Some ''lines''" "tr_output_lines tr = h + h" "\<not> tr_first_exceeds tr"
    using len [of h] \<open>h + h \<noteq> length (py_splitlines ?text)\<close> by (simp add: truncate_head_def Let_def)
  then have "rd_output (read_shown path 0 tw (truncate_head DEFAULT_MAX_LINES DEFAULT_MAX_BYTES ?text))
      = join_with lf (concat (replicate h [''a'', ''b''])) @ continue_note 1 (int (h + h) + 1)"
    by (simp add: read_shown_def)
  then show ?thesis unfolding run sent by (simp add: h_def)
qed

theorem form_feed_skips_lines_witness:
  "\<exists>r. read_text (\<lambda>s. s) ''f'' (concat (replicate 3000 (form_feed_line @ lf))) 1 None = Inr r
    \<and> rd_output r = join_with lf (concat (replicate 1000 [''a'', ''b''])) @ continue_note 1 2001"
  by (rule form_feed_skips_lines) (simp_all add: decodes_ascii_def)

section \<open>A long last line\<close>

lemma bash_captured_snoc: "bash_captured (cs @ [c]) = bash_pump c (bash_captured cs)"
  by (simp add: bash_captured_def)

lemma keep_last:
  "(let t = drop (length s - n) s @ c in if length t > n then drop (length t - n) t else t) = drop (length (s @ c) - n) (s @ c)"
proof -
  have "drop (length s - n) s @ c = drop (length s - n) (s @ c)" by simp
  then show ?thesis by (auto simp: Let_def intro!: arg_cong2 [where f = drop] simp del: drop_append)
qed

lemma bash_captured_tail:
  "bc_tail (bash_captured cs) = drop (length (concat cs) - (DEFAULT_MAX_BYTES + 4)) (concat cs)
   \<and> bc_bytes (bash_captured cs) = length (concat cs)"
proof (induction cs rule: rev_induct)
  case Nil
  then show ?case by (simp add: bash_captured_def)
next
  case (snoc c cs)
  show ?case
  proof (cases "c = []")
    case False
    then have "bc_tail (bash_pump c b) = (let t = bc_tail b @ c in if length t > DEFAULT_MAX_BYTES + 4
        then drop (length t - (DEFAULT_MAX_BYTES + 4)) t else t)" "bc_bytes (bash_pump c b) = bc_bytes b + length c" for b
      by (simp_all add: bash_pump_def Let_def)
    moreover have "concat (cs @ [c]) = concat cs @ c" by simp
    ultimately show ?thesis using snoc keep_last [of "concat cs" "DEFAULT_MAX_BYTES + 4" c]
      by (simp only: bash_captured_snoc length_append)
  qed (use snoc in \<open>simp add: bash_captured_snoc bash_pump_def\<close>)
qed

lemma plain_drop: "plain_line s \<Longrightarrow> plain_line (drop k s)"
  by (auto simp: plain_line_def list_all_iff dest: in_set_dropD)

text \<open>
  A command that prints one line longer than the byte limit seems to print nothing: cutting
  from the front by whole lines leaves none, and the agent is told there was no output, with a note
  that the output was truncated.
\<close>

theorem long_line_reads_as_no_output:
  assumes "decodes_ascii decode" and "plain_line (concat chunks)" and "length (concat chunks) > DEFAULT_MAX_BYTES"
  shows "br_text (bash_render decode full_path (Some 0) (bash_captured chunks))
    = ''(no output)'' @ nl2 @ ''[Output truncated. Full output: '' @ full_path @ '']''"
proof -
  define t where "t = drop (length (concat chunks) - (DEFAULT_MAX_BYTES + 4)) (concat chunks)"
  have t: "plain_line t" "length t > DEFAULT_MAX_BYTES" "bc_tail (bash_captured chunks) = t"
    "bc_bytes (bash_captured chunks) = length (concat chunks)"
    using assms(3) plain_drop [OF assms(2)] bash_captured_tail [of chunks] by (simp_all only: t_def length_drop)
  then have "t \<noteq> []" by auto
  have "decode t = t" using file_line_decode [OF plain_file_line [OF t(1)] assms(1), of "length t"] by simp
  moreover have "rstrip_lf t = t"
    using t(1) \<open>t \<noteq> []\<close> cr_breaks by (cases t rule: rev_cases) (auto simp: rstrip_lf_def plain_line_def)
  moreover have "utf8_size t = length t" by (rule file_line_size [OF plain_file_line [OF t(1)]])
  moreover have "py_splitlines t = [t]" using splitlines_open [OF plain_one_line [OF t(1)], of "[]"] \<open>t \<noteq> []\<close> by (simp add: py_splitlines_def)
  moreover have "DEFAULT_MAX_LINES = Suc 1999" by (simp add: DEFAULT_MAX_LINES_def)
  ultimately show ?thesis using t assms(3) by (simp add: bash_render_def Let_def truncate_tail_def)
qed

theorem long_line_reads_as_no_output_witness:
  "br_text (bash_render (\<lambda>s. s) ''/log'' (Some 0) (bash_captured [replicate 60000 (CHR ''x'')]))
    = ''(no output)'' @ nl2 @ ''[Output truncated. Full output: '' @ ''/log'' @ '']''"
proof (rule long_line_reads_as_no_output)
  show "plain_line (concat [replicate 60000 (CHR ''x'')])"
    by (simp add: plain_line_def list_all_iff line_break_def)
qed (simp_all add: decodes_ascii_def DEFAULT_MAX_BYTES_def)

end
