(* ===== verification/ToolEdit.thy ===== *)
theory ToolEdit
  imports SessionFile "HOL-Library.Product_Lexorder"
begin

text \<open>
  \<^verbatim>\<open>tool/filesystem.py\<close>, the edit tool: exact replacements in one file, each of a text that matches
  once, all matched against the original. A file is its bytes; \<open>utf8_encode\<close> and \<open>utf8_decode\<close> are
  UTF-8 for the characters of the model.
\<close>

section \<open>Text operations of the standard library\<close>

text \<open>The starts of \<open>re.finditer\<close> of an escaped text: leftmost matches that do not overlap.\<close>

function find_all :: "string \<Rightarrow> string \<Rightarrow> nat \<Rightarrow> nat list" where
  "find_all old [] i = []"
| "find_all old (c # cs) i =
     (if old \<noteq> [] \<and> starts_with (c # cs) old then i # find_all old (drop (length old - 1) cs) (i + max 1 (length old))
      else find_all old cs (i + 1))"
  by pat_completeness auto
termination by (relation "measure (\<lambda>(old, s, i). length s)") auto

fun utf8_encode :: "string \<Rightarrow> string" where
  "utf8_encode [] = []"
| "utf8_encode (c # cs) = (let n = (of_char c :: nat) in
     if n < 128 then c # utf8_encode cs
     else char_of (192 + n div 64) # char_of (128 + n mod 64) # utf8_encode cs)"

text \<open>Strict decoding; a sequence for a character above the range of the model has no value, as an
  invalid one has none.\<close>

fun utf8_decode :: "string \<Rightarrow> string option" where
  "utf8_decode [] = Some []"
| "utf8_decode [c] = (if (of_char c :: nat) < 128 then Some [c] else None)"
| "utf8_decode (c # d # cs) = (let n = (of_char c :: nat); m = (of_char d :: nat) in
     if n < 128 then map_option ((#) c) (utf8_decode (d # cs))
     else if (n = 194 \<or> n = 195) \<and> 128 \<le> m \<and> m < 192
     then map_option ((#) (char_of ((n - 192) * 64 + (m - 128)))) (utf8_decode cs)
     else None)"

section \<open>Arguments\<close>

text \<open>\<open>prepare_arguments\<close>: edits given as JSON text are read, and a single replacement given beside
  the list is appended to it.\<close>

definition read_edits :: "(string, json) dict \<Rightarrow> (string, json) dict" where
  "read_edits d = (case jget d ''edits'' of
      JStr s \<Rightarrow> (case json_loads s of Some (JList xs) \<Rightarrow> AList.update ''edits'' (JList xs) d | _ \<Rightarrow> d)
    | _ \<Rightarrow> d)"

definition prepare_edit_arguments :: "(string, json) dict \<Rightarrow> exn + (string, json) dict" where
  "prepare_edit_arguments arguments =
     (let d = read_edits arguments in
      case (jget d ''oldText'', jget d ''newText'') of
        (JStr old, JStr new) \<Rightarrow>
          bind_res (py_iter (py_or (jget d ''edits'') (JList []))) (\<lambda>existing.
          Inr (AList.update ''edits'' (JList (existing @ [JObj [(''oldText'', JStr old), (''newText'', JStr new)]]))
            (AList.delete ''newText'' (AList.delete ''oldText'' d))))
      | _ \<Rightarrow> Inr d)"

section \<open>Replacing\<close>

definition crlf :: string where "crlf = [CHR 0x0D, CHR 0x0A]"

definition normalize_endings :: "string \<Rightarrow> string" where
  "normalize_endings s = py_replace [CHR 0x0D] lf (py_replace crlf lf s)"

definition edit_field :: "json \<Rightarrow> string \<Rightarrow> exn + string" where
  "edit_field e k = (case e of JObj d \<Rightarrow> Inr (normalize_endings (py_str (dict_get d k (JStr [])))) | _ \<Rightarrow> Inl attribute_error)"

definition no_single_match :: "string \<Rightarrow> nat \<Rightarrow> exn" where
  "no_single_match path n = ValueError (''Could not edit '' @ path @ '': oldText must match exactly once (found '' @ show_nat n @ '' matches).'')"

type_synonym replacement = "nat \<times> nat \<times> string"

definition replacement_of :: "string \<Rightarrow> string \<Rightarrow> string \<times> string \<Rightarrow> exn + replacement" where
  "replacement_of path original edit = (case edit of (old, new) \<Rightarrow>
     if old = [] then Inl (ValueError ''edits[].oldText must not be empty'')
     else (case find_all old original 0 of
        [i] \<Rightarrow> Inr (i, i + length old, new)
      | ms \<Rightarrow> Inl (no_single_match path (length ms))))"

fun overlapping :: "replacement list \<Rightarrow> bool" where
  "overlapping (l # r # rs) = (fst (snd l) > fst r \<or> overlapping (r # rs))"
| "overlapping _ = False"

definition splice :: "replacement \<Rightarrow> string \<Rightarrow> string" where
  "splice rp t = (case rp of (s, e, new) \<Rightarrow> take s t @ new @ drop e t)"

definition edit_pairs :: "json list \<Rightarrow> exn + (string \<times> string) list" where
  "edit_pairs edits = map_res (\<lambda>e. bind_res (edit_field e ''oldText'') (\<lambda>old.
     bind_res (edit_field e ''newText'') (\<lambda>new. Inr (old, new)))) edits"

text \<open>The loop over the edits reads an edit's fields and looks for its match before the next edit.\<close>

definition replacements_of :: "string \<Rightarrow> string \<Rightarrow> json list \<Rightarrow> exn + replacement list" where
  "replacements_of path original edits = map_res (\<lambda>e. bind_res (edit_field e ''oldText'') (\<lambda>old.
     bind_res (edit_field e ''newText'') (\<lambda>new. replacement_of path original (old, new)))) edits"

definition edit_text :: "string \<Rightarrow> json list \<Rightarrow> string \<Rightarrow> exn + string \<times> replacement list" where
  "edit_text path edits original =
     bind_res (replacements_of path original edits) (\<lambda>reps.
     let ordered = sort reps in
     if overlapping ordered then Inl (ValueError ''Could not edit file: edits contain overlapping regions'')
     else Inr (fold splice (rev ordered) original, ordered))"

definition utf8_bom :: string where "utf8_bom = [CHR 0xEF, CHR 0xBB, CHR 0xBF]"

definition has_crlf :: "string \<Rightarrow> bool" where
  "has_crlf s \<longleftrightarrow> find_all crlf s 0 \<noteq> []"

record edit_result =
  er_bytes :: string
  er_text :: string
  er_first_line :: nat

definition first_changed :: "string \<Rightarrow> replacement list \<Rightarrow> nat" where
  "first_changed original ordered = (case map (\<lambda>r. length (filter (\<lambda>c. c = CHR 0x0A) (take (fst r) original)) + 1) ordered of
     [] \<Rightarrow> 1 | n # ns \<Rightarrow> fold min ns n)"

definition edit_file :: "string \<Rightarrow> json \<Rightarrow> string \<Rightarrow> exn + edit_result" where
  "edit_file path edits raw = (case edits of
      JList (e # es) \<Rightarrow>
        (let bom = (if starts_with raw utf8_bom then utf8_bom else []) in
         case utf8_decode (drop (length bom) raw) of
           None \<Rightarrow> Inl (OtherError ''UnicodeDecodeError'' [])
         | Some decoded \<Rightarrow>
           let ending = (if has_crlf decoded then crlf else lf);
               original = normalize_endings decoded in
           bind_res (edit_text path (e # es) original) (\<lambda>(changed, ordered).
           Inr \<lparr>er_bytes = bom @ utf8_encode (py_replace lf ending changed), er_text = changed,
             er_first_line = first_changed original ordered\<rparr>))
    | _ \<Rightarrow> Inl (ValueError ''Edit tool input is invalid. edits must contain at least one replacement.''))"

end
