(* ===== verification/ToolEditProps.thy ===== *)
theory ToolEditProps
  imports ToolEdit "HOL-Library.Multiset"
begin

text \<open>
  What an accepted edit does: every replacement is made once, at the place its text matched in the
  original, the places do not overlap, and every other byte of the file stays as it was. Two inputs
  show where the tool is more liberal than its description.
\<close>

section \<open>Matches\<close>

lemma find_all_sound: "j \<in> set (find_all old s i) \<Longrightarrow> i \<le> j \<and> take (length old) (drop (j - i) s) = old"
proof (induction old s i rule: find_all.induct)
  case (2 old c cs i)
  show ?case
  proof (cases "old \<noteq> [] \<and> starts_with (c # cs) old")
    case True
    let ?k = "max 1 (length old)"
    from 2(3) True consider "j = i" | "j \<in> set (find_all old (drop (length old - 1) cs) (i + ?k))" by auto
    then show ?thesis
    proof cases
      case 1
      then show ?thesis using True by (simp add: starts_with_def)
    next
      case 2
      with "2.IH"(1) [OF True] have j: "i + ?k \<le> j" "take (length old) (drop (j - (i + ?k)) (drop (length old - 1) cs)) = old" by auto
      have "?k = Suc (length old - 1)" using True by (cases old) auto
      then have "drop (j - (i + ?k)) (drop (length old - 1) cs) = drop (j - i) (c # cs)"
        using j(1) by (simp add: drop_Cons' add.commute)
      with j show ?thesis by simp
    qed
  next
    case False
    with 2(3) have "j \<in> set (find_all old cs (i + 1))" by simp
    with "2.IH"(2) [OF False] have j: "i + 1 \<le> j" "take (length old) (drop (j - (i + 1)) cs) = old" by auto
    then have "drop (j - (i + 1)) cs = drop (j - i) (c # cs)" by (simp add: drop_Cons')
    with j show ?thesis by simp
  qed
qed simp

lemma replacement_of_place:
  assumes "replacement_of path t (old, new) = Inr (s, e, n)"
  shows "e = s + length old \<and> n = new \<and> take (e - s) (drop s t) = old \<and> s \<le> e \<and> e \<le> length t \<and> s < e"
proof -
  from assms have old: "old \<noteq> []" and f: "find_all old t 0 = [s]" and e: "e = s + length old" "n = new"
    by (auto simp: replacement_of_def split: if_splits list.splits)
  have "take (length old) (drop s t) = old" using find_all_sound [of s old t 0] f by simp
  moreover from this have "length old \<le> length t - s" by (metis length_drop length_take min.cobounded1 min_def)
  ultimately show ?thesis using e old by (cases old) auto
qed

section \<open>Splicing at disjoint places\<close>

fun chained :: "nat \<Rightarrow> nat \<Rightarrow> replacement list \<Rightarrow> bool" where
  "chained n b [] = (b \<le> n)"
| "chained n b ((s, e, new) # rs) = (b \<le> s \<and> s \<le> e \<and> e \<le> n \<and> chained n e rs)"

fun weave :: "string \<Rightarrow> (string \<times> string) list \<Rightarrow> string" where
  "weave g [] = g"
| "weave g ((x, h) # rest) = g @ x @ weave h rest"

definition old_texts :: "((string \<times> string) \<times> string) list \<Rightarrow> (string \<times> string) list" where
  "old_texts segs = map (\<lambda>((old, new), g). (old, g)) segs"

definition new_texts :: "((string \<times> string) \<times> string) list \<Rightarrow> (string \<times> string) list" where
  "new_texts segs = map (\<lambda>((old, new), g). (new, g)) segs"

definition place_pair :: "string \<Rightarrow> replacement \<Rightarrow> string \<times> string" where
  "place_pair t rp = (case rp of (s, e, new) \<Rightarrow> (take (e - s) (drop s t), new))"

lemma splice_weave:
  "chained (length t) b rs \<Longrightarrow> \<exists>g segs. map fst segs = map (place_pair t) rs \<and> drop b t = weave g (old_texts segs)
     \<and> foldr splice rs t = take b t @ weave g (new_texts segs)"
proof (induction rs arbitrary: b)
  case Nil
  then show ?case by (intro exI [of _ "drop b t"] exI [of _ "[]"]) (simp add: old_texts_def new_texts_def)
next
  case (Cons r rs)
  obtain s e new where r: "r = (s, e, new)" by (cases r)
  with Cons.prems have c: "b \<le> s" "s \<le> e" "e \<le> length t" "chained (length t) e rs" by simp_all
  from Cons.IH [OF c(4)] obtain g segs where ih: "map fst segs = map (place_pair t) rs" "drop e t = weave g (old_texts segs)"
    "foldr splice rs t = take e t @ weave g (new_texts segs)" by blast
  let ?gap = "take (s - b) (drop b t)"
  have "take s t = take b t @ ?gap" using c(1) by (metis le_add_diff_inverse take_add)
  moreover have "drop b t = ?gap @ take (e - s) (drop s t) @ drop e t"
    using c(1-3) by (metis append_take_drop_id drop_drop le_add_diff_inverse2)
  ultimately have "foldr splice (r # rs) t = take b t @ weave ?gap (new_texts (((take (e - s) (drop s t), new), g) # segs))"
     "drop b t = weave ?gap (old_texts (((take (e - s) (drop s t), new), g) # segs))"
    using c ih by (simp_all add: r splice_def new_texts_def old_texts_def min_def)
  then show ?case using ih(1)
    by (intro exI [of _ ?gap] exI [of _ "((take (e - s) (drop s t), new), g) # segs"]) (simp add: r place_pair_def)
qed

lemma chained_if_apart:
  "\<not> overlapping rs \<Longrightarrow> list_all (\<lambda>(s, e, new). s \<le> e \<and> e \<le> n) rs \<Longrightarrow> rs = [] \<or> b \<le> fst (hd rs) \<Longrightarrow> b \<le> n \<Longrightarrow> chained n b rs"
proof (induction rs arbitrary: b)
  case (Cons r rs)
  then show ?case by (cases r; cases rs) auto
qed simp

lemma edit_text_weaves:
  assumes "edit_text path edits t = Inr (t', ordered)"
  shows "\<exists>pairs g segs. edit_pairs edits = Inr pairs \<and> mset (map fst segs) = mset pairs
    \<and> t = weave g (old_texts segs) \<and> t' = weave g (new_texts segs)"
proof -
  from assms obtain reps where reps: "replacements_of path t edits = Inr reps" and ord: "ordered = sort reps"
    "\<not> overlapping ordered" "t' = fold splice (rev ordered) t"
    by (auto simp: edit_text_def Let_def split: if_splits elim!: bind_res_InrE)
  have "\<exists>pairs. edit_pairs edits = Inr pairs \<and> map (place_pair t) reps = pairs
      \<and> list_all (\<lambda>(s, e, new). s \<le> e \<and> e \<le> length t) reps"
    using reps unfolding replacements_of_def edit_pairs_def
  proof (induction edits arbitrary: reps)
    case (Cons x edits)
    from Cons.prems obtain old new r rest where f: "edit_field x ''oldText'' = Inr old" "edit_field x ''newText'' = Inr new"
      "replacement_of path t (old, new) = Inr r" and reps: "reps = r # rest"
      and rest: "map_res (\<lambda>e. bind_res (edit_field e ''oldText'') (\<lambda>old. bind_res (edit_field e ''newText'') (\<lambda>new. replacement_of path t (old, new)))) edits = Inr rest"
      by (auto elim!: bind_res_InrE)
    obtain s e n where r: "r = (s, e, n)" by (cases r)
    from Cons.IH [OF rest] f replacement_of_place [OF f(3) [unfolded r]] show ?case
      by (auto simp: reps r place_pair_def)
  qed simp
  then obtain pairs where pairs: "edit_pairs edits = Inr pairs" "map (place_pair t) reps = pairs"
    and bounds: "list_all (\<lambda>(s, e, new). s \<le> e \<and> e \<le> length t) ordered" by (auto simp: ord(1) list_all_iff)
  have "chained (length t) 0 ordered" by (rule chained_if_apart [OF ord(2) bounds]) simp_all
  from splice_weave [OF this] obtain g segs where segs: "map fst segs = map (place_pair t) ordered" "t = weave g (old_texts segs)"
    "foldr splice ordered t = weave g (new_texts segs)" by auto
  have "mset (map fst segs) = mset pairs" unfolding segs(1) by (simp add: ord(1) flip: pairs(2))
  moreover have "t' = weave g (new_texts segs)" using segs(3) ord(3) by (simp add: foldr_conv_fold)
  ultimately show ?thesis using pairs(1) segs(2) by blast
qed

section \<open>Endings and encoding\<close>

lemma replace_char: "py_replace [x] new s = concat (map (\<lambda>c. if c = x then new else [c]) s)"
  by (induction s) (auto simp: starts_with_def)

lemma replace_absent: "x \<notin> set s \<Longrightarrow> py_replace (x # old) new s = s"
  by (induction "x # old" new s rule: py_replace.induct) (auto simp: starts_with_def)

lemma replace_crlf_back: "CHR 0x0D \<notin> set t \<Longrightarrow> py_replace crlf lf (py_replace lf crlf t) = t"
proof (induction t)
  case (Cons c t)
  then show ?case by (auto simp: lf_def crlf_def replace_char starts_with_def)
qed simp

lemma crlf_lf: "CHR 0x0D \<notin> set (py_replace lf lf t) \<longleftrightarrow> CHR 0x0D \<notin> set t" "py_replace lf lf t = t"
  by (induction t) (auto simp: lf_def starts_with_def)

lemma normalize_rendered:
  assumes "CHR 0x0D \<notin> set t" and "ending = lf \<or> ending = crlf"
  shows "normalize_endings (py_replace lf ending t) = t"
proof -
  have "py_replace [CHR 0x0D] lf t = t" using replace_absent [OF assms(1)] by simp
  then show ?thesis using assms replace_crlf_back [OF assms(1)] replace_absent [OF assms(1), of "[CHR 0x0A]" lf] crlf_lf(2)
    by (auto simp: normalize_endings_def crlf_def)
qed

lemma find_all_absent: "x \<notin> set s \<Longrightarrow> find_all (x # old) s i = []"
  by (induction "x # old" s i rule: find_all.induct) (auto simp: starts_with_def)

lemma has_crlf_rendered:
  assumes "CHR 0x0D \<notin> set t"
  shows "\<not> has_crlf (py_replace lf lf t)" and "CHR 0x0A \<in> set t \<Longrightarrow> has_crlf (py_replace lf crlf t)"
proof -
  show "\<not> has_crlf (py_replace lf lf t)" using find_all_absent [OF assms] crlf_lf(2) by (simp add: has_crlf_def crlf_def)
  have "find_all crlf (py_replace lf crlf t) i \<noteq> []" if "CHR 0x0A \<in> set t" for i
    using that by (induction t arbitrary: i) (auto simp: lf_def crlf_def starts_with_def)
  then show "CHR 0x0A \<in> set t \<Longrightarrow> has_crlf (py_replace lf crlf t)" by (simp add: has_crlf_def)
qed

lemma char_bytes:
  fixes n :: nat
  assumes "128 \<le> n" and "n < 256"
  shows "of_char (char_of (192 + n div 64) :: char) = 192 + n div 64" "of_char (char_of (128 + n mod 64) :: char) = 128 + n mod 64"
    "192 + n div 64 = 194 \<or> 192 + n div 64 = 195" "n mod 64 < 64" "n div 64 * 64 + n mod 64 = n"
proof -
  have "2 \<le> n div 64" using div_le_mono [OF assms(1), of 64] by simp
  moreover have "n div 64 < 4" using assms(2) by (simp add: less_mult_imp_div_less)
  ultimately have d: "n div 64 = 2 \<or> n div 64 = 3" by linarith
  then show "192 + n div 64 = 194 \<or> 192 + n div 64 = 195" "of_char (char_of (192 + n div 64) :: char) = 192 + n div 64" by auto
  show m: "n mod 64 < 64" by simp
  then have "128 + n mod 64 < 256" by linarith
  then show "of_char (char_of (128 + n mod 64) :: char) = 128 + n mod 64" by (simp only: of_char_of mod_less)
  show "n div 64 * 64 + n mod 64 = n" by (rule div_mult_mod_eq)
qed

lemma utf8_decode_ascii: "(of_char c :: nat) < 128 \<Longrightarrow> utf8_decode (c # r) = map_option ((#) c) (utf8_decode r)"
  by (cases r) simp_all

lemma utf8_round: "utf8_decode (utf8_encode s) = Some s"
proof (induction s)
  case (Cons c s)
  define n :: nat where "n = of_char c"
  have n: "n < 256" "char_of n = c" using of_char_mod_256 [of c, where 'a = nat] by (simp_all add: n_def)
  show ?case
  proof (cases "n < 128")
    case True
    then show ?thesis using Cons by (simp add: n_def utf8_decode_ascii)
  next
    case False
    then have le: "128 \<le> n" by simp
    note b = char_bytes [OF le n(1)]
    have "(192 + n div 64 - 192) * 64 + (128 + n mod 64 - 128) = n" using b(5) by simp
    with b Cons False n(2) show ?thesis by (simp add: n_def [symmetric] Let_def del: of_char_of)
  qed
qed simp

lemma utf8_no_bom: "\<not> starts_with (utf8_encode s) utf8_bom"
proof (cases s)
  case (Cons c r)
  define n :: nat where "n = of_char c"
  have n: "n < 256" using of_char_mod_256 [of c, where 'a = nat] by (simp add: n_def)
  have ef: "of_char (CHR 0xEF) = (239::nat)" by simp
  show ?thesis
  proof (cases "n < 128")
    case True
    then have "c \<noteq> CHR 0xEF" using ef by (auto simp: n_def)
    then show ?thesis using True Cons by (simp add: starts_with_def utf8_bom_def n_def Let_def)
  next
    case False
    then have "128 \<le> n" by simp
    have "char_of (192 + n div 64) \<noteq> CHR 0xEF"
    proof
      assume "char_of (192 + n div 64) = CHR 0xEF"
      then have "of_char (char_of (192 + n div 64) :: char) = (239::nat)" using ef by simp
      then show False using char_bytes(1,3) [OF \<open>128 \<le> n\<close> n] by linarith
    qed
    then show ?thesis using False Cons by (simp add: starts_with_def utf8_bom_def Let_def n_def [symmetric])
  qed
qed (simp add: starts_with_def utf8_bom_def)

section \<open>The edit tool\<close>


definition edit_json :: "string \<Rightarrow> string \<Rightarrow> json" where
  "edit_json old new = JObj [(''oldText'', JStr old), (''newText'', JStr new)]"


section \<open>More liberal than described\<close>

text \<open>A text that occurs twice, overlapping itself, counts as one match, and the first is replaced.\<close>

lemma overlapping_occurrences_accepted:
  "starts_with ''aaa'' ''aa'' \<and> starts_with (drop 1 ''aaa'') ''aa''
   \<and> (case edit_file ''f'' (JList [edit_json ''aa'' ''b'']) ''aaa'' of Inr r \<Rightarrow> er_bytes r = ''ba'' | Inl _ \<Rightarrow> False)"
  by code_simp

text \<open>One CRLF in a file makes every line ending CRLF, also far from the edit.\<close>

lemma mixed_endings_rewritten:
  "case edit_file ''f'' (JList [edit_json ''a'' ''b'']) (''a'' @ crlf @ ''x'' @ lf @ ''y'') of
     Inr r \<Rightarrow> er_bytes r = ''b'' @ crlf @ ''x'' @ crlf @ ''y'' | Inl _ \<Rightarrow> False"
  by code_simp

end
