(* ===== verification/Operations.thy ===== *)
theory Operations
  imports RtPrelude
begin

text \<open>
  \<^verbatim>\<open>runtime/operation_status.py\<close>, \<^verbatim>\<open>runtime/coordinator.py\<close> and the operations of
  \<^verbatim>\<open>runtime/service.py\<close>: a turn runs as a task of its own, a compaction or a navigation inside the
  request that asked for it. Both take the session's lock and then a slot of the semaphore, in this
  order and each first come, first served, as the locks of the standard library are. Between two
  awaits a coroutine is not interrupted, so a step of the model is the code from one await to the
  next; which coroutine continues is open. A cancellation of a task takes effect at its next await.
\<close>

section \<open>States\<close>

datatype op_status = Queued | Active | Cancelling | Completed | Failed | Cancelled | Interrupted

fun is_terminal :: "op_status \<Rightarrow> bool" where
  "is_terminal Completed = True"
| "is_terminal Failed = True"
| "is_terminal Cancelled = True"
| "is_terminal Interrupted = True"
| "is_terminal _ = False"

fun is_in_flight :: "op_status \<Rightarrow> bool" where
  "is_in_flight Queued = True"
| "is_in_flight Active = True"
| "is_in_flight Cancelling = True"
| "is_in_flight _ = False"

definition is_cancellable :: "op_status \<Rightarrow> bool" where
  "is_cancellable s \<longleftrightarrow> s = Queued \<or> s = Active \<or> s = Cancelling"

datatype op_kind = Turn | SessionOp

text \<open>
  Where the coroutine of an operation stands: registered, its task created but not begun, waiting
  for the session's lock, waiting for a slot, in the body; for a turn, writing the end of its run,
  announcing it, in the automatic title; in the handler of an exception (which has left the lock
  and the slot), announcing the failure there, in the \<open>finally\<close> part; for a session operation,
  announcing its end and closing its agent; at its end.
\<close>

datatype op_phase = Starting | Created | AtLock | AtSlot | Running | Recording | Announcing | Ending | Handling
  | Reporting | Closing | OpClosing | Finished

record operation =
  op_session :: string
  op_kind :: op_kind
  op_status :: op_status
  op_phase :: op_phase
  op_cancel_requested :: bool
  op_deliver :: bool
  op_signal :: bool
  op_agent :: bool
  op_controller :: bool
  op_run_ends :: "op_status list"
  op_pending_event :: bool
  op_events :: "op_status list"

text \<open>\<open>op_deliver\<close>: a \<open>turn_cancel\<close> has set the status and has not yet cancelled the task;
  \<open>op_signal\<close>: the task was cancelled and has not yet noticed; \<open>op_pending_event\<close>: the local
  \<open>terminal_event\<close> is set.\<close>

definition new_operation :: "string \<Rightarrow> op_kind \<Rightarrow> operation" where
  "new_operation s k = \<lparr>op_session = s, op_kind = k, op_status = Queued, op_phase = Starting,
     op_cancel_requested = False, op_deliver = False, op_signal = False, op_agent = False, op_controller = False,
     op_run_ends = [], op_pending_event = False, op_events = []\<rparr>"

record coordinator =
  co_capacity :: nat
  co_order :: "string list"
  co_op :: "string \<Rightarrow> operation option"
  co_locks :: "string \<Rightarrow> string list"
  co_slots :: "string list"
  co_active :: "string \<Rightarrow> string option"

definition new_coordinator :: "int \<Rightarrow> coordinator" where
  "new_coordinator max_concurrent = \<lparr>co_capacity = nat (max 1 max_concurrent), co_order = [], co_op = Map.empty,
     co_locks = (\<lambda>_. []), co_slots = [], co_active = Map.empty\<rparr>"

definition status_of :: "coordinator \<Rightarrow> string \<Rightarrow> op_status option" where
  "status_of c i = map_option op_status (co_op c i)"

definition in_flight :: "coordinator \<Rightarrow> string \<Rightarrow> bool" where
  "in_flight c i \<longleftrightarrow> (case co_op c i of Some x \<Rightarrow> is_in_flight (op_status x) | None \<Rightarrow> False)"

definition active_count :: "coordinator \<Rightarrow> nat" where
  "active_count c = length (filter (in_flight c) (co_order c))"

definition of_session :: "coordinator \<Rightarrow> string \<Rightarrow> string \<Rightarrow> bool" where
  "of_session c s i \<longleftrightarrow> (case co_op c i of Some x \<Rightarrow> op_session x = s | None \<Rightarrow> False)"

definition session_active_count :: "string \<Rightarrow> coordinator \<Rightarrow> nat" where
  "session_active_count s c = length (filter (\<lambda>i. of_session c s i \<and> in_flight c i) (co_order c))"

text \<open>The guards of \<open>session_delete\<close> and \<open>system.shutdown\<close>.\<close>

definition delete_guard :: "string \<Rightarrow> coordinator \<Rightarrow> exn + unit" where
  "delete_guard s c = (if session_active_count s c > 0
     then Inl (RuntimeFailure ''busy'' ''Cannot delete a session with active operations'') else Inr ())"

definition shutdown_guard :: "coordinator \<Rightarrow> exn + unit" where
  "shutdown_guard c = (if active_count c > 0 then Inl (RpcError ''busy'' ''Runtime has active operations'') else Inr ())"

section \<open>Steps\<close>

datatype co_event =
    TurnStart string string
  | TaskCreate string
  | TaskBegin string
  | GetLock string
  | GetSlot string
  | AgentReady string
  | RunBound string
  | RunReturns string string
  | Recorded string bool bool
  | Announced string
  | TailDone string
  | TailRaises string
  | RunRaises string
  | InterruptedAt string bool
  | Persist string bool bool
  | Reported string bool
  | Close string
  | CloseRaises string bool
  | CancelRequest string
  | CancelDeliver string
  | CancelDropped string
  | OpStart string string
  | OpQueue string
  | OpReady string bool
  | OpReturns string bool bool
  | OpClosed string bool
  | Dropped string
  | ServiceClose

definition set_op :: "string \<Rightarrow> operation \<Rightarrow> coordinator \<Rightarrow> coordinator" where
  "set_op i x c = c\<lparr>co_op := (co_op c)(i \<mapsto> x)\<rparr>"

definition enter_lock :: "string \<Rightarrow> operation \<Rightarrow> coordinator \<Rightarrow> coordinator" where
  "enter_lock i x c = c\<lparr>co_locks := (co_locks c)(op_session x := co_locks c (op_session x) @ [i])\<rparr>"

definition leave :: "string \<Rightarrow> operation \<Rightarrow> coordinator \<Rightarrow> coordinator" where
  "leave i x c = c\<lparr>co_locks := (co_locks c)(op_session x := removeAll i (co_locks c (op_session x))),
     co_slots := removeAll i (co_slots c)\<rparr>"

definition set_active :: "string \<Rightarrow> string option \<Rightarrow> coordinator \<Rightarrow> coordinator" where
  "set_active s v c = c\<lparr>co_active := (co_active c)(s := v)\<rparr>"

definition add_op :: "string \<Rightarrow> operation \<Rightarrow> coordinator \<Rightarrow> coordinator" where
  "add_op i x c = c\<lparr>co_order := co_order c @ [i], co_op := (co_op c)(i \<mapsto> x)\<rparr>"

definition with_op :: "string \<Rightarrow> (operation \<Rightarrow> bool) \<Rightarrow> (operation \<Rightarrow> coordinator \<Rightarrow> coordinator) \<Rightarrow> coordinator \<Rightarrow> coordinator option" where
  "with_op i P f c = (case co_op c i of Some x \<Rightarrow> if P x then Some (f x c) else None | None \<Rightarrow> None)"

text \<open>An exception in the body or while waiting: the lock and the slot are left, then the handler
  sets the status.\<close>

definition handle :: "op_status \<Rightarrow> string \<Rightarrow> operation \<Rightarrow> coordinator \<Rightarrow> coordinator" where
  "handle st i x c = set_op i (x\<lparr>op_status := st, op_phase := Handling, op_signal := False, op_controller := False\<rparr>) (leave i x c)"

definition run_status :: "operation \<Rightarrow> string \<Rightarrow> op_status" where
  "run_status x stop = (if op_cancel_requested x \<or> stop = ''aborted'' then Cancelled
     else if stop = ''error'' then Failed else Completed)"

definition take_slot :: "string \<Rightarrow> operation \<Rightarrow> coordinator \<Rightarrow> coordinator" where
  "take_slot i x c = (if op_kind x = Turn \<and> op_cancel_requested x then handle Cancelled i x c
     else set_active (op_session x) (Some i) (set_op i (x\<lparr>op_status := Active, op_phase := Running\<rparr>) c))"

definition run_returns :: "string \<Rightarrow> string \<Rightarrow> operation \<Rightarrow> coordinator \<Rightarrow> coordinator" where
  "run_returns stop i x = set_op i (x\<lparr>op_status := run_status x stop, op_phase := Recording, op_controller := False\<rparr>)"

text \<open>\<open>append_run_end\<close> returns, or raises with or without the line in the file.\<close>

definition recorded :: "bool \<Rightarrow> bool \<Rightarrow> string \<Rightarrow> operation \<Rightarrow> coordinator \<Rightarrow> coordinator" where
  "recorded ok written i x = (let ends = op_run_ends x @ (if ok \<or> written then [op_status x] else []) in
     if ok then set_op i (x\<lparr>op_run_ends := ends, op_pending_event := (op_status x = Cancelled),
        op_phase := (if op_status x = Cancelled then Ending else Announcing)\<rparr>)
     else handle Failed i (x\<lparr>op_run_ends := ends\<rparr>))"

definition announced :: "string \<Rightarrow> operation \<Rightarrow> coordinator \<Rightarrow> coordinator" where
  "announced i x = set_op i (x\<lparr>op_phase := Ending, op_events := op_events x @ [op_status x]\<rparr>)"

text \<open>An exception after the end was recorded: the handler only sets the status.\<close>

definition tail_ends :: "op_status option \<Rightarrow> string \<Rightarrow> operation \<Rightarrow> coordinator \<Rightarrow> coordinator" where
  "tail_ends st i x c = set_op i (x\<lparr>op_status := (case st of None \<Rightarrow> op_status x | Some t \<Rightarrow> t), op_phase := Closing\<rparr>) (leave i x c)"

definition close_broken :: "bool \<Rightarrow> string \<Rightarrow> operation \<Rightarrow> coordinator \<Rightarrow> coordinator" where
  "close_broken cleaned i x c = set_op i (x\<lparr>op_phase := Finished, op_signal := False, op_agent := (op_agent x \<and> \<not> cleaned)\<rparr>)
     (if cleaned \<and> co_active c (op_session x) = Some i then set_active (op_session x) None c else c)"

text \<open>A cancellation takes effect. \<open>effect\<close> says what of the interrupted call was done already: a file
  write is joined before the cancellation goes on (\<^verbatim>\<open>blocking.py\<close>), so the line of an interrupted
  \<open>append_run_end\<close> may be in the file, although the handler does not know it.\<close>

definition interrupt :: "bool \<Rightarrow> string \<Rightarrow> operation \<Rightarrow> coordinator \<Rightarrow> coordinator" where
  "interrupt effect i x c = (case op_phase x of
      Recording \<Rightarrow> handle Cancelled i (x\<lparr>op_run_ends := op_run_ends x @ (if effect then [op_status x] else [])\<rparr>) c
    | Announcing \<Rightarrow> tail_ends (Some Cancelled) i (x\<lparr>op_signal := False,
        op_events := op_events x @ (if effect then [op_status x] else [])\<rparr>) c
    | Ending \<Rightarrow> tail_ends (Some Cancelled) i (x\<lparr>op_signal := False\<rparr>) c
    | Handling \<Rightarrow> set_op i (x\<lparr>op_phase := Closing, op_signal := False,
        op_run_ends := op_run_ends x @ (if effect then [op_status x] else [])\<rparr>) c
    | Reporting \<Rightarrow> set_op i (x\<lparr>op_phase := Closing, op_signal := False,
        op_events := op_events x @ (if effect then [op_status x] else [])\<rparr>) c
    | Closing \<Rightarrow> close_broken effect i x c
    | _ \<Rightarrow> handle Cancelled i x c)"

definition finish :: "string \<Rightarrow> operation \<Rightarrow> coordinator \<Rightarrow> coordinator" where
  "finish i x c = set_op i (x\<lparr>op_phase := Finished, op_agent := False, op_pending_event := False,
        op_events := op_events x @ (if op_pending_event x then [op_status x] else [])\<rparr>)
     (if co_active c (op_session x) = Some i then set_active (op_session x) None c else c)"

text \<open>\<open>turn_cancel\<close> cancels the task when the operation has no agent or its run is not bound, and
  asks the agent to abort otherwise. An operation without a task is not cancelled.\<close>

definition cancel_deliver :: "string \<Rightarrow> operation \<Rightarrow> coordinator \<Rightarrow> coordinator" where
  "cancel_deliver i x c = set_op i (x\<lparr>op_deliver := False,
     op_signal := (op_signal x \<or> (op_kind x = Turn \<and> op_phase x \<noteq> Starting \<and> op_phase x \<noteq> Finished
        \<and> (\<not> op_agent x \<or> \<not> op_controller x)))\<rparr>) c"

text \<open>\<open>_session_operation\<close> after the slot: building the agent is outside the \<open>try\<close>; the
  \<open>finally\<close> is inside the lock, and no handler catches a cancellation. When announcing a success
  raises, the handler makes it a failure. Closing the agent may raise or be cancelled, and then
  the agent and the active operation stay set; the lock and the slot are left in every case.\<close>

definition op_returns :: "bool \<Rightarrow> bool \<Rightarrow> string \<Rightarrow> operation \<Rightarrow> coordinator \<Rightarrow> coordinator" where
  "op_returns ok told i x = (let st = (if ok \<and> told then Completed else Failed) in
     set_op i (x\<lparr>op_status := st, op_phase := OpClosing, op_events := op_events x @ (if ok \<or> told then [st] else [])\<rparr>))"

definition op_closed :: "bool \<Rightarrow> string \<Rightarrow> operation \<Rightarrow> coordinator \<Rightarrow> coordinator" where
  "op_closed cleaned i x c = set_op i (x\<lparr>op_phase := Finished, op_agent := (op_agent x \<and> \<not> cleaned)\<rparr>)
     (leave i x (if cleaned then set_active (op_session x) None c else c))"

definition drop_request :: "string \<Rightarrow> operation \<Rightarrow> coordinator \<Rightarrow> coordinator" where
  "drop_request i x c = (let c1 = set_op i (x\<lparr>op_phase := Finished, op_agent := False\<rparr>) (leave i x c) in
     if op_phase x = Running \<and> op_agent x then set_active (op_session x) None c1 else c1)"

text \<open>A task that was cancelled before its first step never runs any of its code.\<close>

definition begin_task :: "string \<Rightarrow> operation \<Rightarrow> coordinator \<Rightarrow> coordinator" where
  "begin_task i x c = (if op_signal x then set_op i (x\<lparr>op_phase := Finished, op_signal := False\<rparr>) c
     else set_op i (x\<lparr>op_phase := AtLock\<rparr>) (enter_lock i x c))"

text \<open>\<open>_session_operation\<close> builds its agent before the \<open>try\<close>.\<close>

definition op_ready :: "bool \<Rightarrow> string \<Rightarrow> operation \<Rightarrow> coordinator \<Rightarrow> coordinator" where
  "op_ready ok i x c = (if ok then set_op i (x\<lparr>op_agent := True\<rparr>) c else set_op i (x\<lparr>op_phase := Finished\<rparr>) (leave i x c))"

text \<open>The handler of an exception: it records the end of the run, which may fail, and announces a
  failure; the event of a cancellation is left to the \<open>finally\<close> part.\<close>

definition persist_end :: "bool \<Rightarrow> bool \<Rightarrow> string \<Rightarrow> operation \<Rightarrow> coordinator \<Rightarrow> coordinator" where
  "persist_end ok written i x = set_op i (x\<lparr>op_phase := (if ok \<and> op_status x = Failed then Reporting else Closing),
     op_run_ends := op_run_ends x @ (if ok \<or> written then [op_status x] else []), op_pending_event := (ok \<and> op_status x = Cancelled)\<rparr>)"

definition reported :: "bool \<Rightarrow> string \<Rightarrow> operation \<Rightarrow> coordinator \<Rightarrow> coordinator" where
  "reported ok i x = set_op i (x\<lparr>op_phase := Closing, op_events := op_events x @ (if ok then [Failed] else [])\<rparr>)"

text \<open>\<open>close\<close> cancels the task of every turn that is not done.\<close>

definition signal_all :: "coordinator \<Rightarrow> coordinator" where
  "signal_all c = c\<lparr>co_op := (\<lambda>i. map_option (\<lambda>x. if op_kind x = Turn \<and> op_phase x \<noteq> Starting \<and> op_phase x \<noteq> Finished
        then x\<lparr>op_signal := True\<rparr> else x) (co_op c i))\<rparr>"

text \<open>The steps of \<open>turn_start\<close>, of the task of a turn (\<open>_execute_turn\<close>), of \<open>turn_cancel\<close> and of
  \<open>_session_operation\<close>.\<close>

definition start_step :: "co_event \<Rightarrow> coordinator \<Rightarrow> coordinator option" where
  "start_step ev c = (case ev of
     TurnStart i s \<Rightarrow> if co_op c i = None then Some (add_op i (new_operation s Turn) c) else None
   | TaskCreate i \<Rightarrow> with_op i (\<lambda>x. op_kind x = Turn \<and> op_phase x = Starting) (\<lambda>x. set_op i (x\<lparr>op_phase := Created\<rparr>)) c
   | TaskBegin i \<Rightarrow> with_op i (\<lambda>x. op_phase x = Created) (begin_task i) c
   | _ \<Rightarrow> None)"

definition enter_step :: "co_event \<Rightarrow> coordinator \<Rightarrow> coordinator option" where
  "enter_step ev c = (case ev of
     GetLock i \<Rightarrow> with_op i (\<lambda>x. op_phase x = AtLock \<and> \<not> op_signal x \<and> hd (co_locks c (op_session x)) = i) (\<lambda>x c.
        set_op i (x\<lparr>op_phase := AtSlot\<rparr>) (c\<lparr>co_slots := co_slots c @ [i]\<rparr>)) c
   | GetSlot i \<Rightarrow> with_op i (\<lambda>x. op_phase x = AtSlot \<and> \<not> op_signal x \<and> i \<in> set (take (co_capacity c) (co_slots c))) (take_slot i) c
   | _ \<Rightarrow> None)"

definition turn_step :: "co_event \<Rightarrow> coordinator \<Rightarrow> coordinator option" where
  "turn_step ev c = (case ev of
     AgentReady i \<Rightarrow> with_op i (\<lambda>x. op_kind x = Turn \<and> op_phase x = Running \<and> \<not> op_agent x) (\<lambda>x. set_op i (x\<lparr>op_agent := True\<rparr>)) c
   | RunBound i \<Rightarrow> with_op i (\<lambda>x. op_kind x = Turn \<and> op_phase x = Running \<and> op_agent x \<and> \<not> op_controller x)
        (\<lambda>x. set_op i (x\<lparr>op_controller := True\<rparr>)) c
   | RunReturns i stop \<Rightarrow> with_op i (\<lambda>x. op_kind x = Turn \<and> op_phase x = Running \<and> op_controller x) (run_returns stop i) c
   | Recorded i ok written \<Rightarrow> with_op i (\<lambda>x. op_kind x = Turn \<and> op_phase x = Recording) (recorded ok written i) c
   | Announced i \<Rightarrow> with_op i (\<lambda>x. op_kind x = Turn \<and> op_phase x = Announcing) (announced i) c
   | TailDone i \<Rightarrow> with_op i (\<lambda>x. op_kind x = Turn \<and> op_phase x = Ending) (tail_ends None i) c
   | TailRaises i \<Rightarrow> with_op i (\<lambda>x. op_kind x = Turn \<and> op_phase x \<in> {Announcing, Ending}) (tail_ends (Some Failed) i) c
   | RunRaises i \<Rightarrow> with_op i (\<lambda>x. op_kind x = Turn \<and> op_phase x = Running) (handle Failed i) c
   | InterruptedAt i effect \<Rightarrow> with_op i (\<lambda>x. op_kind x = Turn \<and> op_signal x
        \<and> op_phase x \<in> {AtLock, AtSlot, Running, Recording, Announcing, Ending, Handling, Reporting, Closing}) (interrupt effect i) c
   | Persist i ok written \<Rightarrow> with_op i (\<lambda>x. op_kind x = Turn \<and> op_phase x = Handling) (persist_end ok written i) c
   | Reported i ok \<Rightarrow> with_op i (\<lambda>x. op_kind x = Turn \<and> op_phase x = Reporting) (reported ok i) c
   | Close i \<Rightarrow> with_op i (\<lambda>x. op_kind x = Turn \<and> op_phase x = Closing) (finish i) c
   | CloseRaises i cleaned \<Rightarrow> with_op i (\<lambda>x. op_kind x = Turn \<and> op_phase x = Closing) (close_broken cleaned i) c
   | _ \<Rightarrow> None)"

definition cancel_step :: "co_event \<Rightarrow> coordinator \<Rightarrow> coordinator option" where
  "cancel_step ev c = (case ev of
     CancelRequest i \<Rightarrow> with_op i (\<lambda>x. is_cancellable (op_status x) \<and> op_status x \<noteq> Cancelling)
        (\<lambda>x. set_op i (x\<lparr>op_cancel_requested := True, op_status := Cancelling, op_deliver := True\<rparr>)) c
   | CancelDeliver i \<Rightarrow> with_op i op_deliver (cancel_deliver i) c
   | CancelDropped i \<Rightarrow> with_op i op_deliver (\<lambda>x. set_op i (x\<lparr>op_deliver := False\<rparr>)) c
   | _ \<Rightarrow> None)"

definition session_step :: "co_event \<Rightarrow> coordinator \<Rightarrow> coordinator option" where
  "session_step ev c = (case ev of
     OpStart i s \<Rightarrow> if co_op c i = None then Some (add_op i (new_operation s SessionOp) c) else None
   | OpQueue i \<Rightarrow> with_op i (\<lambda>x. op_kind x = SessionOp \<and> op_phase x = Starting)
        (\<lambda>x c. set_op i (x\<lparr>op_phase := AtLock\<rparr>) (enter_lock i x c)) c
   | OpReady i ok \<Rightarrow> with_op i (\<lambda>x. op_kind x = SessionOp \<and> op_phase x = Running \<and> \<not> op_agent x) (op_ready ok i) c
   | OpReturns i ok told \<Rightarrow> with_op i (\<lambda>x. op_kind x = SessionOp \<and> op_phase x = Running \<and> op_agent x) (op_returns ok told i) c
   | OpClosed i cleaned \<Rightarrow> with_op i (\<lambda>x. op_kind x = SessionOp \<and> op_phase x = OpClosing) (op_closed cleaned i) c
   | Dropped i \<Rightarrow> with_op i (\<lambda>x. if op_kind x = SessionOp then op_phase x \<noteq> Finished \<and> op_phase x \<noteq> OpClosing
        else op_phase x = Starting) (drop_request i) c
   | _ \<Rightarrow> None)"

text \<open>The parts take disjoint events; \<open>ServiceClose\<close> is \<open>close\<close>. Deleting a session removes its record
  of operations and its lock; as identifiers of sessions are not used again, the model keeps them.\<close>

definition or_else :: "'a option \<Rightarrow> 'a option \<Rightarrow> 'a option" where
  "or_else x y = (case x of None \<Rightarrow> y | Some z \<Rightarrow> Some z)"

lemma or_else_None [simp]: "or_else None y = y" "or_else x None = x"
  by (simp_all add: or_else_def split: option.split)

definition step :: "co_event \<Rightarrow> coordinator \<Rightarrow> coordinator option" where
  "step ev c = (if ev = ServiceClose then Some (signal_all c)
     else or_else (start_step ev c) (or_else (enter_step ev c) (or_else (turn_step ev c)
       (or_else (cancel_step ev c) (session_step ev c)))))"

lemma step_events:
  "step (TurnStart i s) c = (if co_op c i = None then Some (add_op i (new_operation s Turn) c) else None)"
  "step (TaskCreate i) c = (with_op i (\<lambda>x. op_kind x = Turn \<and> op_phase x = Starting) (\<lambda>x. set_op i (x\<lparr>op_phase := Created\<rparr>)) c)"
  "step (TaskBegin i) c = (with_op i (\<lambda>x. op_phase x = Created) (begin_task i) c)"
  "step (GetLock i) c = (with_op i (\<lambda>x. op_phase x = AtLock \<and> \<not> op_signal x \<and> hd (co_locks c (op_session x)) = i) (\<lambda>x c.
        set_op i (x\<lparr>op_phase := AtSlot\<rparr>) (c\<lparr>co_slots := co_slots c @ [i]\<rparr>)) c)"
  "step (GetSlot i) c = (with_op i (\<lambda>x. op_phase x = AtSlot \<and> \<not> op_signal x \<and> i \<in> set (take (co_capacity c) (co_slots c))) (take_slot i) c)"
  "step (AgentReady i) c = (with_op i (\<lambda>x. op_kind x = Turn \<and> op_phase x = Running \<and> \<not> op_agent x) (\<lambda>x. set_op i (x\<lparr>op_agent := True\<rparr>)) c)"
  "step (RunBound i) c = (with_op i (\<lambda>x. op_kind x = Turn \<and> op_phase x = Running \<and> op_agent x \<and> \<not> op_controller x)
        (\<lambda>x. set_op i (x\<lparr>op_controller := True\<rparr>)) c)"
  "step (RunReturns i stop) c = (with_op i (\<lambda>x. op_kind x = Turn \<and> op_phase x = Running \<and> op_controller x) (run_returns stop i) c)"
  "step (Recorded i ok written) c = (with_op i (\<lambda>x. op_kind x = Turn \<and> op_phase x = Recording) (recorded ok written i) c)"
  "step (Announced i) c = (with_op i (\<lambda>x. op_kind x = Turn \<and> op_phase x = Announcing) (announced i) c)"
  "step (TailDone i) c = (with_op i (\<lambda>x. op_kind x = Turn \<and> op_phase x = Ending) (tail_ends None i) c)"
  "step (TailRaises i) c = (with_op i (\<lambda>x. op_kind x = Turn \<and> op_phase x \<in> {Announcing, Ending}) (tail_ends (Some Failed) i) c)"
  "step (RunRaises i) c = (with_op i (\<lambda>x. op_kind x = Turn \<and> op_phase x = Running) (handle Failed i) c)"
  "step (InterruptedAt i effect) c = (with_op i (\<lambda>x. op_kind x = Turn \<and> op_signal x
        \<and> op_phase x \<in> {AtLock, AtSlot, Running, Recording, Announcing, Ending, Handling, Reporting, Closing}) (interrupt effect i) c)"
  "step (Persist i ok written) c = (with_op i (\<lambda>x. op_kind x = Turn \<and> op_phase x = Handling) (persist_end ok written i) c)"
  "step (Reported i ok) c = (with_op i (\<lambda>x. op_kind x = Turn \<and> op_phase x = Reporting) (reported ok i) c)"
  "step (Close i) c = (with_op i (\<lambda>x. op_kind x = Turn \<and> op_phase x = Closing) (finish i) c)"
  "step (CloseRaises i cleaned) c = (with_op i (\<lambda>x. op_kind x = Turn \<and> op_phase x = Closing) (close_broken cleaned i) c)"
  "step (CancelRequest i) c = (with_op i (\<lambda>x. is_cancellable (op_status x) \<and> op_status x \<noteq> Cancelling)
        (\<lambda>x. set_op i (x\<lparr>op_cancel_requested := True, op_status := Cancelling, op_deliver := True\<rparr>)) c)"
  "step (CancelDeliver i) c = (with_op i op_deliver (cancel_deliver i) c)"
  "step (CancelDropped i) c = (with_op i op_deliver (\<lambda>x. set_op i (x\<lparr>op_deliver := False\<rparr>)) c)"
  "step (OpStart i s) c = (if co_op c i = None then Some (add_op i (new_operation s SessionOp) c) else None)"
  "step (OpQueue i) c = (with_op i (\<lambda>x. op_kind x = SessionOp \<and> op_phase x = Starting)
        (\<lambda>x c. set_op i (x\<lparr>op_phase := AtLock\<rparr>) (enter_lock i x c)) c)"
  "step (OpReady i ok) c = (with_op i (\<lambda>x. op_kind x = SessionOp \<and> op_phase x = Running \<and> \<not> op_agent x) (op_ready ok i) c)"
  "step (OpReturns i ok told) c = (with_op i (\<lambda>x. op_kind x = SessionOp \<and> op_phase x = Running \<and> op_agent x) (op_returns ok told i) c)"
  "step (OpClosed i cleaned) c = (with_op i (\<lambda>x. op_kind x = SessionOp \<and> op_phase x = OpClosing) (op_closed cleaned i) c)"
  "step (Dropped i) c = (with_op i (\<lambda>x. if op_kind x = SessionOp then op_phase x \<noteq> Finished \<and> op_phase x \<noteq> OpClosing
        else op_phase x = Starting) (drop_request i) c)"
  "step ServiceClose c = Some (signal_all c)"
  by (simp_all add: step_def start_step_def enter_step_def turn_step_def cancel_step_def session_step_def)

fun run :: "co_event list \<Rightarrow> coordinator \<Rightarrow> coordinator option" where
  "run [] c = Some c"
| "run (ev # evs) c = Option.bind (step ev c) (run evs)"

inductive co_reach :: "coordinator \<Rightarrow> bool" where
  start: "co_reach (new_coordinator n)"
| step: "co_reach c \<Longrightarrow> step ev c = Some c' \<Longrightarrow> co_reach c'"

inductive_cases co_reachE: "co_reach c"

end
