(* ===== verification/OperationProps.thy ===== *)
theory OperationProps
  imports Operations
begin

text \<open>
  What the operations of the service keep: one operation at a time in the body of a session and no
  more in all than the semaphore admits, at most two recorded ends per turn, an end of all operations when
  nothing new arrives, and the operations that are never accounted for.
\<close>

section \<open>The invariant\<close>

text \<open>How far an operation is inside: at the lock, holding the lock and waiting for a slot, in the
  body.\<close>

fun depth :: "op_phase \<Rightarrow> nat" where
  "depth AtLock = 1"
| "depth AtSlot = 2"
| "depth Running = 3"
| "depth Recording = 3"
| "depth Announcing = 3"
| "depth Ending = 3"
| "depth OpClosing = 3"
| "depth _ = 0"

definition place :: "coordinator \<Rightarrow> string \<Rightarrow> (string \<times> nat) option" where
  "place c i = map_option (\<lambda>x. (op_session x, depth (op_phase x))) (co_op c i)"

definition queues_ok :: "coordinator \<Rightarrow> bool" where
  "queues_ok c \<longleftrightarrow> 1 \<le> co_capacity c \<and> distinct (co_order c) \<and> set (co_order c) = dom (place c)
     \<and> (\<forall>s. distinct (co_locks c s))
     \<and> (\<forall>s i. i \<in> set (co_locks c s) \<longleftrightarrow> (\<exists>d > 0. place c i = Some (s, d)))
     \<and> distinct (co_slots c) \<and> (\<forall>i. i \<in> set (co_slots c) \<longleftrightarrow> (\<exists>s d. d \<ge> 2 \<and> place c i = Some (s, d)))
     \<and> (\<forall>i s d. place c i = Some (s, d) \<longrightarrow> 2 \<le> d \<longrightarrow> hd (co_locks c s) = i)
     \<and> (\<forall>i s. place c i = Some (s, 3) \<longrightarrow> i \<in> set (take (co_capacity c) (co_slots c)))"

text \<open>What holds of each operation alone.\<close>

definition op_ok :: "operation \<Rightarrow> bool" where
  "op_ok x \<longleftrightarrow> length (op_run_ends x) \<le> 2 \<and> set (tl (op_run_ends x)) \<subseteq> {Failed, Cancelled}
     \<and> (op_phase x \<in> {Announcing, Ending, Handling} \<longrightarrow> length (op_run_ends x) \<le> 1)
     \<and> (op_phase x \<in> {Handling, Reporting} \<longrightarrow> op_status x \<in> {Failed, Cancelled})
     \<and> (op_phase x \<in> {Starting, Created, AtLock, AtSlot, Running, Recording} \<longrightarrow> op_run_ends x = [])
     \<and> (op_phase x \<in> {Starting, Created, AtLock, AtSlot, Running} \<longrightarrow> is_in_flight (op_status x))
     \<and> (op_phase x = OpClosing \<longrightarrow> op_kind x = SessionOp)
     \<and> (op_kind x = SessionOp \<longrightarrow> op_phase x \<in> {Starting, AtLock, AtSlot, Running, OpClosing, Finished}
         \<and> op_run_ends x = [] \<and> \<not> op_signal x)"

definition ops_ok :: "coordinator \<Rightarrow> bool" where
  "ops_ok c \<longleftrightarrow> (\<forall>i x. co_op c i = Some x \<longrightarrow> op_ok x)"

lemma queues_ok_cong:
  assumes "co_capacity c' = co_capacity c" "co_order c' = co_order c" "place c' = place c"
    "co_locks c' = co_locks c" "co_slots c' = co_slots c"
  shows "queues_ok c' = queues_ok c"
  unfolding queues_ok_def assms ..

lemma set_active_sel [simp]:
  "co_capacity (set_active s v c) = co_capacity c" "co_order (set_active s v c) = co_order c"
  "co_op (set_active s v c) = co_op c" "co_locks (set_active s v c) = co_locks c"
  "co_slots (set_active s v c) = co_slots c"
  by (simp_all add: set_active_def)

lemma set_op_sel [simp]:
  "co_capacity (set_op i x c) = co_capacity c" "co_order (set_op i x c) = co_order c"
  "co_op (set_op i x c) = (co_op c)(i \<mapsto> x)" "co_locks (set_op i x c) = co_locks c"
  "co_slots (set_op i x c) = co_slots c" "co_active (set_op i x c) = co_active c"
  by (simp_all add: set_op_def)

lemma set_active_if_sel [simp]:
  "co_op (if b then set_active s v c else c) = co_op c" "co_order (if b then set_active s v c else c) = co_order c"
  by simp_all

lemma leave_sel [simp]:
  "co_capacity (leave i x c) = co_capacity c" "co_order (leave i x c) = co_order c"
  "co_op (leave i x c) = co_op c" "co_slots (leave i x c) = removeAll i (co_slots c)"
  "co_locks (leave i x c) = (co_locks c)(op_session x := removeAll i (co_locks c (op_session x)))"
  "co_active (leave i x c) = co_active c"
  by (simp_all add: leave_def)

lemma enter_lock_sel [simp]:
  "co_capacity (enter_lock i x c) = co_capacity c" "co_order (enter_lock i x c) = co_order c"
  "co_op (enter_lock i x c) = co_op c" "co_slots (enter_lock i x c) = co_slots c"
  "co_locks (enter_lock i x c) = (co_locks c)(op_session x := co_locks c (op_session x) @ [i])"
  by (simp_all add: enter_lock_def)

lemma place_set_op [simp]:
  "place (set_op i x c) = (place c)(i \<mapsto> (op_session x, depth (op_phase x)))"
  by (rule ext) (simp add: place_def)

lemma place_same [simp]:
  "place (set_active s v c) = place c" "place (leave i x c) = place c" "place (enter_lock i x c) = place c"
  "place (c\<lparr>co_slots := q\<rparr>) = place c"
  by (rule ext, simp add: place_def)+

lemma queues_ok_set_active [simp]: "queues_ok (set_active s v c) = queues_ok c"
  by (rule queues_ok_cong) simp_all

lemma place_of: "co_op c i = Some x \<Longrightarrow> place c i = Some (op_session x, depth (op_phase x))"
  by (simp add: place_def)

lemma take_removeAll: "j \<in> set (take n xs) \<Longrightarrow> j \<noteq> i \<Longrightarrow> j \<in> set (take n (removeAll i xs))"
proof (induction xs arbitrary: n)
  case (Cons a xs)
  show ?case
  proof (cases n)
    case (Suc m)
    with Cons.prems consider "j = a" | "j \<in> set (take m xs)"
      by auto
    then show ?thesis
    proof cases
      case 2
      from Cons.IH [OF 2 Cons.prems(2)] show ?thesis
        using Suc set_take_subset_set_take [of m n "removeAll i xs"] by auto
    qed (use Suc Cons.prems in simp)
  qed (use Cons.prems in simp)
qed simp

lemma hd_removeAll: "hd xs = j \<Longrightarrow> xs \<noteq> [] \<Longrightarrow> j \<noteq> i \<Longrightarrow> hd (removeAll i xs) = j"
  by (cases xs) auto

text \<open>The five moves of the queues.\<close>

lemma queues_stay:
  assumes "queues_ok c" "co_op c i = Some x" "op_session y = op_session x" "depth (op_phase y) = depth (op_phase x)"
  shows "queues_ok (set_op i y c)"
proof -
  have "place (set_op i y c) = place c"
    using assms(2-4) by (auto simp: place_of)
  then show ?thesis
    using assms(1) queues_ok_cong [of "set_op i y c" c] by simp
qed

lemma queues_leave:
  assumes ok: "queues_ok c" and x: "co_op c i = Some x" and y: "op_session y = op_session x" "depth (op_phase y) = 0"
  shows "queues_ok (set_op i y (leave i x c))"
proof -
  let ?c = "set_op i y (leave i x c)"
  have p: "place ?c = (place c)(i \<mapsto> (op_session x, 0))"
    using y by simp
  have head: "hd (co_locks ?c s) = j" if "place ?c j = Some (s, d)" "2 \<le> d" for j s d
  proof -
    have j: "j \<noteq> i" "place c j = Some (s, d)"
      using that unfolding p by (auto split: if_splits)
    with ok that(2) have "hd (co_locks c s) = j" "j \<in> set (co_locks c s)"
      by (auto simp: queues_ok_def)
    with j(1) show ?thesis
      by (auto intro!: hd_removeAll)
  qed
  have members: "j \<in> set (co_locks ?c s) \<longleftrightarrow> (\<exists>d > 0. place ?c j = Some (s, d))" for j s
    using ok place_of [OF x] unfolding p by (auto simp: queues_ok_def)
  have slots: "j \<in> set (co_slots ?c) \<longleftrightarrow> (\<exists>s d. d \<ge> 2 \<and> place ?c j = Some (s, d))" for j
    using ok unfolding p by (auto simp: queues_ok_def)
  have inside: "j \<in> set (take (co_capacity ?c) (co_slots ?c))" if "place ?c j = Some (s, 3)" for j s
    using ok that unfolding p by (auto simp: queues_ok_def take_removeAll split: if_splits)
  have "distinct (co_locks ?c s)" for s
    using ok by (simp add: queues_ok_def distinct_removeAll)
  moreover have "set (co_order ?c) = dom (place ?c)"
    using ok place_of [OF x] unfolding p by (auto simp: queues_ok_def)
  ultimately show ?thesis
    using ok head members slots inside unfolding queues_ok_def
    by (simp add: distinct_removeAll)
qed

lemma queues_enter:
  assumes ok: "queues_ok c" and x: "co_op c i = Some x" "depth (op_phase x) = 0"
    and y: "op_session y = op_session x" "depth (op_phase y) = 1"
  shows "queues_ok (set_op i y (enter_lock i x c))"
proof -
  let ?c = "set_op i y (enter_lock i x c)"
  have p: "place ?c = (place c)(i \<mapsto> (op_session x, 1))"
    using y by simp
  have out: "i \<notin> set (co_locks c s)" for s
    using ok place_of [OF x(1)] x(2) by (simp add: queues_ok_def)
  have head: "hd (co_locks ?c s) = j" if "place ?c j = Some (s, d)" "2 \<le> d" for j s d
  proof -
    have "place c j = Some (s, d)"
      using that unfolding p by (auto split: if_splits)
    with ok that(2) have "hd (co_locks c s) = j" "j \<in> set (co_locks c s)"
      by (auto simp: queues_ok_def)
    then show ?thesis
      by (auto simp: hd_append)
  qed
  have members: "j \<in> set (co_locks ?c s) \<longleftrightarrow> (\<exists>d > 0. place ?c j = Some (s, d))" for j s
    using ok place_of [OF x(1)] x(2) unfolding p by (auto simp: queues_ok_def)
  have slots: "j \<in> set (co_slots ?c) \<longleftrightarrow> (\<exists>s d. d \<ge> 2 \<and> place ?c j = Some (s, d))" for j
    using ok place_of [OF x(1)] x(2) unfolding p by (auto simp: queues_ok_def)
  have "distinct (co_locks ?c s)" for s
    using ok out by (simp add: queues_ok_def)
  moreover have "set (co_order ?c) = dom (place ?c)"
    using ok place_of [OF x(1)] unfolding p by (auto simp: queues_ok_def)
  ultimately show ?thesis
    using ok head members slots unfolding queues_ok_def p
    by (auto split: if_splits)
qed

lemma queues_lock:
  assumes ok: "queues_ok c" and x: "co_op c i = Some x" "depth (op_phase x) = 1"
    and first: "hd (co_locks c (op_session x)) = i" and y: "op_session y = op_session x" "depth (op_phase y) = 2"
  shows "queues_ok (set_op i y (c\<lparr>co_slots := co_slots c @ [i]\<rparr>))"
proof -
  let ?c = "set_op i y (c\<lparr>co_slots := co_slots c @ [i]\<rparr>)"
  have p: "place ?c = (place c)(i \<mapsto> (op_session x, 2))"
    using y by simp
  have at: "place c i = Some (op_session x, 1)"
    using place_of [OF x(1)] x(2) by simp
  then have out: "i \<notin> set (co_slots c)"
    using ok by (auto simp: queues_ok_def)
  have members: "j \<in> set (co_locks ?c s) \<longleftrightarrow> (\<exists>d > 0. place ?c j = Some (s, d))" for j s
    using ok at unfolding p by (auto simp: queues_ok_def)
  have slots: "j \<in> set (co_slots ?c) \<longleftrightarrow> (\<exists>s d. d \<ge> 2 \<and> place ?c j = Some (s, d))" for j
    using ok at unfolding p by (auto simp: queues_ok_def)
  have inside: "j \<in> set (take (co_capacity ?c) (co_slots ?c))" if "place ?c j = Some (s, 3)" for j s
    using ok that unfolding p by (auto simp: queues_ok_def split: if_splits)
  have head: "hd (co_locks ?c s) = j" if "place ?c j = Some (s, d)" "2 \<le> d" for j s d
    using ok that first unfolding p by (auto simp: queues_ok_def split: if_splits)
  have "set (co_order ?c) = dom (place ?c)"
    using ok at unfolding p by (auto simp: queues_ok_def)
  then show ?thesis
    using ok out head members slots inside unfolding queues_ok_def by simp
qed

lemma queues_slot:
  assumes ok: "queues_ok c" and x: "co_op c i = Some x" "depth (op_phase x) = 2"
    and first: "i \<in> set (take (co_capacity c) (co_slots c))" and y: "op_session y = op_session x" "depth (op_phase y) = 3"
  shows "queues_ok (set_op i y c)"
proof -
  have p: "place (set_op i y c) = (place c)(i \<mapsto> (op_session x, 3))"
    using y by simp
  have at: "place c i = Some (op_session x, 2)"
    using place_of [OF x(1)] x(2) by simp
  have "set (co_order c) = dom (place (set_op i y c))"
    using ok at unfolding p by (auto simp: queues_ok_def)
  moreover have "j \<in> set (co_slots c) \<longleftrightarrow> (\<exists>s d. d \<ge> 2 \<and> place (set_op i y c) j = Some (s, d))" for j
    using ok at unfolding p by (auto simp: queues_ok_def)
  moreover have "j \<in> set (co_locks c s) \<longleftrightarrow> (\<exists>d > 0. place (set_op i y c) j = Some (s, d))" for j s
    using ok at unfolding p by (auto simp: queues_ok_def)
  moreover have "hd (co_locks c s) = j" if "place (set_op i y c) j = Some (s, d)" "2 \<le> d" for j s d
    using ok at that unfolding p by (auto simp: queues_ok_def split: if_splits)
  moreover have "j \<in> set (take (co_capacity c) (co_slots c))" if "place (set_op i y c) j = Some (s, 3)" for j s
    using ok first that unfolding p by (auto simp: queues_ok_def split: if_splits)
  ultimately show ?thesis
    using ok unfolding queues_ok_def by simp
qed

lemma queues_add:
  assumes ok: "queues_ok c" and i: "co_op c i = None" and x: "depth (op_phase x) = 0"
  shows "queues_ok (add_op i x c)"
proof -
  have p: "place (add_op i x c) = (place c)(i \<mapsto> (op_session x, 0))"
    by (rule ext) (simp add: place_def add_op_def x)
  have none: "place c i = None"
    using i by (simp add: place_def)
  then have out: "i \<notin> set (co_order c)" "\<And>s. i \<notin> set (co_locks c s)" "i \<notin> set (co_slots c)"
    using ok by (auto simp: queues_ok_def)
  have sel: "co_order (add_op i x c) = co_order c @ [i]" "co_locks (add_op i x c) = co_locks c"
    "co_slots (add_op i x c) = co_slots c" "co_capacity (add_op i x c) = co_capacity c"
    by (simp_all add: add_op_def)
  show ?thesis
    using ok none out unfolding queues_ok_def sel p by (auto split: if_splits)
qed

section \<open>Every step keeps the invariant\<close>

lemma with_op_Some [simp]: "with_op i P f c = Some c' \<longleftrightarrow> (\<exists>x. co_op c i = Some x \<and> P x \<and> c' = f x c)"
  by (auto simp: with_op_def split: option.splits)

lemma ops_ok_set_op [simp]: "ops_ok c \<Longrightarrow> op_ok y \<Longrightarrow> ops_ok (set_op i y c)"
  by (simp add: ops_ok_def)

lemma ops_ok_same [simp]:
  "ops_ok (set_active s v c) = ops_ok c" "ops_ok (leave i x c) = ops_ok c" "ops_ok (enter_lock i x c) = ops_ok c"
  "ops_ok (c\<lparr>co_slots := q\<rparr>) = ops_ok c"
  by (simp_all add: ops_ok_def)

definition co_ok :: "coordinator \<Rightarrow> bool" where
  "co_ok c \<longleftrightarrow> queues_ok c \<and> ops_ok c"

lemma co_okD: "co_ok c \<Longrightarrow> co_op c i = Some x \<Longrightarrow> op_ok x"
  by (simp add: co_ok_def ops_ok_def)

lemma co_ok_set_active [simp]: "co_ok (set_active s v c) = co_ok c"
  by (simp add: co_ok_def)

lemma set_active_if: "(if b then set_active s v c else c) = (if b then set_active s v else (\<lambda>c. c)) c"
  by simp

lemma co_ok_stay:
  "co_ok c \<Longrightarrow> co_op c i = Some x \<Longrightarrow> op_session y = op_session x \<Longrightarrow> depth (op_phase y) = depth (op_phase x)
    \<Longrightarrow> op_ok y \<Longrightarrow> co_ok (set_op i y c)"
  by (simp add: co_ok_def queues_stay)

lemma co_ok_leave:
  "co_ok c \<Longrightarrow> co_op c i = Some x \<Longrightarrow> op_session y = op_session x \<Longrightarrow> depth (op_phase y) = 0
    \<Longrightarrow> op_ok y \<Longrightarrow> co_ok (set_op i y (leave i x c))"
  by (simp add: co_ok_def queues_leave)

lemma co_ok_enter:
  "co_ok c \<Longrightarrow> co_op c i = Some x \<Longrightarrow> depth (op_phase x) = 0 \<Longrightarrow> op_session y = op_session x
    \<Longrightarrow> depth (op_phase y) = 1 \<Longrightarrow> op_ok y \<Longrightarrow> co_ok (set_op i y (enter_lock i x c))"
  by (simp add: co_ok_def queues_enter)

lemma set_op_commute: "set_op i y (set_active s v c) = set_active s v (set_op i y c)"
  "leave i x (set_active s v c) = set_active s v (leave i x c)"
  "leave i x (set_op i y c) = set_op i y (leave i x c)"
  by (simp_all add: set_op_def set_active_def leave_def)

lemma co_ok_handle:
  assumes "co_ok c" "co_op c i = Some x" "op_kind x = Turn" "op_phase x \<in> {Created, AtLock, AtSlot, Running, Recording}"
    and "st \<in> {Failed, Cancelled}" "length e \<le> 1"
  shows "co_ok (handle st i (x\<lparr>op_run_ends := e\<rparr>) c)"
proof -
  have "handle st i (x\<lparr>op_run_ends := e\<rparr>) c
      = set_op i (x\<lparr>op_run_ends := e, op_status := st, op_phase := Handling, op_signal := False, op_controller := False\<rparr>) (leave i x c)"
    by (simp add: handle_def leave_def)
  moreover have "tl e = []"
    using assms(6) by (cases e) auto
  ultimately show ?thesis
    using assms by (auto intro!: co_ok_leave simp: op_ok_def)
qed

lemma co_ok_handle_same:
  assumes "co_ok c" "co_op c i = Some x" "op_kind x = Turn" "op_phase x \<in> {Created, AtLock, AtSlot, Running}"
    and "st \<in> {Failed, Cancelled}"
  shows "co_ok (handle st i x c)"
proof -
  have "op_run_ends x = []"
    using co_okD [OF assms(1,2)] assms(4) by (auto simp: op_ok_def)
  then have "x\<lparr>op_run_ends := []\<rparr> = x"
    by (cases x) simp
  then show ?thesis
    using co_ok_handle [OF assms(1-3) _ assms(5), of "[]"] assms(4) by auto
qed

lemma co_ok_take_slot:
  assumes "co_ok c" "co_op c i = Some x" "op_phase x = AtSlot" "i \<in> set (take (co_capacity c) (co_slots c))"
  shows "co_ok (take_slot i x c)"
proof (cases "op_kind x = Turn \<and> op_cancel_requested x")
  case True
  with assms show ?thesis
    by (simp add: take_slot_def co_ok_handle_same)
next
  case False
  let ?y = "x\<lparr>op_status := Active, op_phase := Running\<rparr>"
  have "op_ok ?y"
    using co_okD [OF assms(1,2)] assms(3) by (simp add: op_ok_def)
  moreover have "queues_ok (set_op i ?y c)"
    using assms by (intro queues_slot [where x = x]) (simp_all add: co_ok_def)
  ultimately have "co_ok (set_op i ?y c)"
    using assms(1) by (simp add: co_ok_def)
  moreover have "take_slot i x c = set_active (op_session x) (Some i) (set_op i ?y c)"
    unfolding take_slot_def using False by (rule if_not_P)
  ultimately show ?thesis
    by simp
qed

lemma co_ok_run_returns:
  assumes "co_ok c" "co_op c i = Some x" "op_kind x = Turn" "op_phase x = Running"
  shows "co_ok (run_returns stop i x c)"
  using assms co_okD [OF assms(1,2)] unfolding run_returns_def by (intro co_ok_stay [OF assms(1,2)]) (simp_all add: op_ok_def)

lemma co_ok_recorded:
  assumes "co_ok c" "co_op c i = Some x" "op_kind x = Turn" "op_phase x = Recording"
  shows "co_ok (recorded ok written i x c)"
proof (cases ok)
  case True
  have "op_run_ends x = []"
    using co_okD [OF assms(1,2)] assms(4) by (simp add: op_ok_def)
  then have "co_ok (set_op i (x\<lparr>op_run_ends := [op_status x], op_pending_event := b, op_phase := ph\<rparr>) c)" if "ph \<in> {Ending, Announcing}" for b ph
    using assms that by (intro co_ok_stay [OF assms(1,2)]) (auto simp: op_ok_def)
  with True \<open>op_run_ends x = []\<close> show ?thesis
    by (simp add: recorded_def Let_def)
next
  case False
  have "op_run_ends x = []"
    using co_okD [OF assms(1,2)] assms(4) by (simp add: op_ok_def)
  with False assms show ?thesis
    by (simp add: recorded_def Let_def co_ok_handle)
qed

lemma co_ok_announced:
  assumes "co_ok c" "co_op c i = Some x" "op_kind x = Turn" "op_phase x = Announcing"
  shows "co_ok (announced i x c)"
  using assms co_okD [OF assms(1,2)] unfolding announced_def by (intro co_ok_stay [OF assms(1,2)]) (simp_all add: op_ok_def)

lemma co_ok_tail:
  assumes "co_ok c" "co_op c i = Some x" "op_kind x = Turn" "op_phase x \<in> {Announcing, Ending}"
  shows "co_ok (tail_ends st i (x\<lparr>op_signal := s, op_events := e\<rparr>) c)"
proof -
  have "tail_ends st i (x\<lparr>op_signal := s, op_events := e\<rparr>) c
      = set_op i (x\<lparr>op_signal := s, op_events := e, op_status := (case st of None \<Rightarrow> op_status x | Some t \<Rightarrow> t), op_phase := Closing\<rparr>) (leave i x c)"
    by (cases st) (simp_all add: tail_ends_def leave_def)
  moreover have "length (op_run_ends x) \<le> 1" "set (tl (op_run_ends x)) \<subseteq> {Failed, Cancelled}"
    using co_okD [OF assms(1,2)] assms(4) unfolding op_ok_def by blast+
  ultimately show ?thesis
    using assms(3) by (simp add: co_ok_leave [OF assms(1,2)] op_ok_def)
qed

lemma co_ok_tail_same:
  assumes "co_ok c" "co_op c i = Some x" "op_kind x = Turn" "op_phase x \<in> {Announcing, Ending}"
  shows "co_ok (tail_ends st i x c)"
  using co_ok_tail [OF assms, where st = st and s = "op_signal x" and e = "op_events x"] by simp

lemma co_ok_close_broken:
  assumes "co_ok c" "co_op c i = Some x" "op_kind x = Turn" "op_phase x = Closing"
  shows "co_ok (close_broken cleaned i x c)"
proof -
  have "co_ok (set_op i (x\<lparr>op_phase := Finished, op_signal := False, op_agent := a\<rparr>) c)" for a
    using co_okD [OF assms(1,2)] assms(3,4) by (simp add: co_ok_stay [OF assms(1,2)] op_ok_def)
  then show ?thesis
    by (simp add: close_broken_def set_op_commute)
qed

lemma co_ok_interrupt:
  assumes "co_ok c" "co_op c i = Some x" "op_kind x = Turn"
    "op_phase x \<in> {AtLock, AtSlot, Running, Recording, Announcing, Ending, Handling, Reporting, Closing}"
  shows "co_ok (interrupt effect i x c)"
proof -
  note ok = co_okD [OF assms(1,2)]
  consider "op_phase x = Recording" | "op_phase x = Announcing" | "op_phase x = Ending" | "op_phase x = Handling"
    | "op_phase x = Reporting" | "op_phase x = Closing" | "op_phase x \<in> {AtLock, AtSlot, Running}"
    using assms(4) by auto
  then show ?thesis
  proof cases
    case 1
    with ok have "op_run_ends x = []"
      by (simp add: op_ok_def)
    with 1 assms show ?thesis
      by (simp add: interrupt_def co_ok_handle)
  next
    case 2
    then show ?thesis
      using assms by (simp add: interrupt_def co_ok_tail)
  next
    case 3
    then show ?thesis
      using co_ok_tail [OF assms(1-3), where st = "Some Cancelled" and s = False and e = "op_events x"] by (simp add: interrupt_def)
  next
    case 4
    with ok have e: "length (op_run_ends x) \<le> 1" "op_status x \<in> {Failed, Cancelled}"
      by (simp_all add: op_ok_def)
    then have "length (op_run_ends x @ l) \<le> 2 \<and> set (tl (op_run_ends x @ l)) \<subseteq> {Failed, Cancelled}" if "l = [] \<or> l = [op_status x]" for l
      using that by (cases "op_run_ends x") auto
    with 4 ok assms(3) show ?thesis
      by (simp add: interrupt_def co_ok_stay [OF assms(1,2)] op_ok_def)
  next
    case 5
    then show ?thesis
      using ok assms(3) by (simp add: interrupt_def co_ok_stay [OF assms(1,2)] op_ok_def)
  next
    case 6
    then show ?thesis
      using assms by (simp add: interrupt_def co_ok_close_broken)
  next
    case 7
    then have "interrupt effect i x c = handle Cancelled i x c"
      by (auto simp: interrupt_def)
    with 7 show ?thesis
      using co_ok_handle_same [OF assms(1,2,3)] by auto
  qed
qed

lemma co_ok_finish:
  assumes "co_ok c" "co_op c i = Some x" "op_phase x = Closing"
  shows "co_ok (finish i x c)"
proof -
  have "co_ok (set_op i (x\<lparr>op_phase := Finished, op_agent := False, op_pending_event := False, op_events := e\<rparr>) c)" for e
    using co_okD [OF assms(1,2)] assms(3) by (simp add: co_ok_stay [OF assms(1,2)] op_ok_def)
  then show ?thesis
    by (simp add: finish_def set_op_commute)
qed

lemma co_ok_op_returns:
  assumes "co_ok c" "co_op c i = Some x" "op_kind x = SessionOp" "op_phase x = Running"
  shows "co_ok (op_returns ok told i x c)"
  using assms co_okD [OF assms(1,2)] unfolding op_returns_def Let_def by (intro co_ok_stay [OF assms(1,2)]) (simp_all add: op_ok_def)

lemma co_ok_op_closed:
  assumes "co_ok c" "co_op c i = Some x" "op_kind x = SessionOp"
  shows "co_ok (op_closed cleaned i x c)"
proof -
  have "co_ok (set_op i (x\<lparr>op_phase := Finished, op_agent := a\<rparr>) (leave i x c))" for a
    using co_okD [OF assms(1,2)] assms(3) by (simp add: co_ok_leave [OF assms(1,2)] op_ok_def)
  from this [of "op_agent x \<and> \<not> cleaned"] show ?thesis
    by (cases cleaned) (simp_all add: op_closed_def set_op_commute)
qed

lemma co_ok_drop:
  assumes "co_ok c" "co_op c i = Some x"
  shows "co_ok (drop_request i x c)"
proof -
  have "co_ok (set_op i (x\<lparr>op_phase := Finished, op_agent := False\<rparr>) (leave i x c))"
    using co_okD [OF assms] by (simp add: co_ok_leave [OF assms] op_ok_def)
  then show ?thesis
    by (simp add: drop_request_def Let_def)
qed

lemma co_ok_cancel:
  assumes "co_ok c" "co_op c i = Some x"
  shows "co_ok (cancel_deliver i x c)"
proof -
  have "op_ok (x\<lparr>op_deliver := False, op_signal := (op_signal x \<or> (op_kind x = Turn \<and> r))\<rparr>)" for r
    using co_okD [OF assms] by (auto simp: op_ok_def)
  then show ?thesis
    unfolding cancel_deliver_def by (intro co_ok_stay [OF assms]) simp_all
qed

lemma co_ok_add: "co_ok c \<Longrightarrow> co_op c i = None \<Longrightarrow> co_ok (add_op i (new_operation s k) c)"
  by (auto simp: co_ok_def new_operation_def queues_add) (auto simp: ops_ok_def add_op_def op_ok_def)

lemma co_ok_persist:
  assumes "co_ok c" "co_op c i = Some x" "op_kind x = Turn" "op_phase x = Handling"
  shows "co_ok (persist_end ok written i x c)"
proof -
  note ok = co_okD [OF assms(1,2)]
  with assms(4) have e: "length (op_run_ends x) \<le> 1" "op_status x \<in> {Failed, Cancelled}"
    by (simp_all add: op_ok_def)
  then have "length (op_run_ends x @ l) \<le> 2 \<and> set (tl (op_run_ends x @ l)) \<subseteq> {Failed, Cancelled}" if "l = [] \<or> l = [op_status x]" for l
    using that by (cases "op_run_ends x") auto
  with ok assms(3,4) e show ?thesis
    unfolding persist_end_def by (intro co_ok_stay [OF assms(1,2)]) (simp_all add: op_ok_def)
qed

lemma co_ok_reported:
  assumes "co_ok c" "co_op c i = Some x" "op_kind x = Turn" "op_phase x = Reporting"
  shows "co_ok (reported ok i x c)"
  using assms co_okD [OF assms(1,2)] unfolding reported_def by (intro co_ok_stay [OF assms(1,2)]) (simp_all add: op_ok_def)

lemma co_ok_signal_all:
  assumes "co_ok c"
  shows "co_ok (signal_all c)"
proof -
  have "place (signal_all c) = place c"
    by (rule ext) (auto simp: place_def signal_all_def option.map_comp o_def intro!: map_option_cong)
  then have "queues_ok (signal_all c) = queues_ok c"
    by (intro queues_ok_cong) (simp_all add: signal_all_def)
  moreover have "op_ok (x\<lparr>op_signal := True\<rparr>)" if "op_ok x" "op_kind x = Turn" for x
    using that by (simp add: op_ok_def)
  then have "ops_ok (signal_all c)"
    using assms by (auto simp: co_ok_def ops_ok_def signal_all_def split: if_splits)
  ultimately show ?thesis
    using assms by (simp add: co_ok_def)
qed

lemma co_ok_lock:
  assumes "co_ok c" "co_op c i = Some x" "op_phase x = AtLock" "hd (co_locks c (op_session x)) = i"
  shows "co_ok (set_op i (x\<lparr>op_phase := AtSlot\<rparr>) (c\<lparr>co_slots := co_slots c @ [i]\<rparr>))"
proof -
  have "op_ok (x\<lparr>op_phase := AtSlot\<rparr>)"
    using co_okD [OF assms(1,2)] assms(3) by (simp add: op_ok_def)
  moreover have "queues_ok (set_op i (x\<lparr>op_phase := AtSlot\<rparr>) (c\<lparr>co_slots := co_slots c @ [i]\<rparr>))"
    using assms by (intro queues_lock) (simp_all add: co_ok_def)
  ultimately show ?thesis
    using assms(1) by (simp add: co_ok_def)
qed

text \<open>The steps that only change the operation, and those that queue at the lock or leave.\<close>

lemma co_ok_create:
  assumes "co_ok c" "co_op c i = Some x" "op_phase x = Starting" "op_kind x = Turn"
  shows "co_ok (set_op i (x\<lparr>op_phase := Created\<rparr>) c)"
  using co_okD [OF assms(1,2)] assms(3,4) by (intro co_ok_stay [OF assms(1,2)]) (simp_all add: op_ok_def)

lemma co_ok_unstarted:
  assumes "co_ok c" "co_op c i = Some x" "op_phase x = Created"
  shows "co_ok (set_op i (x\<lparr>op_phase := Finished, op_signal := False\<rparr>) c)"
  using co_okD [OF assms(1,2)] assms(3) by (intro co_ok_stay [OF assms(1,2)]) (simp_all add: op_ok_def)

lemma co_ok_queue:
  assumes "co_ok c" "co_op c i = Some x" "op_phase x = Starting \<or> op_phase x = Created"
  shows "co_ok (set_op i (x\<lparr>op_phase := AtLock\<rparr>) (enter_lock i x c))"
proof (rule co_ok_enter [OF assms(1,2)])
  show "depth (op_phase x) = 0"
    using assms(3) by (elim disjE) simp_all
  show "op_ok (x\<lparr>op_phase := AtLock\<rparr>)"
    using co_okD [OF assms(1,2)] assms(3) by (elim disjE) (simp_all add: op_ok_def)
qed simp_all

lemma co_ok_flags:
  assumes "co_ok c" "co_op c i = Some x"
  shows "co_ok (set_op i (x\<lparr>op_agent := a\<rparr>) c)" "co_ok (set_op i (x\<lparr>op_controller := a\<rparr>) c)"
    "co_ok (set_op i (x\<lparr>op_deliver := a\<rparr>) c)"
  by (rule co_ok_stay [OF assms], use co_okD [OF assms] in \<open>simp_all add: op_ok_def\<close>)+

lemma co_ok_cancelling:
  assumes "co_ok c" "co_op c i = Some x" "is_cancellable (op_status x)"
  shows "co_ok (set_op i (x\<lparr>op_cancel_requested := True, op_status := Cancelling, op_deliver := True\<rparr>) c)"
proof -
  have "op_status x \<notin> {Failed, Cancelled}"
    using assms(3) by (auto simp: is_cancellable_def)
  then have "op_phase x \<notin> {Handling, Reporting}"
    using co_okD [OF assms(1,2)] unfolding op_ok_def by blast
  then show ?thesis
    using co_okD [OF assms(1,2)] by (intro co_ok_stay [OF assms(1,2)]) (simp_all add: op_ok_def)
qed

lemma co_ok_unready:
  assumes "co_ok c" "co_op c i = Some x" "op_kind x = SessionOp"
  shows "co_ok (set_op i (x\<lparr>op_phase := Finished\<rparr>) (leave i x c))"
  using co_okD [OF assms(1,2)] assms(3) by (intro co_ok_leave [OF assms(1,2)]) (simp_all add: op_ok_def)

lemma co_ok_begin:
  assumes "co_ok c" "co_op c i = Some x" "op_phase x = Created"
  shows "co_ok (begin_task i x c)"
  using assms by (simp add: begin_task_def co_ok_unstarted co_ok_queue)

lemma co_ok_ready:
  assumes "co_ok c" "co_op c i = Some x" "op_kind x = SessionOp"
  shows "co_ok (op_ready ok i x c)"
  using assms by (simp add: op_ready_def co_ok_flags co_ok_unready)

lemmas co_ok_steps = co_ok_handle_same co_ok_take_slot co_ok_run_returns co_ok_recorded co_ok_announced co_ok_tail_same
  co_ok_close_broken co_ok_interrupt co_ok_finish co_ok_op_returns co_ok_op_closed co_ok_drop co_ok_cancel co_ok_add
  co_ok_create co_ok_queue co_ok_flags co_ok_cancelling co_ok_lock co_ok_persist co_ok_reported co_ok_begin co_ok_ready

lemma step_keeps_ok:
  assumes "co_ok c" "step ev c = Some c'"
  shows "co_ok c'"
proof (cases ev)
  case ServiceClose
  with assms co_ok_signal_all [OF assms(1)] show ?thesis
    by (simp add: step_def)
qed (use assms in \<open>auto simp: step_events co_ok_steps split: if_split_asm\<close>)

lemma co_reach_ok: "co_reach c \<Longrightarrow> co_ok c"
proof (induction rule: co_reach.induct)
  case (start n)
  then show ?case
    by (auto simp: co_ok_def queues_ok_def ops_ok_def new_coordinator_def place_def)
qed (rule step_keeps_ok)

section \<open>One operation at a time\<close>

definition in_body :: "coordinator \<Rightarrow> string \<Rightarrow> bool" where
  "in_body c i \<longleftrightarrow> (case co_op c i of Some x \<Rightarrow> op_phase x \<in> {Running, Recording, Announcing, Ending, OpClosing} | None \<Rightarrow> False)"

lemma in_body_place: "in_body c i \<longleftrightarrow> (\<exists>s. place c i = Some (s, 3))"
proof -
  have "depth p = 3 \<longleftrightarrow> p \<in> {Running, Recording, Announcing, Ending, OpClosing}" for p
    by (cases p) simp_all
  then show ?thesis
    by (auto simp: in_body_def place_def split: option.splits)
qed

lemma set_take_card: "card (set (take n xs)) \<le> n"
  by (metis card_length length_take min.cobounded2 order_trans)


lemma co_reach_run: "co_reach c \<Longrightarrow> run evs c = Some c' \<Longrightarrow> co_reach c'"
  by (induction evs arbitrary: c) (auto simp: bind_eq_Some_conv intro: co_reach.step)

lemmas co_reach_from_start = co_reach_run [OF co_reach.start]

definition two_turns :: "co_event list" where
  "two_turns = [TurnStart ''a'' ''s'', TaskCreate ''a'', TurnStart ''b'' ''s'', TaskCreate ''b'', TaskBegin ''a'',
     TaskBegin ''b'', GetLock ''a'', GetSlot ''a'', AgentReady ''a'', RunBound ''a'']"

definition after_two_turns :: coordinator where
  "after_two_turns = the (run two_turns (new_coordinator 2))"

lemma two_turns_run: "run two_turns (new_coordinator 2) = Some after_two_turns"
proof -
  have "run two_turns (new_coordinator 2) \<noteq> None"
    by code_simp
  then show ?thesis
    by (simp add: after_two_turns_def)
qed


section \<open>Operations come to an end\<close>

text \<open>What comes from outside: requests, a client that goes away, the end of the service. All other
  events are progress of the operations themselves.\<close>

fun external :: "co_event \<Rightarrow> bool" where
  "external (TurnStart _ _) = True"
| "external (OpStart _ _) = True"
| "external (CancelRequest _) = True"
| "external (Dropped _) = True"
| "external ServiceClose = True"
| "external _ = False"

fun phase_weight :: "op_phase \<Rightarrow> nat" where
  "phase_weight Starting = 11"
| "phase_weight Created = 10"
| "phase_weight AtLock = 9"
| "phase_weight AtSlot = 8"
| "phase_weight Running = 7"
| "phase_weight Recording = 6"
| "phase_weight Announcing = 5"
| "phase_weight Ending = 4"
| "phase_weight Handling = 3"
| "phase_weight Reporting = 2"
| "phase_weight OpClosing = 1"
| "phase_weight Closing = 1"
| "phase_weight Finished = 0"

definition weight :: "operation \<Rightarrow> nat" where
  "weight x = 4 * phase_weight (op_phase x) + of_bool (op_deliver x)
     + (if op_phase x = Running then of_bool (\<not> op_agent x) + of_bool (\<not> op_controller x) else 0)"

definition load :: "coordinator \<Rightarrow> nat" where
  "load c = (\<Sum>i \<in> set (co_order c). weight (the (co_op c i)))"

lemma load_set_op:
  assumes "co_ok c" "co_op c i = Some x" "co_op c' = (co_op c)(i \<mapsto> y)" "co_order c' = co_order c" "weight y < weight x"
  shows "load c' < load c"
proof -
  have "i \<in> set (co_order c)"
    using assms(1,2) by (auto simp: co_ok_def queues_ok_def place_def)
  moreover have "(\<Sum>j \<in> set (co_order c) - {i}. weight (the (co_op c' j))) = (\<Sum>j \<in> set (co_order c) - {i}. weight (the (co_op c j)))"
    using assms(3) by (intro sum.cong) auto
  ultimately show ?thesis
    using assms(2-5) by (simp add: load_def sum.remove [of "set (co_order c)" i])
qed

lemma load_handle:
  assumes "co_ok c" "co_op c i = Some x" "phase_weight (op_phase x) > 3" "op_phase y = op_phase x" "op_deliver y = op_deliver x"
  shows "load (handle st i y c) < load c"
  unfolding handle_def by (rule load_set_op [OF assms(1,2)], simp, simp, use assms(3-) in \<open>simp add: weight_def\<close>)

lemma load_take_slot:
  assumes "co_ok c" "co_op c i = Some x" "op_phase x = AtSlot"
  shows "load (take_slot i x c) < load c"
proof (cases "op_kind x = Turn \<and> op_cancel_requested x")
  case False
  have "load (set_active (op_session x) (Some i) (set_op i (x\<lparr>op_status := Active, op_phase := Running\<rparr>) c)) < load c"
    by (rule load_set_op [OF assms(1,2)], simp, simp, simp add: weight_def assms(3))
  moreover have "take_slot i x c = set_active (op_session x) (Some i) (set_op i (x\<lparr>op_status := Active, op_phase := Running\<rparr>) c)"
    unfolding take_slot_def using False by (rule if_not_P)
  ultimately show ?thesis
    by simp
qed (use assms load_handle in \<open>simp add: take_slot_def\<close>)

lemma load_tail:
  assumes "co_ok c" "co_op c i = Some x" "op_phase x \<in> {Announcing, Ending}" "op_deliver y = op_deliver x"
  shows "load (tail_ends st i y c) < load c"
  unfolding tail_ends_def by (rule load_set_op [OF assms(1,2)], simp, simp, use assms(3,4) in \<open>auto simp: weight_def\<close>)

lemma load_close_broken:
  assumes "co_ok c" "co_op c i = Some x" "op_phase x = Closing"
  shows "load (close_broken cleaned i x c) < load c"
  by (rule load_set_op [OF assms(1,2)], simp add: close_broken_def, simp add: close_broken_def, simp add: weight_def assms(3))

lemma load_same:
  assumes "co_ok c" "co_op c i = Some x"
  shows "phase_weight (op_phase x) > 3 \<Longrightarrow> load (handle st i x c) < load c"
    "op_phase x \<in> {Announcing, Ending} \<Longrightarrow> load (tail_ends t i x c) < load c"
  by (simp_all add: load_handle [OF assms] load_tail [OF assms])

lemma load_turn:
  assumes "co_ok c" "co_op c i = Some x"
  shows "op_phase x = Running \<Longrightarrow> load (run_returns stop i x c) < load c"
    "op_phase x = Recording \<Longrightarrow> load (recorded ok written i x c) < load c"
    "op_phase x = Announcing \<Longrightarrow> load (announced i x c) < load c"
    "op_phase x = Reporting \<Longrightarrow> load (reported ok i x c) < load c"
proof -
  note set = load_set_op [OF assms]
  show "op_phase x = Running \<Longrightarrow> load (run_returns stop i x c) < load c"
    unfolding run_returns_def by (rule set, simp, simp, simp add: weight_def)
  show "op_phase x = Announcing \<Longrightarrow> load (announced i x c) < load c"
    unfolding announced_def by (rule set, simp, simp, simp add: weight_def)
  show "op_phase x = Reporting \<Longrightarrow> load (reported ok i x c) < load c"
    unfolding reported_def by (rule set, simp, simp, simp add: weight_def)
  have "op_phase x = Recording \<Longrightarrow> ph \<in> {Ending, Announcing} \<Longrightarrow>
      load (set_op i (x\<lparr>op_run_ends := e, op_pending_event := b, op_phase := ph\<rparr>) c) < load c" for e b ph
    by (rule set, simp, simp, auto simp: weight_def)
  then show "op_phase x = Recording \<Longrightarrow> load (recorded ok written i x c) < load c"
    by (cases ok) (simp_all add: recorded_def Let_def load_handle [OF assms])
qed

lemma load_interrupt:
  assumes "co_ok c" "co_op c i = Some x"
    "op_phase x \<in> {AtLock, AtSlot, Running, Recording, Announcing, Ending, Handling, Reporting, Closing}"
  shows "load (interrupt effect i x c) < load c"
proof -
  consider "op_phase x = Recording" | "op_phase x = Announcing" | "op_phase x = Ending" | "op_phase x = Handling"
    | "op_phase x = Reporting" | "op_phase x = Closing" | "op_phase x \<in> {AtLock, AtSlot, Running}"
    using assms(3) by auto
  then show ?thesis
  proof cases
    case 4
    have "load (set_op i (x\<lparr>op_phase := Closing, op_signal := False, op_run_ends := e\<rparr>) c) < load c" for e
      by (rule load_set_op [OF assms(1,2)], simp, simp, simp add: weight_def 4)
    with 4 show ?thesis
      unfolding interrupt_def by simp
  next
    case 5
    have "load (set_op i (x\<lparr>op_phase := Closing, op_signal := False, op_events := e\<rparr>) c) < load c" for e
      by (rule load_set_op [OF assms(1,2)], simp, simp, simp add: weight_def 5)
    with 5 show ?thesis
      unfolding interrupt_def by simp
  next
    case 7
    then have "interrupt effect i x c = handle Cancelled i x c" "phase_weight (op_phase x) > 3"
      by (auto simp: interrupt_def)
    then show ?thesis
      using load_handle [OF assms(1,2)] by simp
  qed (simp_all add: interrupt_def load_handle [OF assms(1,2)] load_tail [OF assms(1,2)] load_close_broken [OF assms(1,2)])
qed

lemma load_closed:
  assumes "co_ok c" "co_op c i = Some x"
  shows "op_phase x = Closing \<Longrightarrow> load (finish i x c) < load c"
    "op_phase x = Handling \<Longrightarrow> load (persist_end ok written i x c) < load c"
    "op_phase x = Created \<Longrightarrow> load (begin_task i x c) < load c"
    "op_phase x = Running \<Longrightarrow> load (op_returns ok told i x c) < load c"
    "op_phase x = Running \<Longrightarrow> \<not> op_agent x \<Longrightarrow> load (op_ready ok i x c) < load c"
    "op_phase x = OpClosing \<Longrightarrow> load (op_closed cleaned i x c) < load c"
    "op_deliver x \<Longrightarrow> load (cancel_deliver i x c) < load c"
proof -
  note set = load_set_op [OF assms]
  show "op_phase x = Closing \<Longrightarrow> load (finish i x c) < load c"
    by (rule set, simp add: finish_def, simp add: finish_def, simp add: weight_def)
  show "op_phase x = Handling \<Longrightarrow> load (persist_end ok written i x c) < load c"
    unfolding persist_end_def by (rule set, simp, simp, simp add: weight_def)
  show "op_phase x = Created \<Longrightarrow> load (begin_task i x c) < load c"
    by (cases "op_signal x"; simp add: begin_task_def; rule set, simp, simp, simp add: weight_def)
  show "op_phase x = Running \<Longrightarrow> load (op_returns ok told i x c) < load c"
    unfolding op_returns_def Let_def by (rule set, simp, simp, simp add: weight_def)
  show "op_phase x = Running \<Longrightarrow> \<not> op_agent x \<Longrightarrow> load (op_ready ok i x c) < load c"
    by (cases ok; simp add: op_ready_def; rule set, simp, simp, simp add: weight_def)
  show "op_phase x = OpClosing \<Longrightarrow> load (op_closed cleaned i x c) < load c"
    by (rule set, simp add: op_closed_def, simp add: op_closed_def, simp add: weight_def)
  show "op_deliver x \<Longrightarrow> load (cancel_deliver i x c) < load c"
    unfolding cancel_deliver_def by (rule set, simp, simp, simp add: weight_def)
qed

lemma load_flags:
  assumes "co_ok c" "co_op c i = Some x"
  shows "op_phase x = Starting \<Longrightarrow> load (set_op i (x\<lparr>op_phase := Created\<rparr>) c) < load c"
    "op_phase x = Running \<Longrightarrow> \<not> op_agent x \<Longrightarrow> load (set_op i (x\<lparr>op_agent := True\<rparr>) c) < load c"
    "op_phase x = Running \<Longrightarrow> \<not> op_controller x \<Longrightarrow> load (set_op i (x\<lparr>op_controller := True\<rparr>) c) < load c"
    "op_deliver x \<Longrightarrow> load (set_op i (x\<lparr>op_deliver := False\<rparr>) c) < load c"
    "op_phase x = Starting \<Longrightarrow> load (set_op i (x\<lparr>op_phase := AtLock\<rparr>) (enter_lock i x c)) < load c"
    "op_phase x = AtLock \<Longrightarrow> load (set_op i (x\<lparr>op_phase := AtSlot\<rparr>) (c\<lparr>co_slots := q\<rparr>)) < load c"
  by (rule load_set_op [OF assms], simp, simp, simp add: weight_def)+

lemmas load_steps = load_same load_take_slot load_turn load_close_broken load_interrupt load_closed load_flags

lemma progress_decreases:
  assumes "co_ok c" "step ev c = Some c'" "\<not> external ev"
  shows "load c' < load c"
  using assms
  apply (cases ev; hypsubst; simp add: step_events split: if_split_asm)
  apply (elim exE conjE, simp add: load_steps)+
  done

lemma progress_bounded:
  "co_ok c \<Longrightarrow> run evs c = Some c' \<Longrightarrow> \<forall>ev \<in> set evs. \<not> external ev \<Longrightarrow> co_ok c' \<and> length evs + load c' \<le> load c"
proof (induction evs arbitrary: c)
  case (Cons ev evs)
  then obtain c1 where c1: "step ev c = Some c1" "run evs c1 = Some c'"
    by (auto simp: bind_eq_Some_conv)
  with Cons have "load c1 < load c" "co_ok c1"
    using progress_decreases step_keeps_ok by auto
  with Cons c1 show ?case
    by fastforce
qed simp

definition can_progress :: "coordinator \<Rightarrow> bool" where
  "can_progress c \<longleftrightarrow> (\<exists>ev c'. \<not> external ev \<and> step ev c = Some c')"

lemma can_progressI: "step ev c = Some c' \<Longrightarrow> \<not> external ev \<Longrightarrow> can_progress c"
  unfolding can_progress_def by blast

lemma signalled_progress:
  assumes "co_op c i = Some x" "op_kind x = Turn" "op_signal x" "op_phase x \<in> {AtLock, AtSlot}"
  shows "can_progress c"
  by (rule can_progressI [of "InterruptedAt i True"]) (use assms in \<open>auto simp: step_events\<close>)

lemma runs_progress:
  assumes "co_ok c" "co_op c i = Some x" "op_phase x \<notin> {AtLock, AtSlot, Finished}"
  shows "can_progress c"
proof -
  have turn: "op_kind x = Turn" if "op_phase x \<in> {Recording, Announcing, Ending, Handling, Reporting, Closing}"
  proof (rule ccontr)
    assume "op_kind x \<noteq> Turn"
    then have "op_kind x = SessionOp"
      by (cases "op_kind x") simp_all
    then have "op_phase x \<in> {Starting, AtLock, AtSlot, Running, OpClosing, Finished}"
      using co_okD [OF assms(1,2)] by (simp add: op_ok_def)
    with that show False
      by (elim insertE) simp_all
  qed
  have closing: "op_kind x = SessionOp" if "op_phase x = OpClosing"
    using co_okD [OF assms(1,2)] that by (simp add: op_ok_def)
  show ?thesis
  proof (cases "op_phase x")
    case Starting
    show ?thesis
    proof (cases "op_kind x")
      case Turn
      with Starting assms(2) show ?thesis
        by (auto simp: step_events intro!: can_progressI [of "TaskCreate i"])
    next
      case SessionOp
      with Starting assms(2) show ?thesis
        by (auto simp: step_events intro!: can_progressI [of "OpQueue i"])
    qed
  next
    case Created
    then show ?thesis
      using assms(2) by (auto simp: step_events intro!: can_progressI [of "TaskBegin i"])
  next
    case Running
    show ?thesis
    proof (cases "op_kind x")
      case Turn
      consider "\<not> op_agent x" | "op_agent x" "\<not> op_controller x" | "op_controller x"
        by blast
      then show ?thesis
      proof cases
        case 1
        with Running Turn assms(2) show ?thesis
          by (auto simp: step_events intro!: can_progressI [of "AgentReady i"])
      next
        case 2
        with Running Turn assms(2) show ?thesis
          by (auto simp: step_events intro!: can_progressI [of "RunBound i"])
      next
        case 3
        with Running Turn assms(2) show ?thesis
          by (auto simp: step_events intro!: can_progressI [of "RunReturns i []"])
      qed
    next
      case SessionOp
      show ?thesis
      proof (cases "op_agent x")
        case True
        with Running SessionOp assms(2) show ?thesis
          by (auto simp: step_events intro!: can_progressI [of "OpReturns i True True"])
      next
        case False
        with Running SessionOp assms(2) show ?thesis
          by (auto simp: step_events intro!: can_progressI [of "OpReady i True"])
      qed
    qed
  next
    case Recording
    then show ?thesis
      using turn assms(2) by (auto simp: step_events intro!: can_progressI [of "Recorded i True True"])
  next
    case Announcing
    then show ?thesis
      using turn assms(2) by (auto simp: step_events intro!: can_progressI [of "Announced i"])
  next
    case Ending
    then show ?thesis
      using turn assms(2) by (auto simp: step_events intro!: can_progressI [of "TailDone i"])
  next
    case Handling
    then show ?thesis
      using turn assms(2) by (auto simp: step_events intro!: can_progressI [of "Persist i True True"])
  next
    case Reporting
    then show ?thesis
      using turn assms(2) by (auto simp: step_events intro!: can_progressI [of "Reported i True"])
  next
    case Closing
    then show ?thesis
      using turn assms(2) by (auto simp: step_events intro!: can_progressI [of "Close i"])
  next
    case OpClosing
    then have "op_kind x = SessionOp"
      using closing by simp
    with OpClosing show ?thesis
      using assms(2) by (auto simp: step_events intro!: can_progressI [of "OpClosed i True"])
  qed (use assms(3) in simp_all)
qed

lemma slots_progress:
  assumes ok: "co_ok c" and "co_slots c \<noteq> []"
  shows "can_progress c"
proof -
  let ?j = "hd (co_slots c)"
  have "?j \<in> set (co_slots c)"
    using assms(2) by simp
  then obtain s d where "place c ?j = Some (s, d)" "d \<ge> 2"
    using ok by (auto simp: co_ok_def queues_ok_def)
  then obtain x where x: "co_op c ?j = Some x" "depth (op_phase x) \<ge> 2"
    by (auto simp: place_def)
  have first: "?j \<in> set (take (co_capacity c) (co_slots c))"
    using ok assms(2) by (cases "co_slots c"; cases "co_capacity c") (auto simp: co_ok_def queues_ok_def)
  show ?thesis
  proof (cases "op_phase x = AtSlot")
    case True
    show ?thesis
    proof (cases "op_signal x")
      case True
      then have "op_kind x = Turn"
        using co_okD [OF ok x(1)] by (cases "op_kind x") (auto simp: op_ok_def)
      with True \<open>op_phase x = AtSlot\<close> signalled_progress [OF x(1)] show ?thesis
        by simp
    next
      case False
      with True x(1) first show ?thesis
        by (auto simp: step_events intro!: can_progressI [of "GetSlot ?j"])
    qed
  next
    case False
    moreover have "op_phase x \<noteq> AtLock" "op_phase x \<noteq> Finished"
      using x(2) by auto
    ultimately show ?thesis
      using runs_progress [OF ok x(1)] by simp
  qed
qed

lemma unfinished_progress:
  assumes ok: "co_ok c" and x: "co_op c i = Some x" "op_phase x \<noteq> Finished"
  shows "can_progress c"
proof (cases "op_phase x = AtLock \<and> co_slots c = []")
  case True
  let ?j = "hd (co_locks c (op_session x))"
  have "i \<in> set (co_locks c (op_session x))"
    using ok place_of [OF x(1)] True by (auto simp: co_ok_def queues_ok_def)
  then have "?j \<in> set (co_locks c (op_session x))"
    by (cases "co_locks c (op_session x)") auto
  then obtain d where d: "place c ?j = Some (op_session x, d)" "d > 0"
    using ok by (auto simp: co_ok_def queues_ok_def)
  moreover have "\<not> d \<ge> 2"
    using ok True d by (auto simp: co_ok_def queues_ok_def)
  ultimately obtain y where y: "co_op c ?j = Some y" "op_session y = op_session x" "depth (op_phase y) = 1"
    by (auto simp: place_def)
  then have at: "op_phase y = AtLock"
    by (cases "op_phase y") simp_all
  show ?thesis
  proof (cases "op_signal y")
    case True
    then have "op_kind y = Turn"
      using co_okD [OF ok y(1)] by (cases "op_kind y") (auto simp: op_ok_def)
    with True at signalled_progress [OF y(1)] show ?thesis
      by simp
  next
    case False
    with y at show ?thesis
      by (auto simp: step_events intro!: can_progressI [of "GetLock ?j"])
  qed
next
  case False
  show ?thesis
  proof (cases "op_phase x \<in> {AtLock, AtSlot}")
    case True
    with False have "co_slots c \<noteq> []"
      using ok place_of [OF x(1)] by (fastforce simp: co_ok_def queues_ok_def)
    with slots_progress [OF ok] show ?thesis .
  qed (use runs_progress [OF ok x(1)] x(2) in simp)
qed

definition all_finished :: "coordinator \<Rightarrow> bool" where
  "all_finished c \<longleftrightarrow> (\<forall>i \<in> set (co_order c). case co_op c i of Some x \<Rightarrow> op_phase x = Finished | None \<Rightarrow> True)"

lemma stuck_finished:
  assumes "co_ok c" "\<not> can_progress c"
  shows "all_finished c \<and> (\<forall>s. co_locks c s = []) \<and> co_slots c = []"
proof -
  have fin: "op_phase x = Finished" if "co_op c i = Some x" for i x
    using unfinished_progress [OF assms(1) that] assms(2) by blast
  have "co_locks c s = []" for s
  proof (rule ccontr)
    assume "co_locks c s \<noteq> []"
    then obtain i where "i \<in> set (co_locks c s)"
      by (cases "co_locks c s") auto
    then have "\<exists>d > 0. place c i = Some (s, d)"
      using assms(1) by (auto simp: co_ok_def queues_ok_def)
    with fin show False
      by (auto simp: place_def)
  qed
  moreover have "co_slots c = []"
    using slots_progress [OF assms(1)] assms(2) by blast
  ultimately show ?thesis
    using fin by (simp add: all_finished_def split: option.split)
qed

text \<open>C26. Without new requests the operations of a service make at most \<open>load\<close> more steps, and when
  none of them can make a step any more, every operation is at its end and every lock and slot is
  free: no order of requests, cancellations and disconnections leads to a deadlock.\<close>

theorem operations_drain:
  assumes "co_reach c" "run evs c = Some c'" "\<forall>ev \<in> set evs. \<not> external ev"
  shows "length evs + load c' \<le> load c
     \<and> (\<not> can_progress c' \<longrightarrow> all_finished c' \<and> (\<forall>s. co_locks c' s = []) \<and> co_slots c' = [])"
  using progress_bounded [OF co_reach_ok [OF assms(1)] assms(2,3)] stuck_finished by blast

definition drain_two_turns :: "co_event list" where
  "drain_two_turns = [RunReturns ''a'' ''stop'', Recorded ''a'' True True, Announced ''a'', TailDone ''a'', GetLock ''b'', GetSlot ''b'',
     Close ''a'', AgentReady ''b'', RunRaises ''b'', Persist ''b'' True True, Reported ''b'' True, Close ''b'']"

theorem operations_drain_witness:
  "\<exists>c'. run drain_two_turns after_two_turns = Some c' \<and> 12 + load c' \<le> load after_two_turns \<and> all_finished c'"
proof -
  let ?c = "the (run drain_two_turns after_two_turns)"
  have "run drain_two_turns after_two_turns \<noteq> None \<and> (\<forall>ev \<in> set drain_two_turns. \<not> external ev)
      \<and> length drain_two_turns = 12 \<and> all_finished ?c"
    by code_simp
  with operations_drain [OF co_reach_from_start [OF two_turns_run], of drain_two_turns ?c] show ?thesis
    by auto
qed

section \<open>Operations that are never accounted for\<close>

definition leaked :: "coordinator \<Rightarrow> string \<Rightarrow> string \<Rightarrow> bool" where
  "leaked c s i \<longleftrightarrow> (\<exists>x. co_op c i = Some x \<and> op_session x = s \<and> op_phase x = Finished \<and> is_in_flight (op_status x))"

lemma leaked_other: "leaked c s i \<Longrightarrow> co_op c' i = co_op c i \<Longrightarrow> leaked c' s i"
  by (simp add: leaked_def)

lemma op_of_other [simp]:
  "i \<noteq> j \<Longrightarrow> co_op (handle st j x c) i = co_op c i" "i \<noteq> j \<Longrightarrow> co_op (take_slot j x c) i = co_op c i"
  "i \<noteq> j \<Longrightarrow> co_op (run_returns stop j x c) i = co_op c i" "i \<noteq> j \<Longrightarrow> co_op (finish j x c) i = co_op c i"
  "i \<noteq> j \<Longrightarrow> co_op (cancel_deliver j x c) i = co_op c i" "i \<noteq> j \<Longrightarrow> co_op (op_returns ok told j x c) i = co_op c i"
  "i \<noteq> j \<Longrightarrow> co_op (drop_request j x c) i = co_op c i" "i \<noteq> j \<Longrightarrow> co_op (persist_end ok written j x c) i = co_op c i"
  "i \<noteq> j \<Longrightarrow> co_op (begin_task j x c) i = co_op c i" "i \<noteq> j \<Longrightarrow> co_op (op_ready ok j x c) i = co_op c i"
  "i \<noteq> j \<Longrightarrow> co_op (add_op j x c) i = co_op c i" "i \<noteq> j \<Longrightarrow> co_op (recorded ok written j x c) i = co_op c i"
  "i \<noteq> j \<Longrightarrow> co_op (announced j x c) i = co_op c i" "i \<noteq> j \<Longrightarrow> co_op (reported ok j x c) i = co_op c i"
  "i \<noteq> j \<Longrightarrow> co_op (tail_ends t j x c) i = co_op c i" "i \<noteq> j \<Longrightarrow> co_op (op_closed cleaned j x c) i = co_op c i"
  "i \<noteq> j \<Longrightarrow> co_op (close_broken cleaned j x c) i = co_op c i"
  by (simp_all add: handle_def take_slot_def run_returns_def finish_def cancel_deliver_def op_returns_def drop_request_def
      persist_end_def begin_task_def op_ready_def add_op_def recorded_def announced_def reported_def tail_ends_def
      op_closed_def close_broken_def Let_def)

lemma interrupt_other [simp]: "i \<noteq> j \<Longrightarrow> co_op (interrupt e j x c) i = co_op c i"
  by (cases "op_phase x") (simp_all add: interrupt_def)

fun subject :: "co_event \<Rightarrow> string option" where
  "subject (TurnStart i _) = Some i"
| "subject (TaskCreate i) = Some i"
| "subject (TaskBegin i) = Some i"
| "subject (GetLock i) = Some i"
| "subject (GetSlot i) = Some i"
| "subject (AgentReady i) = Some i"
| "subject (RunBound i) = Some i"
| "subject (RunReturns i _) = Some i"
| "subject (Recorded i _ _) = Some i"
| "subject (Announced i) = Some i"
| "subject (TailRaises i) = Some i"
| "subject (Reported i _) = Some i"
| "subject (CloseRaises i _) = Some i"
| "subject (OpClosed i _) = Some i"
| "subject (RunRaises i) = Some i"
| "subject (InterruptedAt i _) = Some i"
| "subject (Persist i _ _) = Some i"
| "subject (TailDone i) = Some i"
| "subject (Close i) = Some i"
| "subject (CancelRequest i) = Some i"
| "subject (CancelDeliver i) = Some i"
| "subject (CancelDropped i) = Some i"
| "subject (OpStart i _) = Some i"
| "subject (OpQueue i) = Some i"
| "subject (OpReady i _) = Some i"
| "subject (OpReturns i _ _) = Some i"
| "subject (Dropped i) = Some i"
| "subject ServiceClose = None"

lemma step_other: "step ev c = Some c' \<Longrightarrow> subject ev = Some j \<Longrightarrow> i \<noteq> j \<Longrightarrow> co_op c' i = co_op c i"
  by (cases ev) (auto simp: step_events split: if_split_asm)

lemma step_finished:
  assumes "step ev c = Some c'" "subject ev = Some i" "co_op c i = Some x" "op_phase x = Finished"
  shows "ev \<in> {CancelRequest i, CancelDeliver i, CancelDropped i}"
  by (cases ev) (use assms in \<open>auto simp: step_events split: if_split_asm\<close>)

text \<open>A step can only change the status of a finished operation to \<open>cancelling\<close>.\<close>

lemma leaked_step:
  assumes "leaked c s i" "step ev c = Some c'"
  shows "leaked c' s i"
proof -
  obtain x where x: "co_op c i = Some x" "op_session x = s" "op_phase x = Finished" "is_in_flight (op_status x)"
    using assms(1) by (auto simp: leaked_def)
  consider "ev = ServiceClose" | j where "subject ev = Some j" "i \<noteq> j" | "subject ev = Some i"
    by (cases "subject ev"; cases ev) auto
  then show ?thesis
  proof cases
    case 1
    with assms(2) x show ?thesis
      by (auto simp: step_events leaked_def signal_all_def)
  next
    case 2
    with assms(1) step_other [OF assms(2)] show ?thesis
      by (simp add: leaked_def)
  next
    case 3
    with step_finished [OF assms(2) _ x(1,3)] assms(2) x show ?thesis
      by (auto simp: step_events leaked_def cancel_deliver_def)
  qed
qed

lemma leaked_run: "leaked c s i \<Longrightarrow> run evs c = Some c' \<Longrightarrow> leaked c' s i"
  by (induction evs arbitrary: c) (auto simp: bind_eq_Some_conv dest: leaked_step)

lemma leaked_guards:
  assumes "co_ok c" "leaked c s i"
  shows "delete_guard s c = Inl (RuntimeFailure ''busy'' ''Cannot delete a session with active operations'')"
    "shutdown_guard c = Inl (RpcError ''busy'' ''Runtime has active operations'')"
proof -
  have i: "of_session c s i" "in_flight c i" "i \<in> set (co_order c)"
    using assms by (auto simp: leaked_def of_session_def in_flight_def co_ok_def queues_ok_def place_def)
  then have "filter (\<lambda>i. of_session c s i \<and> in_flight c i) (co_order c) \<noteq> []" "filter (in_flight c) (co_order c) \<noteq> []"
    by (auto simp: filter_empty_conv)
  then show "delete_guard s c = Inl (RuntimeFailure ''busy'' ''Cannot delete a session with active operations'')"
    "shutdown_guard c = Inl (RpcError ''busy'' ''Runtime has active operations'')"
    by (simp_all add: delete_guard_def shutdown_guard_def session_active_count_def active_count_def)
qed

lemma leaked_forever:
  assumes "co_ok c" "leaked c s i" "run evs c = Some c'"
  shows "delete_guard s c' = Inl (RuntimeFailure ''busy'' ''Cannot delete a session with active operations'')
    \<and> shutdown_guard c' = Inl (RpcError ''busy'' ''Runtime has active operations'')"
proof -
  have "co_ok c'"
    using assms(1,3) by (induction evs arbitrary: c) (auto simp: bind_eq_Some_conv intro: step_keeps_ok)
  with leaked_run [OF assms(2,3)] leaked_guards show ?thesis
    by blast
qed

text \<open>C27. A compaction or navigation whose request is abandoned before it returns (the connection of
  the client closes, which cancels the task of the request) stays in flight for ever: whatever
  happens afterwards, its session cannot be deleted and the runtime refuses to shut down.\<close>

theorem abandoned_operation_blocks_session:
  assumes "co_reach c" "co_op c i = Some x" "op_kind x = SessionOp"
    and "step (Dropped i) c = Some c1" "run evs c1 = Some c2"
  shows "delete_guard (op_session x) c2 = Inl (RuntimeFailure ''busy'' ''Cannot delete a session with active operations'')
    \<and> shutdown_guard c2 = Inl (RpcError ''busy'' ''Runtime has active operations'')"
proof -
  have ok: "co_ok c"
    using assms(1) by (rule co_reach_ok)
  have live: "op_phase x \<noteq> Finished \<and> op_phase x \<noteq> OpClosing" and c1: "c1 = drop_request i x c"
    using assms(2-4) by (simp_all add: step_events)
  then have "is_in_flight (op_status x)"
    using co_okD [OF ok assms(2)] assms(3) by (auto simp: op_ok_def)
  then have "leaked c1 (op_session x) i"
    using c1 by (simp add: leaked_def drop_request_def Let_def)
  with leaked_forever [OF step_keeps_ok [OF ok assms(4)] _ assms(5)] show ?thesis .
qed

definition compaction_dropped :: "co_event list" where
  "compaction_dropped = [OpStart ''k'' ''s'', OpQueue ''k'', GetLock ''k'', GetSlot ''k'', OpReady ''k'' True]"

theorem abandoned_operation_blocks_session_witness:
  "\<exists>c c1. run compaction_dropped (new_coordinator 1) = Some c \<and> step (Dropped ''k'') c = Some c1
    \<and> shutdown_guard c1 = Inl (RpcError ''busy'' ''Runtime has active operations'')"
proof -
  let ?c = "the (run compaction_dropped (new_coordinator 1))"
  let ?x = "the (co_op ?c ''k'')" and ?c1 = "the (step (Dropped ''k'') ?c)"
  have "run compaction_dropped (new_coordinator 1) \<noteq> None \<and> co_op ?c ''k'' \<noteq> None \<and> op_kind ?x = SessionOp"
    by code_simp
  moreover have "step (Dropped ''k'') ?c \<noteq> None"
    by code_simp
  ultimately have c: "run compaction_dropped (new_coordinator 1) = Some ?c" "co_op ?c ''k'' = Some ?x"
      "op_kind ?x = SessionOp" "step (Dropped ''k'') ?c = Some ?c1"
    by (simp_all del: run.simps)
  from abandoned_operation_blocks_session [OF co_reach_from_start [OF c(1)] c(2-4), of "[]"] c show ?thesis
    by auto
qed

section \<open>Turns that end without a trace\<close>

text \<open>A turn that is cancelled before the first step of its task: the task ends without running its
  handlers, the run has no recorded end and the operation stays in flight.\<close>

definition cancelled_unstarted :: "co_event list" where
  "cancelled_unstarted = [TurnStart ''a'' ''s'', CancelRequest ''a'', TaskCreate ''a'', CancelDeliver ''a'', TaskBegin ''a'']"

lemma cancelled_unstarted_leaks:
  "(case run cancelled_unstarted (new_coordinator 1) of None \<Rightarrow> False | Some c \<Rightarrow> (case co_op c ''a'' of None \<Rightarrow> False
     | Some x \<Rightarrow> op_phase x = Finished \<and> op_status x = Cancelling \<and> op_run_ends x = [] \<and> op_events x = []
       \<and> isl (shutdown_guard c)))"
  by code_simp

text \<open>An agent that cannot be built for a compaction leaves the operation active.\<close>

lemma unbuilt_agent_leaks:
  "(case run [OpStart ''k'' ''s'', OpQueue ''k'', GetLock ''k'', GetSlot ''k'', OpReady ''k'' False] (new_coordinator 1) of
     None \<Rightarrow> False | Some c \<Rightarrow> status_of c ''k'' = Some Active \<and> co_active c ''s'' = Some ''k'' \<and> co_locks c ''s'' = []
       \<and> isl (shutdown_guard c))"
  by code_simp

text \<open>The service closes while the handler of a cancelled turn records its end: neither the end nor
  the event of the operation is written.\<close>

lemma interrupted_twice_loses_end:
  "(case run [TurnStart ''a'' ''s'', TaskCreate ''a'', TaskBegin ''a'', GetLock ''a'', GetSlot ''a'', CancelRequest ''a'',
       CancelDeliver ''a'', InterruptedAt ''a'' True, ServiceClose, InterruptedAt ''a'' False, Close ''a''] (new_coordinator 1) of
     None \<Rightarrow> False | Some c \<Rightarrow> (case co_op c ''a'' of None \<Rightarrow> False
     | Some x \<Rightarrow> op_status x = Cancelled \<and> op_run_ends x = [] \<and> op_events x = []))"
  by code_simp

text \<open>The service closes while the end of a completed turn is written: the write is joined before the
  cancellation goes on, the handler does not know of it and records a second end.\<close>

definition one_turn :: "co_event list" where
  "one_turn = [TurnStart ''a'' ''s'', TaskCreate ''a'', TaskBegin ''a'', GetLock ''a'', GetSlot ''a'', AgentReady ''a'',
     RunBound ''a'', RunReturns ''a'' ''stop'']"

lemma interrupted_recording_writes_two_ends:
  "(case run (one_turn @ [ServiceClose, InterruptedAt ''a'' True, Persist ''a'' True True, Close ''a'']) (new_coordinator 1) of
     None \<Rightarrow> False | Some c \<Rightarrow> (case co_op c ''a'' of None \<Rightarrow> False
     | Some x \<Rightarrow> op_run_ends x = [Completed, Cancelled] \<and> op_events x = [Cancelled]))"
  by code_simp

text \<open>The guard of \<open>session_delete\<close> looks at the statuses only: a completed turn that is still in its
  body (the automatic title appends to the session) does not keep its session from being deleted.\<close>

lemma deletable_while_ending:
  "(case run (one_turn @ [Recorded ''a'' True True, Announced ''a'']) (new_coordinator 1) of
     None \<Rightarrow> False | Some c \<Rightarrow> in_body c ''a'' \<and> delete_guard ''s'' c = Inr ())"
  by code_simp

end
