(* ===== verification/Redaction.thy ===== *)
theory Redaction
  imports PyText
begin

text \<open>
  What leaves the runtime: \<^verbatim>\<open>runtime/projection.py\<close>, the secret values and the public form of the
  configuration in \<^verbatim>\<open>config.py\<close>. A configuration is here what these functions read of it: the keys
  and headers of its providers and the key of the web search; \<open>public_config\<close> works on the dumped
  document.
\<close>

section \<open>Text\<close>

text \<open>\<open>str.lower\<close> for the characters of the model.\<close>

definition py_lower_char :: "char \<Rightarrow> char" where
  "py_lower_char c = (let n = (of_char c :: nat) in
     if 65 \<le> n \<and> n \<le> 90 \<or> 192 \<le> n \<and> n \<le> 214 \<or> 216 \<le> n \<and> n \<le> 222 then char_of (n + 32) else c)"

definition py_lower :: "string \<Rightarrow> string" where
  "py_lower s = map py_lower_char s"

definition stars :: string where "stars = ''***''"

section \<open>Secrets of a configuration\<close>

record provider_config =
  pc_api_key :: "string option"
  pc_headers :: "(string, string) dict"

record secret_config =
  sc_providers :: "(string, provider_config) dict"
  sc_search_key :: "string option"

definition sensitive_headers :: "string list" where
  "sensitive_headers = [''api-key'', ''authorization'', ''cookie'', ''proxy-authorization'', ''set-cookie'', ''x-api-key'', ''x-auth-token'']"

definition is_sensitive_header :: "string \<Rightarrow> bool" where
  "is_sensitive_header name \<longleftrightarrow> py_lower (str_strip name) \<in> set sensitive_headers"

definition key_value :: "string option \<Rightarrow> string list" where
  "key_value k = (case k of Some s \<Rightarrow> if s \<noteq> [] then [s] else [] | None \<Rightarrow> [])"

definition secrets_of_provider :: "provider_config \<Rightarrow> string list" where
  "secrets_of_provider p = key_value (pc_api_key p)
     @ map snd (filter (\<lambda>(n, v). v \<noteq> [] \<and> is_sensitive_header n) (pc_headers p))"

text \<open>\<open>dict.fromkeys\<close> keeps the first of equal values.\<close>

definition first_of_equals :: "'a list \<Rightarrow> 'a list" where
  "first_of_equals xs = rev (remdups (rev xs))"

definition provider_secret_values :: "secret_config \<Rightarrow> string list" where
  "provider_secret_values c = first_of_equals
     (concat (map (\<lambda>(i, p). secrets_of_provider p) (sc_providers c)) @ key_value (sc_search_key c))"

section \<open>Projection\<close>

definition hidden_keys :: "string list" where
  "hidden_keys = [''api_key'', ''authorization'', ''systemprompt'', ''payload'']"

definition hidden_key :: "string \<Rightarrow> bool" where
  "hidden_key k \<longleftrightarrow> py_lower k \<in> set hidden_keys"

fun json_safe :: "json \<Rightarrow> json" where
  "json_safe (JObj d) = JObj (filter (\<lambda>kv. \<not> hidden_key (fst kv)) (map (\<lambda>kv. (fst kv, json_safe (snd kv))) d))"
| "json_safe (JList xs) = JList (map json_safe xs)"
| "json_safe v = v"

definition safe_mapping :: "json \<Rightarrow> (string, json) dict" where
  "safe_mapping v = (case v of JObj d \<Rightarrow> map (\<lambda>(k, x). (k, json_safe x)) d | _ \<Rightarrow> [])"

definition sanitize :: "secret_config \<Rightarrow> string \<Rightarrow> string" where
  "sanitize c message = fold (\<lambda>secret s. py_replace secret stars s) (provider_secret_values c) (take 4000 message)"

section \<open>The public configuration\<close>

definition update_key :: "string \<Rightarrow> (json \<Rightarrow> json) \<Rightarrow> (string, json) dict \<Rightarrow> (string, json) dict" where
  "update_key k f d = map (\<lambda>(k', v). (k', if k' = k then f v else v)) d"

definition on_obj :: "((string, json) dict \<Rightarrow> (string, json) dict) \<Rightarrow> json \<Rightarrow> json" where
  "on_obj f v = (case v of JObj d \<Rightarrow> JObj (f d) | _ \<Rightarrow> v)"

definition mask :: "json \<Rightarrow> json" where
  "mask v = (if truthy v then JStr stars else v)"

definition redact_sensitive_headers :: "(string, json) dict \<Rightarrow> (string, json) dict" where
  "redact_sensitive_headers d = map (\<lambda>(n, v). (n, if is_sensitive_header n then JStr stars else v)) d"

definition sensitive_words :: "string list" where
  "sensitive_words = [''password'', ''passwd'', ''apikey'', ''api_key'', ''api-key'', ''authorization'', ''authheader'',
     ''auth_header'', ''auth-header'', ''cookie'', ''secret'', ''token'', ''credential'']"

definition sensitive_config_key :: "string \<Rightarrow> bool" where
  "sensitive_config_key k \<longleftrightarrow> list_ex (contains (py_lower k)) sensitive_words"

fun redact_plugin_values :: "string \<Rightarrow> json \<Rightarrow> json" where
  "redact_plugin_values key (JObj d) = (if sensitive_config_key key then JStr stars
     else JObj (map (\<lambda>kv. (fst kv, redact_plugin_values (fst kv) (snd kv))) d))"
| "redact_plugin_values key (JList xs) = (if sensitive_config_key key then JStr stars
     else JList (map (redact_plugin_values key) xs))"
| "redact_plugin_values key v = (if sensitive_config_key key then JStr stars else v)"

definition redact_provider :: "json \<Rightarrow> json" where
  "redact_provider v = on_obj (\<lambda>d. update_key ''headers'' (on_obj redact_sensitive_headers) (update_key ''api_key'' mask d)) v"

definition public_config :: "bool \<Rightarrow> (string, json) dict \<Rightarrow> (string, json) dict" where
  "public_config show_secrets value = (if show_secrets then value
     else update_key ''plugins'' (redact_plugin_values [])
       (update_key ''tools'' (on_obj (update_key ''web'' (on_obj (update_key ''search'' (on_obj (update_key ''api_key'' mask))))))
         (update_key ''providers'' (on_obj (map (\<lambda>(i, p). (i, redact_provider p)))) value)))"

section \<open>No secret in a sanitized text\<close>

lemma sanitized_step:
  assumes "secret \<in> set secrets" "CHR ''*'' \<notin> set secret" "secret \<noteq> []"
  shows "\<not> contains (fold (\<lambda>secret s. py_replace secret stars s) secrets t) secret"
proof -
  have apart: "set stars \<inter> set secret = {}" "stars \<noteq> []"
    using assms(2) by (auto simp: stars_def)
  have keep: "\<not> contains (fold (\<lambda>secret s. py_replace secret stars s) rest u) secret" if "\<not> contains u secret" for rest u
    using that replace_brings_nothing [OF apart assms(3)] by (induction rest arbitrary: u) auto
  from assms(1) show ?thesis
    using keep replace_removes [OF apart assms(3)] by (induction secrets arbitrary: t) auto
qed

lemma secret_values_nonempty: "s \<in> set (provider_secret_values c) \<Longrightarrow> s \<noteq> []"
  by (auto simp: provider_secret_values_def first_of_equals_def secrets_of_provider_def key_value_def
      split: option.splits if_splits)


definition sample_config :: secret_config where
  "sample_config = \<lparr>sc_providers = [(''a'', \<lparr>pc_api_key = Some ''sk-1'', pc_headers = [(''X-Api-Key'', ''k2''), (''Accept'', ''x'')]\<rparr>)],
     sc_search_key = None\<rparr>"


text \<open>The text is cut before the secrets are replaced: of a secret that lies across the cut, all but
  the last character can remain.\<close>

lemma cut_secret_remains:
  assumes "length secret > 1" "length secret \<le> 4000" "CHR '' '' \<notin> set secret"
  shows "sanitize \<lparr>sc_providers = [], sc_search_key = Some secret\<rparr> (replicate (4001 - length secret) CHR '' '' @ secret)
    = replicate (4001 - length secret) CHR '' '' @ butlast secret"
proof -
  have sec: "provider_secret_values \<lparr>sc_providers = [], sc_search_key = Some secret\<rparr> = [secret]"
    using assms(1) by (auto simp: provider_secret_values_def key_value_def first_of_equals_def)
  have "\<not> contains (butlast secret) secret"
    using assms(1) contains_length [of "butlast secret" secret] by auto
  moreover have "secret \<noteq> []" "set (replicate n CHR '' '') \<inter> set secret = {}" for n
    using assms(1,3) by auto
  ultimately have "\<not> contains (replicate n CHR '' '' @ butlast secret) secret" for n
    using contains_fresh_prefix by blast
  moreover have "take 4000 (replicate (4001 - length secret) CHR '' '' @ secret)
      = replicate (4001 - length secret) CHR '' '' @ butlast secret"
    using assms(1,2) by (simp add: butlast_conv_take)
  ultimately show ?thesis
    by (simp add: sanitize_def sec py_replace_id)
qed

section \<open>Hidden keys\<close>

text \<open>Some object of a document has a key that must not be shown.\<close>

fun shows_hidden :: "json \<Rightarrow> bool" where
  "shows_hidden (JObj d) = (\<exists>kv \<in> set d. hidden_key (fst kv) \<or> shows_hidden (snd kv))"
| "shows_hidden (JList xs) = (\<exists>x \<in> set xs. shows_hidden x)"
| "shows_hidden v = False"

lemma json_safe_hides: "\<not> shows_hidden (json_safe v)"
  by (induction v rule: json_safe.induct) auto

lemma json_safe_idem: "json_safe (json_safe v) = json_safe v"
  by (induction v rule: json_safe.induct) (auto simp: filter_map o_def intro!: map_cong)

text \<open>The keys of the mapping itself are kept by \<open>safe_mapping\<close>.\<close>

lemma safe_mapping_shows_key: "safe_mapping (JObj [(''api_key'', JStr ''sk'')]) = [(''api_key'', JStr ''sk'')]"
  by (simp add: safe_mapping_def)

fun shows_sensitive :: "string \<Rightarrow> json \<Rightarrow> bool" where
  "shows_sensitive key (JObj d) = (sensitive_config_key key \<or> (\<exists>kv \<in> set d. shows_sensitive (fst kv) (snd kv)))"
| "shows_sensitive key (JList xs) = (sensitive_config_key key \<or> (\<exists>x \<in> set xs. shows_sensitive key x))"
| "shows_sensitive key v = (sensitive_config_key key \<and> v \<noteq> JStr stars)"

lemma redacted_plugins_hide: "\<not> shows_sensitive key (redact_plugin_values key v)"
  by (induction key v rule: redact_plugin_values.induct) auto

end
