(* ===== verification/TurnBlocks.thy ===== *)
theory TurnBlocks
  imports Redaction SessionTree
begin

text \<open>
  The blocks of a turn as the service shows them while it runs (\<open>_run_event\<close> of
  \<^verbatim>\<open>runtime/service.py\<close>), \<open>_message_blocks\<close> and the helpers that turn messages and tool results
  into them, and \<open>artifacts_from_tool_result\<close> of \<^verbatim>\<open>runtime/artifacts.py\<close>. A block is a document;
  an artifact is the document of its fields. The statistics sent with the usage are a parameter.
\<close>

type_synonym block = "(string, json) dict"

section \<open>Helpers\<close>

text \<open>\<open>value in {...}\<close> for a set of strings: a list or a dictionary has no hash.\<close>

definition in_strings :: "json \<Rightarrow> string list \<Rightarrow> exn + bool" where
  "in_strings v xs = (case v of JStr s \<Rightarrow> Inr (s \<in> set xs) | JList _ \<Rightarrow> Inl TypeError | JObj _ \<Rightarrow> Inl TypeError | _ \<Rightarrow> Inr False)"

definition as_mapping :: "json \<Rightarrow> exn + (string, json) dict" where
  "as_mapping v = (case v of JObj d \<Rightarrow> Inr d | _ \<Rightarrow> Inl attribute_error)"

definition TOOL_OUTPUT_LIMIT :: nat where "TOOL_OUTPUT_LIMIT = 20000"

definition public_key :: "string \<Rightarrow> bool" where
  "public_key k \<longleftrightarrow> \<not> starts_with k ''_''"

definition clean_block :: "block \<Rightarrow> json" where
  "clean_block b = JObj (map (\<lambda>(k, v). (k, json_safe v)) (filter (\<lambda>(k, v). v \<noteq> JNull \<and> public_key k) b))"

definition content_text :: "json \<Rightarrow> string" where
  "content_text raw = (case raw of
      JList items \<Rightarrow> take TOOL_OUTPUT_LIMIT (join_with lf (map (\<lambda>item. str_or (jget (obj_of item) ''text'') []) (filter is_obj items)))
    | _ \<Rightarrow> [])"

definition tool_text :: "json \<Rightarrow> string" where
  "tool_text raw = (case raw of JObj d \<Rightarrow> take TOOL_OUTPUT_LIMIT (content_text (jget d ''content'')) | _ \<Rightarrow> [])"

definition attempt_block_id :: "string \<Rightarrow> int \<Rightarrow> string" where
  "attempt_block_id source attempt = (if attempt \<le> 0 then source else ''attempt-'' @ show_int attempt @ ''-'' @ source)"

section \<open>Artifacts\<close>

definition MAX_PRESENTED_FILES :: nat where "MAX_PRESENTED_FILES = 24"

definition artifact_of :: "json \<Rightarrow> json list" where
  "artifact_of v = (case v of
      JObj d \<Rightarrow> (case (map_of d ''path'', map_of d ''name'', map_of d ''mime_type'', map_of d ''size_bytes'', map_of d ''kind'') of
          (Some p, Some n, Some m, Some s, Some k) \<Rightarrow>
            (case py_int s of Inr i \<Rightarrow> [JObj [(''path'', JStr (py_str p)), (''name'', JStr (py_str n)), (''mime_type'', JStr (py_str m)),
                (''size_bytes'', JInt i), (''kind'', JStr (py_str k))]]
             | Inl _ \<Rightarrow> [])
        | _ \<Rightarrow> [])
    | _ \<Rightarrow> [])"

definition artifacts_from_tool_result :: "json \<Rightarrow> json list" where
  "artifacts_from_tool_result raw = (case raw of
      JObj d \<Rightarrow> (case jget d ''details'' of
          JObj details \<Rightarrow> (case jget details ''artifacts'' of
              JList values \<Rightarrow> concat (map artifact_of (take MAX_PRESENTED_FILES values))
            | _ \<Rightarrow> [])
        | _ \<Rightarrow> [])
    | _ \<Rightarrow> [])"

section \<open>Blocks of a message\<close>

definition text_block :: "string \<Rightarrow> int \<Rightarrow> string \<Rightarrow> string \<Rightarrow> string \<Rightarrow> block" where
  "text_block source attempt role content status = [(''id'', JStr (attempt_block_id source attempt)), (''type'', JStr ''text''),
     (''role'', JStr role), (''content'', JStr content), (''status'', JStr status), (''_attempt'', JInt attempt)]"

definition thinking_block :: "string \<Rightarrow> int \<Rightarrow> string \<Rightarrow> block" where
  "thinking_block source attempt content = [(''id'', JStr (attempt_block_id source attempt)), (''type'', JStr ''thinking''),
     (''content'', JStr content), (''status'', JStr ''completed''), (''_attempt'', JInt attempt)]"

definition tool_block :: "string \<Rightarrow> int \<Rightarrow> string \<Rightarrow> (string, json) dict \<Rightarrow> string \<Rightarrow> string \<Rightarrow> block" where
  "tool_block block_id attempt name arguments status source = [(''id'', JStr block_id), (''type'', JStr ''tool_call''),
     (''name'', JStr name), (''arguments'', JObj arguments), (''status'', JStr status), (''_attempt'', JInt attempt),
     (''_source_id'', JStr source)]"

fun content_blocks :: "int \<Rightarrow> nat \<Rightarrow> nat \<Rightarrow> nat \<Rightarrow> json list \<Rightarrow> block list" where
  "content_blocks attempt i texts thinkings [] = []"
| "content_blocks attempt i texts thinkings (raw # rest) = (case raw of
      JObj d \<Rightarrow>
        if jget d ''type'' = JStr ''text''
        then text_block (''text-'' @ show_nat texts) attempt ''final'' (str_or (jget d ''text'') []) ''completed''
          # content_blocks attempt (i + 1) (texts + 1) thinkings rest
        else if jget d ''type'' = JStr ''thinking''
        then thinking_block (''thinking-'' @ show_nat thinkings) attempt (str_or (jget d ''thinking'') [])
          # content_blocks attempt (i + 1) texts (thinkings + 1) rest
        else if jget d ''type'' = JStr ''toolCall''
        then (let source = str_or (jget d ''id'') (''tool-'' @ show_nat i) in
          tool_block (attempt_block_id source attempt) attempt (str_or (jget d ''name'') ''tool'')
            (safe_mapping (jget d ''arguments'')) ''running'' source)
          # content_blocks attempt (i + 1) texts thinkings rest
        else content_blocks attempt (i + 1) texts thinkings rest
    | _ \<Rightarrow> content_blocks attempt (i + 1) texts thinkings rest)"

definition message_blocks :: "(string, json) dict \<Rightarrow> int \<Rightarrow> exn + block list" where
  "message_blocks message attempt =
     bind_res (py_iter (py_or (jget message ''content'') (JList []))) (\<lambda>content.
     bind_res (in_strings (jget message ''stopReason'') [''error'', ''aborted'']) (\<lambda>failed.
     let error_message = str_strip (str_or (jget message ''errorMessage'') []) in
     Inr (content_blocks attempt 0 0 0 content
       @ (if failed \<and> error_message \<noteq> [] then [text_block ''error-0'' attempt ''narration'' error_message ''failed''] else []))))"

section \<open>The blocks of an operation\<close>

definition block_id :: "block \<Rightarrow> json" where "block_id b = jget b ''id''"

fun update_first :: "('a \<Rightarrow> bool) \<Rightarrow> ('a \<Rightarrow> 'a) \<Rightarrow> 'a list \<Rightarrow> 'a list" where
  "update_first P f [] = []"
| "update_first P f (x # xs) = (if P x then f x # xs else x # update_first P f xs)"

definition has_block :: "json \<Rightarrow> block list \<Rightarrow> bool" where
  "has_block i bs \<longleftrightarrow> (\<exists>b \<in> set bs. block_id b = i)"

definition merge_block :: "block \<Rightarrow> block list \<Rightarrow> block list" where
  "merge_block b bs = (if has_block (block_id b) bs
     then update_first (\<lambda>x. block_id x = block_id b) (\<lambda>x. dict_merge x b) bs else bs @ [b])"

definition merge_complete_message :: "(string, json) dict \<Rightarrow> int \<Rightarrow> block list \<Rightarrow> exn + block list" where
  "merge_complete_message message attempt bs =
     bind_res (message_blocks message attempt) (\<lambda>complete. Inr (fold merge_block complete bs))"

definition tool_block_of :: "string \<Rightarrow> block \<Rightarrow> bool" where
  "tool_block_of source b \<longleftrightarrow> jget b ''type'' = JStr ''tool_call''
     \<and> (jget b ''_source_id'' = JStr source \<or> jget b ''id'' = JStr source)"

definition find_tool_block :: "string \<Rightarrow> block list \<Rightarrow> block option" where
  "find_tool_block source bs = find (tool_block_of source) (rev bs)"

definition update_tool_block :: "string \<Rightarrow> (block \<Rightarrow> block) \<Rightarrow> block list \<Rightarrow> block list" where
  "update_tool_block source f bs = rev (update_first (tool_block_of source) f (rev bs))"

definition block_attempt :: "block \<Rightarrow> exn + int" where
  "block_attempt b = int_or_zero (jget b ''_attempt'')"

definition latest_attempt :: "block list \<Rightarrow> exn + int" where
  "latest_attempt bs = bind_res (map_res block_attempt bs) (\<lambda>ns. Inr (case ns of [] \<Rightarrow> 0 | n # r \<Rightarrow> fold max r n))"

section \<open>Events\<close>

record turn_view =
  tv_blocks :: "block list"
  tv_usage :: "(string, json) dict"
  tv_deliveries :: "(string \<times> json list) list"
  tv_emitted :: "(string \<times> json) list"

definition new_view :: turn_view where
  "new_view = \<lparr>tv_blocks = [], tv_usage = [], tv_deliveries = [], tv_emitted = []\<rparr>"

definition emit_event :: "string \<Rightarrow> (string, json) dict \<Rightarrow> turn_view \<Rightarrow> turn_view" where
  "emit_event name payload v = v\<lparr>tv_emitted := tv_emitted v @ [(name, json_safe (JObj payload))]\<rparr>"

definition add_block :: "string \<Rightarrow> block \<Rightarrow> turn_view \<Rightarrow> turn_view" where
  "add_block name b v = emit_event name [(''block'', clean_block b)] (v\<lparr>tv_blocks := tv_blocks v @ [b]\<rparr>)"

definition ensure_block :: "string \<Rightarrow> block \<Rightarrow> turn_view \<Rightarrow> turn_view" where
  "ensure_block name b v = (if has_block (block_id b) (tv_blocks v) then v else add_block name b v)"

definition extend_content :: "string \<Rightarrow> block \<Rightarrow> block" where
  "extend_content delta b = AList.update ''content'' (JStr (py_str (dict_get b ''content'' (JStr [])) @ delta)) b"

definition content_delta :: "string \<Rightarrow> int \<Rightarrow> int \<Rightarrow> string \<Rightarrow> turn_view \<Rightarrow> turn_view" where
  "content_delta block_type index attempt delta v =
     (let i = attempt_block_id (block_type @ ''-'' @ show_int index) attempt;
          b = [(''id'', JStr i), (''type'', JStr block_type), (''role'', if block_type = ''text'' then JStr ''narration'' else JNull),
            (''content'', JStr []), (''status'', JStr ''running''), (''_attempt'', JInt attempt)];
          v1 = ensure_block ''content.started'' b v
      in emit_event ''content.delta'' [(''block_id'', JStr i), (''delta'', JStr delta)]
           (v1\<lparr>tv_blocks := update_first (\<lambda>x. block_id x = JStr i) (extend_content delta) (tv_blocks v1)\<rparr>))"

definition toolcall_delta :: "string \<Rightarrow> int \<Rightarrow> string \<Rightarrow> turn_view \<Rightarrow> turn_view" where
  "toolcall_delta source attempt name v =
     (let i = attempt_block_id source attempt
      in emit_event ''tool.updated'' [(''block_id'', JStr i), (''patch'', JObj [(''status'', JStr ''streaming'')])]
           (ensure_block ''tool.started'' (tool_block i attempt name [] ''streaming'' source) v))"

definition message_update :: "(string, json) dict \<Rightarrow> turn_view \<Rightarrow> exn + turn_view" where
  "message_update data v =
     bind_res (as_mapping (py_or (jget data ''assistantMessageEvent'') (JObj []))) (\<lambda>stream.
     bind_res (int_or_zero (jget stream ''attempt'')) (\<lambda>attempt.
     bind_res (int_or_zero (py_or (jget stream ''contentIndex'') (jget stream ''toolCallIndex''))) (\<lambda>index.
     bind_res (in_strings (jget stream ''type'') [''text_delta'', ''thinking_delta'']) (\<lambda>content.
     Inr (if content then content_delta (if jget stream ''type'' = JStr ''text_delta'' then ''text'' else ''thinking'') index attempt
            (str_or (jget stream ''delta'') []) v
          else if jget stream ''type'' = JStr ''toolcall_delta''
          then toolcall_delta (str_or (jget stream ''toolCallId'') (''tool-'' @ show_int index)) attempt
            (str_or (jget stream ''toolName'') ''tool'') v
          else v)))))"

definition of_attempt :: "int \<Rightarrow> block \<Rightarrow> bool" where
  "of_attempt attempt b \<longleftrightarrow> block_attempt b = Inr attempt"

definition fail_block :: "block \<Rightarrow> block" where
  "fail_block b = AList.update ''status'' (JStr ''failed'') b"

definition emit_completed :: "block \<Rightarrow> turn_view \<Rightarrow> turn_view" where
  "emit_completed b v = emit_event (if jget b ''type'' = JStr ''tool_call'' then ''tool.updated'' else ''content.completed'')
     [(''block_id'', block_id b), (''patch'', clean_block b)] v"

definition assistant_end :: "json \<Rightarrow> (string, json) dict \<Rightarrow> int \<Rightarrow> turn_view \<Rightarrow> exn + turn_view" where
  "assistant_end stats message attempt v =
     bind_res (merge_complete_message message attempt (tv_blocks v)) (\<lambda>bs.
     bind_res (map_res block_attempt bs) (\<lambda>_.
     bind_res (in_strings (jget message ''stopReason'') [''error'', ''aborted'']) (\<lambda>failed.
     let bs' = map (\<lambda>b. if failed \<and> of_attempt attempt b then fail_block b else b) bs;
         usage = obj_of (jget message ''usage'');
         v1 = fold emit_completed (filter (of_attempt attempt) bs') (v\<lparr>tv_blocks := bs'\<rparr>)
     in Inr (emit_event ''usage.updated'' [(''usage'', JObj usage), (''stats'', stats)] (v1\<lparr>tv_usage := usage\<rparr>)))))"

definition message_end :: "json \<Rightarrow> (string, json) dict \<Rightarrow> turn_view \<Rightarrow> exn + turn_view" where
  "message_end stats data v =
     bind_res (as_mapping (py_or (jget data ''message'') (JObj []))) (\<lambda>message.
     if jget message ''role'' = JStr ''assistant''
     then bind_res (int_or_zero (jget data ''attempt'')) (\<lambda>attempt. assistant_end stats message attempt v)
     else Inr v)"

definition start_tool_block :: "(string, json) dict \<Rightarrow> block \<Rightarrow> block" where
  "start_tool_block arguments b = AList.update ''status'' (JStr ''running'') (AList.update ''arguments'' (JObj arguments) b)"

definition tool_start :: "(string, json) dict \<Rightarrow> turn_view \<Rightarrow> exn + turn_view" where
  "tool_start data v =
     (let source = str_or (jget data ''toolCallId'') ''tool''; arguments = safe_mapping (jget data ''args'')
      in case find_tool_block source (tv_blocks v) of
        None \<Rightarrow> bind_res (latest_attempt (tv_blocks v)) (\<lambda>attempt.
          Inr (add_block ''tool.started''
            (tool_block source attempt (str_or (jget data ''toolName'') ''tool'') arguments ''running'' source) v))
      | Some b \<Rightarrow>
          Inr (emit_event ''tool.updated''
            [(''block_id'', JStr (py_str (block_id b))), (''patch'', clean_block (start_tool_block arguments b))]
            (v\<lparr>tv_blocks := update_tool_block source (start_tool_block arguments) (tv_blocks v)\<rparr>)))"

definition result_patch :: "bool \<Rightarrow> (string, json) dict \<Rightarrow> (string, json) dict \<times> json list" where
  "result_patch ended data =
     (let raw = jget data (if ended then ''result'' else ''partialResult'');
          failed = truthy (jget data ''isError'');
          artifacts = (if ended \<and> jget data ''toolName'' = JStr ''present_files'' \<and> \<not> failed then artifacts_from_tool_result raw else [])
      in ([(''result'', JStr (tool_text raw)),
           (''status'', JStr (if \<not> ended then ''running'' else if failed then ''failed'' else ''completed''))]
          @ (if artifacts = [] then [] else [(''artifacts'', JList artifacts)]), artifacts))"

definition tool_progress :: "bool \<Rightarrow> (string, json) dict \<Rightarrow> turn_view \<Rightarrow> turn_view" where
  "tool_progress ended data v =
     (let source = str_or (jget data ''toolCallId'') ''tool'';
          i = (case find_tool_block source (tv_blocks v) of Some b \<Rightarrow> py_str (block_id b) | None \<Rightarrow> source);
          (patch, artifacts) = result_patch ended data
      in emit_event (if ended then ''tool.completed'' else ''tool.updated'') [(''block_id'', JStr i), (''patch'', JObj patch)]
           (v\<lparr>tv_blocks := update_tool_block source (\<lambda>b. dict_merge b patch) (tv_blocks v),
              tv_deliveries := tv_deliveries v @ (if artifacts = [] then [] else [(source, artifacts)])\<rparr>))"

definition list_length :: "json \<Rightarrow> json" where
  "list_length v = (case v of JList xs \<Rightarrow> JInt (int (length xs)) | _ \<Rightarrow> v)"

definition queue_counts :: "(string, json) dict \<Rightarrow> (string, json) dict" where
  "queue_counts data = map (\<lambda>(k, v). (k, list_length v))
     (filter (\<lambda>(k, v). ends_with (py_lower k) ''count'' \<or> (case v of JList _ \<Rightarrow> True | _ \<Rightarrow> False)) data)"

definition run_event_view :: "json \<Rightarrow> string \<Rightarrow> (string, json) dict \<Rightarrow> turn_view \<Rightarrow> exn + turn_view" where
  "run_event_view stats kind data v =
     (if kind = ''message_update'' then message_update data v
      else if kind = ''message_end'' then message_end stats data v
      else if kind = ''tool_execution_start'' then tool_start data v
      else if kind = ''tool_execution_update'' then Inr (tool_progress False data v)
      else if kind = ''tool_execution_end'' then Inr (tool_progress True data v)
      else if kind = ''queue_update'' then Inr (emit_event ''queue.updated'' (queue_counts data) v)
      else if kind = ''auto_retry_start'' then Inr (emit_event ''retry.started'' (safe_mapping (JObj data)) v)
      else if kind = ''auto_retry_end'' then Inr (emit_event ''retry.completed'' (safe_mapping (JObj data)) v)
      else if kind = ''context_compacted'' then Inr (emit_event ''session.compacted'' (safe_mapping (JObj data)) v)
      else if kind = ''compaction_end'' \<and> truthy (jget data ''error'')
      then Inr (emit_event ''session.compacted'' (AList.update ''succeeded'' (JBool False) (safe_mapping (JObj data))) v)
      else Inr v)"

fun run_events_view :: "json \<Rightarrow> (string \<times> (string, json) dict) list \<Rightarrow> turn_view \<Rightarrow> exn + turn_view" where
  "run_events_view stats [] v = Inr v"
| "run_events_view stats ((kind, data) # evs) v =
     bind_res (run_event_view stats kind data v) (run_events_view stats evs)"

end
