(* ===== verification/Timeline.thy ===== *)
theory Timeline
  imports TurnBlocks
begin

text \<open>
  \<open>_project_timeline\<close> of \<^verbatim>\<open>runtime/service.py\<close>: the turns and compactions of a branch as the client
  shows them when a session is opened, and the other readings of a session's entries there: the
  input for the next turn that is still pending and the overrides of the configuration.
\<close>

section \<open>Public input\<close>

definition public_attachment_keys :: "string list" where
  "public_attachment_keys = [''id'', ''type'', ''display_name'', ''mime_type'', ''size_bytes'', ''text'']"

text \<open>\<open>key in item\<close> and \<open>item[key]\<close> for an attachment that is no object: a text is searched, a list
  looked through, and neither can be indexed by a key.\<close>

definition public_attachment :: "json \<Rightarrow> exn + json" where
  "public_attachment item = (case item of
      JObj d \<Rightarrow> Inr (JObj (concat (map (\<lambda>k. case map_of d k of Some v \<Rightarrow> [(k, v)] | None \<Rightarrow> []) public_attachment_keys)))
    | JStr s \<Rightarrow> if list_ex (contains s) public_attachment_keys then Inl TypeError else Inr (JObj [])
    | JList xs \<Rightarrow> if list_ex (\<lambda>k. JStr k \<in> set xs) public_attachment_keys then Inl TypeError else Inr (JObj [])
    | _ \<Rightarrow> Inl TypeError)"

definition public_input :: "(string, json) dict \<Rightarrow> exn + (string, json) dict" where
  "public_input value =
     bind_res (py_iter (py_or (jget value ''attachments'') (JList []))) (\<lambda>items.
     bind_res (map_res public_attachment items) (\<lambda>attachments.
     Inr (AList.update ''attachments'' (JList attachments) (filter (\<lambda>(k, v). public_key k) value))))"

section \<open>Turns\<close>

record turn_item =
  ti_id :: string
  ti_status :: string
  ti_input :: "(string, json) dict"
  ti_blocks :: "block list"
  ti_usage :: json
  ti_model :: string
  ti_thinking :: string
  ti_created :: string
  ti_completed :: "string option"
  ti_duration :: json
  ti_final :: "string option"
  ti_error :: "string option"

datatype timeline_item = TurnItem turn_item | CompactionItem string string int string

record timeline_config =
  tc_model :: string
  tc_thinking :: string
  tc_secrets :: secret_config

record timeline_state =
  ts_result :: "timeline_item list"
  ts_current :: "turn_item option"

definition new_turn :: "timeline_config \<Rightarrow> (string, string) dict \<Rightarrow> (string, json) dict \<Rightarrow> exn + turn_item" where
  "new_turn cfg active e =
     bind_res (as_mapping (py_or (jget e ''input'') (JObj []))) (\<lambda>input.
     bind_res (public_input input) (\<lambda>pub.
     let i = py_str (jget e ''runId'') in
     Inr \<lparr>ti_id = i, ti_status = dict_get active i ''interrupted'', ti_input = pub, ti_blocks = [], ti_usage = JObj [],
       ti_model = str_or (jget e ''modelId'') (tc_model cfg), ti_thinking = str_or (jget e ''thinkingLevel'') (tc_thinking cfg),
       ti_created = py_str (jget e ''timestamp''), ti_completed = None, ti_duration = JNull, ti_final = None, ti_error = None\<rparr>))"

definition close_open_turn :: "(string, string) dict \<Rightarrow> timeline_state \<Rightarrow> timeline_item list" where
  "close_open_turn active s = (case ts_current s of None \<Rightarrow> ts_result s
     | Some t \<Rightarrow> ts_result s @ [TurnItem (t\<lparr>ti_status := dict_get active (ti_id t) ''interrupted''\<rparr>)])"

definition start_turn :: "timeline_config \<Rightarrow> (string, string) dict \<Rightarrow> (string, json) dict \<Rightarrow> timeline_state \<Rightarrow> exn + timeline_state" where
  "start_turn cfg active e s = bind_res (new_turn cfg active e) (\<lambda>t.
     Inr \<lparr>ts_result = close_open_turn active s, ts_current = Some t\<rparr>)"

definition text_contents :: "block list \<Rightarrow> string list" where
  "text_contents blocks = map (\<lambda>b. py_str (jget b ''content'')) (filter (\<lambda>b. jget b ''type'' = JStr ''text'') blocks)"

definition finish_tool_block :: "string \<Rightarrow> (string, json) dict \<Rightarrow> block \<Rightarrow> block" where
  "finish_tool_block tool_id m b = (if block_id b = JStr tool_id
     then dict_merge b [(''status'', JStr (if truthy (jget m ''isError'') then ''failed'' else ''completed'')),
       (''result'', JStr (content_text (jget m ''content'')))]
     else b)"

definition turn_message :: "(string, json) dict \<Rightarrow> turn_item \<Rightarrow> exn + turn_item" where
  "turn_message e t =
     bind_res (as_mapping (py_or (jget e ''message'') (JObj []))) (\<lambda>m.
     if jget m ''role'' = JStr ''assistant''
     then bind_res (message_blocks m 0) (\<lambda>blocks.
       let texts = text_contents blocks in
       Inr (t\<lparr>ti_blocks := ti_blocks t @ blocks, ti_usage := py_or (jget m ''usage'') (JObj []),
         ti_final := (if texts = [] then ti_final t else Some (concat texts))\<rparr>))
     else if jget m ''role'' = JStr ''toolResult''
     then Inr (t\<lparr>ti_blocks := map (finish_tool_block (str_or (jget m ''toolCallId'') []) m) (ti_blocks t)\<rparr>)
     else Inr t)"

definition turn_artifacts :: "(string, json) dict \<Rightarrow> turn_item \<Rightarrow> turn_item" where
  "turn_artifacts e t = (case jget e ''artifacts'' of
      JList xs \<Rightarrow> if str_or (jget e ''runId'') [] \<noteq> ti_id t then t
        else t\<lparr>ti_blocks := map (\<lambda>b. if block_id b = JStr (str_or (jget e ''toolCallId'') [])
          then AList.update ''artifacts'' (JList xs) b else b) (ti_blocks t)\<rparr>
    | _ \<Rightarrow> t)"

definition nonempty :: "string \<Rightarrow> string option" where
  "nonempty s = (if s = [] then None else Some s)"

definition end_turn :: "timeline_config \<Rightarrow> (string, json) dict \<Rightarrow> turn_item \<Rightarrow> turn_item" where
  "end_turn cfg e t = t\<lparr>ti_status := str_or (jget e ''status'') ''completed'', ti_completed := Some (py_str (jget e ''timestamp'')),
     ti_duration := jget e ''durationMs'', ti_error := nonempty (sanitize (tc_secrets cfg) (str_or (jget e ''error'') []))\<rparr>"

definition compaction_item :: "(string, json) dict \<Rightarrow> exn + timeline_item" where
  "compaction_item e = bind_res (int_or_zero (jget e ''tokensBefore'')) (\<lambda>n.
     Inr (CompactionItem (py_str (jget e ''id'')) (py_str (jget e ''timestamp'')) n (take TOOL_OUTPUT_LIMIT (str_or (jget e ''summary'') []))))"

definition timeline_step :: "timeline_config \<Rightarrow> (string, string) dict \<Rightarrow> (string, json) dict \<Rightarrow> timeline_state \<Rightarrow> exn + timeline_state" where
  "timeline_step cfg active e s =
     (let kind = jget e ''type'' in
      if kind = JStr ''run_start'' then start_turn cfg active e s
      else (case ts_current s of
        Some t \<Rightarrow>
          if kind = JStr ''message'' then bind_res (turn_message e t) (\<lambda>t'. Inr (s\<lparr>ts_current := Some t'\<rparr>))
          else if kind = JStr ''artifact_delivery'' then Inr (s\<lparr>ts_current := Some (turn_artifacts e t)\<rparr>)
          else if kind = JStr ''run_end'' \<and> jget e ''runId'' = JStr (ti_id t)
          then Inr \<lparr>ts_result = ts_result s @ [TurnItem (end_turn cfg e t)], ts_current = None\<rparr>
          else if kind = JStr ''compaction'' then bind_res (compaction_item e) (\<lambda>c. Inr (s\<lparr>ts_result := ts_result s @ [c]\<rparr>))
          else Inr s
      | None \<Rightarrow>
          if kind = JStr ''compaction'' then bind_res (compaction_item e) (\<lambda>c. Inr (s\<lparr>ts_result := ts_result s @ [c]\<rparr>))
          else Inr s))"

fun timeline_from :: "timeline_config \<Rightarrow> (string, string) dict \<Rightarrow> (string, json) dict list \<Rightarrow> timeline_state \<Rightarrow> exn + timeline_state" where
  "timeline_from cfg active [] s = Inr s"
| "timeline_from cfg active (e # es) s = bind_res (timeline_step cfg active e s) (timeline_from cfg active es)"

definition project_timeline :: "timeline_config \<Rightarrow> (string, string) dict \<Rightarrow> (string, json) dict list \<Rightarrow> exn + timeline_item list" where
  "project_timeline cfg active entries =
     bind_res (timeline_from cfg active entries \<lparr>ts_result = [], ts_current = None\<rparr>) (\<lambda>s.
     Inr (ts_result s @ (case ts_current s of None \<Rightarrow> [] | Some t \<Rightarrow> [TurnItem t])))"

section \<open>Pending input and overrides\<close>

definition consume_inputs :: "(string, json) dict \<Rightarrow> (string, (string, json) dict) dict \<Rightarrow> exn + (string, (string, json) dict) dict" where
  "consume_inputs e pending = bind_res (py_iter (py_or (jget e ''entryIds'') (JList []))) (\<lambda>ids.
     Inr (fold (\<lambda>i p. AList.delete (py_str i) p) ids pending))"

definition pending_step :: "(string, json) dict \<Rightarrow> (string, (string, json) dict) dict \<Rightarrow> exn + (string, (string, json) dict) dict" where
  "pending_step e pending =
     (if jget e ''type'' = JStr ''next_turn_input''
      then (case map_of e ''id'' of None \<Rightarrow> Inl (KeyError ''id'')
        | Some i \<Rightarrow> bind_res (as_mapping (py_or (jget e ''input'') (JObj []))) (\<lambda>input. Inr (AList.update (py_str i) input pending)))
      else if jget e ''type'' = JStr ''next_turn_consumed'' then consume_inputs e pending
      else Inr pending)"

fun pending_from :: "(string, json) dict list \<Rightarrow> (string, (string, json) dict) dict \<Rightarrow> exn + (string, (string, json) dict) dict" where
  "pending_from [] pending = Inr pending"
| "pending_from (e # es) pending = bind_res (pending_step e pending) (pending_from es)"

definition pending_next_turn :: "(string, json) dict list \<Rightarrow> exn + (string \<times> (string, json) dict) list" where
  "pending_next_turn entries = pending_from entries []"

definition session_overrides :: "(string, json) dict list \<Rightarrow> (string, json) dict" where
  "session_overrides entries = fold (\<lambda>e value.
     if jget e ''type'' = JStr ''session_config'' \<and> is_obj (jget e ''config'') then obj_of (jget e ''config'') else value) entries []"

end
