(* ===== verification/TurnBlocksProps.thy ===== *)
theory TurnBlocksProps
  imports TurnBlocks
begin

text \<open>
  What the blocks of a running turn keep, whatever events arrive: every block has the fields its type
  promises to the client, and no two blocks have the same identifier.
\<close>

section \<open>Well-formed blocks\<close>

fun is_str :: "json \<Rightarrow> bool" where
  "is_str (JStr _) = True"
| "is_str _ = False"

fun is_int :: "json \<Rightarrow> bool" where
  "is_int (JInt _) = True"
| "is_int _ = False"

definition block_fields :: "block \<Rightarrow> bool" where
  "block_fields b \<longleftrightarrow> is_str (jget b ''id'') \<and> is_int (jget b ''_attempt'')
     \<and> jget b ''status'' \<in> JStr ` {''streaming'', ''running'', ''completed'', ''failed''}
     \<and> (jget b ''type'' \<in> JStr ` {''text'', ''thinking''} \<and> is_str (jget b ''content'')
        \<or> jget b ''type'' = JStr ''tool_call'' \<and> is_str (jget b ''name'') \<and> is_obj (jget b ''arguments'') \<and> is_str (jget b ''_source_id''))
     \<and> (jget b ''result'' = JNull \<or> is_str (jget b ''result''))"

text \<open>The identifiers of the blocks that are no tool calls.\<close>

definition own_id :: "string \<Rightarrow> bool" where
  "own_id s \<longleftrightarrow> list_ex (starts_with s) [''text-'', ''thinking-'', ''error-'', ''attempt-'']"

definition block_ok :: "block \<Rightarrow> bool" where
  "block_ok b \<longleftrightarrow> block_fields b \<and> (\<forall>s. jget b ''type'' \<noteq> JStr ''tool_call'' \<longrightarrow> jget b ''id'' = JStr s \<longrightarrow> own_id s)"

definition blocks_ok :: "block list \<Rightarrow> bool" where
  "blocks_ok bs \<longleftrightarrow> (\<forall>b \<in> set bs. block_ok b) \<and> distinct (map block_id bs)"

lemma jget_update [simp]: "jget (AList.update k v d) k' = (if k' = k then v else jget d k')"
  by (simp add: jget_def dict_get_def)

lemma jget_Cons [simp]: "jget ((k, v) # d) k' = (if k' = k then v else jget d k')"
  by (simp add: jget_def dict_get_def)

lemma jget_Nil [simp]: "jget [] k = JNull"
  by (simp add: jget_def)

lemma dict_merge_simps [simp]:
  "dict_merge d [] = d" "dict_merge d ((k, v) # e) = dict_merge (AList.update k v d) e"
  by (simp_all add: dict_merge_def)

lemma own_id_attempt: "own_id s \<Longrightarrow> own_id (attempt_block_id s n)"
  by (simp add: attempt_block_id_def own_id_def)

lemma own_ids [simp]:
  "own_id (CHR ''t'' # CHR ''e'' # CHR ''x'' # CHR ''t'' # CHR ''-'' # s)"
  "own_id (CHR ''t'' # CHR ''h'' # CHR ''i'' # CHR ''n'' # CHR ''k'' # CHR ''i'' # CHR ''n'' # CHR ''g'' # CHR ''-'' # s)"
  "own_id ''error-0''"
  by (simp_all add: own_id_def)

text \<open>The blocks made from a complete message.\<close>

inductive full_block :: "block \<Rightarrow> bool" where
  of_text: "own_id s \<Longrightarrow> st \<in> {''completed'', ''failed''} \<Longrightarrow> full_block (text_block s n r c st)"
| of_thinking: "own_id s \<Longrightarrow> full_block (thinking_block s n c)"
| of_tool: "full_block (tool_block i n nm a ''running'' s)"

lemma full_block_ok: "full_block b \<Longrightarrow> block_ok b"
  by (induction rule: full_block.induct)
    (auto simp: block_ok_def block_fields_def text_block_def thinking_block_def tool_block_def own_id_attempt)

lemma content_blocks_full: "\<forall>b \<in> set (content_blocks n i t h xs). full_block b"
proof (induction n i t h xs rule: content_blocks.induct)
  case (2 attempt i texts thinkings raw rest)
  show ?case
  proof (cases raw)
    case (JObj d)
    have "full_block (text_block (''text-'' @ show_nat k) attempt ''final'' c ''completed'')"
      "full_block (thinking_block (''thinking-'' @ show_nat k) attempt c)" for k c
      by (simp_all add: full_block.intros)
    with 2 JObj show ?thesis
      by (simp add: Let_def of_tool)
  qed (use 2 in simp_all)
qed simp

lemma message_blocks_shape:
  assumes "message_blocks m n = Inr bs"
  obtains content failure where "bs = content_blocks n 0 0 0 content @ failure"
    "\<forall>b \<in> set failure. \<exists>e. b = text_block ''error-0'' n ''narration'' e ''failed''"
proof -
  from assms obtain content failed e where "bs = content_blocks n 0 0 0 content
      @ (if failed \<and> e \<noteq> [] then [text_block ''error-0'' n ''narration'' e ''failed''] else [])"
    unfolding message_blocks_def bind_res_Inr_iff Let_def by blast
  then show thesis
    by (intro that [of content "if failed \<and> e \<noteq> [] then [text_block ''error-0'' n ''narration'' e ''failed''] else []"]) auto
qed

lemma message_blocks_full:
  assumes "message_blocks m n = Inr bs" "b \<in> set bs"
  shows "full_block b"
proof -
  obtain content failure where "bs = content_blocks n 0 0 0 content @ failure"
      "\<forall>b \<in> set failure. \<exists>e. b = text_block ''error-0'' n ''narration'' e ''failed''"
    using message_blocks_shape [OF assms(1)] .
  with assms(2) consider "b \<in> set (content_blocks n 0 0 0 content)" | e where "b = text_block ''error-0'' n ''narration'' e ''failed''"
    by auto
  then show ?thesis
    using content_blocks_full by cases (auto intro: of_text)
qed

lemma merge_full_ok: "full_block b \<Longrightarrow> block_ok x \<Longrightarrow> block_ok (dict_merge x b) \<and> block_id (dict_merge x b) = block_id b"
  by (induction rule: full_block.induct)
    (auto simp: block_ok_def block_fields_def text_block_def thinking_block_def tool_block_def block_id_def own_id_attempt)

lemma update_first_map:
  "(\<And>x. x \<in> set xs \<Longrightarrow> P x \<Longrightarrow> g (f x) = g x) \<Longrightarrow> map g (update_first P f xs) = map g xs"
  by (induction xs) auto

lemma update_first_all:
  "(\<forall>x \<in> set xs. Q x) \<Longrightarrow> (\<And>x. x \<in> set xs \<Longrightarrow> P x \<Longrightarrow> Q x \<Longrightarrow> Q (f x)) \<Longrightarrow> \<forall>x \<in> set (update_first P f xs). Q x"
  by (induction xs) auto

lemma blocks_ok_add: "blocks_ok bs \<Longrightarrow> block_ok b \<Longrightarrow> \<not> has_block (block_id b) bs \<Longrightarrow> blocks_ok (bs @ [b])"
  by (auto simp: blocks_ok_def has_block_def)

lemma blocks_ok_update:
  assumes "blocks_ok bs" "\<And>b. b \<in> set bs \<Longrightarrow> P b \<Longrightarrow> block_ok b \<Longrightarrow> block_ok (f b) \<and> block_id (f b) = block_id b"
  shows "blocks_ok (update_first P f bs)"
proof -
  have "map block_id (update_first P f bs) = map block_id bs"
    using assms by (intro update_first_map) (auto simp: blocks_ok_def)
  moreover have "\<forall>b \<in> set (update_first P f bs). block_ok b"
    using assms by (intro update_first_all) (auto simp: blocks_ok_def)
  ultimately show ?thesis
    using assms(1) by (simp add: blocks_ok_def)
qed

lemma blocks_ok_rev [simp]: "blocks_ok (rev bs) = blocks_ok bs"
  by (simp add: blocks_ok_def rev_map [symmetric])

lemma blocks_ok_merge: "blocks_ok bs \<Longrightarrow> full_block b \<Longrightarrow> blocks_ok (merge_block b bs)"
  unfolding merge_block_def using merge_full_ok full_block_ok
  by (auto intro!: blocks_ok_update blocks_ok_add)

lemma blocks_ok_merge_message:
  assumes "merge_complete_message m n bs = Inr bs'" "blocks_ok bs"
  shows "blocks_ok bs'"
proof -
  obtain complete where c: "message_blocks m n = Inr complete" "bs' = fold merge_block complete bs"
    using assms(1) by (auto simp: merge_complete_message_def bind_res_Inr_iff)
  have "\<forall>b \<in> set complete. full_block b"
    using message_blocks_full [OF c(1)] by blast
  then show ?thesis
    unfolding c(2) using assms(2) by (induction complete arbitrary: bs) (auto simp: blocks_ok_merge)
qed

section \<open>Every event keeps them\<close>

lemma emit_event_sel [simp]:
  "tv_blocks (emit_event n p v) = tv_blocks v" "tv_usage (emit_event n p v) = tv_usage v"
  "tv_deliveries (emit_event n p v) = tv_deliveries v"
  by (simp_all add: emit_event_def)

lemma add_block_sel [simp]: "tv_blocks (add_block n b v) = tv_blocks v @ [b]"
  by (simp add: add_block_def)

lemma emit_completed_sel [simp]: "tv_blocks (fold emit_completed bs v) = tv_blocks v"
  by (induction bs arbitrary: v) (simp_all add: emit_completed_def)

lemma ensure_block_ok: "blocks_ok (tv_blocks v) \<Longrightarrow> block_ok b \<Longrightarrow> blocks_ok (tv_blocks (ensure_block n b v))"
  by (simp add: ensure_block_def blocks_ok_add)

lemma extend_content_ok: "block_ok b \<Longrightarrow> block_ok (extend_content t b) \<and> block_id (extend_content t b) = block_id b"
  by (auto simp: extend_content_def block_ok_def block_fields_def block_id_def)

lemma content_delta_ok:
  assumes "blocks_ok (tv_blocks v)" "t \<in> {''text'', ''thinking''}"
  shows "blocks_ok (tv_blocks (content_delta t i n d v))"
proof -
  have "own_id (attempt_block_id (t @ ''-'' @ show_int i) n)"
    using assms(2) by (auto intro!: own_id_attempt)
  with assms show ?thesis
    by (auto simp: content_delta_def Let_def extend_content_ok block_ok_def [of "(_, _) # _"] block_fields_def
        intro!: blocks_ok_update ensure_block_ok)
qed

lemma toolcall_delta_ok: "blocks_ok (tv_blocks v) \<Longrightarrow> blocks_ok (tv_blocks (toolcall_delta s n name v))"
  by (auto simp: toolcall_delta_def Let_def block_ok_def block_fields_def tool_block_def intro!: ensure_block_ok)

lemma message_update_ok: "message_update data v = Inr v' \<Longrightarrow> blocks_ok (tv_blocks v) \<Longrightarrow> blocks_ok (tv_blocks v')"
  by (auto simp: message_update_def bind_res_Inr_iff content_delta_ok toolcall_delta_ok)

lemma fail_block_ok: "block_ok b \<Longrightarrow> block_ok (fail_block b) \<and> block_id (fail_block b) = block_id b"
  by (simp add: fail_block_def block_ok_def block_fields_def block_id_def)

lemma blocks_ok_map:
  assumes "blocks_ok bs" "\<And>b. block_ok b \<Longrightarrow> block_ok (f b) \<and> block_id (f b) = block_id b"
  shows "blocks_ok (map f bs)"
proof -
  have "map block_id (map f bs) = map block_id bs"
    using assms by (auto simp: blocks_ok_def)
  moreover have "\<forall>b \<in> set (map f bs). block_ok b"
    using assms by (auto simp: blocks_ok_def)
  ultimately show ?thesis
    using assms(1) unfolding blocks_ok_def by argo
qed

lemma assistant_end_ok:
  assumes "assistant_end stats m n v = Inr v'" "blocks_ok (tv_blocks v)"
  shows "blocks_ok (tv_blocks v')"
proof -
  obtain bs failed where bs: "merge_complete_message m n (tv_blocks v) = Inr bs"
      "tv_blocks v' = map (\<lambda>b. if failed \<and> of_attempt n b then fail_block b else b) bs"
    using assms(1) unfolding assistant_end_def bind_res_Inr_iff Let_def by fastforce
  have "blocks_ok bs"
    using blocks_ok_merge_message [OF bs(1) assms(2)] .
  then show ?thesis
    unfolding bs(2) by (rule blocks_ok_map) (simp add: fail_block_ok)
qed

lemma message_end_ok: "message_end stats data v = Inr v' \<Longrightarrow> blocks_ok (tv_blocks v) \<Longrightarrow> blocks_ok (tv_blocks v')"
  by (auto simp: message_end_def bind_res_Inr_iff assistant_end_ok split: if_splits)

lemma update_tool_ok:
  assumes "blocks_ok bs"
    "\<And>b. block_ok b \<Longrightarrow> jget b ''type'' = JStr ''tool_call'' \<Longrightarrow> block_ok (f b) \<and> block_id (f b) = block_id b"
  shows "blocks_ok (update_tool_block s f bs)"
  unfolding update_tool_block_def blocks_ok_rev
  by (rule blocks_ok_update) (use assms in \<open>auto simp: tool_block_of_def\<close>)

lemma find_tool_None: "find_tool_block s bs = None \<Longrightarrow> b \<in> set bs \<Longrightarrow> \<not> tool_block_of s b"
  by (auto simp: find_tool_block_def find_None_iff)

lemma tool_start_ok:
  assumes "tool_start data v = Inr v'" "blocks_ok (tv_blocks v)" "\<not> own_id (str_or (jget data ''toolCallId'') ''tool'')"
  shows "blocks_ok (tv_blocks v')"
proof (cases "find_tool_block (str_or (jget data ''toolCallId'') ''tool'') (tv_blocks v)")
  case None
  let ?s = "str_or (jget data ''toolCallId'') ''tool''"
  obtain n name args where v': "tv_blocks v' = tv_blocks v @ [tool_block ?s n name args ''running'' ?s]"
    using assms(1) None by (auto simp: tool_start_def Let_def bind_res_Inr_iff)
  have "block_id b \<noteq> JStr ?s" if b: "b \<in> set (tv_blocks v)" for b
  proof
    assume "block_id b = JStr ?s"
    moreover from this have "jget b ''type'' = JStr ''tool_call''"
      using assms(2,3) b by (auto simp: blocks_ok_def block_ok_def block_id_def)
    ultimately show False
      using find_tool_None [OF None b] by (simp add: tool_block_of_def block_id_def)
  qed
  then have "\<not> has_block (block_id (tool_block ?s n name args ''running'' ?s)) (tv_blocks v)"
    by (auto simp: has_block_def block_id_def tool_block_def)
  then show ?thesis
    unfolding v' using assms(2) by (intro blocks_ok_add) (simp_all add: full_block_ok of_tool)
next
  case (Some b)
  then have "tv_blocks v' = update_tool_block (str_or (jget data ''toolCallId'') ''tool'')
      (start_tool_block (safe_mapping (jget data ''args''))) (tv_blocks v)"
    using assms(1) by (auto simp: tool_start_def Let_def)
  moreover have "block_ok (start_tool_block a b) \<and> block_id (start_tool_block a b) = block_id b"
    if "block_ok b" "jget b ''type'' = JStr ''tool_call''" for a b
    using that by (simp add: start_tool_block_def block_ok_def block_fields_def block_id_def)
  ultimately show ?thesis
    using assms(2) by (simp add: update_tool_ok)
qed

lemma patched_block_ok:
  assumes "block_ok b" "st \<in> {''running'', ''completed'', ''failed''}"
  shows "block_ok (dict_merge b [(''result'', JStr t), (''status'', JStr st)])
      \<and> block_id (dict_merge b [(''result'', JStr t), (''status'', JStr st)]) = block_id b"
    "block_ok (dict_merge b [(''result'', JStr t), (''status'', JStr st), (''artifacts'', a)])
      \<and> block_id (dict_merge b [(''result'', JStr t), (''status'', JStr st), (''artifacts'', a)]) = block_id b"
  using assms by (simp_all add: block_ok_def block_fields_def block_id_def)

lemma result_patch_shape:
  "\<exists>t st. st \<in> {''running'', ''completed'', ''failed''} \<and> (fst (result_patch ended data) = [(''result'', JStr t), (''status'', JStr st)]
    \<or> (\<exists>a. fst (result_patch ended data) = [(''result'', JStr t), (''status'', JStr st), (''artifacts'', a)]))"
  by (cases "snd (result_patch ended data) = []") (simp_all add: result_patch_def Let_def)

lemma tool_progress_ok:
  assumes "blocks_ok (tv_blocks v)"
  shows "blocks_ok (tv_blocks (tool_progress ended data v))"
proof -
  obtain patch artifacts where p: "result_patch ended data = (patch, artifacts)"
    by fastforce
  have "block_ok (dict_merge b patch) \<and> block_id (dict_merge b patch) = block_id b" if "block_ok b" for b
    using result_patch_shape [of ended data] patched_block_ok [OF that] unfolding p fst_conv by metis
  then have "blocks_ok (update_tool_block s (\<lambda>b. dict_merge b patch) (tv_blocks v))" for s
    using assms by (simp add: update_tool_ok)
  then show ?thesis
    by (simp add: tool_progress_def p Let_def)
qed

lemma run_event_ok:
  assumes "run_event_view stats kind data v = Inr v'" "blocks_ok (tv_blocks v)"
    and "kind = ''tool_execution_start'' \<Longrightarrow> \<not> own_id (str_or (jget data ''toolCallId'') ''tool'')"
  shows "blocks_ok (tv_blocks v')"
  using assms unfolding run_event_view_def
  by (auto split: if_split_asm simp: message_update_ok message_end_ok tool_start_ok tool_progress_ok)

lemma run_events_ok:
  assumes "run_events_view stats evs v = Inr v'" "blocks_ok (tv_blocks v)"
    and "\<forall>(kind, data) \<in> set evs. kind = ''tool_execution_start'' \<longrightarrow> \<not> own_id (str_or (jget data ''toolCallId'') ''tool'')"
  shows "blocks_ok (tv_blocks v')"
  using assms
proof (induction evs arbitrary: v)
  case (Cons e evs)
  obtain kind data where e: "e = (kind, data)"
    by fastforce
  with Cons.prems obtain w where w: "run_event_view stats kind data v = Inr w" "run_events_view stats evs w = Inr v'"
    by (auto simp: bind_res_Inr_iff)
  moreover have "blocks_ok (tv_blocks w)"
    using run_event_ok [OF w(1) Cons.prems(2)] Cons.prems(3) e by auto
  ultimately show ?case
    using Cons by auto
qed simp

text \<open>C29. Whatever events a run sends, every block of its turn has the fields of its type (an
  identifier, a status, an attempt; a text its content, a tool call its name and arguments, a result
  that is text), and no two blocks have the same identifier, as long as no tool call that is executed
  carries an identifier of the form the service gives to its own blocks.\<close>

theorem turn_blocks_typed:
  assumes "run_events_view stats evs new_view = Inr v"
    and "\<forall>(kind, data) \<in> set evs. kind = ''tool_execution_start'' \<longrightarrow> \<not> own_id (str_or (jget data ''toolCallId'') ''tool'')"
  shows "(\<forall>b \<in> set (tv_blocks v). block_fields b) \<and> distinct (map block_id (tv_blocks v))"
  using run_events_ok [OF assms(1) _ assms(2)] by (simp add: new_view_def blocks_ok_def block_ok_def)

definition sample_turn :: "(string \<times> (string, json) dict) list" where
  "sample_turn =
     [(''message_update'', [(''assistantMessageEvent'', JObj [(''type'', JStr ''text_delta''), (''delta'', JStr ''Hel''), (''contentIndex'', JInt 0)])]),
      (''message_end'', [(''attempt'', JInt 0), (''message'', JObj [(''role'', JStr ''assistant''), (''stopReason'', JStr ''toolUse''),
         (''content'', JList [JObj [(''type'', JStr ''text''), (''text'', JStr ''Hello'')],
           JObj [(''type'', JStr ''toolCall''), (''id'', JStr ''c1''), (''name'', JStr ''ls''), (''arguments'', JObj [])]])])]),
      (''tool_execution_start'', [(''toolCallId'', JStr ''c1''), (''toolName'', JStr ''ls''), (''args'', JObj [])]),
      (''tool_execution_end'', [(''toolCallId'', JStr ''c1''), (''toolName'', JStr ''ls''), (''isError'', JBool True)])]"

theorem turn_blocks_typed_witness:
  "\<exists>v. run_events_view JNull sample_turn new_view = Inr v \<and> length (tv_blocks v) = 2
    \<and> (\<forall>b \<in> set (tv_blocks v). block_fields b) \<and> distinct (map block_id (tv_blocks v))"
proof -
  have "case run_events_view JNull sample_turn new_view of Inr v \<Rightarrow> length (tv_blocks v) = 2 | Inl _ \<Rightarrow> False"
    by code_simp
  then obtain v where v: "run_events_view JNull sample_turn new_view = Inr v" "length (tv_blocks v) = 2"
    by (auto split: sum.splits)
  moreover have "\<forall>(kind, data) \<in> set sample_turn. kind = ''tool_execution_start'' \<longrightarrow> \<not> own_id (str_or (jget data ''toolCallId'') ''tool'')"
    by code_simp
  ultimately show ?thesis
    using turn_blocks_typed [OF v(1)] by blast
qed

end
