(* ===== verification/LiveTimeline.thy ===== *)
theory LiveTimeline
  imports Timeline TurnBlocksProps ToolCalls
begin

text \<open>
  The blocks a client sees while a turn runs and those it sees when the session is opened again: for
  a turn without failed messages both show the same.
\<close>

section \<open>The parts of a message\<close>

definition shown :: "block \<Rightarrow> json list" where
  "shown b = map (jget b) [''type'', ''role'', ''content'', ''name'', ''arguments'', ''status'', ''result'']"

definition is_tool :: "block \<Rightarrow> bool" where
  "is_tool b \<longleftrightarrow> jget b ''type'' = JStr ''tool_call''"

definition plain_id :: "string \<Rightarrow> bool" where
  "plain_id s \<longleftrightarrow> s \<noteq> [] \<and> \<not> own_id s"

datatype part = PText string string | PThinking string string | PTool string string "(string, json) dict"

fun part_block :: "int \<Rightarrow> part \<Rightarrow> block" where
  "part_block n (PText s c) = text_block s n ''final'' c ''completed''"
| "part_block n (PThinking s c) = thinking_block s n c"
| "part_block n (PTool s nm a) = tool_block (attempt_block_id s n) n nm a ''running'' s"

fun part_source :: "part \<Rightarrow> string" where
  "part_source (PText s c) = s"
| "part_source (PThinking s c) = s"
| "part_source (PTool s nm a) = s"

fun part_is_tool :: "part \<Rightarrow> bool" where
  "part_is_tool (PTool s nm a) = True"
| "part_is_tool _ = False"

fun parts_of :: "nat \<Rightarrow> nat \<Rightarrow> nat \<Rightarrow> content list \<Rightarrow> part list" where
  "parts_of i t h [] = []"
| "parts_of i t h (TextContent c # cs) = PText (''text-'' @ show_nat t) c # parts_of (i + 1) (t + 1) h cs"
| "parts_of i t h (ThinkingContent c # cs) = PThinking (''thinking-'' @ show_nat h) c # parts_of (i + 1) t (h + 1) cs"
| "parts_of i t h (ImageContent d m # cs) = parts_of (i + 1) t h cs"
| "parts_of i t h (ToolCall k n a # cs) = PTool (if k = [] then ''tool-'' @ show_nat i else k)
     (if n = [] then ''tool'' else n) (safe_mapping (JObj a)) # parts_of (i + 1) t h cs"

fun content_call_ids :: "content list \<Rightarrow> string list" where
  "content_call_ids (ToolCall k n a # cs) = k # content_call_ids cs"
| "content_call_ids (_ # cs) = content_call_ids cs"
| "content_call_ids [] = []"

lemma content_parts:
  "content_blocks n i t h (map (\<lambda>p. JObj (content_to_dict p)) cs) = map (part_block n) (parts_of i t h cs)"
  by (induction i t h cs rule: parts_of.induct) (auto simp: str_or_def py_or_def Let_def)

lemma iter_list [simp]: "py_iter (py_or (JList xs) (JList [])) = Inr xs"
  by (simp add: py_or_def)

lemma message_parts:
  assumes "am_stop_reason a \<notin> {''error'', ''aborted''}"
  shows "message_blocks (message_to_dict (AssistantMessage a)) n = Inr (map (part_block n) (parts_of 0 0 0 (am_content a)))"
proof -
  have "jget (message_to_dict (AssistantMessage a)) ''content'' = JList (map (\<lambda>p. JObj (content_to_dict p)) (am_content a))"
    "jget (message_to_dict (AssistantMessage a)) ''stopReason'' = JStr (am_stop_reason a)"
    by simp_all
  then show ?thesis
    using assms by (simp add: message_blocks_def in_strings_def content_parts Let_def del: message_to_dict.simps)
qed

lemma show_nat_inj: "show_nat m = show_nat n \<Longrightarrow> m = n"
  by (metis add_0 mult_zero_left option.inject parse_digits_show_nat)

lemma show_nat_no_dash: "CHR ''-'' \<notin> set (show_nat n)"
proof (induction n rule: show_nat.induct)
  case (1 n)
  have "digit_char d \<noteq> CHR ''-''" if "d < 10" for d
  proof -
    have "of_char (digit_char d) = 48 + d"
      using that by (simp add: digit_char_def)
    then show ?thesis
      using that by auto
  qed
  from this [of n] this [of "n mod 10"] 1 show ?case
    by (auto simp: show_nat.simps [of n])
qed

text \<open>The identifiers of an attempt determine the source and the attempt.\<close>

lemma attempt_id_inj:
  assumes "attempt_block_id a (int n) = attempt_block_id b (int m)" "\<not> starts_with a ''attempt-''" "\<not> starts_with b ''attempt-''"
  shows "a = b \<and> n = m"
proof -
  consider "n = 0" "m = 0" | "n > 0" "m > 0" | "n = 0" "m > 0" | "n > 0" "m = 0"
    by auto
  then show ?thesis
  proof cases
    case 2
    then have eq: "show_nat n @ ''-'' @ a = show_nat m @ ''-'' @ b"
      using assms(1) by (simp add: attempt_block_id_def show_int_def)
    have "takeWhile (\<lambda>c. c \<noteq> CHR ''-'') (show_nat k @ ''-'' @ r) = show_nat k" for k r
      using show_nat_no_dash [of k] by (induction "show_nat k" arbitrary: k) (auto simp: takeWhile_append)
    then have "show_nat n = show_nat m"
      using eq by metis
    with eq show_nat_inj show ?thesis
      by auto
  qed (use assms in \<open>auto simp: attempt_block_id_def\<close>)
qed

section \<open>The sources of a message\<close>

definition part_ok :: "string list \<Rightarrow> part \<Rightarrow> bool" where
  "part_ok ids p \<longleftrightarrow> (case p of PText s c \<Rightarrow> starts_with s ''text-'' | PThinking s c \<Rightarrow> starts_with s ''thinking-''
     | PTool s nm a \<Rightarrow> s \<in> set ids \<and> plain_id s)"

lemma parts_ok:
  "\<forall>s \<in> set (content_call_ids cs). plain_id s \<Longrightarrow> p \<in> set (parts_of i t h cs) \<Longrightarrow> part_ok (content_call_ids cs) p"
proof (induction i t h cs rule: parts_of.induct)
  case (5 i t h k n a cs)
  then show ?case
    by (auto simp: part_ok_def plain_id_def split: part.splits)
qed (auto simp: part_ok_def split: part.splits)

lemma part_texts: "PText s c \<in> set (parts_of i t h cs) \<Longrightarrow> \<exists>k \<ge> t. s = ''text-'' @ show_nat k"
  by (induction i t h cs rule: parts_of.induct) (auto split: if_splits dest: Suc_leD)

lemma part_thinkings: "PThinking s c \<in> set (parts_of i t h cs) \<Longrightarrow> \<exists>k \<ge> h. s = ''thinking-'' @ show_nat k"
  by (induction i t h cs rule: parts_of.induct) (auto split: if_splits dest: Suc_leD)

lemma part_tools: "PTool s nm a \<in> set (parts_of i t h cs) \<Longrightarrow> \<forall>s \<in> set (content_call_ids cs). plain_id s \<Longrightarrow>
    \<exists>n b. ToolCall s n b \<in> set cs \<and> a = safe_mapping (JObj b)"
  by (induction i t h cs rule: parts_of.induct) (auto simp: plain_id_def split: if_splits)

lemma fresh_source: "(\<And>p. p \<in> set ps \<Longrightarrow> part_source p \<noteq> s) \<Longrightarrow> s \<notin> part_source ` set ps"
  by auto

lemma parts_distinct:
  "\<forall>s \<in> set (content_call_ids cs). plain_id s \<Longrightarrow> distinct (content_call_ids cs) \<Longrightarrow> distinct (map part_source (parts_of i t h cs))"
proof (induction i t h cs rule: parts_of.induct)
  case (2 i t h c cs)
  have "part_source p \<noteq> ''text-'' @ show_nat t" if p: "p \<in> set (parts_of (i + 1) (t + 1) h cs)" for p
  proof (cases p)
    case (PText s d)
    with p part_texts obtain k where "k \<ge> t + 1" "s = ''text-'' @ show_nat k"
      by blast
    with PText show_nat_inj [of k t] show ?thesis
      by auto
  next
    case (PThinking s d)
    with p part_thinkings show ?thesis
      by fastforce
  next
    case (PTool s nm a)
    with p parts_ok [of cs p] 2 show ?thesis
      by (auto simp: part_ok_def plain_id_def)
  qed
  then have "''text-'' @ show_nat t \<notin> part_source ` set (parts_of (i + 1) (t + 1) h cs)"
    by (rule fresh_source)
  with 2 show ?case
    by simp
next
  case (3 i t h c cs)
  have "part_source p \<noteq> ''thinking-'' @ show_nat h" if p: "p \<in> set (parts_of (i + 1) t (h + 1) cs)" for p
  proof (cases p)
    case (PThinking s d)
    with p part_thinkings obtain k where "k \<ge> h + 1" "s = ''thinking-'' @ show_nat k"
      by blast
    with PThinking show_nat_inj [of k h] show ?thesis
      by auto
  next
    case (PText s d)
    with p part_texts show ?thesis
      by fastforce
  next
    case (PTool s nm a)
    with p parts_ok [of cs p] 3 show ?thesis
      by (auto simp: part_ok_def plain_id_def)
  qed
  then have "''thinking-'' @ show_nat h \<notin> part_source ` set (parts_of (i + 1) t (h + 1) cs)"
    by (rule fresh_source)
  with 3 show ?case
    by simp
next
  case (5 i t h k n a cs)
  have "part_source p \<noteq> k" if p: "p \<in> set (parts_of (i + 1) t h cs)" for p
    using parts_ok [OF _ p] 5 by (auto simp: part_ok_def plain_id_def own_id_def split: part.splits)
  then have "k \<notin> part_source ` set (parts_of (i + 1) t h cs)"
    by (rule fresh_source)
  with 5 show ?case
    by (simp add: plain_id_def)
qed auto

section \<open>Streaming and completing a message\<close>

lemma update_first_append: "\<forall>x \<in> set xs. \<not> P x \<Longrightarrow> update_first P f (xs @ ys) = xs @ update_first P f ys"
  by (induction xs) auto

lemma has_block_append [simp]: "has_block i (xs @ ys) \<longleftrightarrow> has_block i xs \<or> has_block i ys"
  by (auto simp: has_block_def)

lemma merge_append: "\<not> has_block (block_id b) xs \<Longrightarrow> merge_block b (xs @ ys) = xs @ merge_block b ys"
  unfolding merge_block_def by (auto simp: has_block_def update_first_append)

lemma merges_append:
  "\<forall>b \<in> set cs. \<not> has_block (block_id b) xs \<Longrightarrow> fold merge_block cs (xs @ ys) = xs @ fold merge_block cs ys"
  by (induction cs arbitrary: ys) (auto simp: merge_append)

definition put_block :: "block \<Rightarrow> block list \<Rightarrow> block list" where
  "put_block b bs = (if has_block (block_id b) bs then bs else bs @ [b])"

lemma ensure_block_sel [simp]: "tv_blocks (ensure_block n b v) = put_block b (tv_blocks v)"
  by (simp add: ensure_block_def put_block_def)

lemma has_block_update:
  "(\<And>x. block_id (f x) = block_id x) \<Longrightarrow> has_block i (update_first P f bs) = has_block i bs"
  by (induction bs) (auto simp: has_block_def)

lemma extend_content_id [simp]: "block_id (extend_content d b) = block_id b"
  by (simp add: extend_content_def block_id_def)

text \<open>A delta puts one block and may extend it.\<close>

definition delta_on :: "block \<Rightarrow> (block \<Rightarrow> block) \<Rightarrow> block list \<Rightarrow> block list" where
  "delta_on b f bs = update_first (\<lambda>x. block_id x = block_id b) f (put_block b bs)"

lemma delta_on_ids:
  assumes "\<And>x. block_id (f x) = block_id x"
  shows "has_block i (delta_on b f bs) \<longleftrightarrow> has_block i bs \<or> i = block_id b"
  unfolding delta_on_def has_block_update [OF assms] put_block_def by (auto simp: has_block_def)

lemma delta_on_append:
  "\<not> has_block (block_id b) xs \<Longrightarrow> delta_on b f (xs @ ys) = xs @ delta_on b f ys"
  by (auto simp: delta_on_def put_block_def update_first_append has_block_def)

lemma update_first_id: "update_first P (\<lambda>x. x) bs = bs"
  by (induction bs) auto

definition update_action :: "(string, json) dict \<Rightarrow> exn + (turn_view \<Rightarrow> turn_view)" where
  "update_action data =
     bind_res (as_mapping (py_or (jget data ''assistantMessageEvent'') (JObj []))) (\<lambda>stream.
     bind_res (int_or_zero (jget stream ''attempt'')) (\<lambda>attempt.
     bind_res (int_or_zero (py_or (jget stream ''contentIndex'') (jget stream ''toolCallIndex''))) (\<lambda>index.
     bind_res (in_strings (jget stream ''type'') [''text_delta'', ''thinking_delta'']) (\<lambda>content.
     Inr (if content then content_delta (if jget stream ''type'' = JStr ''text_delta'' then ''text'' else ''thinking'') index attempt
            (str_or (jget stream ''delta'') [])
          else if jget stream ''type'' = JStr ''toolcall_delta''
          then toolcall_delta (str_or (jget stream ''toolCallId'') (''tool-'' @ show_int index)) attempt
            (str_or (jget stream ''toolName'') ''tool'')
          else (\<lambda>v. v))))))"

lemma message_update_action: "message_update data v = bind_res (update_action data) (\<lambda>f. Inr (f v))"
proof -
  have push: "bind_res (bind_res r g) h = bind_res r (\<lambda>x. bind_res (g x) h)" for r :: "exn + 'a" and g :: "'a \<Rightarrow> exn + 'b" and h :: "'b \<Rightarrow> exn + 'c"
    by (cases r) simp_all
  show ?thesis
    unfolding message_update_def update_action_def push by (intro bind_res_cong refl) simp
qed

text \<open>What an update does to the blocks.\<close>

definition delta_like :: "(turn_view \<Rightarrow> turn_view) \<Rightarrow> bool" where
  "delta_like g \<longleftrightarrow> (\<forall>w. tv_blocks (g w) = tv_blocks w)
     \<or> (\<exists>b f. (\<forall>x. block_id (f x) = block_id x) \<and> (\<forall>w. tv_blocks (g w) = delta_on b f (tv_blocks w)))"

lemma content_delta_like: "delta_like (content_delta t i n d)"
proof -
  let ?b = "[(''id'', JStr (attempt_block_id (t @ ''-'' @ show_int i) n)), (''type'', JStr t),
      (''role'', if t = ''text'' then JStr ''narration'' else JNull), (''content'', JStr []), (''status'', JStr ''running''), (''_attempt'', JInt n)]"
  have "tv_blocks (content_delta t i n d w) = delta_on ?b (extend_content d) (tv_blocks w)" for w
    by (simp add: content_delta_def Let_def delta_on_def block_id_def)
  then show ?thesis
    unfolding delta_like_def by (meson extend_content_id)
qed

lemma toolcall_delta_like: "delta_like (toolcall_delta s n m)"
proof -
  have "tv_blocks (toolcall_delta s n m w) = delta_on (tool_block (attempt_block_id s n) n m [] ''streaming'' s) (\<lambda>x. x) (tv_blocks w)" for w
    by (simp add: toolcall_delta_def Let_def delta_on_def update_first_id)
  then show ?thesis
    unfolding delta_like_def by metis
qed

lemma update_action_like:
  assumes "update_action data = Inr g"
  shows "delta_like g"
proof -
  have "delta_like (\<lambda>v. v)"
    by (simp add: delta_like_def)
  with assms content_delta_like toolcall_delta_like show ?thesis
    unfolding update_action_def bind_res_Inr_iff by (elim exE conjE) (auto split: if_split_asm)
qed

lemma message_update_append:
  assumes "message_update data v = Inr v'" "tv_blocks w = xs @ tv_blocks v"
    and "\<forall>b \<in> set xs. \<not> has_block (block_id b) (tv_blocks v')"
  shows "\<exists>w'. message_update data w = Inr w' \<and> tv_blocks w' = xs @ tv_blocks v'"
proof -
  obtain g where g: "update_action data = Inr g" "v' = g v"
    using assms(1) by (auto simp: message_update_action bind_res_Inr_iff)
  have "tv_blocks (g w) = xs @ tv_blocks (g v)"
    using update_action_like [OF g(1)] unfolding delta_like_def
  proof (elim disjE exE conjE)
    fix b f
    assume f: "\<forall>x. block_id (f x) = block_id x" and on: "\<forall>w. tv_blocks (g w) = delta_on b f (tv_blocks w)"
    have "has_block (block_id b) (tv_blocks v')"
      using f by (simp add: g(2) on delta_on_ids)
    with assms(3) have "\<not> has_block (block_id b) xs"
      by (auto simp: has_block_def)
    then show ?thesis
      by (simp add: on assms(2) delta_on_append)
  qed (simp add: assms(2))
  with g show ?thesis
    by (simp add: message_update_action)
qed

lemma message_update_ids:
  assumes "message_update data v = Inr v'" "has_block i (tv_blocks v)"
  shows "has_block i (tv_blocks v')"
proof -
  obtain g where g: "update_action data = Inr g" "v' = g v"
    using assms(1) by (auto simp: message_update_action bind_res_Inr_iff)
  from update_action_like [OF g(1)] assms(2) g(2) show ?thesis
    unfolding delta_like_def by (elim disjE exE conjE) (auto simp: delta_on_ids)
qed

definition stream_events :: "(string, json) dict list \<Rightarrow> (string \<times> (string, json) dict) list" where
  "stream_events ups = map (\<lambda>d. (''message_update'', d)) ups"

lemma stream_ids:
  "run_events_view stats (stream_events ups) v = Inr v' \<Longrightarrow> has_block i (tv_blocks v) \<Longrightarrow> has_block i (tv_blocks v')"
  by (induction ups arbitrary: v) (auto simp: stream_events_def bind_res_Inr_iff run_event_view_def dest: message_update_ids)

lemma stream_append:
  assumes "run_events_view stats (stream_events ups) v = Inr v'" "tv_blocks w = xs @ tv_blocks v"
    and "\<forall>b \<in> set xs. \<not> has_block (block_id b) (tv_blocks v')"
  shows "\<exists>w'. run_events_view stats (stream_events ups) w = Inr w' \<and> tv_blocks w' = xs @ tv_blocks v'"
  using assms(1,2)
proof (induction ups arbitrary: v w)
  case (Cons d ups)
  then obtain v1 where v1: "message_update d v = Inr v1" "run_events_view stats (stream_events ups) v1 = Inr v'"
    by (auto simp: stream_events_def bind_res_Inr_iff run_event_view_def)
  have "\<forall>b \<in> set xs. \<not> has_block (block_id b) (tv_blocks v1)"
    using assms(3) stream_ids [OF v1(2)] by blast
  then obtain w1 where "message_update d w = Inr w1" "tv_blocks w1 = xs @ tv_blocks v1"
    using message_update_append [OF v1(1) Cons.prems(2)] by blast
  with Cons.IH [OF v1(2)] show ?case
    by (auto simp: stream_events_def run_event_view_def)
qed (simp add: stream_events_def)

end
