(* ===== verification/LiveTimelineProps.thy ===== *)
theory LiveTimelineProps
  imports LiveTimeline
begin

text \<open>
  The tool phase of a turn on the live blocks and on the timeline, and the agreement of the two.
\<close>

section \<open>The events of the tools\<close>

definition event_id :: "string \<times> (string, json) dict \<Rightarrow> string" where
  "event_id e = (case jget (snd e) ''toolCallId'' of JStr s \<Rightarrow> s | _ \<Rightarrow> [])"

definition tool_kind :: "string \<Rightarrow> bool" where
  "tool_kind k \<longleftrightarrow> k \<in> {''tool_execution_start'', ''tool_execution_update'', ''tool_execution_end''}"

definition tool_fun :: "string \<times> (string, json) dict \<Rightarrow> block \<Rightarrow> block" where
  "tool_fun e b = (if fst e = ''tool_execution_start'' then start_tool_block (safe_mapping (jget (snd e) ''args'')) b
     else dict_merge b (fst (result_patch (fst e = ''tool_execution_end'') (snd e))))"

text \<open>What the updates of a tool leave alone.\<close>

lemma tool_fun_keys:
  assumes "k \<notin> {''arguments'', ''status'', ''result'', ''artifacts''}"
  shows "jget (tool_fun e b) k = jget b k"
proof -
  have "jget (dict_merge b (fst (result_patch ended data))) k = jget b k" for ended data
    using result_patch_shape [of ended data] assms by auto
  then show ?thesis
    using assms by (simp add: tool_fun_def start_tool_block_def)
qed

lemma tool_block_of_fun [simp]: "tool_block_of s (tool_fun e b) = tool_block_of s b"
  by (simp add: tool_block_of_def tool_fun_keys)

definition one_tool :: "string \<Rightarrow> block list \<Rightarrow> bool" where
  "one_tool s bs \<longleftrightarrow> length (filter (tool_block_of s) bs) = 1"

lemma update_first_unique:
  "length (filter P xs) \<le> 1 \<Longrightarrow> update_first P f xs = map (\<lambda>x. if P x then f x else x) xs"
proof (induction xs)
  case (Cons x xs)
  show ?case
  proof (cases "P x")
    case True
    with Cons.prems have "filter P xs = []"
      by simp
    then have "map (\<lambda>x. if P x then f x else x) xs = xs"
      by (induction xs) (auto split: if_splits)
    with True show ?thesis
      by simp
  qed (use Cons in simp)
qed simp

lemma update_tool_unique: "one_tool s bs \<Longrightarrow> update_tool_block s f bs = map (\<lambda>b. if tool_block_of s b then f b else b) bs"
  unfolding update_tool_block_def one_tool_def
  by (subst update_first_unique) (simp_all add: rev_filter [symmetric] rev_map [symmetric])

lemma one_tool_found: "one_tool s bs \<Longrightarrow> find_tool_block s bs \<noteq> None"
proof
  assume "one_tool s bs" "find_tool_block s bs = None"
  then have "filter (tool_block_of s) bs = []"
    using find_tool_None by (auto simp: filter_empty_conv)
  with \<open>one_tool s bs\<close> show False
    by (simp add: one_tool_def)
qed

definition apply_tool_event :: "string \<times> (string, json) dict \<Rightarrow> block \<Rightarrow> block" where
  "apply_tool_event e b = (if tool_block_of (event_id e) b then tool_fun e b else b)"

lemma one_tool_apply [simp]: "one_tool s (map (apply_tool_event e) bs) = one_tool s bs"
proof -
  have "tool_block_of s \<circ> apply_tool_event e = tool_block_of s"
    by (rule ext) (simp add: apply_tool_event_def)
  then show ?thesis
    by (simp add: one_tool_def filter_map)
qed

lemma tool_event_blocks:
  assumes "tool_kind (fst e)" "jget (snd e) ''toolCallId'' = JStr s" "s \<noteq> []" "one_tool s (tv_blocks v)"
  shows "\<exists>v'. run_event_view stats (fst e) (snd e) v = Inr v' \<and> tv_blocks v' = map (apply_tool_event e) (tv_blocks v)"
proof -
  have src: "str_or (jget (snd e) ''toolCallId'') ''tool'' = s" and i: "event_id e = s"
    using assms(2,3) by (simp_all add: event_id_def nonempty_or_def)
  obtain b where b: "find_tool_block s (tv_blocks v) = Some b"
    using one_tool_found [OF assms(4)] by blast
  have upd: "update_tool_block s (tool_fun e) (tv_blocks v) = map (apply_tool_event e) (tv_blocks v)"
    unfolding apply_tool_event_def i using update_tool_unique [OF assms(4)] by simp
  consider "fst e = ''tool_execution_start''" | "fst e = ''tool_execution_update''" | "fst e = ''tool_execution_end''"
    using assms(1) by (auto simp: tool_kind_def)
  then show ?thesis
  proof cases
    case 1
    have "tool_fun e = start_tool_block (safe_mapping (jget (snd e) ''args''))"
      by (rule ext) (simp add: tool_fun_def 1)
    with upd show ?thesis
      by (simp add: run_event_view_def 1 tool_start_def src b Let_def)
  next
    case 2
    have "tool_fun e = (\<lambda>b. dict_merge b (fst (result_patch False (snd e))))"
      by (rule ext) (simp add: tool_fun_def 2)
    with upd show ?thesis
      by (simp add: run_event_view_def 2 tool_progress_def src Let_def case_prod_unfold)
  next
    case 3
    have "tool_fun e = (\<lambda>b. dict_merge b (fst (result_patch True (snd e))))"
      by (rule ext) (simp add: tool_fun_def 3)
    with upd show ?thesis
      by (simp add: run_event_view_def 3 tool_progress_def src Let_def case_prod_unfold)
  qed
qed

lemma tool_events_blocks:
  assumes "\<forall>e \<in> set evs. tool_kind (fst e) \<and> (\<exists>s. s \<noteq> [] \<and> jget (snd e) ''toolCallId'' = JStr s \<and> one_tool s (tv_blocks v))"
  shows "\<exists>v'. run_events_view stats evs v = Inr v' \<and> tv_blocks v' = map (fold apply_tool_event evs) (tv_blocks v)"
  using assms
proof (induction evs arbitrary: v)
  case (Cons e evs)
  then obtain v1 where v1: "run_event_view stats (fst e) (snd e) v = Inr v1" "tv_blocks v1 = map (apply_tool_event e) (tv_blocks v)"
    using tool_event_blocks by (metis list.set_intros(1))
  with Cons.prems have "\<forall>e \<in> set evs. tool_kind (fst e) \<and> (\<exists>s. s \<noteq> [] \<and> jget (snd e) ''toolCallId'' = JStr s \<and> one_tool s (tv_blocks v1))"
    by (metis list.set_intros(2) one_tool_apply)
  from Cons.IH [OF this] obtain v' where "run_events_view stats evs v1 = Inr v'" "tv_blocks v' = map (fold apply_tool_event evs) (tv_blocks v1)"
    by blast
  with v1 show ?case
    by (cases e) (auto simp: o_def)
qed simp

lemma tool_events_filter:
  "fold apply_tool_event evs b = fold tool_fun (filter (\<lambda>e. tool_block_of (event_id e) b) evs) b"
proof (induction evs arbitrary: b)
  case (Cons e evs)
  then show ?case
    by (simp add: apply_tool_event_def)
qed simp

section \<open>One call\<close>

text \<open>A call, its result and the time of its message.\<close>

type_synonym outcome = "tool_call \<times> tool_result \<times> int"

definition call_events :: "tool_call \<Rightarrow> tool_result list \<Rightarrow> tool_result \<Rightarrow> (string \<times> (string, json) dict) list" where
  "call_events c upds r = (''tool_execution_start'', call_start_data c)
     # map (\<lambda>u. (''tool_execution_update'', update_data c u)) upds @ [(''tool_execution_end'', call_end_data c r)]"

definition outcome_dict :: "outcome \<Rightarrow> (string, json) dict" where
  "outcome_dict o' = message_to_dict (ToolResultMessage (result_message (fst o') (fst (snd o')) (tr_usage (fst (snd o'))) (snd (snd o'))))"

definition result_text :: "tool_result \<Rightarrow> string" where
  "result_text r = content_text (JList (map (\<lambda>p. JObj (content_to_dict p)) (tr_content r)))"

definition result_status :: "tool_result \<Rightarrow> string" where
  "result_status r = (if tr_is_error r then ''failed'' else ''completed'')"

lemma take_content_text [simp]: "take TOOL_OUTPUT_LIMIT (content_text v) = content_text v"
  by (simp add: content_text_def split: json.split)

lemma end_patch: "jget (dict_merge b (fst (result_patch True (call_end_data c r)))) k =
    (if k = ''result'' then JStr (result_text r) else if k = ''status'' then JStr (result_status r)
     else if k = ''artifacts'' then jget (dict_merge b (fst (result_patch True (call_end_data c r)))) k else jget b k)"
  by (simp add: result_patch_def call_end_data_def tool_result_to_dict_def tool_text_def result_text_def result_status_def Let_def)

lemma updates_keep:
  "k \<notin> {''status'', ''result'', ''artifacts''} \<Longrightarrow>
   jget (fold tool_fun (map (\<lambda>u. (''tool_execution_update'', update_data c u)) upds) b) k = jget b k"
proof (induction upds arbitrary: b)
  case (Cons u upds)
  have "jget (tool_fun (''tool_execution_update'', d) b) k = jget b k" for d
    using result_patch_shape [of False d] Cons.prems by (auto simp: tool_fun_def)
  with Cons show ?case
    by simp
qed simp

lemma call_events_shown:
  "shown (fold tool_fun (call_events c upds r) b) = [jget b ''type'', jget b ''role'', jget b ''content'', jget b ''name'',
     JObj (safe_mapping (JObj (tc_arguments c))), JStr (result_status r), JStr (result_text r)]"
proof -
  define b1 where "b1 = tool_fun (''tool_execution_start'', call_start_data c) b"
  define b2 where "b2 = fold tool_fun (map (\<lambda>u. (''tool_execution_update'', update_data c u)) upds) b1"
  have "fold tool_fun (call_events c upds r) b = dict_merge b2 (fst (result_patch True (call_end_data c r)))"
    by (simp add: call_events_def b1_def b2_def tool_fun_def)
  moreover have "jget b2 k = jget b1 k" if "k \<notin> {''status'', ''result'', ''artifacts''}" for k
    unfolding b2_def by (rule updates_keep [OF that])
  moreover have "jget b1 k = (if k = ''status'' then JStr ''running'' else if k = ''arguments'' then JObj (safe_mapping (JObj (tc_arguments c)))
      else jget b k)" for k
    by (simp add: b1_def tool_fun_def start_tool_block_def call_start_data_def)
  ultimately show ?thesis
    by (simp add: shown_def end_patch)
qed

definition settle :: "outcome \<Rightarrow> block \<Rightarrow> block" where
  "settle o' b = finish_tool_block (tc_id (fst o')) (outcome_dict o') b"

lemma settle_keys: "k \<notin> {''status'', ''result''} \<Longrightarrow> jget (settle o' b) k = jget b k"
  by (simp add: settle_def finish_tool_block_def)

lemma settle_shown:
  "block_id b = JStr (tc_id c) \<Longrightarrow> shown (settle (c, r, now) b) = [jget b ''type'', jget b ''role'', jget b ''content'', jget b ''name'',
     jget b ''arguments'', JStr (result_status r), JStr (result_text r)]"
  by (simp add: settle_def finish_tool_block_def outcome_dict_def result_message_def shown_def result_text_def result_status_def)

lemma settle_other: "block_id b \<noteq> JStr (tc_id (fst o')) \<Longrightarrow> settle o' b = b"
  by (simp add: settle_def finish_tool_block_def)

lemma settle_id [simp]: "block_id (settle o' b) = block_id b"
  by (simp add: block_id_def settle_keys)

lemma settles:
  assumes "distinct (map (tc_id \<circ> fst) outs)"
  shows "(c, r, now) \<in> set outs \<Longrightarrow> block_id b = JStr (tc_id c) \<Longrightarrow> fold settle outs b = settle (c, r, now) b"
    "(\<forall>o' \<in> set outs. block_id b \<noteq> JStr (tc_id (fst o'))) \<Longrightarrow> fold settle outs b = b"
proof -
  have none: "fold settle os b = b" if "\<forall>o' \<in> set os. block_id b \<noteq> JStr (tc_id (fst o'))" for os b
    using that by (induction os arbitrary: b) (auto simp: settle_other)
  then show "(\<forall>o' \<in> set outs. block_id b \<noteq> JStr (tc_id (fst o'))) \<Longrightarrow> fold settle outs b = b" .
  show "(c, r, now) \<in> set outs \<Longrightarrow> block_id b = JStr (tc_id c) \<Longrightarrow> fold settle outs b = settle (c, r, now) b"
    using assms
  proof (induction outs arbitrary: b)
    case (Cons o' outs)
    show ?case
    proof (cases "o' = (c, r, now)")
      case True
      with Cons.prems have "\<forall>o'' \<in> set outs. block_id (settle o' b) \<noteq> JStr (tc_id (fst o''))"
        by (auto simp: image_iff)
      with True none show ?thesis
        by simp
    next
      case False
      with Cons.prems have "tc_id (fst o') \<noteq> tc_id c"
        by (auto simp: image_iff)
      with Cons False show ?thesis
        by (simp add: settle_other)
    qed
  qed simp
qed

section \<open>Exchanges\<close>

text \<open>A complete assistant message with its attempt, the deltas streamed before it, the events of its
  tools in the order in which they were sent, and the results in the order in which they were
  recorded.\<close>

record exchange =
  ex_attempt :: nat
  ex_message :: assistant_message
  ex_updates :: "(string, json) dict list"
  ex_tool_events :: "(string \<times> (string, json) dict) list"
  ex_outcomes :: "outcome list"

definition ex_ids :: "exchange \<Rightarrow> string list" where
  "ex_ids x = content_call_ids (am_content (ex_message x))"

definition ex_parts :: "exchange \<Rightarrow> part list" where
  "ex_parts x = parts_of 0 0 0 (am_content (ex_message x))"

definition ex_blocks :: "exchange \<Rightarrow> block list" where
  "ex_blocks x = map (part_block (int (ex_attempt x))) (ex_parts x)"

definition end_event :: "exchange \<Rightarrow> string \<times> (string, json) dict" where
  "end_event x = (''message_end'', [(''message'', JObj (message_to_dict (AssistantMessage (ex_message x)))),
     (''attempt'', JInt (int (ex_attempt x)))])"

definition exchange_events :: "exchange \<Rightarrow> (string \<times> (string, json) dict) list" where
  "exchange_events x = stream_events (ex_updates x) @ end_event x # ex_tool_events x"

definition message_entry :: "(string, json) dict \<Rightarrow> (string, json) dict" where
  "message_entry d = [(''type'', JStr ''message''), (''message'', JObj d)]"

definition exchange_entries :: "exchange \<Rightarrow> (string, json) dict list" where
  "exchange_entries x = message_entry (message_to_dict (AssistantMessage (ex_message x)))
     # map (\<lambda>o'. message_entry (outcome_dict o')) (ex_outcomes x)"

definition summary :: "block \<Rightarrow> json \<times> json \<times> json list" where
  "summary b = (block_id b, jget b ''_source_id'', shown b)"

text \<open>What was streamed belongs to the message: completing the streamed blocks gives its blocks.\<close>

definition stream_ok :: "exchange \<Rightarrow> bool" where
  "stream_ok x \<longleftrightarrow> (case run_events_view JNull (stream_events (ex_updates x)) new_view of
      Inr v \<Rightarrow> map summary (fold merge_block (ex_blocks x) (tv_blocks v)) = map summary (ex_blocks x)
    | Inl _ \<Rightarrow> False)"

text \<open>The tools of an exchange: every result belongs to a call of the message, and for each call the
  events are its start, its updates and its end, in whatever order the calls interleave.\<close>

definition tools_ok :: "exchange \<Rightarrow> bool" where
  "tools_ok x \<longleftrightarrow> distinct (map (tc_id \<circ> fst) (ex_outcomes x))
     \<and> (\<forall>(c, r, now) \<in> set (ex_outcomes x). ToolCall (tc_id c) (tc_name c) (tc_arguments c) \<in> set (am_content (ex_message x))
         \<and> (\<exists>upds. filter (\<lambda>e. event_id e = tc_id c) (ex_tool_events x) = call_events c upds r))
     \<and> (\<forall>e \<in> set (ex_tool_events x). tool_kind (fst e)
         \<and> (\<exists>o' \<in> set (ex_outcomes x). jget (snd e) ''toolCallId'' = JStr (tc_id (fst o'))))"

definition exchange_ok :: "exchange \<Rightarrow> bool" where
  "exchange_ok x \<longleftrightarrow> am_stop_reason (ex_message x) \<notin> {''error'', ''aborted''} \<and> (\<forall>s \<in> set (ex_ids x). plain_id s)
     \<and> distinct (ex_ids x) \<and> stream_ok x \<and> tools_ok x"

definition exchanges_ok :: "exchange list \<Rightarrow> bool" where
  "exchanges_ok xs \<longleftrightarrow> (\<forall>x \<in> set xs. exchange_ok x) \<and> distinct (map ex_attempt xs) \<and> distinct (concat (map ex_ids xs))"

section \<open>Corresponding blocks\<close>

definition related :: "nat set \<Rightarrow> string set \<Rightarrow> block \<Rightarrow> block \<Rightarrow> bool" where
  "related A S l t \<longleftrightarrow> shown l = shown t \<and> (\<exists>n \<in> A. \<exists>src. block_id l = JStr (attempt_block_id src (int n)) \<and> block_id t = JStr src
     \<and> (if is_tool l then jget l ''_source_id'' = JStr src \<and> src \<in> S \<and> plain_id src
        else own_id src \<and> \<not> starts_with src ''attempt-''))"

lemma related_mono: "related A S l t \<Longrightarrow> A \<subseteq> A' \<Longrightarrow> S \<subseteq> S' \<Longrightarrow> related A' S' l t"
  unfolding related_def by (auto split: if_splits)

lemma plain_no_attempt: "plain_id s \<Longrightarrow> \<not> starts_with s ''attempt-''"
  by (simp add: plain_id_def own_id_def)

lemma attempt_id_plain: "attempt_block_id src (int n) = s \<Longrightarrow> plain_id s \<Longrightarrow> src = s"
  by (auto simp: attempt_block_id_def plain_id_def own_id_def split: if_splits)

lemma text_source: "starts_with s ''text-'' \<or> starts_with s ''thinking-'' \<Longrightarrow> own_id s \<and> \<not> starts_with s ''attempt-''"
  by (cases s) (auto simp: own_id_def)

lemma part_block_sel:
  "block_id (part_block n p) = JStr (attempt_block_id (part_source p) n)"
  "is_tool (part_block n p) = part_is_tool p"
  "part_is_tool p \<Longrightarrow> jget (part_block n p) ''_source_id'' = JStr (part_source p)"
  "shown (part_block n p) = shown (part_block 0 p)"
  by (cases p; simp add: block_id_def is_tool_def shown_def text_block_def thinking_block_def tool_block_def)+

lemma attempt_id_0 [simp]: "attempt_block_id s 0 = s"
  by (simp add: attempt_block_id_def)

lemma part_ok_source:
  assumes "part_ok ids p"
  shows "if part_is_tool p then part_source p \<in> set ids \<and> plain_id (part_source p)
    else own_id (part_source p) \<and> \<not> starts_with (part_source p) ''attempt-''"
  using assms text_source by (cases p) (simp_all add: part_ok_def)

lemma part_related:
  assumes "part_ok ids p" "summary l = summary (part_block (int n) p)"
  shows "related {n} (set ids) l (part_block 0 p)"
proof -
  have eq: "block_id l = block_id (part_block (int n) p)" "jget l ''_source_id'' = jget (part_block (int n) p) ''_source_id''"
      "shown l = shown (part_block (int n) p)"
    using assms(2) by (simp_all add: summary_def)
  have "is_tool l = part_is_tool p"
    using eq(3) part_block_sel(2) [of "int n" p] by (simp add: shown_def is_tool_def)
  moreover have "shown l = shown (part_block 0 p)"
    using eq(3) part_block_sel(4) by simp
  moreover have "jget l ''_source_id'' = JStr (part_source p)" if "part_is_tool p"
    using eq(2) part_block_sel(3) [OF that] by simp
  ultimately show ?thesis
    using eq(1) part_ok_source [OF assms(1)] part_block_sel(1) [of "int n" p] part_block_sel(1) [of 0 p]
    by (auto simp: related_def split: if_splits)
qed

lemma related_id_fresh:
  assumes "related A S l t" "n \<notin> A" "part_ok ids p"
  shows "block_id l \<noteq> block_id (part_block (int n) p)"
proof
  assume eq: "block_id l = block_id (part_block (int n) p)"
  obtain m src where m: "m \<in> A" "block_id l = JStr (attempt_block_id src (int m))" "\<not> starts_with src ''attempt-''"
    using assms(1) plain_no_attempt by (auto simp: related_def split: if_splits)
  have "\<not> starts_with (part_source p) ''attempt-''"
    using part_ok_source [OF assms(3)] plain_no_attempt by (auto split: if_splits)
  with eq m assms(2) attempt_id_inj [of src m "part_source p" n] show False
    by (auto simp: part_block_sel)
qed

lemma related_tool_of:
  assumes "related A S l t" "plain_id s"
  shows "tool_block_of s l \<longleftrightarrow> is_tool l \<and> jget l ''_source_id'' = JStr s"
  using assms attempt_id_plain by (fastforce simp: related_def tool_block_of_def is_tool_def block_id_def split: if_splits)

lemma related_timeline_id:
  assumes "related A S l t" "plain_id s"
  shows "block_id t = JStr s \<longleftrightarrow> is_tool l \<and> jget l ''_source_id'' = JStr s"
  using assms by (auto simp: related_def plain_id_def split: if_splits)

section \<open>The message of an exchange\<close>

lemma run_events_append:
  "run_events_view stats (xs @ ys) v = bind_res (run_events_view stats xs v) (run_events_view stats ys)"
proof (induction xs arbitrary: v)
  case (Cons e xs)
  then show ?case
    by (cases e) (simp add: bind_res_def split: sum.split)
qed simp

lemma stream_stats: "run_events_view stats (stream_events ups) v = run_events_view stats' (stream_events ups) v"
proof (induction ups arbitrary: v)
  case (Cons u ups)
  have "run_event_view stats ''message_update'' u v = run_event_view stats' ''message_update'' u v"
    by (simp add: run_event_view_def)
  with Cons show ?case
    by (simp add: stream_events_def bind_res_def split: sum.split)
qed (simp add: stream_events_def)

lemma has_block_ids: "has_block i bs \<longleftrightarrow> i \<in> set (map block_id bs)"
  by (auto simp: has_block_def)

lemma merge_keeps_ids: "full_block b \<Longrightarrow> has_block i bs \<Longrightarrow> has_block i (merge_block b bs)"
proof -
  assume b: "full_block b" and i: "has_block i bs"
  have "block_id (dict_merge x b) = block_id b" for x
    using b by (induction rule: full_block.induct)
      (simp_all add: block_id_def text_block_def thinking_block_def tool_block_def)
  then have "map block_id (update_first (\<lambda>x. block_id x = block_id b) (\<lambda>x. dict_merge x b) bs) = map block_id bs"
    by (intro update_first_map) simp
  then have "has_block i (update_first (\<lambda>x. block_id x = block_id b) (\<lambda>x. dict_merge x b) bs) = has_block i bs"
    unfolding has_block_ids by simp
  with i show ?thesis
    by (auto simp: merge_block_def)
qed

lemma merges_keep_ids: "\<forall>b \<in> set cs. full_block b \<Longrightarrow> has_block i bs \<Longrightarrow> has_block i (fold merge_block cs bs)"
  by (induction cs arbitrary: bs) (auto simp: merge_keeps_ids)

lemma has_block_summary: "map summary bs = map summary cs \<Longrightarrow> has_block i bs = has_block i cs"
proof -
  assume "map summary bs = map summary cs"
  then have "map (fst \<circ> summary) bs = map (fst \<circ> summary) cs"
    by (metis map_map)
  moreover have "fst \<circ> summary = block_id"
    by (rule ext) (simp add: summary_def)
  ultimately show ?thesis
    unfolding has_block_ids by simp
qed

lemma attempts_read: "blocks_ok bs \<Longrightarrow> \<exists>ns. map_res block_attempt bs = Inr ns"
proof -
  assume ok: "blocks_ok bs"
  have att: "block_attempt b = Inr (case jget b ''_attempt'' of JInt n \<Rightarrow> n | _ \<Rightarrow> 0)" if "b \<in> set bs" for b
  proof -
    have "is_int (jget b ''_attempt'')"
      using ok that by (simp add: blocks_ok_def block_ok_def block_fields_def)
    then show ?thesis
      by (cases "jget b ''_attempt''") (simp_all add: block_attempt_def)
  qed
  show ?thesis
    by (rule exI, rule map_res_all_Inr) (rule att)
qed

lemma ex_parts_ok:
  assumes "exchange_ok x"
  shows "\<forall>p \<in> set (ex_parts x). part_ok (ex_ids x) p" "distinct (map part_source (ex_parts x))"
proof -
  have ids: "\<forall>s \<in> set (content_call_ids (am_content (ex_message x))). plain_id s" "distinct (content_call_ids (am_content (ex_message x)))"
    using assms by (simp_all add: exchange_ok_def ex_ids_def)
  show "\<forall>p \<in> set (ex_parts x). part_ok (ex_ids x) p"
    unfolding ex_parts_def ex_ids_def using parts_ok [OF ids(1)] by blast
  show "distinct (map part_source (ex_parts x))"
    unfolding ex_parts_def by (rule parts_distinct [OF ids])
qed

lemma ex_message_blocks:
  "exchange_ok x \<Longrightarrow> message_blocks (message_to_dict (AssistantMessage (ex_message x))) (int (ex_attempt x)) = Inr (ex_blocks x)"
  unfolding ex_blocks_def ex_parts_def by (rule message_parts) (simp add: exchange_ok_def)

lemma ex_blocks_full: "exchange_ok x \<Longrightarrow> b \<in> set (ex_blocks x) \<Longrightarrow> full_block b"
  using message_blocks_full [OF ex_message_blocks] .

lemma live_message:
  assumes x: "exchange_ok x" and rel: "list_all2 (related A S) (tv_blocks v) T" and new: "ex_attempt x \<notin> A"
    and ok: "blocks_ok (tv_blocks v)"
  shows "\<exists>w Q. run_events_view stats (stream_events (ex_updates x) @ [end_event x]) v = Inr w
     \<and> tv_blocks w = tv_blocks v @ Q \<and> map summary Q = map summary (ex_blocks x) \<and> blocks_ok (tv_blocks w)"
proof -
  let ?L = "tv_blocks v" and ?C = "ex_blocks x"
  obtain p where p: "run_events_view stats (stream_events (ex_updates x)) new_view = Inr p"
      "map summary (fold merge_block ?C (tv_blocks p)) = map summary ?C"
    using x unfolding exchange_ok_def stream_ok_def stream_stats [of JNull _ _ stats] by (auto split: sum.splits)
  have full: "\<forall>b \<in> set ?C. full_block b"
    using ex_blocks_full [OF x] by blast
  have apart: "\<not> has_block (block_id c) ?L" if "c \<in> set ?C" for c
  proof
    assume "has_block (block_id c) ?L"
    then obtain l t where "related A S l t" "block_id l = block_id c"
      using rel unfolding has_block_def by (metis in_set_conv_nth list_all2_conv_all_nth)
    with that related_id_fresh [OF _ new] ex_parts_ok(1) [OF x] show False
      unfolding ex_blocks_def by auto
  qed
  have "\<not> has_block (block_id l) (tv_blocks p)" if "l \<in> set ?L" for l
  proof
    assume "has_block (block_id l) (tv_blocks p)"
    then have "has_block (block_id l) ?C"
      using merges_keep_ids [OF full] has_block_summary [OF p(2)] by blast
    then obtain c where c: "c \<in> set ?C" "block_id c = block_id l"
      by (auto simp: has_block_def)
    with that have "has_block (block_id c) ?L"
      unfolding has_block_def by metis
    with apart [OF c(1)] show False
      by blast
  qed
  then obtain u where u: "run_events_view stats (stream_events (ex_updates x)) v = Inr u" "tv_blocks u = ?L @ tv_blocks p"
    using stream_append [OF p(1), of v ?L] by (auto simp: new_view_def)
  have uok: "blocks_ok (tv_blocks u)"
    using run_events_ok [OF u(1) ok] by (auto simp: stream_events_def)
  let ?Q = "fold merge_block ?C (tv_blocks p)" and ?m = "message_to_dict (AssistantMessage (ex_message x))"
  have "merge_complete_message ?m (int (ex_attempt x)) (tv_blocks u) = Inr (?L @ ?Q)"
    using merges_append [of ?C ?L] apart
    by (simp add: merge_complete_message_def ex_message_blocks [OF x] u(2) del: message_to_dict.simps)
  moreover from this have wok: "blocks_ok (?L @ ?Q)"
    by (rule blocks_ok_merge_message [OF _ uok])
  moreover have "in_strings (jget ?m ''stopReason'') [''error'', ''aborted''] = Inr False"
    using x by (simp add: in_strings_def exchange_ok_def)
  ultimately obtain w where w: "assistant_end stats ?m (int (ex_attempt x)) u = Inr w" "tv_blocks w = ?L @ ?Q"
    using attempts_read [OF wok] by (auto simp: assistant_end_def Let_def simp del: message_to_dict.simps)
  have "run_event_view stats (fst (end_event x)) (snd (end_event x)) u = Inr w"
    using w(1) by (simp add: run_event_view_def end_event_def message_end_def as_mapping_def py_or_def)
  then have "run_events_view stats (stream_events (ex_updates x) @ [end_event x]) v = Inr w"
    by (cases "end_event x") (simp add: run_events_append u(1))
  with w(2) wok p(2) show ?thesis
    by auto
qed

section \<open>The tools of an exchange\<close>

lemma call_unique:
  "distinct (content_call_ids cs) \<Longrightarrow> ToolCall k n a \<in> set cs \<Longrightarrow> ToolCall k n' a' \<in> set cs \<Longrightarrow> a = a'"
proof (induction cs rule: content_call_ids.induct)
  case (1 k' n'' a'' cs)
  have "ToolCall k m b \<in> set cs \<Longrightarrow> k \<in> set (content_call_ids cs)" for m b
    by (induction cs rule: content_call_ids.induct) auto
  with 1 show ?case
    by auto
qed auto

lemma call_id_in: "ToolCall k n a \<in> set cs \<Longrightarrow> k \<in> set (content_call_ids cs)"
  by (induction cs rule: content_call_ids.induct) auto

lemma call_part: "ToolCall k n a \<in> set cs \<Longrightarrow> k \<noteq> [] \<Longrightarrow> \<exists>m b. PTool k m b \<in> set (parts_of i t h cs)"
  by (induction i t h cs rule: parts_of.induct) auto

lemma filter_one:
  "distinct (map f xs) \<Longrightarrow> x \<in> set xs \<Longrightarrow> (\<And>y. y \<in> set xs \<Longrightarrow> P y \<longleftrightarrow> f y = f x \<and> Q y) \<Longrightarrow> Q x \<Longrightarrow> length (filter P xs) = 1"
proof (induction xs)
  case (Cons a xs)
  show ?case
  proof (cases "a = x")
    case True
    have "\<not> P y" if "y \<in> set xs" for y
    proof -
      from that True Cons.prems(1) have "f y \<noteq> f x"
        by (metis distinct.simps(2) image_eqI list.simps(9) set_map)
      with that Cons.prems(3) [of y] show ?thesis
        by simp
    qed
    then have "filter P xs = []"
      by (simp add: filter_empty_conv)
    with True Cons.prems(3) [of a] Cons.prems(4) show ?thesis
      by simp
  next
    case False
    then have "x \<in> set xs" "\<not> P a"
      using Cons.prems by auto
    with Cons show ?thesis
      by simp
  qed
qed simp

lemma outcome_ids:
  assumes "exchange_ok x" "(c, r, now) \<in> set (ex_outcomes x)"
  shows "tc_id c \<in> set (ex_ids x)" "plain_id (tc_id c)"
    "ToolCall (tc_id c) (tc_name c) (tc_arguments c) \<in> set (am_content (ex_message x))"
proof -
  show call: "ToolCall (tc_id c) (tc_name c) (tc_arguments c) \<in> set (am_content (ex_message x))"
    using assms unfolding exchange_ok_def tools_ok_def by fast
  then show "tc_id c \<in> set (ex_ids x)"
    by (simp add: ex_ids_def call_id_in)
  with assms(1) show "plain_id (tc_id c)"
    by (simp add: exchange_ok_def)
qed

lemma event_outcome:
  assumes "exchange_ok x" "e \<in> set (ex_tool_events x)"
  obtains c r now where "(c, r, now) \<in> set (ex_outcomes x)" "jget (snd e) ''toolCallId'' = JStr (tc_id c)"
    "event_id e = tc_id c" "tool_kind (fst e)"
proof -
  have "tool_kind (fst e) \<and> (\<exists>o' \<in> set (ex_outcomes x). jget (snd e) ''toolCallId'' = JStr (tc_id (fst o')))"
    using assms unfolding exchange_ok_def tools_ok_def by fast
  with that show thesis
    by (force simp: event_id_def)
qed

definition same_part :: "int \<Rightarrow> block \<Rightarrow> part \<Rightarrow> bool" where
  "same_part n b p \<longleftrightarrow> summary b = summary (part_block n p)"

lemma same_part_tool:
  assumes "same_part (int n) b p" "part_ok ids p" "plain_id s"
  shows "tool_block_of s b \<longleftrightarrow> part_is_tool p \<and> part_source p = s"
proof -
  have "related {n} (set ids) b (part_block 0 p)"
    using assms(1,2) by (simp add: same_part_def part_related)
  from related_timeline_id [OF this assms(3)] related_tool_of [OF this assms(3)] show ?thesis
    using part_ok_source [OF assms(2)] assms(3) by (auto simp: part_block_sel plain_id_def split: if_splits)
qed

lemma one_tool_parts:
  assumes x: "exchange_ok x" and c: "(c, r, now) \<in> set (ex_outcomes x)"
    and Q: "list_all2 (same_part (int (ex_attempt x))) Q (ex_parts x)"
  shows "one_tool (tc_id c) Q"
proof -
  have "length (filter (tool_block_of (tc_id c)) Q) = length (filter (\<lambda>p. part_is_tool p \<and> part_source p = tc_id c) ps)"
    if "list_all2 (same_part (int (ex_attempt x))) Q ps" "\<forall>p \<in> set ps. part_ok (ex_ids x) p" for ps
    using that by (induction rule: list_all2_induct) (auto simp: same_part_tool [OF _ _ outcome_ids(2) [OF x c]])
  moreover obtain m b where "PTool (tc_id c) m b \<in> set (ex_parts x)"
    using call_part [OF outcome_ids(3) [OF x c]] outcome_ids(2) [OF x c] unfolding ex_parts_def plain_id_def by blast
  then have "length (filter (\<lambda>p. part_is_tool p \<and> part_source p = tc_id c) (ex_parts x)) = 1"
    by (intro filter_one [OF ex_parts_ok(2) [OF x], where Q = part_is_tool]) auto
  ultimately show ?thesis
    using Q ex_parts_ok(1) [OF x] by (simp add: one_tool_def)
qed

lemma old_blocks_apart:
  assumes "related A S l t" "plain_id s" "s \<notin> S"
  shows "\<not> tool_block_of s l" "block_id t \<noteq> JStr s"
proof -
  have "\<not> (is_tool l \<and> jget l ''_source_id'' = JStr s)"
    using assms(1,3) by (auto simp: related_def)
  then show "\<not> tool_block_of s l" "block_id t \<noteq> JStr s"
    using related_tool_of [OF assms(1,2)] related_timeline_id [OF assms(1,2)] by auto
qed

lemma fold_tool_keys:
  "k \<notin> {''arguments'', ''status'', ''result'', ''artifacts''} \<Longrightarrow> jget (fold tool_fun es b) k = jget b k"
  by (induction es arbitrary: b) (auto simp: tool_fun_keys)

lemma fold_apply_keys:
  "k \<notin> {''arguments'', ''status'', ''result'', ''artifacts''} \<Longrightarrow> jget (fold apply_tool_event es b) k = jget b k"
  by (simp add: tool_events_filter fold_tool_keys)

lemma fold_settle_keys: "k \<notin> {''status'', ''result''} \<Longrightarrow> jget (fold settle os b) k = jget b k"
  by (induction os arbitrary: b) (auto simp: settle_keys)

lemma related_after:
  assumes "related A S l t" "shown (fold apply_tool_event es l) = shown (fold settle os t)"
  shows "related A S (fold apply_tool_event es l) (fold settle os t)"
proof -
  have keys: "jget (fold apply_tool_event es l) k = jget l k" "jget (fold settle os t) k = jget t k"
    if "k \<in> {''id'', ''type'', ''_source_id''}" for k
    using that by (auto simp: fold_apply_keys fold_settle_keys)
  show ?thesis
    using assms unfolding related_def is_tool_def block_id_def by (simp only: keys insertI1 insertI2)
qed

lemma old_blocks_stay:
  assumes x: "exchange_ok x" and rel: "related A S l t" and apart: "set (ex_ids x) \<inter> S = {}"
  shows "related A S (fold apply_tool_event (ex_tool_events x) l) (fold settle (ex_outcomes x) t)"
proof -
  have "\<not> tool_block_of (event_id e) l" if e: "e \<in> set (ex_tool_events x)" for e
  proof -
    obtain c r now where "(c, r, now) \<in> set (ex_outcomes x)" "event_id e = tc_id c"
      using event_outcome [OF x e] .
    moreover from this have "plain_id (tc_id c)" "tc_id c \<notin> S"
      using outcome_ids [OF x] apart by blast+
    ultimately show ?thesis
      using old_blocks_apart(1) [OF rel] by simp
  qed
  then have "filter (\<lambda>e. tool_block_of (event_id e) l) (ex_tool_events x) = []"
    by (simp add: filter_empty_conv)
  then have l: "fold apply_tool_event (ex_tool_events x) l = l"
    by (simp add: tool_events_filter)
  have "\<forall>o' \<in> set (ex_outcomes x). block_id t \<noteq> JStr (tc_id (fst o'))"
  proof
    fix o' assume "o' \<in> set (ex_outcomes x)"
    then have "plain_id (tc_id (fst o'))" "tc_id (fst o') \<notin> S"
      using outcome_ids [OF x, of "fst o'" "fst (snd o')" "snd (snd o')"] apart by auto
    with old_blocks_apart(2) [OF rel] show "block_id t \<noteq> JStr (tc_id (fst o'))"
      by blast
  qed
  then have "fold settle (ex_outcomes x) t = t"
    using settles(2) x by (simp add: exchange_ok_def tools_ok_def)
  with l rel show ?thesis
    by simp
qed

lemma new_blocks_settle:
  assumes x: "exchange_ok x" and p: "p \<in> set (ex_parts x)" and l: "same_part (int (ex_attempt x)) l p"
  shows "related {ex_attempt x} (set (ex_ids x)) (fold apply_tool_event (ex_tool_events x) l)
    (fold settle (ex_outcomes x) (part_block 0 p))"
proof (rule related_after)
  let ?t = "part_block 0 p"
  have pok: "part_ok (ex_ids x) p"
    using ex_parts_ok(1) [OF x] p by blast
  then show rel: "related {ex_attempt x} (set (ex_ids x)) l ?t"
    using l by (simp add: part_related same_part_def)
  have outs: "distinct (map (tc_id \<circ> fst) (ex_outcomes x))"
    using x by (simp add: exchange_ok_def tools_ok_def)
  have match: "tool_block_of (event_id e) l \<longleftrightarrow> part_is_tool p \<and> part_source p = event_id e" if e: "e \<in> set (ex_tool_events x)" for e
  proof -
    obtain c r now where "(c, r, now) \<in> set (ex_outcomes x)" "event_id e = tc_id c"
      using event_outcome [OF x e] .
    with same_part_tool [OF l pok outcome_ids(2) [OF x]] show ?thesis
      by auto
  qed
  have id: "block_id ?t = JStr (part_source p)"
    by (simp add: part_block_sel)
  show "shown (fold apply_tool_event (ex_tool_events x) l) = shown (fold settle (ex_outcomes x) ?t)"
  proof (cases "part_is_tool p \<and> (\<exists>o' \<in> set (ex_outcomes x). tc_id (fst o') = part_source p)")
    case True
    then obtain c r now where o': "(c, r, now) \<in> set (ex_outcomes x)" "tc_id c = part_source p"
      by auto
    from True obtain nm a where tool: "p = PTool (tc_id c) nm a"
      using o'(2) by (cases p) auto
    have call: "ToolCall (tc_id c) (tc_name c) (tc_arguments c) \<in> set (am_content (ex_message x))"
      by (rule outcome_ids(3) [OF x o'(1)])
    have ids: "\<forall>s \<in> set (content_call_ids (am_content (ex_message x))). plain_id s" "distinct (content_call_ids (am_content (ex_message x)))"
      using x by (simp_all add: exchange_ok_def ex_ids_def)
    obtain n b where b: "ToolCall (tc_id c) n b \<in> set (am_content (ex_message x))" "a = safe_mapping (JObj b)"
      using part_tools [OF _ ids(1)] p tool unfolding ex_parts_def by blast
    then have args: "a = safe_mapping (JObj (tc_arguments c))"
      using call_unique [OF ids(2) b(1) call] by simp
    obtain upds where "filter (\<lambda>e. event_id e = tc_id c) (ex_tool_events x) = call_events c upds r"
      using x o'(1) unfolding exchange_ok_def tools_ok_def by fast
    moreover have "filter (\<lambda>e. tool_block_of (event_id e) l) (ex_tool_events x) = filter (\<lambda>e. event_id e = tc_id c) (ex_tool_events x)"
      using match True o'(2) by (intro filter_cong) auto
    ultimately have "fold apply_tool_event (ex_tool_events x) l = fold tool_fun (call_events c upds r) l"
      by (simp add: tool_events_filter)
    moreover have "fold settle (ex_outcomes x) ?t = settle (c, r, now) ?t"
      using settles(1) [OF outs o'(1)] id o'(2) by simp
    moreover have "jget ?t ''arguments'' = JObj (safe_mapping (JObj (tc_arguments c)))"
      using tool args by (simp add: tool_block_def)
    moreover have "shown l = shown ?t"
      using rel by (simp add: related_def)
    ultimately show ?thesis
      using id o'(2) by (simp add: call_events_shown settle_shown) (simp add: shown_def)
  next
    case False
    have "\<not> tool_block_of (event_id e) l" if e: "e \<in> set (ex_tool_events x)" for e
    proof -
      obtain c r now where "(c, r, now) \<in> set (ex_outcomes x)" "event_id e = tc_id c"
        using event_outcome [OF x e] .
      with False match [OF e] show ?thesis
        by force
    qed
    then have "filter (\<lambda>e. tool_block_of (event_id e) l) (ex_tool_events x) = []"
      by (simp add: filter_empty_conv)
    moreover have "\<forall>o' \<in> set (ex_outcomes x). block_id ?t \<noteq> JStr (tc_id (fst o'))"
    proof
      fix o' assume o': "o' \<in> set (ex_outcomes x)"
      show "block_id ?t \<noteq> JStr (tc_id (fst o'))"
      proof
        assume "block_id ?t = JStr (tc_id (fst o'))"
        then have "part_source p = tc_id (fst o')"
          by (simp add: id)
        moreover have "plain_id (tc_id (fst o'))"
          using outcome_ids(2) [OF x, of "fst o'" "fst (snd o')" "snd (snd o')"] o' by simp
        ultimately show False
          using False o' part_ok_source [OF pok] by (auto simp: plain_id_def split: if_splits)
      qed
    qed
    ultimately show ?thesis
      using settles(2) [OF outs] rel by (simp add: tool_events_filter related_def)
  qed
qed

section \<open>The timeline of an exchange\<close>

lemma settle_entry:
  "timeline_step cfg active (message_entry (outcome_dict o')) (s\<lparr>ts_current := Some t\<rparr>)
    = Inr (s\<lparr>ts_current := Some (t\<lparr>ti_blocks := map (settle o') (ti_blocks t)\<rparr>)\<rparr>)"
proof -
  have role: "jget (outcome_dict o') ''role'' = JStr ''toolResult''" "jget (outcome_dict o') ''toolCallId'' = JStr (tc_id (fst o'))"
    by (simp_all add: outcome_dict_def result_message_def)
  have "outcome_dict o' \<noteq> []"
    by (simp add: outcome_dict_def)
  then have "turn_message (message_entry (outcome_dict o')) t = Inr (t\<lparr>ti_blocks := map (settle o') (ti_blocks t)\<rparr>)"
    using role by (simp add: turn_message_def message_entry_def py_or_def as_mapping_def settle_def [abs_def])
  then show ?thesis
    by (simp add: timeline_step_def message_entry_def Let_def)
qed

lemma settle_entries:
  "\<exists>t'. timeline_from cfg active (map (\<lambda>o'. message_entry (outcome_dict o')) os) (s\<lparr>ts_current := Some t\<rparr>)
    = Inr (s\<lparr>ts_current := Some t'\<rparr>) \<and> ti_blocks t' = map (fold settle os) (ti_blocks t) \<and> ti_id t' = ti_id t"
proof (induction os arbitrary: t)
  case (Cons o' os)
  obtain t' where "timeline_from cfg active (map (\<lambda>o'. message_entry (outcome_dict o')) os)
        (s\<lparr>ts_current := Some (t\<lparr>ti_blocks := map (settle o') (ti_blocks t)\<rparr>)\<rparr>) = Inr (s\<lparr>ts_current := Some t'\<rparr>)"
      "ti_blocks t' = map (fold settle os) (map (settle o') (ti_blocks t))" "ti_id t' = ti_id t"
    using Cons.IH [of "t\<lparr>ti_blocks := map (settle o') (ti_blocks t)\<rparr>"] by auto
  then show ?case
    by (auto simp: settle_entry o_def)
next
  case Nil
  show ?case
    by (intro exI [of _ t]) simp
qed

lemma timeline_exchange:
  assumes "exchange_ok x"
  shows "\<exists>t'. timeline_from cfg active (exchange_entries x) (s\<lparr>ts_current := Some t\<rparr>) = Inr (s\<lparr>ts_current := Some t'\<rparr>)
    \<and> ti_blocks t' = map (fold settle (ex_outcomes x)) (ti_blocks t @ map (part_block 0) (ex_parts x)) \<and> ti_id t' = ti_id t"
proof -
  let ?m = "message_to_dict (AssistantMessage (ex_message x))"
  have "message_blocks ?m 0 = Inr (map (part_block 0) (ex_parts x))"
    unfolding ex_parts_def by (rule message_parts) (use assms in \<open>simp add: exchange_ok_def\<close>)
  then obtain u where u: "turn_message (message_entry ?m) t = Inr u" "ti_blocks u = ti_blocks t @ map (part_block 0) (ex_parts x)" "ti_id u = ti_id t"
    by (simp add: turn_message_def message_entry_def py_or_def as_mapping_def Let_def)
  then have "timeline_step cfg active (message_entry ?m) (s\<lparr>ts_current := Some t\<rparr>) = Inr (s\<lparr>ts_current := Some u\<rparr>)"
    by (simp add: timeline_step_def message_entry_def Let_def)
  with settle_entries [where os = "ex_outcomes x" and t = u] u(2,3) show ?thesis
    by (simp add: exchange_entries_def del: message_to_dict.simps)
qed

section \<open>Agreement\<close>

lemma list_all2_maps:
  "list_all2 R xs ys \<Longrightarrow> (\<And>x y. R x y \<Longrightarrow> R' (f x) (g y)) \<Longrightarrow> list_all2 R' (map f xs) (map g ys)"
  by (induction rule: list_all2_induct) auto

lemma list_all2_left: "list_all2 R xs ys \<Longrightarrow> x \<in> set xs \<Longrightarrow> \<exists>y. R x y"
  by (induction rule: list_all2_induct) auto

lemma same_parts: "map summary Q = map summary (map (part_block n) ps) \<Longrightarrow> list_all2 (same_part n) Q ps"
proof (induction Q arbitrary: ps)
  case (Cons b Q)
  then show ?case
    by (cases ps) (auto simp: same_part_def)
qed simp

lemma exchange_agrees:
  assumes x: "exchange_ok x" and rel: "list_all2 (related A S) (tv_blocks v) (ti_blocks t)" and new: "ex_attempt x \<notin> A"
    and apart: "set (ex_ids x) \<inter> S = {}" and ok: "blocks_ok (tv_blocks v)"
  shows "\<exists>w t'. run_events_view stats (exchange_events x) v = Inr w \<and> blocks_ok (tv_blocks w)
     \<and> timeline_from cfg active (exchange_entries x) (s\<lparr>ts_current := Some t\<rparr>) = Inr (s\<lparr>ts_current := Some t'\<rparr>)
     \<and> list_all2 (related (insert (ex_attempt x) A) (set (ex_ids x) \<union> S)) (tv_blocks w) (ti_blocks t') \<and> ti_id t' = ti_id t"
proof -
  let ?n = "ex_attempt x" and ?F = "fold apply_tool_event (ex_tool_events x)" and ?G = "fold settle (ex_outcomes x)"
  obtain u Q where u: "run_events_view stats (stream_events (ex_updates x) @ [end_event x]) v = Inr u"
      "tv_blocks u = tv_blocks v @ Q" "map summary Q = map summary (ex_blocks x)" "blocks_ok (tv_blocks u)"
    using live_message [OF x rel new ok] by blast
  have Q: "list_all2 (same_part (int ?n)) Q (ex_parts x)"
    using same_parts [OF u(3) [unfolded ex_blocks_def]] .
  have one: "one_tool (tc_id c) (tv_blocks u)" if c: "(c, r, now) \<in> set (ex_outcomes x)" for c r now
  proof -
    have "\<not> tool_block_of (tc_id c) l" if l: "l \<in> set (tv_blocks v)" for l
    proof -
      obtain t0 where "related A S l t0"
        using list_all2_left [OF rel l] by (elim exE)
      moreover have "tc_id c \<notin> S"
        using outcome_ids(1) [OF x c] apart by (meson disjoint_iff)
      ultimately show ?thesis
        using old_blocks_apart(1) outcome_ids(2) [OF x c] by simp
    qed
    then have "filter (tool_block_of (tc_id c)) (tv_blocks v) = []"
      by (simp add: filter_empty_conv)
    with one_tool_parts [OF x c Q] show ?thesis
      by (simp add: one_tool_def u(2))
  qed
  have "tool_kind (fst e) \<and> (\<exists>s. s \<noteq> [] \<and> jget (snd e) ''toolCallId'' = JStr s \<and> one_tool s (tv_blocks u))"
    if e: "e \<in> set (ex_tool_events x)" for e
  proof -
    obtain c r now where c: "(c, r, now) \<in> set (ex_outcomes x)" "jget (snd e) ''toolCallId'' = JStr (tc_id c)" "tool_kind (fst e)"
      using event_outcome [OF x e] .
    with one outcome_ids(2) [OF x c(1)] show ?thesis
      by (auto simp: plain_id_def)
  qed
  then obtain w where w: "run_events_view stats (ex_tool_events x) u = Inr w" "tv_blocks w = map ?F (tv_blocks u)"
    using tool_events_blocks by blast
  have "exchange_events x = (stream_events (ex_updates x) @ [end_event x]) @ ex_tool_events x"
    by (simp add: exchange_events_def)
  then have run: "run_events_view stats (exchange_events x) v = Inr w"
    using u(1) w(1) by (simp only: run_events_append bind_res_simps)
  have "\<not> own_id (str_or (jget data ''toolCallId'') ''tool'')" if e: "(kind, data) \<in> set (ex_tool_events x)" for kind data
  proof -
    obtain c r now where c: "(c, r, now) \<in> set (ex_outcomes x)" "jget (snd (kind, data)) ''toolCallId'' = JStr (tc_id c)"
      using event_outcome [OF x e] .
    with outcome_ids(2) [OF x c(1)] show ?thesis
      by (simp add: plain_id_def nonempty_or_def)
  qed
  then have wok: "blocks_ok (tv_blocks w)"
    by (intro run_events_ok [OF w(1) u(4)]) auto
  obtain t' where t': "timeline_from cfg active (exchange_entries x) (s\<lparr>ts_current := Some t\<rparr>) = Inr (s\<lparr>ts_current := Some t'\<rparr>)"
      "ti_blocks t' = map ?G (ti_blocks t @ map (part_block 0) (ex_parts x))" "ti_id t' = ti_id t"
    using timeline_exchange [OF x] by blast
  have "list_all2 (related (insert ?n A) (set (ex_ids x) \<union> S)) (map ?F (tv_blocks v)) (map ?G (ti_blocks t))"
    using rel by (rule list_all2_maps) (blast intro: related_mono old_blocks_stay [OF x _ apart])
  moreover have "list_all2 (related (insert ?n A) (set (ex_ids x) \<union> S)) (map ?F Q) (map ?G (map (part_block 0) (ex_parts x)))"
  proof -
    have "list_all2 (\<lambda>l p. same_part (int ?n) l p \<and> p \<in> set (ex_parts x)) Q (ex_parts x)"
      using Q by (auto simp: list_all2_conv_all_nth)
    then have "list_all2 (related (insert ?n A) (set (ex_ids x) \<union> S)) (map ?F Q) (map (\<lambda>p. ?G (part_block 0 p)) (ex_parts x))"
      by (rule list_all2_maps) (blast intro: related_mono new_blocks_settle [OF x])
    then show ?thesis
      by (simp add: o_def)
  qed
  ultimately have "list_all2 (related (insert ?n A) (set (ex_ids x) \<union> S)) (tv_blocks w) (ti_blocks t')"
    unfolding w(2) u(2) t'(2) map_append by (rule list_all2_appendI)
  with run wok t'(1,3) show ?thesis
    by blast
qed

lemma exchanges_agree:
  assumes "\<forall>x \<in> set xs. exchange_ok x" "distinct (map ex_attempt xs)" "distinct (concat (map ex_ids xs))"
    and "list_all2 (related A S) (tv_blocks v) (ti_blocks t)" "blocks_ok (tv_blocks v)"
    and "ex_attempt ` set xs \<inter> A = {}" "set (concat (map ex_ids xs)) \<inter> S = {}"
  shows "\<exists>w t'. run_events_view stats (concat (map exchange_events xs)) v = Inr w
     \<and> timeline_from cfg active (concat (map exchange_entries xs)) (s\<lparr>ts_current := Some t\<rparr>) = Inr (s\<lparr>ts_current := Some t'\<rparr>)
     \<and> map shown (tv_blocks w) = map shown (ti_blocks t') \<and> ti_id t' = ti_id t"
  using assms
proof (induction xs arbitrary: A S v t)
  case Nil
  have "map shown (tv_blocks v) = map shown (ti_blocks t)"
    using Nil.prems(4) by (induction rule: list_all2_induct) (auto simp: related_def)
  then show ?case
    by (intro exI [of _ v] exI [of _ t]) simp
next
  case (Cons x xs)
  have "exchange_ok x" "ex_attempt x \<notin> A" "set (ex_ids x) \<inter> S = {}"
    using Cons.prems by auto
  then obtain w t' where w: "run_events_view stats (exchange_events x) v = Inr w" "blocks_ok (tv_blocks w)"
      "timeline_from cfg active (exchange_entries x) (s\<lparr>ts_current := Some t\<rparr>) = Inr (s\<lparr>ts_current := Some t'\<rparr>)"
      "list_all2 (related (insert (ex_attempt x) A) (set (ex_ids x) \<union> S)) (tv_blocks w) (ti_blocks t')" "ti_id t' = ti_id t"
    using exchange_agrees [OF _ Cons.prems(4) _ _ Cons.prems(5)] by blast
  have timeline: "timeline_from cfg active (es @ fs) r = bind_res (timeline_from cfg active es r) (timeline_from cfg active fs)" for es fs r
    by (induction es arbitrary: r) (simp_all add: bind_res_def split: sum.split)
  have "\<exists>w' t''. run_events_view stats (concat (map exchange_events xs)) w = Inr w'
     \<and> timeline_from cfg active (concat (map exchange_entries xs)) (s\<lparr>ts_current := Some t'\<rparr>) = Inr (s\<lparr>ts_current := Some t''\<rparr>)
     \<and> map shown (tv_blocks w') = map shown (ti_blocks t'') \<and> ti_id t'' = ti_id t'"
    by (rule Cons.IH [OF _ _ _ w(4,2)]) (use Cons.prems in auto)
  with w show ?case
    by (simp add: run_events_append timeline)
qed


definition sample_call :: tool_call where
  "sample_call = \<lparr>tc_id = ''c1'', tc_name = ''ls'', tc_arguments = [(''path'', JStr ''.'')]\<rparr>"

definition sample_result :: tool_result where
  "sample_result = \<lparr>tr_content = [], tr_details = JNull, tr_is_error = True, tr_terminate = False, tr_usage = None\<rparr>"

definition sample_message :: "content list \<Rightarrow> assistant_message" where
  "sample_message cs = \<lparr>am_content = cs, am_provider = ''p'', am_model = ''m'', am_usage = empty_usage,
     am_stop_reason = ''stop'', am_error = None, am_timestamp = 0\<rparr>"

definition sample_delta :: "string \<Rightarrow> string \<Rightarrow> int \<Rightarrow> (string, json) dict" where
  "sample_delta kind s n = [(''assistantMessageEvent'', JObj [(''type'', JStr kind), (''delta'', JStr s), (''contentIndex'', JInt 0), (''attempt'', JInt n)])]"

definition sample_exchanges :: "exchange list" where
  "sample_exchanges =
     [\<lparr>ex_attempt = 0, ex_message = sample_message [ThinkingContent ''hm'', TextContent ''Hi'', ToolCall ''c1'' ''ls'' [(''path'', JStr ''.'')]],
        ex_updates = [sample_delta ''thinking_delta'' ''hm'' 0, sample_delta ''text_delta'' ''H'' 0, sample_delta ''text_delta'' ''i'' 0],
        ex_tool_events = call_events sample_call [] sample_result, ex_outcomes = [(sample_call, sample_result, 7)]\<rparr>,
      \<lparr>ex_attempt = 1, ex_message = sample_message [TextContent ''Done''], ex_updates = [], ex_tool_events = [], ex_outcomes = []\<rparr>]"

lemma sample_exchanges_ok: "exchanges_ok sample_exchanges"
proof -
  have "\<forall>x \<in> set sample_exchanges. am_stop_reason (ex_message x) \<notin> {''error'', ''aborted''} \<and> (\<forall>s \<in> set (ex_ids x). plain_id s)
      \<and> distinct (ex_ids x)"
    by code_simp
  moreover have "\<forall>x \<in> set sample_exchanges. stream_ok x"
    by code_simp
  moreover have "tools_ok x" if "x \<in> set sample_exchanges" for x
  proof -
    have "filter (\<lambda>e. event_id e = tc_id sample_call) (call_events sample_call [] sample_result) = call_events sample_call [] sample_result"
      by (simp add: call_events_def event_id_def call_start_data_def call_end_data_def)
    then have "\<exists>upds. filter (\<lambda>e. event_id e = tc_id sample_call) (call_events sample_call [] sample_result) = call_events sample_call upds sample_result"
      by blast
    then show ?thesis
      using that by (auto simp: sample_exchanges_def tools_ok_def sample_message_def sample_call_def call_events_def tool_kind_def
          call_start_data_def call_end_data_def)
  qed
  moreover have "distinct (map ex_attempt sample_exchanges) \<and> distinct (concat (map ex_ids sample_exchanges))"
    by code_simp
  ultimately show ?thesis
    by (simp add: exchanges_ok_def exchange_ok_def)
qed

definition sample_timeline_config :: timeline_config where
  "sample_timeline_config = \<lparr>tc_model = ''m'', tc_thinking = ''off'', tc_secrets = \<lparr>sc_providers = [], sc_search_key = None\<rparr>\<rparr>"

definition sample_start :: "(string, json) dict" where
  "sample_start = [(''type'', JStr ''run_start''), (''runId'', JStr ''r1''), (''input'', JObj [(''kind'', JStr ''prompt'')])]"

definition sample_stop :: "(string, json) dict" where
  "sample_stop = [(''type'', JStr ''run_end''), (''runId'', JStr ''r1''), (''status'', JStr ''completed'')]"


end
