(* ===== verification/TimelineProps.thy ===== *)
theory TimelineProps
  imports Timeline
begin

text \<open>
  What the timeline of a branch shows: every run once and in order, with a status that was recorded
  or that says why none was; and what the next turn takes from the entries.
\<close>

section \<open>Every run once\<close>

fun turns_of :: "timeline_item list \<Rightarrow> turn_item list" where
  "turns_of [] = []"
| "turns_of (TurnItem t # is) = t # turns_of is"
| "turns_of (CompactionItem i c n s # is) = turns_of is"

fun compactions_of :: "timeline_item list \<Rightarrow> string list" where
  "compactions_of [] = []"
| "compactions_of (TurnItem t # is) = compactions_of is"
| "compactions_of (CompactionItem i c n s # is) = i # compactions_of is"

lemma items_append [simp]:
  "turns_of (xs @ ys) = turns_of xs @ turns_of ys" "compactions_of (xs @ ys) = compactions_of xs @ compactions_of ys"
  by (induction xs rule: turns_of.induct; simp)+

definition of_type :: "string \<Rightarrow> (string, json) dict \<Rightarrow> bool" where
  "of_type k e \<longleftrightarrow> jget e ''type'' = JStr k"

definition run_ids :: "(string, json) dict list \<Rightarrow> string list" where
  "run_ids es = map (\<lambda>e. py_str (jget e ''runId'')) (filter (of_type ''run_start'') es)"

definition compaction_ids :: "(string, json) dict list \<Rightarrow> string list" where
  "compaction_ids es = map (\<lambda>e. py_str (jget e ''id'')) (filter (of_type ''compaction'') es)"

definition state_turns :: "timeline_state \<Rightarrow> turn_item list" where
  "state_turns s = turns_of (ts_result s) @ (case ts_current s of None \<Rightarrow> [] | Some t \<Rightarrow> [t])"

text \<open>The statuses a turn may show.\<close>

definition status_known :: "(string, string) dict \<Rightarrow> (string, json) dict list \<Rightarrow> turn_item \<Rightarrow> bool" where
  "status_known active es t \<longleftrightarrow> ti_status t = dict_get active (ti_id t) ''interrupted''
     \<or> (\<exists>e \<in> set es. of_type ''run_end'' e \<and> jget e ''runId'' = JStr (ti_id t) \<and> ti_status t = str_or (jget e ''status'') ''completed'')"

lemma turn_message_keeps: "turn_message e t = Inr t' \<Longrightarrow> ti_id t' = ti_id t \<and> ti_status t' = ti_status t"
  unfolding turn_message_def bind_res_Inr_iff Let_def by (elim exE conjE) (auto simp: bind_res_Inr_iff split: if_split_asm)

lemma turn_artifacts_keeps: "ti_id (turn_artifacts e t) = ti_id t \<and> ti_status (turn_artifacts e t) = ti_status t"
  by (simp add: turn_artifacts_def split: json.split)

lemma new_turn_shape: "new_turn cfg active e = Inr t \<Longrightarrow> ti_id t = py_str (jget e ''runId'') \<and> ti_status t = dict_get active (ti_id t) ''interrupted''"
  by (auto simp: new_turn_def bind_res_Inr_iff Let_def)

lemma compaction_item_shape: "compaction_item e = Inr c \<Longrightarrow> turns_of [c] = [] \<and> compactions_of [c] = [py_str (jget e ''id'')]"
  by (auto simp: compaction_item_def bind_res_Inr_iff)

lemma closed_turns: "map ti_id (turns_of (close_open_turn active s)) = map ti_id (state_turns s)"
    "compactions_of (close_open_turn active s) = compactions_of (ts_result s)"
    "t \<in> set (turns_of (close_open_turn active s)) \<Longrightarrow> t \<in> set (state_turns s) \<or> ti_status t = dict_get active (ti_id t) ''interrupted''"
  by (auto simp: close_open_turn_def state_turns_def split: option.splits)

lemma step_ids:
  assumes "timeline_step cfg active e s = Inr s'"
  shows "map ti_id (state_turns s') = map ti_id (state_turns s) @ run_ids [e]"
    "compactions_of (ts_result s') = compactions_of (ts_result s) @ compaction_ids [e]"
    "t \<in> set (state_turns s') \<Longrightarrow> status_known active [e] t \<or> (\<exists>u \<in> set (state_turns s). ti_id u = ti_id t \<and> ti_status u = ti_status t)"
proof -
  consider (start) "jget e ''type'' = JStr ''run_start''"
    | (msg) t0 where "jget e ''type'' = JStr ''message''" "ts_current s = Some t0"
    | (artifact) t0 where "jget e ''type'' = JStr ''artifact_delivery''" "ts_current s = Some t0"
    | (stop) t0 where "jget e ''type'' = JStr ''run_end''" "jget e ''runId'' = JStr (ti_id t0)" "ts_current s = Some t0"
    | (comp) "jget e ''type'' = JStr ''compaction''"
    | (other) "s' = s" "jget e ''type'' \<noteq> JStr ''run_start''" "jget e ''type'' \<noteq> JStr ''compaction''"
    using assms by (auto simp: timeline_step_def Let_def split: option.splits if_split_asm)
  then have "map ti_id (state_turns s') = map ti_id (state_turns s) @ run_ids [e]
    \<and> compactions_of (ts_result s') = compactions_of (ts_result s) @ compaction_ids [e]
    \<and> (t \<in> set (state_turns s') \<longrightarrow> status_known active [e] t \<or> (\<exists>u \<in> set (state_turns s). ti_id u = ti_id t \<and> ti_status u = ti_status t))"
  proof cases
    case start
    then obtain t1 where t1: "new_turn cfg active e = Inr t1" "s' = \<lparr>ts_result = close_open_turn active s, ts_current = Some t1\<rparr>"
      using assms by (auto simp: timeline_step_def start_turn_def bind_res_Inr_iff)
    have st: "state_turns s' = turns_of (close_open_turn active s) @ [t1]" "ts_result s' = close_open_turn active s"
      by (simp_all add: t1(2) state_turns_def)
    have "t \<in> set (state_turns s') \<longrightarrow> status_known active [e] t \<or> t \<in> set (state_turns s)"
      using new_turn_shape [OF t1(1)] closed_turns(3) [of t active s] by (auto simp: st(1) status_known_def)
    then show ?thesis
      using start new_turn_shape [OF t1(1)] unfolding st(1,2) map_append closed_turns(1,2)
      by (auto simp: run_ids_def compaction_ids_def of_type_def)
  next
    case msg
    then obtain t1 where "turn_message e t0 = Inr t1" "s' = s\<lparr>ts_current := Some t1\<rparr>"
      using assms by (auto simp: timeline_step_def Let_def bind_res_Inr_iff)
    with msg turn_message_keeps show ?thesis
      by (auto simp: state_turns_def run_ids_def compaction_ids_def of_type_def)
  next
    case artifact
    then have "s' = s\<lparr>ts_current := Some (turn_artifacts e t0)\<rparr>"
      using assms by (simp add: timeline_step_def Let_def)
    with artifact turn_artifacts_keeps show ?thesis
      by (auto simp: state_turns_def run_ids_def compaction_ids_def of_type_def)
  next
    case stop
    then have "s' = \<lparr>ts_result = ts_result s @ [TurnItem (end_turn cfg e t0)], ts_current = None\<rparr>"
      using assms by (simp add: timeline_step_def Let_def)
    with stop show ?thesis
      by (auto simp: state_turns_def run_ids_def compaction_ids_def of_type_def end_turn_def status_known_def)
  next
    case comp
    then obtain c where c: "compaction_item e = Inr c" "s' = s\<lparr>ts_result := ts_result s @ [c]\<rparr>"
      using assms by (auto simp: timeline_step_def Let_def bind_res_Inr_iff split: option.splits)
    with comp compaction_item_shape [OF c(1)] show ?thesis
      by (auto simp: state_turns_def run_ids_def compaction_ids_def of_type_def simp del: turns_of.simps compactions_of.simps)
  next
    case other
    then show ?thesis
      by (auto simp: run_ids_def compaction_ids_def of_type_def)
  qed
  then show "map ti_id (state_turns s') = map ti_id (state_turns s) @ run_ids [e]"
    "compactions_of (ts_result s') = compactions_of (ts_result s) @ compaction_ids [e]"
    "t \<in> set (state_turns s') \<Longrightarrow> status_known active [e] t \<or> (\<exists>u \<in> set (state_turns s). ti_id u = ti_id t \<and> ti_status u = ti_status t)"
    by blast+
qed

lemma from_ids:
  "timeline_from cfg active es s = Inr s' \<Longrightarrow> map ti_id (state_turns s') = map ti_id (state_turns s) @ run_ids es
     \<and> compactions_of (ts_result s') = compactions_of (ts_result s) @ compaction_ids es
     \<and> (\<forall>t \<in> set (state_turns s'). status_known active es t \<or> (\<exists>u \<in> set (state_turns s). ti_id u = ti_id t \<and> ti_status u = ti_status t))"
proof (induction es arbitrary: s)
  case Nil
  then show ?case
    by (auto simp: run_ids_def compaction_ids_def)
next
  case (Cons e es)
  then obtain s1 where s1: "timeline_step cfg active e s = Inr s1" "timeline_from cfg active es s1 = Inr s'"
    by (auto simp: bind_res_Inr_iff)
  have "run_ids (e # es) = run_ids [e] @ run_ids es" "compaction_ids (e # es) = compaction_ids [e] @ compaction_ids es"
    by (simp_all add: run_ids_def compaction_ids_def)
  moreover have "status_known active (e # es) t \<or> (\<exists>u \<in> set (state_turns s). ti_id u = ti_id t \<and> ti_status u = ti_status t)"
    if "t \<in> set (state_turns s')" for t
  proof -
    have more: "status_known active es t \<Longrightarrow> status_known active (e # es) t"
        "status_known active [e] u \<Longrightarrow> ti_id u = ti_id t \<Longrightarrow> ti_status u = ti_status t \<Longrightarrow> status_known active (e # es) t" for u
      by (auto simp: status_known_def)
    from Cons.IH [OF s1(2)] that consider "status_known active es t"
      | u where "u \<in> set (state_turns s1)" "ti_id u = ti_id t" "ti_status u = ti_status t"
      by blast
    then show ?thesis
    proof cases
      case 1
      with more(1) show ?thesis
        by blast
    next
      case 2
      with step_ids(3) [OF s1(1) 2(1)] more(2) [of u] show ?thesis
        by metis
    qed
  qed
  ultimately show ?case
    using step_ids(1,2) [OF s1(1)] Cons.IH [OF s1(2)] by simp
qed

text \<open>C30. The timeline of a branch shows every run once and every compaction once, each in the order
  of the branch, and the status of a turn is the one recorded at the end of its run, or the status of
  its operation while it is in flight, or \<open>interrupted\<close>.\<close>

theorem timeline_lists_every_run:
  assumes "project_timeline cfg active es = Inr items"
  shows "map ti_id (turns_of items) = run_ids es \<and> compactions_of items = compaction_ids es
     \<and> (\<forall>t \<in> set (turns_of items). status_known active es t)"
proof -
  obtain s where s: "timeline_from cfg active es \<lparr>ts_result = [], ts_current = None\<rparr> = Inr s"
      "items = ts_result s @ (case ts_current s of None \<Rightarrow> [] | Some t \<Rightarrow> [TurnItem t])"
    using assms by (auto simp: project_timeline_def bind_res_Inr_iff)
  have "turns_of items = state_turns s" "compactions_of items = compactions_of (ts_result s)"
    by (simp_all add: s(2) state_turns_def split: option.split)
  with from_ids [OF s(1)] show ?thesis
    by (simp add: state_turns_def)
qed

definition sample_branch :: "(string, json) dict list" where
  "sample_branch =
     [[(''type'', JStr ''run_start''), (''runId'', JStr ''a''), (''input'', JObj [])],
      [(''type'', JStr ''message''), (''message'', JObj [(''role'', JStr ''assistant''), (''content'', JList [])])],
      [(''type'', JStr ''run_end''), (''runId'', JStr ''a''), (''status'', JStr ''failed'')],
      [(''type'', JStr ''run_start''), (''runId'', JStr ''b''), (''input'', JObj [])],
      [(''type'', JStr ''run_start''), (''runId'', JStr ''c''), (''input'', JObj [])]]"

definition no_secrets :: timeline_config where
  "no_secrets = \<lparr>tc_model = ''m'', tc_thinking = ''off'', tc_secrets = \<lparr>sc_providers = [], sc_search_key = None\<rparr>\<rparr>"

theorem timeline_lists_every_run_witness:
  "\<exists>items. project_timeline no_secrets [(''c'', ''active'')] sample_branch = Inr items
     \<and> map ti_id (turns_of items) = [''a'', ''b'', ''c''] \<and> map ti_status (turns_of items) = [''failed'', ''interrupted'', ''active'']"
proof -
  have "case project_timeline no_secrets [(''c'', ''active'')] sample_branch of
      Inr items \<Rightarrow> map ti_status (turns_of items) = [''failed'', ''interrupted'', ''active''] | Inl _ \<Rightarrow> False"
    unfolding project_timeline_def by code_simp
  then obtain items where i: "project_timeline no_secrets [(''c'', ''active'')] sample_branch = Inr items"
      "map ti_status (turns_of items) = [''failed'', ''interrupted'', ''active'']"
    by (auto split: sum.splits)
  moreover have "run_ids sample_branch = [''a'', ''b'', ''c'']"
    by code_simp
  ultimately show ?thesis
    using timeline_lists_every_run [OF i(1)] by auto
qed

section \<open>A failed message\<close>

text \<open>While a turn runs, the blocks of a message that failed are shown as failed; the timeline shows its
  text as completed and its tool calls as running.\<close>

definition failed_message :: "(string, json) dict" where
  "failed_message = [(''role'', JStr ''assistant''), (''stopReason'', JStr ''aborted''),
     (''content'', JList [JObj [(''type'', JStr ''text''), (''text'', JStr ''Par'')],
        JObj [(''type'', JStr ''toolCall''), (''id'', JStr ''c1''), (''name'', JStr ''ls''), (''arguments'', JObj [])]])]"

definition statuses :: "block list \<Rightarrow> json list" where
  "statuses bs = map (\<lambda>b. jget b ''status'') bs"

lemma failed_message_shown_completed:
  "(case message_end JNull [(''message'', JObj failed_message), (''attempt'', JInt 0)] new_view of
      Inr v \<Rightarrow> statuses (tv_blocks v) = [JStr ''failed'', JStr ''failed''] | Inl _ \<Rightarrow> False)
   \<and> (case message_blocks failed_message 0 of Inr bs \<Rightarrow> statuses bs = [JStr ''completed'', JStr ''running''] | Inl _ \<Rightarrow> False)"
  by code_simp

section \<open>The next turn\<close>

text \<open>The overrides are those of the last configuration of the session.\<close>

lemma overrides_last: "session_overrides (es @ [e]) = (if of_type ''session_config'' e \<and> is_obj (jget e ''config'')
    then obj_of (jget e ''config'') else session_overrides es)"
  by (simp add: session_overrides_def of_type_def)

text \<open>An input stays pending until an entry names it as consumed.\<close>

lemma pending_added:
  assumes "pending_next_turn es = Inr p" "of_type ''next_turn_input'' e" "map_of e ''id'' = Some (JStr i)"
    "jget e ''input'' = JObj d" "d \<noteq> []" "i \<notin> fst ` set p"
  shows "pending_next_turn (es @ [e]) = Inr (p @ [(i, d)])"
proof -
  have "pending_from (es @ [e]) q = bind_res (pending_from es q) (pending_step e)" for q
    by (induction es arbitrary: q) (simp_all add: bind_res_def split: sum.split)
  moreover have "AList.update i d p = p @ [(i, d)]"
    using assms(6) by (induction p) auto
  ultimately show ?thesis
    using assms by (simp add: pending_next_turn_def pending_step_def of_type_def as_mapping_def py_or_def)
qed

end
