(* ===== verification/Store.thy ===== *)
theory Store
  imports PyText "HOL-Library.Product_Lexorder" "HOL-Library.List_Lexorder" "HOL-Library.Char_ord"
begin

text \<open>
  The projection store of the gateway (\<open>RuntimeStore\<close> of \<^verbatim>\<open>store.py\<close>): its tables, the SQL
  statements its methods issue, and the methods as functions from the tables to a result and new
  tables. A method that raises gives \<open>Inl\<close>: its transaction is rolled back and the tables stay. A JSON
  column is the document it holds; the blob directory is a dictionary from paths to contents, and the
  SHA-256 digest is a parameter. Fresh identifiers and the clock are arguments.
\<close>

section \<open>Tables\<close>

type_synonym block = "(string, json) dict"

record project_row =
  pr_id :: string
  pr_name :: string
  pr_path :: string
  pr_is_git :: bool
  pr_created :: string

record thread_row =
  th_id :: string
  th_project :: string
  th_title :: string
  th_kind :: string
  th_workspace :: string
  th_model :: string
  th_thinking :: string
  th_branch :: "string option"
  th_status :: string
  th_pinned :: "string option"
  th_archived :: "string option"
  th_unread :: bool
  th_order :: rat
  th_created :: string
  th_updated :: string

record turn_row =
  tu_id :: string
  tu_thread :: string
  tu_core :: string
  tu_text :: string
  tu_attachments :: "json list"
  tu_status :: string
  tu_error :: "string option"
  tu_blocks :: "block list"
  tu_usage :: "(string, json) dict"
  tu_created :: string
  tu_updated :: string

record event_row =
  er_thread :: string
  er_seq :: int
  er_name :: string
  er_json :: json
  er_created :: string

record attachment_row =
  ar_id :: string
  ar_name :: string
  ar_mime :: "string option"
  ar_size :: nat
  ar_path :: string
  ar_created :: string

record tables =
  t_projects :: "project_row list"
  t_threads :: "thread_row list"
  t_turns :: "turn_row list"
  t_events :: "event_row list"
  t_attachments :: "attachment_row list"

definition empty_tables :: tables where
  "empty_tables = \<lparr>t_projects = [], t_threads = [], t_turns = [], t_events = [], t_attachments = []\<rparr>"

section \<open>Statements\<close>

definition integrity_error :: "string \<Rightarrow> exn" where
  "integrity_error s = OtherError ''IntegrityError'' s"

definition insert_project :: "project_row \<Rightarrow> tables \<Rightarrow> exn + tables" where
  "insert_project p db =
     (if pr_id p \<in> pr_id ` set (t_projects db) then Inl (integrity_error ''UNIQUE constraint failed: projects.id'')
      else if pr_path p \<in> pr_path ` set (t_projects db) then Inl (integrity_error ''UNIQUE constraint failed: projects.path'')
      else Inr (db\<lparr>t_projects := t_projects db @ [p]\<rparr>))"

definition insert_thread :: "thread_row \<Rightarrow> tables \<Rightarrow> exn + tables" where
  "insert_thread t db =
     (if th_kind t \<notin> {''standard'', ''worktree''} then Inl (integrity_error ''CHECK constraint failed: kind'')
      else if th_id t \<in> th_id ` set (t_threads db) then Inl (integrity_error ''UNIQUE constraint failed: threads.id'')
      else if th_project t \<notin> pr_id ` set (t_projects db) then Inl (integrity_error ''FOREIGN KEY constraint failed'')
      else Inr (db\<lparr>t_threads := t_threads db @ [t]\<rparr>))"

definition insert_turn :: "turn_row \<Rightarrow> tables \<Rightarrow> exn + tables" where
  "insert_turn u db =
     (if tu_id u \<in> tu_id ` set (t_turns db) then Inl (integrity_error ''UNIQUE constraint failed: turns.id'')
      else if tu_core u \<in> tu_core ` set (t_turns db) then Inl (integrity_error ''UNIQUE constraint failed: turns.core_turn_id'')
      else if tu_thread u \<notin> th_id ` set (t_threads db) then Inl (integrity_error ''FOREIGN KEY constraint failed'')
      else Inr (db\<lparr>t_turns := t_turns db @ [u]\<rparr>))"

definition insert_event :: "event_row \<Rightarrow> tables \<Rightarrow> exn + tables" where
  "insert_event e db =
     (if er_thread e \<notin> th_id ` set (t_threads db) then Inl (integrity_error ''FOREIGN KEY constraint failed'')
      else Inr (db\<lparr>t_events := t_events db @ [e]\<rparr>))"

definition insert_attachment :: "attachment_row \<Rightarrow> tables \<Rightarrow> exn + tables" where
  "insert_attachment a db =
     (if ar_id a \<in> ar_id ` set (t_attachments db) then Inl (integrity_error ''UNIQUE constraint failed: attachments.id'')
      else Inr (db\<lparr>t_attachments := t_attachments db @ [a]\<rparr>))"

definition update_threads :: "(thread_row \<Rightarrow> bool) \<Rightarrow> (thread_row \<Rightarrow> thread_row) \<Rightarrow> tables \<Rightarrow> tables" where
  "update_threads P f db = db\<lparr>t_threads := map (\<lambda>t. if P t then f t else t) (t_threads db)\<rparr>"

definition update_turn :: "string \<Rightarrow> (turn_row \<Rightarrow> turn_row) \<Rightarrow> tables \<Rightarrow> tables" where
  "update_turn core f db = db\<lparr>t_turns := map (\<lambda>u. if tu_core u = core then f u else u) (t_turns db)\<rparr>"

text \<open>\<open>ON DELETE CASCADE\<close>: the turns and events of a deleted thread, the threads of a deleted project.\<close>

definition delete_threads :: "(thread_row \<Rightarrow> bool) \<Rightarrow> tables \<Rightarrow> tables" where
  "delete_threads P db =
     (let gone = th_id ` set (filter P (t_threads db)) in
      db\<lparr>t_threads := filter (\<lambda>t. \<not> P t) (t_threads db),
         t_turns := filter (\<lambda>u. tu_thread u \<notin> gone) (t_turns db),
         t_events := filter (\<lambda>e. er_thread e \<notin> gone) (t_events db)\<rparr>)"

definition delete_project :: "string \<Rightarrow> tables \<Rightarrow> tables" where
  "delete_project pid db =
     (delete_threads (\<lambda>t. th_project t = pid) db)\<lparr>t_projects := filter (\<lambda>p. pr_id p \<noteq> pid) (t_projects db)\<rparr>"

section \<open>Reading\<close>

definition get_project :: "string \<Rightarrow> tables \<Rightarrow> project_row option" where
  "get_project pid db = find (\<lambda>p. pr_id p = pid) (t_projects db)"

definition get_thread :: "string \<Rightarrow> tables \<Rightarrow> thread_row option" where
  "get_thread tid db = find (\<lambda>t. th_id t = tid) (t_threads db)"

definition get_turn :: "string \<Rightarrow> tables \<Rightarrow> turn_row option" where
  "get_turn core db = find (\<lambda>u. tu_core u = core) (t_turns db)"

definition get_attachment :: "string \<Rightarrow> tables \<Rightarrow> attachment_row option" where
  "get_attachment aid db = find (\<lambda>a. ar_id a = aid) (t_attachments db)"

definition list_projects :: "tables \<Rightarrow> project_row list" where
  "list_projects db = sort_key (\<lambda>p. (pr_created p, pr_id p)) (t_projects db)"

definition thread_key :: "thread_row \<Rightarrow> rat \<times> string \<times> string" where
  "thread_key t = (th_order t, th_created t, th_id t)"

definition list_threads :: "string option \<Rightarrow> bool option \<Rightarrow> tables \<Rightarrow> thread_row list" where
  "list_threads pid archived db = sort_key thread_key
     (filter (\<lambda>t. (case pid of None \<Rightarrow> True | Some p \<Rightarrow> th_project t = p)
        \<and> (case archived of None \<Rightarrow> True | Some True \<Rightarrow> th_archived t \<noteq> None | Some False \<Rightarrow> th_archived t = None)) (t_threads db))"

definition list_turns :: "string \<Rightarrow> tables \<Rightarrow> turn_row list" where
  "list_turns tid db = sort_key (\<lambda>u. (tu_created u, tu_id u)) (filter (\<lambda>u. tu_thread u = tid) (t_turns db))"

definition list_events :: "string \<Rightarrow> nat \<Rightarrow> tables \<Rightarrow> json list" where
  "list_events tid limit db = rev (take limit (rev (map er_json (filter (\<lambda>e. er_thread e = tid) (t_events db)))))"

section \<open>Projects and threads\<close>

definition add_project :: "string \<Rightarrow> string \<Rightarrow> string \<Rightarrow> bool \<Rightarrow> string \<Rightarrow> tables \<Rightarrow> exn + project_row \<times> tables" where
  "add_project now name path is_git pid db =
     (let p = \<lparr>pr_id = pid, pr_name = name, pr_path = path, pr_is_git = is_git, pr_created = now\<rparr>
      in bind_res (insert_project p db) (\<lambda>db'. Inr (p, db')))"

text \<open>The name and the Git status of a project come from the directory, here from the function \<open>probe\<close>.\<close>

definition refresh_project :: "(string \<Rightarrow> string \<times> bool) \<Rightarrow> string \<Rightarrow> tables \<Rightarrow> project_row option \<times> tables" where
  "refresh_project probe pid db =
     (case get_project pid db of
        None \<Rightarrow> (None, db)
      | Some p \<Rightarrow> (let (name, is_git) = probe (pr_path p);
            db' = db\<lparr>t_projects := map (\<lambda>q. if pr_id q = pid then q\<lparr>pr_name := name, pr_is_git := is_git\<rparr> else q) (t_projects db)\<rparr>
          in (get_project pid db', db')))"

definition new_thread :: "string \<Rightarrow> string \<Rightarrow> string \<Rightarrow> string \<Rightarrow> string \<Rightarrow> string \<Rightarrow> string option \<Rightarrow> string \<Rightarrow> string \<Rightarrow> rat \<Rightarrow> thread_row" where
  "new_thread now tid pid title kind workspace branch model_id thinking sort_order =
     \<lparr>th_id = tid, th_project = pid, th_title = title, th_kind = kind, th_workspace = workspace, th_model = model_id,
      th_thinking = thinking, th_branch = branch, th_status = ''idle'', th_pinned = None, th_archived = None,
      th_unread = False, th_order = sort_order, th_created = now, th_updated = now\<rparr>"

definition create_project_and_thread ::
  "string \<Rightarrow> string \<Rightarrow> string \<Rightarrow> bool \<Rightarrow> string \<Rightarrow> string \<Rightarrow> string \<Rightarrow> string \<Rightarrow> string \<Rightarrow> string option \<Rightarrow> string \<Rightarrow> string \<Rightarrow> tables
    \<Rightarrow> exn + (project_row \<times> thread_row) \<times> tables" where
  "create_project_and_thread now name path is_git pid tid title kind workspace branch model_id thinking db =
     (let p = \<lparr>pr_id = pid, pr_name = name, pr_path = path, pr_is_git = is_git, pr_created = now\<rparr>;
          t = new_thread now tid pid title kind workspace branch model_id thinking 0
      in bind_res (insert_project p db) (\<lambda>db1. bind_res (insert_thread t db1) (\<lambda>db2. Inr ((p, t), db2))))"

text \<open>\<open>SELECT MIN(sort_order)\<close>: a new thread goes before every thread of its project.\<close>

definition first_order :: "string \<Rightarrow> tables \<Rightarrow> rat" where
  "first_order pid db = (case map th_order (filter (\<lambda>t. th_project t = pid) (t_threads db)) of
      [] \<Rightarrow> 0 | q # qs \<Rightarrow> fold min qs q - 1)"

definition create_thread ::
  "string \<Rightarrow> string \<Rightarrow> string \<Rightarrow> string \<Rightarrow> string \<Rightarrow> string \<Rightarrow> string option \<Rightarrow> string \<Rightarrow> string \<Rightarrow> tables \<Rightarrow> exn + thread_row \<times> tables" where
  "create_thread now tid pid title kind workspace branch model_id thinking db =
     (let t = new_thread now tid pid title kind workspace branch model_id thinking (first_order pid db)
      in bind_res (insert_thread t db) (\<lambda>db'. Inr (t, db')))"

definition on_thread :: "string \<Rightarrow> (thread_row \<Rightarrow> thread_row) \<Rightarrow> tables \<Rightarrow> thread_row option \<times> tables" where
  "on_thread tid f db = (let db' = update_threads (\<lambda>t. th_id t = tid) f db in (get_thread tid db', db'))"

definition update_thread_workspace :: "string \<Rightarrow> string \<Rightarrow> string \<Rightarrow> string option \<Rightarrow> tables \<Rightarrow> thread_row option \<times> tables" where
  "update_thread_workspace now tid workspace branch db =
     on_thread tid (\<lambda>t. t\<lparr>th_workspace := workspace, th_branch := branch, th_updated := now\<rparr>) db"

definition set_thread_title :: "string \<Rightarrow> string \<Rightarrow> string \<Rightarrow> tables \<Rightarrow> thread_row option \<times> tables" where
  "set_thread_title now tid title db = on_thread tid (\<lambda>t. t\<lparr>th_title := title, th_updated := now\<rparr>) db"

definition set_thread_pinned :: "string \<Rightarrow> string \<Rightarrow> bool \<Rightarrow> tables \<Rightarrow> thread_row option \<times> tables" where
  "set_thread_pinned now tid pinned db =
     (if pinned
      then (let db' = update_threads (\<lambda>t. th_id t = tid \<and> th_archived t = None)
                (\<lambda>t. t\<lparr>th_pinned := Some now, th_updated := now\<rparr>) db in (get_thread tid db', db'))
      else on_thread tid (\<lambda>t. t\<lparr>th_pinned := None, th_updated := now\<rparr>) db)"

definition set_thread_archived :: "string \<Rightarrow> string \<Rightarrow> bool \<Rightarrow> tables \<Rightarrow> thread_row option \<times> tables" where
  "set_thread_archived now tid archived db =
     on_thread tid (\<lambda>t. t\<lparr>th_archived := (if archived then Some now else None),
        th_pinned := (if archived then None else th_pinned t),
        th_unread := (if archived then False else th_unread t), th_updated := now\<rparr>) db"

definition set_thread_read :: "string \<Rightarrow> string \<Rightarrow> bool \<Rightarrow> tables \<Rightarrow> thread_row option \<times> tables" where
  "set_thread_read now tid seen db =
     (if seen
      then on_thread tid (\<lambda>t. t\<lparr>th_status := (if th_status t = ''completed'' then ''idle'' else th_status t),
             th_unread := False, th_updated := now\<rparr>) db
      else (let db' = update_threads (\<lambda>t. th_id t = tid \<and> th_archived t = None)
                (\<lambda>t. t\<lparr>th_unread := True, th_updated := now\<rparr>) db in (get_thread tid db', db')))"

definition coalesce :: "'a option \<Rightarrow> 'a \<Rightarrow> 'a" where
  "coalesce v d = (case v of None \<Rightarrow> d | Some x \<Rightarrow> x)"

definition configure_thread :: "string \<Rightarrow> string \<Rightarrow> string option \<Rightarrow> string option \<Rightarrow> tables \<Rightarrow> thread_row option \<times> tables" where
  "configure_thread now tid model_id thinking db =
     (case get_thread tid db of None \<Rightarrow> (None, db)
      | Some _ \<Rightarrow> on_thread tid (\<lambda>t. t\<lparr>th_model := coalesce model_id (th_model t),
          th_thinking := coalesce thinking (th_thinking t), th_updated := now\<rparr>) db)"

definition reorder_check :: "string \<Rightarrow> thread_row \<Rightarrow> exn option" where
  "reorder_check pid t =
     (if th_project t \<noteq> pid then Some (ValueError ''Threads cannot be reordered across projects'')
      else if th_archived t \<noteq> None then Some (ValueError ''Archived threads cannot be reordered'')
      else if th_pinned t \<noteq> None then Some (ValueError ''Pinned threads cannot be reordered'')
      else None)"

fun reorder_checks :: "string \<Rightarrow> tables \<Rightarrow> string list \<Rightarrow> exn option" where
  "reorder_checks pid db [] = None"
| "reorder_checks pid db (tid # tids) =
     (case get_thread tid db of
        None \<Rightarrow> Some (ValueError ''Thread not found'')
      | Some t \<Rightarrow> (case reorder_check pid t of Some e \<Rightarrow> Some e | None \<Rightarrow> reorder_checks pid db tids))"

fun set_orders :: "string \<Rightarrow> string \<Rightarrow> nat \<Rightarrow> string list \<Rightarrow> tables \<Rightarrow> tables" where
  "set_orders now pid i [] db = db"
| "set_orders now pid i (tid # tids) db = set_orders now pid (i + 1) tids
     (update_threads (\<lambda>t. th_id t = tid \<and> th_project t = pid) (\<lambda>t. t\<lparr>th_order := of_nat i, th_updated := now\<rparr>) db)"

definition reorder_threads :: "string \<Rightarrow> string \<Rightarrow> string list \<Rightarrow> tables \<Rightarrow> exn + thread_row list \<times> tables" where
  "reorder_threads now pid tids db =
     (if tids = [] then Inl (ValueError ''thread_ids must not be empty'')
      else if \<not> distinct tids then Inl (ValueError ''thread_ids must not contain duplicates'')
      else if \<not> set tids \<subseteq> th_id ` set (t_threads db) then Inl (ValueError ''Thread not found'')
      else case reorder_checks pid db tids of
        Some e \<Rightarrow> Inl e
      | None \<Rightarrow> (let db' = set_orders now pid 0 tids db in Inr (list_threads (Some pid) None db', db')))"

section \<open>Turns and events\<close>

definition create_turn :: "string \<Rightarrow> string \<Rightarrow> string \<Rightarrow> string \<Rightarrow> string \<Rightarrow> json list \<Rightarrow> string \<Rightarrow> tables \<Rightarrow> exn + turn_row \<times> tables" where
  "create_turn now uid tid core user_text attachments status db =
     (let u = \<lparr>tu_id = uid, tu_thread = tid, tu_core = core, tu_text = user_text, tu_attachments = attachments,
          tu_status = status, tu_error = None, tu_blocks = [], tu_usage = [], tu_created = now, tu_updated = now\<rparr>
      in bind_res (insert_turn u db) (\<lambda>db1.
         Inr (u, update_threads (\<lambda>t. th_id t = tid) (\<lambda>t. t\<lparr>th_status := status, th_updated := now\<rparr>) db1)))"

definition ensure_turn :: "string \<Rightarrow> string \<Rightarrow> string \<Rightarrow> string \<Rightarrow> string \<Rightarrow> tables \<Rightarrow> exn + turn_row \<times> tables" where
  "ensure_turn now uid tid core status db =
     (case get_turn core db of Some u \<Rightarrow> Inr (u, db) | None \<Rightarrow> create_turn now uid tid core [] [] status db)"

definition update_turn_input :: "string \<Rightarrow> string \<Rightarrow> string \<Rightarrow> json list \<Rightarrow> tables \<Rightarrow> turn_row option \<times> tables" where
  "update_turn_input now core user_text attachments db =
     (let db' = update_turn core (\<lambda>u. u\<lparr>tu_text := user_text, tu_attachments := attachments, tu_updated := now\<rparr>) db
      in (get_turn core db', db'))"

text \<open>A value bound to a \<open>TEXT NOT NULL\<close> column.\<close>

definition text_column :: "json \<Rightarrow> exn + string" where
  "text_column v = (case v of
      JStr s \<Rightarrow> Inr s
    | JInt i \<Rightarrow> Inr (show_int i)
    | JBool b \<Rightarrow> Inr (if b then ''1'' else ''0'')
    | JFloat q \<Rightarrow> Inr (float_repr q)
    | JNull \<Rightarrow> Inl (integrity_error ''NOT NULL constraint failed: events.created_at'')
    | _ \<Rightarrow> Inl (OtherError ''ProgrammingError'' ''Error binding parameter 5''))"

definition record_event :: "string \<Rightarrow> string \<Rightarrow> (string, json) dict \<Rightarrow> tables \<Rightarrow> exn + tables" where
  "record_event now tid e db =
     bind_res (py_int (dict_get e ''seq'' (JInt 0))) (\<lambda>seq.
     bind_res (text_column (dict_get e ''time'' (JStr now))) (\<lambda>created.
     insert_event \<lparr>er_thread = tid, er_seq = seq, er_name = py_str (dict_get e ''name'' (JStr [])),
       er_json = JObj e, er_created = created\<rparr> db))"

definition projected_status :: "string \<Rightarrow> (string, json) dict \<Rightarrow> string \<times> string option \<Rightarrow> string \<times> string option" where
  "projected_status name pl current =
     (if name = ''operation.started'' then (''active'', None)
      else if name = ''operation.cancelling'' then (''cancelling'', None)
      else if name = ''operation.completed'' then (''completed'', None)
      else if name = ''operation.failed'' then (''failed'', Some (str_or (jget pl ''error'') ''Operation failed''))
      else if name = ''operation.cancelled'' then (''cancelled'', None)
      else current)"

definition append_content :: "string \<Rightarrow> block \<Rightarrow> block" where
  "append_content delta item = AList.update ''content'' (JStr (py_str (dict_get item ''content'' (JStr [])) @ delta)) item"

definition projected_blocks :: "string \<Rightarrow> (string, json) dict \<Rightarrow> block list \<Rightarrow> block list" where
  "projected_blocks name pl blocks =
     (let bid = JStr (str_or (jget pl ''block_id'') []) in
      if name \<in> {''content.started'', ''tool.started''} \<and> is_obj (jget pl ''block'')
      then (let b = obj_of (jget pl ''block'') in filter (\<lambda>item. jget item ''id'' \<noteq> jget b ''id'') blocks @ [b])
      else if name = ''content.delta''
      then map (\<lambda>item. if jget item ''id'' = bid then append_content (str_or (jget pl ''delta'') []) item else item) blocks
      else if name \<in> {''content.updated'', ''content.completed'', ''tool.updated'', ''tool.completed''} \<and> is_obj (jget pl ''patch'')
      then map (\<lambda>item. if jget item ''id'' = bid then dict_merge item (obj_of (jget pl ''patch'')) else item) blocks
      else blocks)"

definition projected_usage :: "string \<Rightarrow> (string, json) dict \<Rightarrow> (string, json) dict \<Rightarrow> (string, json) dict" where
  "projected_usage name pl usage = (if name = ''usage.updated'' \<and> is_obj (jget pl ''usage'') then obj_of (jget pl ''usage'') else usage)"

definition project_turn :: "string \<Rightarrow> string \<Rightarrow> (string, json) dict \<Rightarrow> turn_row \<Rightarrow> turn_row" where
  "project_turn updated name pl u =
     (let (status, error) = projected_status name pl (tu_status u, tu_error u)
      in u\<lparr>tu_status := status, tu_error := error, tu_blocks := projected_blocks name pl (tu_blocks u),
           tu_usage := projected_usage name pl (tu_usage u), tu_updated := updated\<rparr>)"

definition project_event :: "string \<Rightarrow> string \<Rightarrow> (string, json) dict \<Rightarrow> tables \<Rightarrow> exn + tables" where
  "project_event now tid e db =
     bind_res (record_event now tid e db) (\<lambda>db1.
     case jget e ''operation_id'' of
       JStr core \<Rightarrow> (if core = [] then Inr db1 else case get_turn core db1 of
           None \<Rightarrow> Inr db1
         | Some u \<Rightarrow>
             (let name = py_str (dict_get e ''name'' (JStr []));
                  pl = obj_of (jget e ''payload'');
                  updated = str_or (jget e ''time'') now;
                  status = fst (projected_status name pl (tu_status u, tu_error u));
                  shown = (if status = ''cancelled'' then ''idle'' else status)
              in Inr (update_threads (\<lambda>t. th_id t = tid)
                   (\<lambda>t. t\<lparr>th_status := shown, th_unread := (if name = ''operation.completed'' then True else th_unread t),
                        th_updated := updated\<rparr>)
                   (update_turn core (\<lambda>_. project_turn updated name pl u) db1))))
     | _ \<Rightarrow> Inr db1)"

section \<open>Attachments\<close>

record store =
  st_db :: tables
  st_blobs :: "(string, string) dict"
  st_temps :: "string list"

definition empty_store :: store where
  "empty_store = \<lparr>st_db = empty_tables, st_blobs = [], st_temps = []\<rparr>"

definition attachment_ids_of :: "json \<Rightarrow> string list" where
  "attachment_ids_of v = (case v of
      JStr s \<Rightarrow> if s = [] then [] else [s]
    | JObj d \<Rightarrow> (case jget d ''id'' of JStr s \<Rightarrow> [s] | _ \<Rightarrow> [])
    | _ \<Rightarrow> [])"

definition attachment_ids_for_threads :: "tables \<Rightarrow> string set \<Rightarrow> string set" where
  "attachment_ids_for_threads db tids =
     set (concat (map attachment_ids_of (concat (map tu_attachments (filter (\<lambda>u. tu_thread u \<in> tids) (t_turns db))))))"

definition delete_unreferenced_attachments :: "tables \<Rightarrow> string set \<Rightarrow> string list \<times> tables" where
  "delete_unreferenced_attachments db candidates =
     (let deletable = candidates - attachment_ids_for_threads db (th_id ` set (t_threads db));
          rows = filter (\<lambda>a. ar_id a \<in> deletable) (t_attachments db);
          db' = db\<lparr>t_attachments := filter (\<lambda>a. ar_id a \<notin> deletable) (t_attachments db)\<rparr>
      in (filter (\<lambda>p. p \<notin> ar_path ` set (t_attachments db')) (remdups (map ar_path rows)), db'))"

definition unlink :: "string list \<Rightarrow> store \<Rightarrow> store" where
  "unlink paths s = s\<lparr>st_blobs := filter (\<lambda>(p, _). p \<notin> set paths) (st_blobs s)\<rparr>"

definition remove_project :: "string \<Rightarrow> store \<Rightarrow> bool \<times> store" where
  "remove_project pid s =
     (let db = st_db s;
          ids = attachment_ids_for_threads db (th_id ` set (filter (\<lambda>t. th_project t = pid) (t_threads db)));
          found = (pid \<in> pr_id ` set (t_projects db));
          db1 = delete_project pid db;
          (paths, db2) = (if found \<and> ids \<noteq> {} then delete_unreferenced_attachments db1 ids else ([], db1))
      in (found, unlink paths (s\<lparr>st_db := db2\<rparr>)))"

definition delete_thread :: "string \<Rightarrow> store \<Rightarrow> bool \<times> store" where
  "delete_thread tid s =
     (let db = st_db s;
          ids = attachment_ids_for_threads db {tid};
          found = (tid \<in> th_id ` set (t_threads db));
          db1 = delete_threads (\<lambda>t. th_id t = tid) db;
          (paths, db2) = (if found \<and> ids \<noteq> {} then delete_unreferenced_attachments db1 ids else ([], db1))
      in (found, unlink paths (s\<lparr>st_db := db2\<rparr>)))"

text \<open>The points at which an upload may fail: writing the temporary file, moving it into place,
  setting its mode, committing the row.\<close>

datatype fault = Smooth | WriteFails | ReplaceFails | ModeFails | CommitFails

definition blob_path :: "string \<Rightarrow> string \<Rightarrow> string" where
  "blob_path dir hash = dir @ ''/'' @ hash @ ''.blob''"

definition temp_path :: "string \<Rightarrow> string \<Rightarrow> string \<Rightarrow> string" where
  "temp_path dir hash nonce = dir @ ''/.'' @ hash @ ''.'' @ nonce @ ''.tmp''"

definition os_error :: "exn" where "os_error = OtherError ''OSError'' []"

definition place_blob :: "(string \<Rightarrow> string) \<Rightarrow> fault \<Rightarrow> string \<Rightarrow> string \<Rightarrow> string \<Rightarrow> store \<Rightarrow> (exn + bool) \<times> store" where
  "place_blob digest f dir data nonce s =
     (let target = blob_path dir (digest data) in
      if f = WriteFails then (Inl os_error, s\<lparr>st_temps := st_temps s @ [temp_path dir (digest data) nonce]\<rparr>)
      else if (case map_of (st_blobs s) target of Some c \<Rightarrow> digest c = digest data | None \<Rightarrow> False) then (Inr False, s)
      else if f = ReplaceFails then (Inl os_error, s)
      else (let s' = s\<lparr>st_blobs := AList.update target data (st_blobs s)\<rparr>
            in if f = ModeFails then (Inl os_error, s') else (Inr True, s')))"

definition add_attachment ::
  "(string \<Rightarrow> string) \<Rightarrow> fault \<Rightarrow> string \<Rightarrow> string \<Rightarrow> string \<Rightarrow> string \<Rightarrow> string option \<Rightarrow> string \<Rightarrow> string \<Rightarrow> store \<Rightarrow> (exn + attachment_row) \<times> store" where
  "add_attachment digest f now aid nonce name mime data dir s =
     (case place_blob digest f dir data nonce s of
        (Inl e, s1) \<Rightarrow> (Inl e, s1)
      | (Inr created, s1) \<Rightarrow>
          (let target = blob_path dir (digest data);
               row = \<lparr>ar_id = aid, ar_name = name, ar_mime = mime, ar_size = length data, ar_path = target, ar_created = now\<rparr>;
               undo = (if created then unlink [target] s1 else s1)
           in if f = CommitFails then (Inl (OtherError ''OperationalError'' []), undo)
              else case insert_attachment row (st_db s1) of
                Inl e \<Rightarrow> (Inl e, undo)
              | Inr db' \<Rightarrow> (Inr row, s1\<lparr>st_db := db'\<rparr>)))"

definition delete_attachment :: "string \<Rightarrow> store \<Rightarrow> bool \<times> store" where
  "delete_attachment aid s =
     (case get_attachment aid (st_db s) of
        None \<Rightarrow> (False, s)
      | Some a \<Rightarrow>
          (let db' = (st_db s)\<lparr>t_attachments := filter (\<lambda>b. ar_id b \<noteq> aid) (t_attachments (st_db s))\<rparr>;
               s' = s\<lparr>st_db := db'\<rparr>
           in (True, if ar_path a \<in> ar_path ` set (t_attachments db') then s' else unlink [ar_path a] s')))"

text \<open>\<open>directory.glob("*.blob")\<close>: the files of the directory whose name ends in \<open>.blob\<close>.\<close>

definition in_directory :: "string \<Rightarrow> string \<Rightarrow> bool" where
  "in_directory dir p \<longleftrightarrow> starts_with p (dir @ ''/'') \<and> CHR ''/'' \<notin> set (drop (length dir + 1) p)"

definition cleanup_orphan_attachments :: "string \<Rightarrow> store \<Rightarrow> string list \<times> store" where
  "cleanup_orphan_attachments dir s =
     (let orphans = filter (\<lambda>p. in_directory dir p \<and> ends_with p ''.blob'' \<and> p \<notin> ar_path ` set (t_attachments (st_db s)))
            (map fst (st_blobs s))
      in (orphans, unlink orphans s))"

section \<open>The serial worker\<close>

text \<open>
  Every call of the gateway runs alone on one worker thread. A failing call leaves the tables as they
  were, but not always the directory; \<open>CrashedUpload\<close> ends the process between the blob and the row.
\<close>

datatype store_op =
    AddProject string string string bool string
  | RefreshProject "string \<Rightarrow> string \<times> bool" string
  | CreateBoth string string string bool string string string string string "string option" string string
  | CreateThread string string string string string string "string option" string string
  | SetWorkspace string string string "string option"
  | SetTitle string string string
  | SetPinned string string bool
  | SetArchived string string bool
  | SetRead string string bool
  | Configure string string "string option" "string option"
  | Reorder string string "string list"
  | CreateTurn string string string string string "json list" string
  | EnsureTurn string string string string string
  | UpdateInput string string string "json list"
  | RecordEvent string string "(string, json) dict"
  | ProjectEvent string string "(string, json) dict"
  | RemoveProject string
  | DeleteThread string
  | Upload fault string string string string "string option" string
  | CrashedUpload string string
  | DeleteAttachment string
  | Cleanup

definition run_tables :: "(tables \<Rightarrow> exn + tables) \<Rightarrow> store \<Rightarrow> store" where
  "run_tables f s = (case f (st_db s) of Inl _ \<Rightarrow> s | Inr db \<Rightarrow> s\<lparr>st_db := db\<rparr>)"

definition new_tables :: "exn + 'a \<times> tables \<Rightarrow> exn + tables" where
  "new_tables r = bind_res r (\<lambda>(_, db). Inr db)"

fun run_store_op :: "(string \<Rightarrow> string) \<Rightarrow> string \<Rightarrow> store_op \<Rightarrow> store \<Rightarrow> store" where
  "run_store_op digest dir (AddProject now name path g pid) = run_tables (\<lambda>db. new_tables (add_project now name path g pid db))"
| "run_store_op digest dir (RefreshProject probe pid) = run_tables (\<lambda>db. Inr (snd (refresh_project probe pid db)))"
| "run_store_op digest dir (CreateBoth now name path g pid tid title kind ws br m k) =
     run_tables (\<lambda>db. new_tables (create_project_and_thread now name path g pid tid title kind ws br m k db))"
| "run_store_op digest dir (CreateThread now tid pid title kind ws br m k) =
     run_tables (\<lambda>db. new_tables (create_thread now tid pid title kind ws br m k db))"
| "run_store_op digest dir (SetWorkspace now tid ws br) = run_tables (\<lambda>db. Inr (snd (update_thread_workspace now tid ws br db)))"
| "run_store_op digest dir (SetTitle now tid title) = run_tables (\<lambda>db. Inr (snd (set_thread_title now tid title db)))"
| "run_store_op digest dir (SetPinned now tid b) = run_tables (\<lambda>db. Inr (snd (set_thread_pinned now tid b db)))"
| "run_store_op digest dir (SetArchived now tid b) = run_tables (\<lambda>db. Inr (snd (set_thread_archived now tid b db)))"
| "run_store_op digest dir (SetRead now tid b) = run_tables (\<lambda>db. Inr (snd (set_thread_read now tid b db)))"
| "run_store_op digest dir (Configure now tid m k) = run_tables (\<lambda>db. Inr (snd (configure_thread now tid m k db)))"
| "run_store_op digest dir (Reorder now pid tids) = run_tables (\<lambda>db. new_tables (reorder_threads now pid tids db))"
| "run_store_op digest dir (CreateTurn now uid tid core txt ats st) = run_tables (\<lambda>db. new_tables (create_turn now uid tid core txt ats st db))"
| "run_store_op digest dir (EnsureTurn now uid tid core st) = run_tables (\<lambda>db. new_tables (ensure_turn now uid tid core st db))"
| "run_store_op digest dir (UpdateInput now core txt ats) = run_tables (\<lambda>db. Inr (snd (update_turn_input now core txt ats db)))"
| "run_store_op digest dir (RecordEvent now tid e) = run_tables (record_event now tid e)"
| "run_store_op digest dir (ProjectEvent now tid e) = run_tables (project_event now tid e)"
| "run_store_op digest dir (RemoveProject pid) = (\<lambda>s. snd (remove_project pid s))"
| "run_store_op digest dir (DeleteThread tid) = (\<lambda>s. snd (delete_thread tid s))"
| "run_store_op digest dir (Upload f now aid nonce name mime data) = (\<lambda>s. snd (add_attachment digest f now aid nonce name mime data dir s))"
| "run_store_op digest dir (CrashedUpload nonce data) = (\<lambda>s. snd (place_blob digest Smooth dir data nonce s))"
| "run_store_op digest dir (DeleteAttachment aid) = (\<lambda>s. snd (delete_attachment aid s))"
| "run_store_op digest dir Cleanup = (\<lambda>s. snd (cleanup_orphan_attachments dir s))"

definition run_store :: "(string \<Rightarrow> string) \<Rightarrow> string \<Rightarrow> store_op list \<Rightarrow> store \<Rightarrow> store" where
  "run_store digest dir ops s = fold (run_store_op digest dir) ops s"

end
