(* ===== verification/StoreProps.thy ===== *)
theory StoreProps
  imports Store
begin

text \<open>
  The projection store over any sequence of its operations, failing ones included: the tables keep
  their keys and references, every attachment row names the blob it was stored in, and the order of
  the threads is the one last asked for.
\<close>

section \<open>Integrity of the tables\<close>

definition thread_ok :: "tables \<Rightarrow> thread_row \<Rightarrow> bool" where
  "thread_ok db t \<longleftrightarrow> th_project t \<in> pr_id ` set (t_projects db) \<and> th_kind t \<in> {''standard'', ''worktree''}
     \<and> (th_archived t = None \<or> th_pinned t = None)"

definition tables_ok :: "tables \<Rightarrow> bool" where
  "tables_ok db \<longleftrightarrow>
     distinct (map pr_id (t_projects db)) \<and> distinct (map pr_path (t_projects db)) \<and>
     distinct (map th_id (t_threads db)) \<and>
     distinct (map tu_id (t_turns db)) \<and> distinct (map tu_core (t_turns db)) \<and>
     distinct (map ar_id (t_attachments db)) \<and>
     (\<forall>t \<in> set (t_threads db). thread_ok db t) \<and>
     (\<forall>u \<in> set (t_turns db). tu_thread u \<in> th_id ` set (t_threads db)) \<and>
     (\<forall>e \<in> set (t_events db). er_thread e \<in> th_id ` set (t_threads db))"

lemma empty_tables_ok [simp]: "tables_ok empty_tables"
  by (simp add: tables_ok_def empty_tables_def)

lemma insert_project_ok: "insert_project p db = Inr db' \<Longrightarrow> tables_ok db \<Longrightarrow> tables_ok db'"
  by (auto simp: insert_project_def tables_ok_def thread_ok_def split: if_splits)

lemma insert_thread_ok:
  "insert_thread t db = Inr db' \<Longrightarrow> th_archived t = None \<or> th_pinned t = None \<Longrightarrow> tables_ok db \<Longrightarrow> tables_ok db'"
  by (auto simp: insert_thread_def tables_ok_def thread_ok_def split: if_splits)

lemma insert_turn_ok: "insert_turn u db = Inr db' \<Longrightarrow> tables_ok db \<Longrightarrow> tables_ok db'"
  by (auto simp: insert_turn_def tables_ok_def thread_ok_def split: if_splits)

lemma insert_event_ok: "insert_event e db = Inr db' \<Longrightarrow> tables_ok db \<Longrightarrow> tables_ok db'"
  by (auto simp: insert_event_def tables_ok_def thread_ok_def split: if_splits)

lemma insert_attachment_ok: "insert_attachment a db = Inr db' \<Longrightarrow> tables_ok db \<Longrightarrow> tables_ok db'"
  by (auto simp: insert_attachment_def tables_ok_def thread_ok_def split: if_splits)

lemma map_cond_id: "(\<And>x. h (f x) = h x) \<Longrightarrow> map h (map (\<lambda>x. if P x then f x else x) xs) = map h xs"
  by (induction xs) auto

text \<open>An update of thread rows that keeps their keys, and the exclusion of pinned and archived.\<close>

definition keeps_thread :: "(thread_row \<Rightarrow> bool) \<Rightarrow> (thread_row \<Rightarrow> thread_row) \<Rightarrow> bool" where
  "keeps_thread P f \<longleftrightarrow> (\<forall>t. th_id (f t) = th_id t \<and> th_project (f t) = th_project t \<and> th_kind (f t) = th_kind t
     \<and> (P t \<and> (th_archived t = None \<or> th_pinned t = None) \<longrightarrow> th_archived (f t) = None \<or> th_pinned (f t) = None))"

lemma update_threads_ok:
  assumes "keeps_thread P f" "tables_ok db"
  shows "tables_ok (update_threads P f db)"
proof -
  have keep: "th_id (f t) = th_id t" for t
    using assms(1) by (simp add: keeps_thread_def)
  have ids: "map th_id (t_threads (update_threads P f db)) = map th_id (t_threads db)"
    unfolding update_threads_def by (simp del: map_map) (rule map_cond_id, rule keep)
  then have "th_id ` set (t_threads (update_threads P f db)) = th_id ` set (t_threads db)"
    by (metis list.set_map)
  note ids this
  moreover have "thread_ok (update_threads P f db) t" if l: "t \<in> set (t_threads (update_threads P f db))" for t
  proof -
    obtain x where x: "x \<in> set (t_threads db)" "t = (if P x then f x else x)"
      using l by (auto simp: update_threads_def)
    have "thread_ok db x"
      using x assms(2) by (simp add: tables_ok_def)
    moreover have "th_project (f x) = th_project x \<and> th_kind (f x) = th_kind x \<and>
        (P x \<and> (th_archived x = None \<or> th_pinned x = None) \<longrightarrow> th_archived (f x) = None \<or> th_pinned (f x) = None)"
      using assms(1) by (simp add: keeps_thread_def)
    ultimately have "thread_ok db (if P x then f x else x)"
      by (cases "P x") (simp_all add: thread_ok_def)
    then show ?thesis
      by (simp add: x thread_ok_def update_threads_def)
  qed
  moreover have "t_projects (update_threads P f db) = t_projects db" "t_turns (update_threads P f db) = t_turns db"
    "t_events (update_threads P f db) = t_events db" "t_attachments (update_threads P f db) = t_attachments db"
    by (simp_all add: update_threads_def)
  ultimately show ?thesis
    using assms(2) unfolding tables_ok_def by metis
qed

lemma keeps_thread_simps:
  "keeps_thread P (\<lambda>t. t\<lparr>th_workspace := w, th_branch := b, th_updated := now\<rparr>)"
  "keeps_thread P (\<lambda>t. t\<lparr>th_title := w, th_updated := now\<rparr>)"
  "keeps_thread (\<lambda>t. Q t \<and> th_archived t = None) (\<lambda>t. t\<lparr>th_pinned := v, th_updated := now\<rparr>)"
  "keeps_thread P (\<lambda>t. t\<lparr>th_pinned := None, th_updated := now\<rparr>)"
  "keeps_thread P (\<lambda>t. t\<lparr>th_archived := (if a then Some now else None), th_pinned := (if a then None else th_pinned t),
     th_unread := (if a then False else th_unread t), th_updated := now\<rparr>)"
  "keeps_thread P (\<lambda>t. t\<lparr>th_status := st t, th_unread := r t, th_updated := now\<rparr>)"
  "keeps_thread P (\<lambda>t. t\<lparr>th_unread := True, th_updated := now\<rparr>)"
  "keeps_thread P (\<lambda>t. t\<lparr>th_status := s, th_updated := now\<rparr>)"
  "keeps_thread P (\<lambda>t. t\<lparr>th_model := m t, th_thinking := k t, th_updated := now\<rparr>)"
  "keeps_thread P (\<lambda>t. t\<lparr>th_order := q, th_updated := now\<rparr>)"
  by (auto simp: keeps_thread_def)

lemma update_turn_ok:
  assumes keep: "\<And>u. u \<in> set (t_turns db) \<Longrightarrow> tu_core u = core \<Longrightarrow>
      tu_id (f u) = tu_id u \<and> tu_core (f u) = core \<and> tu_thread (f u) = tu_thread u" and ok: "tables_ok db"
  shows "tables_ok (update_turn core f db)"
proof -
  let ?g = "\<lambda>u. if tu_core u = core then f u else u"
  have "map tu_id (map ?g (t_turns db)) = map tu_id (t_turns db)" "map tu_core (map ?g (t_turns db)) = map tu_core (t_turns db)"
    using keep by auto
  moreover have "tu_thread (f u) \<in> th_id ` set (t_threads db)" if "u \<in> set (t_turns db)" "tu_core u = core" for u
    using that keep ok by (simp add: tables_ok_def)
  ultimately show ?thesis
    using ok by (auto simp: tables_ok_def update_turn_def thread_ok_def simp del: map_map)
qed

lemma delete_threads_ok:
  assumes "tables_ok db"
  shows "tables_ok (delete_threads P db)"
proof -
  have "i \<in> th_id ` set (filter (\<lambda>t. \<not> P t) (t_threads db))"
    if "i \<in> th_id ` set (t_threads db)" "i \<notin> th_id ` set (filter P (t_threads db))" for i
    using that by auto
  with assms show ?thesis
    unfolding tables_ok_def delete_threads_def thread_ok_def Let_def by (simp add: distinct_map_filter)
qed

lemma image_filter_neq: "x \<in> h ` set xs \<Longrightarrow> x \<noteq> y \<Longrightarrow> x \<in> h ` set (filter (\<lambda>z. h z \<noteq> y) xs)"
  by auto

lemma delete_project_ok:
  assumes "tables_ok db"
  shows "tables_ok (delete_project pid db)"
proof -
  let ?db = "delete_threads (\<lambda>t. th_project t = pid) db"
  have ok: "tables_ok ?db" and pr: "t_projects ?db = t_projects db" and apart: "\<forall>t \<in> set (t_threads ?db). th_project t \<noteq> pid"
    using assms delete_threads_ok by (auto simp: delete_threads_def Let_def)
  have "thread_ok (delete_project pid db) t" if "t \<in> set (t_threads ?db)" for t
  proof -
    have "thread_ok ?db t" "th_project t \<noteq> pid"
      using that ok apart by (auto simp: tables_ok_def)
    then show ?thesis
      using image_filter_neq [of "th_project t" pr_id "t_projects db" pid] by (simp add: thread_ok_def delete_project_def pr)
  qed
  then show ?thesis
    using ok unfolding tables_ok_def by (simp add: delete_project_def distinct_map_filter pr)
qed

lemma filter_attachments_ok: "tables_ok db \<Longrightarrow> tables_ok (db\<lparr>t_attachments := filter P (t_attachments db)\<rparr>)"
  by (simp add: tables_ok_def thread_ok_def distinct_map_filter)

lemma delete_unreferenced_ok: "delete_unreferenced_attachments db ids = (ps, db') \<Longrightarrow> tables_ok db \<Longrightarrow> tables_ok db'"
  by (auto simp: delete_unreferenced_attachments_def Let_def intro: filter_attachments_ok)

lemma on_thread_ok: "keeps_thread (\<lambda>t. th_id t = tid) f \<Longrightarrow> tables_ok db \<Longrightarrow> tables_ok (snd (on_thread tid f db))"
  by (simp add: on_thread_def Let_def update_threads_ok)

lemmas thread_updates = update_threads_ok on_thread_ok keeps_thread_simps

lemma set_orders_ok: "tables_ok db \<Longrightarrow> tables_ok (set_orders now pid i tids db)"
  by (induction tids arbitrary: i db) (simp_all add: thread_updates)

lemma reorder_ok: "reorder_threads now pid tids db = Inr (r, db') \<Longrightarrow> tables_ok db \<Longrightarrow> tables_ok db'"
  by (auto simp: reorder_threads_def Let_def set_orders_ok split: if_splits option.splits)

lemma new_thread_free: "th_archived (new_thread now tid pid title kind ws br m k q) = None"
  by (simp add: new_thread_def)

lemma create_thread_ok: "create_thread now tid pid title kind ws br m k db = Inr (t, db') \<Longrightarrow> tables_ok db \<Longrightarrow> tables_ok db'"
  by (auto simp: create_thread_def Let_def new_thread_free elim!: bind_res_InrE intro: insert_thread_ok)

lemma create_both_ok:
  "create_project_and_thread now name path g pid tid title kind ws br m k db = Inr (r, db') \<Longrightarrow> tables_ok db \<Longrightarrow> tables_ok db'"
  by (auto simp: create_project_and_thread_def Let_def new_thread_free elim!: bind_res_InrE intro: insert_thread_ok insert_project_ok)

lemma create_turn_ok: "create_turn now uid tid core txt ats st db = Inr (u, db') \<Longrightarrow> tables_ok db \<Longrightarrow> tables_ok db'"
  by (auto simp: create_turn_def Let_def elim!: bind_res_InrE intro!: thread_updates intro: insert_turn_ok)

lemma ensure_turn_ok: "ensure_turn now uid tid core st db = Inr (u, db') \<Longrightarrow> tables_ok db \<Longrightarrow> tables_ok db'"
  by (auto simp: ensure_turn_def intro: create_turn_ok split: option.splits)

lemma get_turn_in: "get_turn core db = Some u \<Longrightarrow> u \<in> set (t_turns db) \<and> tu_core u = core"
  by (auto simp: get_turn_def find_Some_iff)

lemma project_turn_keys [simp]:
  "tu_id (project_turn t n p u) = tu_id u" "tu_core (project_turn t n p u) = tu_core u" "tu_thread (project_turn t n p u) = tu_thread u"
  by (simp_all add: project_turn_def split: prod.splits)

lemma record_event_ok: "record_event now tid e db = Inr db' \<Longrightarrow> tables_ok db \<Longrightarrow> tables_ok db'"
  by (auto simp: record_event_def elim!: bind_res_InrE intro: insert_event_ok)

lemma find_unique: "distinct (map h xs) \<Longrightarrow> x \<in> set xs \<Longrightarrow> find (\<lambda>y. h y = h x) xs = Some x"
  by (induction xs) auto

lemma turn_unique: "tables_ok db \<Longrightarrow> u \<in> set (t_turns db) \<Longrightarrow> get_turn (tu_core u) db = Some u"
  by (simp add: tables_ok_def get_turn_def find_unique)

lemma project_event_ok:
  assumes "project_event now tid e db = Inr db'" "tables_ok db"
  shows "tables_ok db'"
proof -
  obtain db1 where rec: "record_event now tid e db = Inr db1" and db1: "tables_ok db1"
    using assms record_event_ok by (auto simp: project_event_def elim!: bind_res_InrE)
  have "tables_ok (update_turn core (\<lambda>_. project_turn t n p u) db1)" if g: "get_turn core db1 = Some u" for core t n p u
  proof (rule update_turn_ok [OF _ db1])
    fix v assume v: "v \<in> set (t_turns db1)" "tu_core v = core"
    with turn_unique [OF db1 v(1)] g have "v = u"
      by simp
    with v show "tu_id (project_turn t n p u) = tu_id v \<and> tu_core (project_turn t n p u) = core \<and> tu_thread (project_turn t n p u) = tu_thread v"
      by simp
  qed
  then show ?thesis
    using assms(1) rec db1 unfolding project_event_def Let_def
    by (auto split: json.splits if_splits option.splits intro!: update_threads_ok keeps_thread_simps(6))
qed

section \<open>Blobs\<close>

definition blob_paths :: "store \<Rightarrow> string set" where
  "blob_paths s = fst ` set (st_blobs s)"

definition blobs_ok :: "(string \<Rightarrow> string) \<Rightarrow> string \<Rightarrow> store \<Rightarrow> bool" where
  "blobs_ok digest dir s \<longleftrightarrow> distinct (map fst (st_blobs s)) \<and>
     (\<forall>(p, c) \<in> set (st_blobs s). p = blob_path dir (digest c)) \<and>
     (\<forall>a \<in> set (t_attachments (st_db s)). ar_path a \<in> blob_paths s)"

definition store_ok :: "(string \<Rightarrow> string) \<Rightarrow> string \<Rightarrow> store \<Rightarrow> bool" where
  "store_ok digest dir s \<longleftrightarrow> tables_ok (st_db s) \<and> blobs_ok digest dir s"

lemma empty_store_ok [simp]: "store_ok digest dir empty_store"
  by (simp add: store_ok_def blobs_ok_def empty_store_def) (simp add: empty_tables_def)

lemma blob_path_inj [simp]: "blob_path dir h = blob_path dir k \<longleftrightarrow> h = k"
  by (simp add: blob_path_def)

lemma unlink_sel [simp]: "st_db (unlink ps s) = st_db s" "st_temps (unlink ps s) = st_temps s"
  by (simp_all add: unlink_def)

lemma blob_paths_unlink [simp]: "blob_paths (unlink ps s) = blob_paths s - set ps"
  by (auto simp: unlink_def blob_paths_def image_iff split: prod.splits)

lemma blob_paths_db [simp]: "blob_paths (s\<lparr>st_db := db\<rparr>) = blob_paths s"
  by (simp add: blob_paths_def)

lemma unlink_blobs_ok:
  assumes "blobs_ok digest dir s" "set (t_attachments db) \<subseteq> set (t_attachments (st_db s))"
    "ar_path ` set (t_attachments db) \<inter> set ps = {}"
  shows "blobs_ok digest dir (unlink ps (s\<lparr>st_db := db\<rparr>))"
proof -
  have "ar_path a \<in> blob_paths s - set ps" if "a \<in> set (t_attachments db)" for a
    using that assms by (auto simp: blobs_ok_def)
  then show ?thesis
    using assms(1) unfolding blobs_ok_def blob_paths_unlink blob_paths_db
    by (auto simp: unlink_def distinct_map_filter)
qed

lemma same_attachments_ok:
  "blobs_ok digest dir s \<Longrightarrow> t_attachments db = t_attachments (st_db s) \<Longrightarrow> blobs_ok digest dir (s\<lparr>st_db := db\<rparr>)"
  by (simp add: blobs_ok_def)

lemma place_blob_sel:
  "place_blob digest f dir data nonce s = (r, s') \<Longrightarrow> st_db s' = st_db s \<and> set (st_temps s) \<subseteq> set (st_temps s')"
  by (auto simp: place_blob_def Let_def split: if_splits option.splits)

lemma set_update_cases: "(p, c) \<in> set (AList.update k v d) \<Longrightarrow> (p, c) = (k, v) \<or> (p, c) \<in> set d"
  by (induction d) (auto split: if_splits)

lemma store_blob_ok:
  assumes "blobs_ok digest dir s"
  shows "blobs_ok digest dir (s\<lparr>st_blobs := AList.update (blob_path dir (digest data)) data (st_blobs s)\<rparr>)"
  using assms by (auto simp: blobs_ok_def blob_paths_def dest!: set_update_cases)

lemma place_blob_ok:
  assumes "place_blob digest f dir data nonce s = (r, s')" "blobs_ok digest dir s"
  shows "blobs_ok digest dir s'"
  using assms store_blob_ok [OF assms(2)]
  by (auto simp: place_blob_def Let_def split: if_splits option.splits) (simp_all add: blobs_ok_def blob_paths_def)

text \<open>The blob of a fresh upload was not there before, so taking it back harms no other row.\<close>

lemma place_blob_Inr:
  assumes "place_blob digest f dir data nonce s = (Inr created, s')" "blobs_ok digest dir s"
  shows "blob_paths s' = insert (blob_path dir (digest data)) (blob_paths s) \<and> (created \<longrightarrow> blob_path dir (digest data) \<notin> blob_paths s)"
proof -
  let ?k = "blob_path dir (digest data)"
  show ?thesis
  proof (cases "map_of (st_blobs s) ?k")
    case None
    then have "?k \<notin> blob_paths s"
      by (simp add: blob_paths_def map_of_eq_None_iff)
    moreover from None assms(1) have "s' = s\<lparr>st_blobs := AList.update ?k data (st_blobs s)\<rparr>"
      by (auto simp: place_blob_def Let_def split: if_splits)
    then have "blob_paths s' = insert ?k (blob_paths s)"
      by (simp add: blob_paths_def)
    ultimately show ?thesis
      by simp
  next
    case (Some c)
    then have "?k \<in> blob_paths s" "digest c = digest data"
      using map_of_SomeD [OF Some] assms(2) by (auto simp: blobs_ok_def blob_paths_def image_iff intro: bexI [of _ "(?k, c)"])
    with Some assms(1) show ?thesis
      by (auto simp: place_blob_def Let_def split: if_splits)
  qed
qed

lemma add_attachment_ok:
  assumes ok: "store_ok digest dir s"
  shows "store_ok digest dir (snd (add_attachment digest f now aid nonce name mime data dir s))"
proof -
  obtain r s1 where place: "place_blob digest f dir data nonce s = (r, s1)"
    by fastforce
  have s1: "store_ok digest dir s1" "st_db s1 = st_db s"
    using ok place_blob_ok [OF place] place_blob_sel [OF place] by (auto simp: store_ok_def)
  show ?thesis
  proof (cases r)
    case (Inl e)
    then show ?thesis
      using place s1 by (simp add: add_attachment_def)
  next
    case (Inr created)
    let ?target = "blob_path dir (digest data)"
    have paths: "blob_paths s1 = insert ?target (blob_paths s)" "created \<Longrightarrow> ?target \<notin> blob_paths s"
      using place_blob_Inr [of digest f dir data nonce s created s1] place Inr ok by (auto simp: store_ok_def)
    have "?target \<notin> ar_path ` set (t_attachments (st_db s1))" if created
      using paths(2) that ok s1(2) by (auto simp: store_ok_def blobs_ok_def)
    then have undo: "store_ok digest dir (if created then unlink [?target] s1 else s1)"
      using s1(1) unlink_blobs_ok [of digest dir s1 "st_db s1" "[?target]"] by (auto simp: store_ok_def s1(2) [symmetric])
    have "store_ok digest dir (s1\<lparr>st_db := db'\<rparr>)"
      if row: "insert_attachment a (st_db s) = Inr db'" "ar_path a = ?target" for a db'
    proof -
      have "t_attachments db' = t_attachments (st_db s) @ [a]"
        using row by (auto simp: insert_attachment_def split: if_splits)
      then have "blobs_ok digest dir (s1\<lparr>st_db := db'\<rparr>)"
        using s1 row paths(1) by (auto simp: store_ok_def blobs_ok_def)
      then show ?thesis
        using insert_attachment_ok [OF row(1)] ok by (simp add: store_ok_def)
    qed
    then show ?thesis
      using place Inr undo s1(2) by (auto simp: add_attachment_def Let_def split: sum.splits)
  qed
qed

lemma delete_unreferenced_paths:
  assumes "delete_unreferenced_attachments db ids = (ps, db')"
  shows "set (t_attachments db') \<subseteq> set (t_attachments db)" "ar_path ` set (t_attachments db') \<inter> set ps = {}"
  using assms by (auto simp: delete_unreferenced_attachments_def Let_def)

lemma purge_ok:
  assumes ok: "store_ok digest dir s" and db1: "tables_ok db1" "t_attachments db1 = t_attachments (st_db s)"
    and purge: "(ps, db2) = (if b then delete_unreferenced_attachments db1 ids else ([], db1))"
  shows "store_ok digest dir (unlink ps (s\<lparr>st_db := db2\<rparr>))"
proof -
  have "set (t_attachments db2) \<subseteq> set (t_attachments (st_db s))" "ar_path ` set (t_attachments db2) \<inter> set ps = {}" "tables_ok db2"
    using delete_unreferenced_paths [of db1 ids ps db2] delete_unreferenced_ok [of db1 ids ps db2] db1 purge
    by (auto split: if_splits)
  then show ?thesis
    using ok unlink_blobs_ok [of digest dir s db2 ps] by (simp add: store_ok_def)
qed

lemma deletes_keep_attachments [simp]:
  "t_attachments (delete_threads P db) = t_attachments db" "t_attachments (delete_project pid db) = t_attachments db"
  by (simp_all add: delete_threads_def delete_project_def Let_def)

lemma remove_project_ok: "store_ok digest dir s \<Longrightarrow> store_ok digest dir (snd (remove_project pid s))"
  by (auto simp: remove_project_def Let_def store_ok_def [of _ _ s] delete_project_ok split: prod.splits
      intro!: purge_ok [of digest dir s "delete_project pid (st_db s)"] dest: sym)

lemma delete_thread_ok: "store_ok digest dir s \<Longrightarrow> store_ok digest dir (snd (delete_thread tid s))"
  by (auto simp: delete_thread_def Let_def store_ok_def [of _ _ s] delete_threads_ok split: prod.splits
      intro!: purge_ok [of digest dir s "delete_threads (\<lambda>t. th_id t = tid) (st_db s)"] dest: sym)

lemma delete_attachment_ok:
  assumes "store_ok digest dir s"
  shows "store_ok digest dir (snd (delete_attachment aid s))"
proof -
  let ?db = "(st_db s)\<lparr>t_attachments := filter (\<lambda>b. ar_id b \<noteq> aid) (t_attachments (st_db s))\<rparr>"
  have "tables_ok ?db"
    using assms filter_attachments_ok by (simp add: store_ok_def)
  moreover have unl: "blobs_ok digest dir (unlink ps (s\<lparr>st_db := ?db\<rparr>))" if "ar_path ` set (t_attachments ?db) \<inter> set ps = {}" for ps
    using assms that by (intro unlink_blobs_ok) (auto simp: store_ok_def)
  moreover have "blobs_ok digest dir (s\<lparr>st_db := ?db\<rparr>)"
    using unl [of "[]"] by (simp add: unlink_def)
  moreover have "blobs_ok digest dir (unlink [p] (s\<lparr>st_db := ?db\<rparr>))" if "p \<notin> ar_path ` set (t_attachments ?db)" for p
    using that by (intro unl) simp
  ultimately show ?thesis
    using assms by (simp add: delete_attachment_def Let_def store_ok_def split: option.splits)
qed

lemma cleanup_ok:
  assumes "store_ok digest dir s"
  shows "store_ok digest dir (snd (cleanup_orphan_attachments dir s))"
proof -
  let ?ps = "fst (cleanup_orphan_attachments dir s)"
  have "snd (cleanup_orphan_attachments dir s) = unlink ?ps s" "ar_path ` set (t_attachments (st_db s)) \<inter> set ?ps = {}"
    by (auto simp: cleanup_orphan_attachments_def Let_def)
  then show ?thesis
    using assms unlink_blobs_ok [of digest dir s "st_db s" ?ps] by (simp add: store_ok_def)
qed

text \<open>The statements on the other tables leave the attachments alone.\<close>

lemma update_attachments [simp]:
  "t_attachments (update_threads P f db) = t_attachments db" "t_attachments (update_turn core g db) = t_attachments db"
  "t_attachments (snd (on_thread tid f db)) = t_attachments db" "t_attachments (set_orders now pid i tids db) = t_attachments db"
     apply (simp_all add: update_threads_def update_turn_def on_thread_def Let_def)
  by (induction tids arbitrary: i db) (simp_all add: update_threads_def)

lemma insert_attachments:
  "insert_project p db = Inr db' \<Longrightarrow> t_attachments db' = t_attachments db"
  "insert_thread t db = Inr db' \<Longrightarrow> t_attachments db' = t_attachments db"
  "insert_turn u db = Inr db' \<Longrightarrow> t_attachments db' = t_attachments db"
  "insert_event e db = Inr db' \<Longrightarrow> t_attachments db' = t_attachments db"
  by (auto simp: insert_project_def insert_thread_def insert_turn_def insert_event_def split: if_splits)

lemma create_attachments:
  "add_project now name path g pid db = Inr (p, db') \<Longrightarrow> t_attachments db' = t_attachments db"
  "create_project_and_thread now name path g pid tid title kind ws br m k db = Inr (r, db') \<Longrightarrow> t_attachments db' = t_attachments db"
  "create_thread now tid pid title kind ws br m k db = Inr (t, db') \<Longrightarrow> t_attachments db' = t_attachments db"
  "create_turn now uid tid core txt ats st db = Inr (u, db') \<Longrightarrow> t_attachments db' = t_attachments db"
  "reorder_threads now pid tids db = Inr (rs, db') \<Longrightarrow> t_attachments db' = t_attachments db"
  "record_event now tid e db = Inr db' \<Longrightarrow> t_attachments db' = t_attachments db"
  by (auto simp: add_project_def create_project_and_thread_def create_thread_def create_turn_def reorder_threads_def
      record_event_def Let_def elim!: bind_res_InrE split: if_splits option.splits dest!: insert_attachments)

lemma ensure_attachments: "ensure_turn now uid tid core st db = Inr (u, db') \<Longrightarrow> t_attachments db' = t_attachments db"
  by (auto simp: ensure_turn_def create_attachments split: option.splits)

lemma project_attachments: "project_event now tid e db = Inr db' \<Longrightarrow> t_attachments db' = t_attachments db"
  by (auto simp: project_event_def Let_def create_attachments elim!: bind_res_InrE split: json.splits if_splits option.splits)

lemma replace_projects_ok:
  assumes "tables_ok db" "map pr_id ps = map pr_id (t_projects db)" "map pr_path ps = map pr_path (t_projects db)"
  shows "tables_ok (db\<lparr>t_projects := ps\<rparr>)"
proof -
  have "pr_id ` set ps = pr_id ` set (t_projects db)"
    using assms(2) by (metis list.set_map)
  then show ?thesis
    using assms by (simp add: tables_ok_def thread_ok_def)
qed

lemma refresh_project_ok:
  "tables_ok db \<Longrightarrow> tables_ok (snd (refresh_project probe pid db))"
  "t_attachments (snd (refresh_project probe pid db)) = t_attachments db"
  by (auto simp: refresh_project_def Let_def o_def intro!: replace_projects_ok split: option.splits prod.splits)

lemma thread_setters_ok:
  assumes "tables_ok db"
  shows "tables_ok (snd (update_thread_workspace now tid ws br db))" "tables_ok (snd (set_thread_title now tid title db))"
    "tables_ok (snd (set_thread_pinned now tid b db))" "tables_ok (snd (set_thread_archived now tid b db))"
    "tables_ok (snd (set_thread_read now tid b db))" "tables_ok (snd (configure_thread now tid m k db))"
  using assms by (simp_all add: update_thread_workspace_def set_thread_title_def set_thread_pinned_def set_thread_archived_def
      set_thread_read_def configure_thread_def Let_def thread_updates split: option.splits)

lemma thread_setters_attachments:
  "t_attachments (snd (update_thread_workspace now tid ws br db)) = t_attachments db"
  "t_attachments (snd (set_thread_title now tid title db)) = t_attachments db"
  "t_attachments (snd (set_thread_pinned now tid b db)) = t_attachments db"
  "t_attachments (snd (set_thread_archived now tid b db)) = t_attachments db"
  "t_attachments (snd (set_thread_read now tid b db)) = t_attachments db"
  "t_attachments (snd (configure_thread now tid m k db)) = t_attachments db"
  by (simp_all add: update_thread_workspace_def set_thread_title_def set_thread_pinned_def set_thread_archived_def
      set_thread_read_def configure_thread_def Let_def split: option.splits)

lemma update_input_ok: "tables_ok db \<Longrightarrow> tables_ok (snd (update_turn_input now core txt ats db))"
  by (auto simp: update_turn_input_def Let_def intro!: update_turn_ok)

lemma run_tables_ok:
  "store_ok digest dir s \<Longrightarrow> (\<And>db. f (st_db s) = Inr db \<Longrightarrow> tables_ok db \<and> t_attachments db = t_attachments (st_db s)) \<Longrightarrow>
     store_ok digest dir (run_tables f s)"
  by (auto simp: run_tables_def store_ok_def same_attachments_ok split: sum.splits)

lemma add_project_ok: "add_project now name path g pid db = Inr (p, db') \<Longrightarrow> tables_ok db \<Longrightarrow> tables_ok db'"
  by (auto simp: add_project_def Let_def elim!: bind_res_InrE intro: insert_project_ok)

lemma store_tables_ok: "store_ok digest dir s \<Longrightarrow> tables_ok (st_db s)"
  by (simp add: store_ok_def)

lemma run_tables_new:
  "store_ok digest dir s \<Longrightarrow>
     (\<And>x db. f (st_db s) = Inr (x, db) \<Longrightarrow> tables_ok (st_db s) \<Longrightarrow> tables_ok db \<and> t_attachments db = t_attachments (st_db s)) \<Longrightarrow>
     store_ok digest dir (run_tables (\<lambda>db. new_tables (f db)) s)"
  by (rule run_tables_ok) (auto simp: new_tables_def store_ok_def elim!: bind_res_InrE)

lemma run_tables_snd:
  "store_ok digest dir s \<Longrightarrow> (tables_ok (st_db s) \<Longrightarrow> tables_ok (g (st_db s))) \<Longrightarrow> t_attachments (g (st_db s)) = t_attachments (st_db s) \<Longrightarrow>
     store_ok digest dir (run_tables (\<lambda>db. Inr (g db)) s)"
  by (rule run_tables_ok) (auto simp: store_ok_def)

lemma run_tables_direct:
  "store_ok digest dir s \<Longrightarrow>
     (\<And>db. f (st_db s) = Inr db \<Longrightarrow> tables_ok (st_db s) \<Longrightarrow> tables_ok db \<and> t_attachments db = t_attachments (st_db s)) \<Longrightarrow>
     store_ok digest dir (run_tables f s)"
  by (rule run_tables_ok) (auto simp: store_ok_def)

lemma update_input_attachments: "t_attachments (snd (update_turn_input now core txt ats db)) = t_attachments db"
  by (simp add: update_turn_input_def Let_def)

lemma crashed_upload_ok: "store_ok digest dir s \<Longrightarrow> store_ok digest dir (snd (place_blob digest f dir data nonce s))"
proof -
  assume s: "store_ok digest dir s"
  obtain r s' where place: "place_blob digest f dir data nonce s = (r, s')"
    by fastforce
  from place_blob_ok [OF place] place_blob_sel [OF place] s show ?thesis
    by (simp add: place store_ok_def)
qed

lemma run_store_op_ok:
  assumes s: "store_ok digest dir s"
  shows "store_ok digest dir (run_store_op digest dir op s)"
proof (cases op)
  case (AddProject now name path g pid)
  show ?thesis
    unfolding AddProject run_store_op.simps by (rule run_tables_new [OF s]) (blast dest: add_project_ok create_attachments)
next
  case (CreateBoth now name path g pid tid title kind ws br m k)
  show ?thesis
    unfolding CreateBoth run_store_op.simps by (rule run_tables_new [OF s]) (blast dest: create_both_ok create_attachments)
next
  case (CreateThread now tid pid title kind ws br m k)
  show ?thesis
    unfolding CreateThread run_store_op.simps by (rule run_tables_new [OF s]) (blast dest: create_thread_ok create_attachments)
next
  case (Reorder now pid tids)
  show ?thesis
    unfolding Reorder run_store_op.simps by (rule run_tables_new [OF s]) (blast dest: reorder_ok create_attachments)
next
  case (CreateTurn now uid tid core tx ats st)
  show ?thesis
    unfolding CreateTurn run_store_op.simps by (rule run_tables_new [OF s]) (blast dest: create_turn_ok create_attachments)
next
  case (EnsureTurn now uid tid core st)
  show ?thesis
    unfolding EnsureTurn run_store_op.simps by (rule run_tables_new [OF s]) (blast dest: ensure_turn_ok ensure_attachments)
next
  case (RecordEvent now tid e)
  show ?thesis
    unfolding RecordEvent run_store_op.simps by (rule run_tables_direct [OF s]) (blast dest: record_event_ok create_attachments)
next
  case (ProjectEvent now tid e)
  show ?thesis
    unfolding ProjectEvent run_store_op.simps by (rule run_tables_direct [OF s]) (blast dest: project_event_ok project_attachments)
next
  case (RefreshProject probe pid)
  show ?thesis
    unfolding RefreshProject run_store_op.simps by (rule run_tables_snd [OF s]) (simp_all add: refresh_project_ok)
qed (simp_all add: s run_tables_snd thread_setters_ok thread_setters_attachments update_input_ok
    update_input_attachments remove_project_ok delete_thread_ok add_attachment_ok crashed_upload_ok delete_attachment_ok cleanup_ok)

lemma run_store_ok: "store_ok digest dir s \<Longrightarrow> store_ok digest dir (run_store digest dir ops s)"
  unfolding run_store_def by (induction ops arbitrary: s) (simp_all add: run_store_op_ok)

text \<open>C33. Whatever operations the store has run, failing and interrupted ones included, the keys of
  every table are unique, every thread belongs to a project and every turn and event to a thread, no
  thread is archived and pinned, every attachment row names a stored blob, and every blob has the name
  of its own digest. A clean-up leaves exactly the blobs some row names.\<close>

theorem store_integrity:
  assumes "\<And>x. CHR ''/'' \<notin> set (digest x)"
  shows "tables_ok (st_db (run_store digest dir ops empty_store)) \<and> blobs_ok digest dir (run_store digest dir ops empty_store) \<and>
    fst ` set (st_blobs (run_store digest dir (ops @ [Cleanup]) empty_store))
      = ar_path ` set (t_attachments (st_db (run_store digest dir ops empty_store)))"
proof -
  let ?s = "run_store digest dir ops empty_store"
  have ok: "store_ok digest dir ?s"
    by (rule run_store_ok) simp
  have "in_directory dir (blob_path dir (digest c)) \<and> ends_with (blob_path dir (digest c)) ''.blob''" for c
    using assms by (auto simp: in_directory_def blob_path_def starts_with_def ends_with_def)
  then have "in_directory dir p \<and> ends_with p ''.blob''" if "p \<in> blob_paths ?s" for p
    using that ok by (auto simp: store_ok_def blobs_ok_def blob_paths_def)
  then have "blob_paths (snd (cleanup_orphan_attachments dir ?s)) = blob_paths ?s \<inter> ar_path ` set (t_attachments (st_db ?s))"
    by (auto simp: cleanup_orphan_attachments_def Let_def blob_paths_def [of ?s])
  also have "\<dots> = ar_path ` set (t_attachments (st_db ?s))"
    using ok by (auto simp: store_ok_def blobs_ok_def)
  finally show ?thesis
    using ok by (simp add: run_store_def store_ok_def blob_paths_def)
qed

definition sample_ops :: "store_op list" where
  "sample_ops = [AddProject ''t0'' ''P'' ''/p'' True ''p'', CreateThread ''t1'' ''a'' ''p'' ''A'' ''standard'' ''/p'' None ''m'' ''off'',
     CreateThread ''t2'' ''b'' ''p'' ''B'' ''standard'' ''/p'' None ''m'' ''off'', Upload Smooth ''t3'' ''u1'' ''n1'' ''f'' None ''data'',
     Upload Smooth ''t3'' ''u2'' ''n2'' ''g'' None ''data'', Upload ModeFails ''t3'' ''u3'' ''n3'' ''h'' None ''other'',
     CreateTurn ''t4'' ''x'' ''a'' ''c'' ''hi'' [JObj [(''id'', JStr ''u1'')]] ''queued'', SetArchived ''t5'' ''b'' True, SetPinned ''t6'' ''b'' True,
     DeleteThread ''a'']"

definition length_digest :: "string \<Rightarrow> string" where
  "length_digest data = replicate (length data) (CHR ''0'')"

theorem store_integrity_witness:
  "map fst (st_blobs (run_store length_digest ''/a'' (sample_ops @ [Cleanup]) empty_store)) = [''/a/0000.blob''] \<and>
   length (st_blobs (run_store length_digest ''/a'' sample_ops empty_store)) = 2 \<and>
   ar_path ` set (t_attachments (st_db (run_store length_digest ''/a'' sample_ops empty_store))) = {''/a/0000.blob''} \<and>
   tables_ok (st_db (run_store length_digest ''/a'' sample_ops empty_store))"
proof -
  have "CHR ''/'' \<notin> set (length_digest x)" for x
    by (simp add: length_digest_def)
  note ok = store_integrity [of length_digest "''/a''" sample_ops, OF this]
  have "map fst (st_blobs (run_store length_digest ''/a'' (sample_ops @ [Cleanup]) empty_store)) = [''/a/0000.blob'']"
    "length (st_blobs (run_store length_digest ''/a'' sample_ops empty_store)) = 2"
    by code_simp+
  moreover from this(1) have "fst ` set (st_blobs (run_store length_digest ''/a'' (sample_ops @ [Cleanup]) empty_store)) = {''/a/0000.blob''}"
    by (metis list.set_map list.simps(15) list.set(1))
  ultimately show ?thesis
    using ok by simp
qed

text \<open>The temporary file of a failed upload stays: no operation removes one, and the clean-up looks for
  \<open>*.blob\<close> only.\<close>

lemma place_temps: "set (st_temps s) \<subseteq> set (st_temps (snd (place_blob digest f dir data nonce s)))"
  by (auto simp: place_blob_def Let_def)

lemma add_attachment_temps: "set (st_temps s) \<subseteq> set (st_temps (snd (add_attachment digest f now aid nonce name mime data dir s)))"
proof -
  obtain r s1 where place: "place_blob digest f dir data nonce s = (r, s1)"
    by fastforce
  then show ?thesis
    using place_temps [of s digest f dir data nonce] by (auto simp: add_attachment_def Let_def split: sum.splits)
qed

lemma temporary_file_stays: "p \<in> set (st_temps s) \<Longrightarrow> p \<in> set (st_temps (run_store digest dir ops s))"
proof (induction ops arbitrary: s)
  case (Cons op ops)
  have "set (st_temps s) \<subseteq> set (st_temps (run_store_op digest dir op s))"
    using place_temps [of s digest Smooth dir] add_attachment_temps [of s digest]
    by (cases op) (simp_all add: run_tables_def remove_project_def delete_thread_def delete_attachment_def
      cleanup_orphan_attachments_def Let_def split: sum.splits prod.splits option.splits)
  with Cons show ?case
    by (auto simp: run_store_def)
qed (simp add: run_store_def)

text \<open>A turn that completes after its thread was archived marks the archived thread unread, which
  \<open>set_thread_read\<close> refuses to do.\<close>

definition archived_ops :: "store_op list" where
  "archived_ops = [AddProject ''t0'' ''P'' ''/p'' True ''p'', CreateThread ''t1'' ''a'' ''p'' ''A'' ''standard'' ''/p'' None ''m'' ''off'',
     CreateTurn ''t2'' ''x'' ''a'' ''c'' ''hi'' [] ''queued'', SetArchived ''t3'' ''a'' True, SetRead ''t4'' ''a'' False,
     ProjectEvent ''t5'' ''a'' [(''name'', JStr ''operation.completed''), (''operation_id'', JStr ''c''), (''seq'', JInt 1)]]"

lemma archived_thread_becomes_unread:
  "map (\<lambda>t. (th_archived t, th_unread t)) (t_threads (st_db (run_store length_digest ''/a'' (take 5 archived_ops) empty_store)))
     = [(Some ''t3'', False)]"
  "map (\<lambda>t. (th_archived t, th_unread t)) (t_threads (st_db (run_store length_digest ''/a'' archived_ops empty_store)))
     = [(Some ''t3'', True)]"
  by code_simp+

end
