(* ===== verification/StoreOrder.thy ===== *)
theory StoreOrder
  imports StoreProps
begin

text \<open>
  The order in which the store lists threads: a reordering lists the threads it names in the order
  given, and a new thread comes first.
\<close>

lemma set_orders_threads:
  "distinct tids \<Longrightarrow> t_threads (set_orders now pid i tids db) =
     map (\<lambda>t. if th_id t \<in> set tids \<and> th_project t = pid
       then t\<lparr>th_order := of_nat (i + length (takeWhile (\<lambda>x. x \<noteq> th_id t) tids)), th_updated := now\<rparr> else t) (t_threads db)"
proof (induction tids arbitrary: i db)
  case (Cons a tids)
  then show ?case
    by (auto simp: update_threads_def o_def intro!: map_cong)
qed simp

lemma thread_key_inj: "distinct (map th_id ts) \<Longrightarrow> inj_on thread_key (set ts)"
  by (auto simp: inj_on_def thread_key_def distinct_map)

lemma filter_ids: "filter (\<lambda>i. i \<in> A) (map th_id ts) = map th_id (filter (\<lambda>t. th_id t \<in> A) ts)"
  by (simp add: filter_map o_def)

lemma position_take: "distinct xs \<Longrightarrow> k < length xs \<Longrightarrow> length (takeWhile (\<lambda>x. x \<noteq> xs ! k) xs) = k"
  by (induction xs arbitrary: k) (auto simp: nth_Cons split: nat.splits dest: nth_mem)

lemma keyed_list:
  assumes ts: "distinct (map th_id ts)" and tids: "distinct tids" "set tids \<subseteq> th_id ` set ts"
    and order: "\<And>t. t \<in> set ts \<Longrightarrow> th_id t \<in> set tids \<Longrightarrow> th_order t = of_nat (length (takeWhile (\<lambda>x. x \<noteq> th_id t) tids))"
  shows "map th_id (filter (\<lambda>t. th_id t \<in> set tids) (sort_key thread_key ts)) = tids"
proof -
  let ?row = "\<lambda>i. the (find (\<lambda>t. th_id t = i) ts)"
  let ?ys = "map ?row tids"
  let ?xs = "filter (\<lambda>t. th_id t \<in> set tids) ts"
  have row: "?row i \<in> set ts \<and> th_id (?row i) = i" if i: "i \<in> set tids" for i
  proof -
    obtain t where t: "t \<in> set ts" "i = th_id t"
      using i tids(2) by auto
    with find_unique [OF ts, of t] show ?thesis
      by simp
  qed
  have ids: "map th_id ?ys = tids"
    using row by (simp add: o_def map_idI)
  have sets: "set ?ys = set ?xs"
  proof (intro equalityI subsetI)
    fix t assume "t \<in> set ?ys"
    then show "t \<in> set ?xs"
      using row by auto
  next
    fix t assume t: "t \<in> set ?xs"
    then have "?row (th_id t) = t"
      using find_unique [OF ts, of t] by simp
    with t show "t \<in> set ?ys"
      by force
  qed
  have dys: "distinct ?ys"
    using tids(1) ids by (metis distinct_map)
  have dxs: "distinct ?xs"
    using ts by (simp add: distinct_map)
  have eq: "mset ?xs = mset ?ys"
    by (rule iffD1 [OF set_eq_iff_mset_eq_distinct [OF dxs dys] sets [symmetric]])
  have "sorted (map thread_key ?ys)"
  proof (unfold sorted_iff_nth_mono_less, intro allI impI)
    fix i j assume ij: "i < j" "j < length (map thread_key ?ys)"
    have "th_order (?ys ! k) = of_nat k" if k: "k < length tids" for k
      using row [of "tids ! k"] order [of "?row (tids ! k)"] position_take [OF tids(1) k] k by simp
    with ij show "map thread_key ?ys ! i \<le> map thread_key ?ys ! j"
      by (simp add: thread_key_def less_eq_prod_def)
  qed
  moreover have "inj_on thread_key (set ?xs)"
    using ts by (intro thread_key_inj) (rule distinct_map_filter)
  ultimately have "sort_key thread_key ?xs = ?ys"
    by (intro sort_key_inj_key_eq [OF eq])
  with ids show ?thesis
    by (simp add: filter_sort)
qed

lemma reorder_checks_ok:
  "reorder_checks pid db tids = None \<Longrightarrow> distinct (map th_id (t_threads db)) \<Longrightarrow> t \<in> set (t_threads db) \<Longrightarrow> th_id t \<in> set tids \<Longrightarrow>
     th_project t = pid \<and> th_archived t = None \<and> th_pinned t = None"
proof (induction tids)
  case (Cons a tids)
  show ?case
  proof (cases "th_id t = a")
    case True
    with Cons find_unique [of th_id "t_threads db" t] show ?thesis
      by (auto simp: get_thread_def reorder_check_def split: option.splits if_splits)
  qed (use Cons in \<open>auto split: option.splits\<close>)
qed simp

lemma filter_map_keep: "(\<And>x. P (f x) = P x) \<Longrightarrow> filter P (map f xs) = map f (filter P xs)"
  by (induction xs) auto

lemma reorder_lists:
  assumes ok: "tables_ok db" and res: "reorder_threads now pid tids db = Inr (rows, db')"
  shows "filter (\<lambda>i. i \<in> set tids) (map th_id rows) = tids" "rows = list_threads (Some pid) None db'"
    "filter (\<lambda>t. th_id t \<notin> set tids) (t_threads db') = filter (\<lambda>t. th_id t \<notin> set tids) (t_threads db)"
proof -
  have d: "distinct tids" "set tids \<subseteq> th_id ` set (t_threads db)" "reorder_checks pid db tids = None"
    and db': "db' = set_orders now pid 0 tids db" and rows: "rows = list_threads (Some pid) None db'"
    using res by (auto simp: reorder_threads_def Let_def split: if_splits option.splits)
  have ids: "distinct (map th_id (t_threads db))"
    using ok by (simp add: tables_ok_def)
  let ?f = "\<lambda>t. if th_id t \<in> set tids \<and> th_project t = pid
       then t\<lparr>th_order := of_nat (length (takeWhile (\<lambda>x. x \<noteq> th_id t) tids)), th_updated := now\<rparr> else t"
  have threads: "t_threads db' = map ?f (t_threads db)"
    using set_orders_threads [OF d(1), of now pid 0 db] db' by simp
  let ?ts = "filter (\<lambda>t. th_project t = pid) (t_threads db')"
  have keep: "th_id (?f t) = th_id t" "th_project (?f t) = th_project t" for t
    by simp_all
  have ts: "?ts = map ?f (filter (\<lambda>t. th_project t = pid) (t_threads db))"
    unfolding threads by (rule filter_map_keep) simp
  have same: "map th_id (map ?f xs) = map th_id xs" for xs
    by (induction xs) simp_all
  have "map th_id (filter (\<lambda>t. th_id t \<in> set tids) (sort_key thread_key ?ts)) = tids"
  proof (rule keyed_list)
    show "distinct (map th_id ?ts)"
      unfolding ts same using ids by (rule distinct_map_filter)
    show "set tids \<subseteq> th_id ` set ?ts"
    proof
      fix i assume i: "i \<in> set tids"
      then obtain t where t: "t \<in> set (t_threads db)" "i = th_id t"
        using d(2) by auto
      with i reorder_checks_ok [OF d(3) ids] have "?f t \<in> set ?ts"
        unfolding ts by auto
      then have "th_id (?f t) \<in> th_id ` set ?ts"
        by (rule imageI)
      then show "i \<in> th_id ` set ?ts"
        unfolding keep t(2) .
    qed
  qed (use d(1) in \<open>auto simp: ts\<close>)
  then show "filter (\<lambda>i. i \<in> set tids) (map th_id rows) = tids"
    unfolding rows list_threads_def filter_ids by simp
  show "rows = list_threads (Some pid) None db'"
    by (rule rows)
  show "filter (\<lambda>t. th_id t \<notin> set tids) (t_threads db') = filter (\<lambda>t. th_id t \<notin> set tids) (t_threads db)"
    unfolding threads by (subst filter_map_keep) (auto intro!: map_idI)
qed

lemma fold_min_le: "(fold min qs q :: rat) \<le> q \<and> (\<forall>x \<in> set qs. fold min qs q \<le> x)"
proof (induction qs arbitrary: q)
  case (Cons a qs)
  from Cons [of "min a q"] show ?case
    by auto
qed simp

lemma first_order_less: "t \<in> set (t_threads db) \<Longrightarrow> th_project t = pid \<Longrightarrow> first_order pid db < th_order t"
proof -
  assume t: "t \<in> set (t_threads db)" "th_project t = pid"
  obtain q qs where q: "map th_order (filter (\<lambda>t. th_project t = pid) (t_threads db)) = q # qs"
    using t by (cases "map th_order (filter (\<lambda>t. th_project t = pid) (t_threads db))") (auto simp: filter_empty_conv)
  have "th_order t \<in> set (map th_order (filter (\<lambda>t. th_project t = pid) (t_threads db)))"
    using t by auto
  then show ?thesis
    using fold_min_le [of qs q] unfolding q by (auto simp: first_order_def q)
qed

lemma new_thread_first:
  assumes ok: "tables_ok db" and new: "create_thread now tid pid title kind ws br m k db = Inr (t, db')"
  shows "list_threads (Some pid) None db' = t # list_threads (Some pid) None db"
proof -
  have t: "t = new_thread now tid pid title kind ws br m k (first_order pid db)" and ins: "insert_thread t db = Inr db'"
    using new by (auto simp: create_thread_def Let_def elim!: bind_res_InrE)
  let ?ts = "filter (\<lambda>t. th_project t = pid) (t_threads db)"
  have db': "t_threads db' = t_threads db @ [t]" "th_id t \<notin> th_id ` set (t_threads db)"
    using ins by (auto simp: insert_thread_def split: if_splits)
  have pid: "th_project t = pid" "th_order t = first_order pid db"
    by (simp_all add: t new_thread_def)
  have "sort_key thread_key (?ts @ [t]) = t # sort_key thread_key ?ts"
  proof (rule sort_key_inj_key_eq)
    show "inj_on thread_key (set (?ts @ [t]))"
      using ok db'(2) by (intro thread_key_inj) (auto simp: tables_ok_def distinct_map_filter)
    show "sorted (map thread_key (t # sort_key thread_key ?ts))"
      using pid first_order_less by (auto simp: thread_key_def less_eq_prod_def)
  qed simp
  then show ?thesis
    using pid(1) by (simp add: list_threads_def db'(1))
qed

text \<open>C34. In a store reached by any operations, a reordering that succeeds lists the threads it names in
  exactly the order given and leaves the rows of all others as they were; a thread that is created is
  listed before all others of its project, whose order stays.\<close>

theorem threads_listed_as_asked:
  assumes "s = run_store digest dir ops empty_store"
  shows "(case reorder_threads now pid tids (st_db s) of
      Inr (rows, db') \<Rightarrow> rows = list_threads (Some pid) None db' \<and> filter (\<lambda>i. i \<in> set tids) (map th_id rows) = tids \<and>
        filter (\<lambda>t. th_id t \<notin> set tids) (t_threads db') = filter (\<lambda>t. th_id t \<notin> set tids) (t_threads (st_db s))
    | Inl e \<Rightarrow> \<exists>msg. e = ValueError msg) \<and>
    (case create_thread now tid pid title kind ws br m k (st_db s) of
      Inr (t, db') \<Rightarrow> list_threads (Some pid) None db' = t # list_threads (Some pid) None (st_db s)
    | Inl e \<Rightarrow> is_exception e)"
proof -
  have ok: "tables_ok (st_db s)"
    unfolding assms by (rule store_tables_ok, rule run_store_ok, rule empty_store_ok)
  have "\<exists>msg. e = ValueError msg" if r: "reorder_checks pid db tids = Some e" for e db
    using r by (induction tids) (auto simp: reorder_check_def split: option.splits if_splits)
  then have "\<exists>msg. e = ValueError msg" if "reorder_threads now pid tids (st_db s) = Inl e" for e
    using that by (auto simp: reorder_threads_def Let_def split: if_splits option.splits)
  moreover have "is_exception e" if "create_thread now tid pid title kind ws br m k (st_db s) = Inl e" for e
    using that by (auto simp: create_thread_def Let_def bind_res_def insert_thread_def integrity_error_def split: sum.splits if_splits)
  ultimately show ?thesis
    using reorder_lists [OF ok] new_thread_first [OF ok] by (auto split: sum.splits)
qed

theorem threads_listed_as_asked_witness:
  "let s = run_store length_digest ''/a'' (take 3 sample_ops) empty_store in
   map th_id (list_threads (Some ''p'') None (st_db s)) = [''b'', ''a''] \<and>
   (\<exists>rows db'. reorder_threads ''t9'' ''p'' [''a'', ''b''] (st_db s) = Inr (rows, db') \<and> map th_id rows = [''a'', ''b''])"
proof -
  let ?s = "run_store length_digest ''/a'' (take 3 sample_ops) empty_store"
  have ids: "map th_id (list_threads (Some ''p'') None (st_db ?s)) = [''b'', ''a'']"
    by code_simp
  have all: "map_option (map th_id \<circ> fst) (case reorder_threads ''t9'' ''p'' [''a'', ''b''] (st_db ?s) of Inr r \<Rightarrow> Some r | Inl _ \<Rightarrow> None) = Some [''a'', ''b'']"
    by code_simp
  obtain rows db' where r: "reorder_threads ''t9'' ''p'' [''a'', ''b''] (st_db ?s) = Inr (rows, db')"
    using all by (auto split: sum.splits)
  have "set (map th_id rows) \<subseteq> {''a'', ''b''}"
    using all r by simp
  moreover have "filter (\<lambda>i. i \<in> set [''a'', ''b'']) (map th_id rows) = [''a'', ''b'']"
    using threads_listed_as_asked [where digest = length_digest and dir = "''/a''" and ops = "take 3 sample_ops" and now = "''t9''" and pid = "''p''" and tids = "[''a'', ''b'']", OF refl, THEN conjunct1] unfolding r sum.case prod.case by blast
  ultimately have "map th_id rows = [''a'', ''b'']"
    by (metis (no_types, lifting) filter_True list.set(1) list.set(2) subset_iff)
  with ids r show ?thesis
    by auto
qed

end
