(* ===== verification/Gateway.thy ===== *)
theory Gateway
  imports Store JsonText
begin

text \<open>
  The events of the gateway (\<open>RuntimeServer\<close> and \<open>RuntimeConnection\<close> of \<^verbatim>\<open>runtime_server.py\<close>): how an
  event of the runtime becomes a public one, how it is projected into the store, the bounded log,
  subscriptions with replay, and the event queue of each connection. The JSON schemas of the manifest
  (a library and a data file) are the parameter \<open>valid\<close>.
\<close>

section \<open>Public events\<close>

definition is_upper :: "char \<Rightarrow> bool" where
  "is_upper c = (let n = (of_char c :: nat) in 65 \<le> n \<and> n \<le> 90)"

definition lower_or_digit :: "char \<Rightarrow> bool" where
  "lower_or_digit c = (let n = (of_char c :: nat) in (97 \<le> n \<and> n \<le> 122) \<or> (48 \<le> n \<and> n \<le> 57))"

definition lower_letter :: "char \<Rightarrow> char" where
  "lower_letter c = char_of ((of_char c :: nat) + 32)"

text \<open>\<open>(?<=[a-z0-9])([A-Z])\<close> replaced by an underscore and the lower-case letter.\<close>

fun snake_from :: "bool \<Rightarrow> string \<Rightarrow> string" where
  "snake_from boundary [] = []"
| "snake_from boundary (c # cs) = (if boundary \<and> is_upper c then [CHR ''_'', lower_letter c] else [c]) @ snake_from (lower_or_digit c) cs"

definition snake_key :: "string \<Rightarrow> string" where
  "snake_key k = snake_from False k"

text \<open>A dictionary comprehension: a key that comes again overwrites the earlier value.\<close>

definition dict_of :: "(string \<times> json) list \<Rightarrow> (string, json) dict" where
  "dict_of kvs = fold (\<lambda>(k, v). AList.update k v) kvs []"

fun snake_case_value :: "json \<Rightarrow> json" where
  "snake_case_value (JList xs) = JList (map snake_case_value xs)"
| "snake_case_value (JObj d) = JObj (dict_of (map (\<lambda>kv. (snake_key (fst kv), snake_case_value (snd kv))) d))"
| "snake_case_value v = v"

type_synonym event = "(string, json) dict"

definition event_dict :: "string \<Rightarrow> string \<Rightarrow> json \<Rightarrow> json \<Rightarrow> json \<Rightarrow> json \<Rightarrow> event" where
  "event_dict time name workspace session_id operation_id payload' =
     [(''time'', JStr time), (''name'', JStr name), (''workspace'', workspace), (''session_id'', session_id),
      (''operation_id'', operation_id), (''payload'', payload')]"

definition public_name :: "json \<Rightarrow> json" where
  "public_name v = (if v = JStr ''session.compacted'' then JStr ''thread.compacted''
     else if v = JStr ''session.navigated'' then JStr ''thread.navigated''
     else if v = JStr ''session.renamed'' then JStr ''thread.renamed''
     else if v = JStr ''cloud.account.updated'' then JStr ''plugin.cloud.account_updated''
     else v)"

text \<open>\<open>d[new] = d.pop(old)\<close> when the old key is there.\<close>

definition rename_key :: "string \<Rightarrow> string \<Rightarrow> (string, json) dict \<Rightarrow> (string, json) dict" where
  "rename_key old new d = (case map_of d old of None \<Rightarrow> d | Some v \<Rightarrow> AList.update new v (AList.delete old d))"

definition rename_log_payload :: "event \<Rightarrow> event" where
  "rename_log_payload raw = (if jget raw ''name'' = JStr ''log.entry''
     then (case map_of raw ''payload'' of
         Some (JObj p) \<Rightarrow> AList.update ''payload''
           (JObj (rename_key ''core_commit'' ''runtime_commit'' (rename_key ''core_version'' ''runtime_version'' p))) raw
       | _ \<Rightarrow> raw)
     else raw)"

definition normalized_event :: "event \<Rightarrow> event" where
  "normalized_event raw =
     (let r = rename_key ''session_id'' ''thread_id'' (obj_of (snake_case_value (JObj raw)))
      in rename_log_payload (AList.update ''name'' (public_name (jget r ''name'')) r))"

definition public_event :: "nat \<Rightarrow> event \<Rightarrow> event" where
  "public_event seq raw = AList.update ''seq'' (JInt (int seq)) raw"

definition event_seq :: "event \<Rightarrow> nat" where
  "event_seq e = (case jget e ''seq'' of JInt i \<Rightarrow> nat i | _ \<Rightarrow> 0)"

definition event_thread :: "event \<Rightarrow> string option" where
  "event_thread e = (case jget e ''thread_id'' of JStr s \<Rightarrow> Some s | _ \<Rightarrow> None)"

section \<open>Projection into the store\<close>

text \<open>The store calls of one event, in their order; an error ends them and the event is not sent.\<close>

definition project_public :: "string \<Rightarrow> string \<Rightarrow> event \<Rightarrow> tables \<Rightarrow> exn + tables" where
  "project_public now uid e db =
     (case event_thread e of
        None \<Rightarrow> Inr db
      | Some tid \<Rightarrow>
          if get_thread tid db = None then Inr db
          else bind_res
            (case jget e ''operation_id'' of
               JStr core \<Rightarrow>
                 if core = [] then Inr db
                 else if jget e ''name'' = JStr ''turn.created''
                 then (case jget (obj_of (jget e ''payload'')) ''turn'' of
                     JObj turn \<Rightarrow> bind_res (ensure_turn now uid tid core (str_or (jget turn ''status'') ''queued'') db) (\<lambda>(_, db1).
                         Inr (case (jget turn ''user_text'', jget turn ''attachments'') of
                             (JStr user_text, JList ats) \<Rightarrow> snd (update_turn_input now core user_text (filter is_obj ats) db1)
                           | _ \<Rightarrow> db1))
                   | _ \<Rightarrow> bind_res (ensure_turn now uid tid core ''queued'' db) (\<lambda>(_, db1). Inr db1))
                 else bind_res (ensure_turn now uid tid core ''queued'' db) (\<lambda>(_, db1). Inr db1)
             | _ \<Rightarrow> Inr db)
            (\<lambda>db1. project_event now tid e db1))"

section \<open>The event log and the connections\<close>

definition frame_size :: "event \<Rightarrow> int" where
  "frame_size e = 4 + int (utf8_size (json_compact (JObj [(''method'', JStr ''event''), (''params'', JObj e)])))"

definition MAX_FRAME_BYTES :: int where "MAX_FRAME_BYTES = 40 * 1024 * 1024"

record connection =
  co_subscribed :: bool
  co_closed :: bool
  co_threads :: "string list"
  co_queue :: "event list"
  co_received :: "event list"

definition new_connection :: connection where
  "new_connection = \<lparr>co_subscribed = False, co_closed = False, co_threads = [], co_queue = [], co_received = []\<rparr>"

definition pending_bytes :: "connection \<Rightarrow> int" where
  "pending_bytes c = sum_list (map frame_size (co_queue c))"

record limits =
  lm_events :: nat
  lm_queue :: nat
  lm_bytes :: int

record gateway =
  gw_seq :: nat
  gw_log :: "event list"
  gw_next :: nat
  gw_conns :: "(nat, connection) dict"
  gw_emits :: "event list"
  gw_sends :: "(nat \<times> event) list"

definition new_gateway :: gateway where
  "new_gateway = \<lparr>gw_seq = 0, gw_log = [], gw_next = 0, gw_conns = [], gw_emits = [], gw_sends = []\<rparr>"

definition last_n :: "nat \<Rightarrow> 'a list \<Rightarrow> 'a list" where
  "last_n n xs = drop (length xs - n) xs"

definition update_conn :: "nat \<Rightarrow> (connection \<Rightarrow> connection) \<Rightarrow> gateway \<Rightarrow> gateway" where
  "update_conn i f g = g\<lparr>gw_conns := map (\<lambda>(k, c). (k, if k = i then f c else c)) (gw_conns g)\<rparr>"

text \<open>The start of \<open>_on_runtime_event\<close>: a number, and for a valid event a place in the log.\<close>

definition publish :: "limits \<Rightarrow> (json \<Rightarrow> json \<Rightarrow> bool) \<Rightarrow> event \<Rightarrow> gateway \<Rightarrow> gateway" where
  "publish lm valid raw g =
     (let seq = gw_seq g + 1; n = normalized_event raw; e = public_event seq n
      in if valid (jget n ''name'') (dict_get n ''payload'' (JObj []))
         then g\<lparr>gw_seq := seq, gw_log := last_n (lm_events lm) (gw_log g @ [e]), gw_emits := gw_emits g @ [e]\<rparr>
         else g\<lparr>gw_seq := seq\<rparr>)"

text \<open>The store calls of the \<open>k\<close>-th event in flight are over: a task is made for every connection, or,
  when one of them failed, none.\<close>

definition fan_out :: "nat \<Rightarrow> gateway \<Rightarrow> gateway" where
  "fan_out k g = (if k < length (gw_emits g)
     then g\<lparr>gw_emits := take k (gw_emits g) @ drop (k + 1) (gw_emits g),
            gw_sends := gw_sends g @ map (\<lambda>(i, _). (i, gw_emits g ! k)) (gw_conns g)\<rparr>
     else g)"

definition store_failed :: "nat \<Rightarrow> gateway \<Rightarrow> gateway" where
  "store_failed k g = g\<lparr>gw_emits := take k (gw_emits g) @ drop (k + 1) (gw_emits g)\<rparr>"

definition matches :: "string list \<Rightarrow> event \<Rightarrow> bool" where
  "matches threads e \<longleftrightarrow> threads = [] \<or> jget e ''thread_id'' = JNull \<or> jget e ''thread_id'' \<in> JStr ` set threads"

definition close_connection :: "connection \<Rightarrow> connection" where
  "close_connection c = c\<lparr>co_closed := True, co_queue := []\<rparr>"

definition send_event :: "limits \<Rightarrow> event \<Rightarrow> connection \<Rightarrow> connection" where
  "send_event lm e c =
     (if \<not> co_subscribed c \<or> co_closed c then c
      else if \<not> matches (co_threads c) e then c
      else if frame_size e > MAX_FRAME_BYTES + 4 then close_connection c
      else if length (co_queue c) \<ge> lm_queue lm \<or> pending_bytes c + frame_size e > lm_bytes lm then close_connection c
      else c\<lparr>co_queue := co_queue c @ [e]\<rparr>)"

definition run_send :: "limits \<Rightarrow> nat \<Rightarrow> gateway \<Rightarrow> gateway" where
  "run_send lm k g = (if k < length (gw_sends g)
     then update_conn (fst (gw_sends g ! k)) (send_event lm (snd (gw_sends g ! k)))
       (g\<lparr>gw_sends := take k (gw_sends g) @ drop (k + 1) (gw_sends g)\<rparr>)
     else g)"

definition write_frame :: "connection \<Rightarrow> connection" where
  "write_frame c = (case co_queue c of [] \<Rightarrow> c | e # es \<Rightarrow> c\<lparr>co_queue := es, co_received := co_received c @ [e]\<rparr>)"

definition first_seq :: "gateway \<Rightarrow> nat" where
  "first_seq g = (case gw_log g of [] \<Rightarrow> gw_seq g + 1 | e # _ \<Rightarrow> event_seq e)"

text \<open>\<open>_subscribe\<close>: \<open>same_instance\<close> says that the client named no instance or this one.\<close>

definition replay_complete :: "bool \<Rightarrow> int \<Rightarrow> gateway \<Rightarrow> bool" where
  "replay_complete same_instance after g \<longleftrightarrow> same_instance \<and> after \<ge> int (first_seq g) - 1"

definition replay :: "bool \<Rightarrow> int \<Rightarrow> string list \<Rightarrow> gateway \<Rightarrow> event list" where
  "replay same_instance after threads g = (if replay_complete same_instance after g
     then filter (\<lambda>e. int (event_seq e) > after \<and> matches threads e) (gw_log g) else [])"

text \<open>The answer leaves before every queued event: responses have priority.\<close>

definition subscribe_conn :: "bool \<Rightarrow> int \<Rightarrow> string list \<Rightarrow> nat \<Rightarrow> gateway \<Rightarrow> gateway" where
  "subscribe_conn same_instance after threads i g =
     update_conn i (\<lambda>c. if co_closed c then c
       else c\<lparr>co_subscribed := True, co_threads := threads, co_received := co_received c @ replay same_instance after threads g\<rparr>) g"

datatype gw_step =
    Publish event
  | FanOut nat
  | StoreFailed nat
  | RunSend nat
  | Write nat
  | Subscribe bool int "string list" nat
  | Accept
  | CloseConn nat
  | Discard nat

fun gateway_step :: "limits \<Rightarrow> (json \<Rightarrow> json \<Rightarrow> bool) \<Rightarrow> gw_step \<Rightarrow> gateway \<Rightarrow> gateway" where
  "gateway_step lm valid (Publish raw) g = publish lm valid raw g"
| "gateway_step lm valid (FanOut k) g = fan_out k g"
| "gateway_step lm valid (StoreFailed k) g = store_failed k g"
| "gateway_step lm valid (RunSend k) g = run_send lm k g"
| "gateway_step lm valid (Write i) g = update_conn i write_frame g"
| "gateway_step lm valid (Subscribe same after threads i) g = subscribe_conn same after threads i g"
| "gateway_step lm valid Accept g = g\<lparr>gw_next := gw_next g + 1, gw_conns := gw_conns g @ [(gw_next g, new_connection)]\<rparr>"
| "gateway_step lm valid (CloseConn i) g = update_conn i close_connection g"
| "gateway_step lm valid (Discard i) g = g\<lparr>gw_conns := filter (\<lambda>(k, _). k \<noteq> i) (gw_conns g)\<rparr>"

definition gateway_run :: "limits \<Rightarrow> (json \<Rightarrow> json \<Rightarrow> bool) \<Rightarrow> gw_step list \<Rightarrow> gateway \<Rightarrow> gateway" where
  "gateway_run lm valid steps g = fold (gateway_step lm valid) steps g"

end
