(* ===== verification/GatewayProps.thy ===== *)
theory GatewayProps
  imports Gateway
begin

text \<open>
  What a subscriber gets: every event after its cursor, as long as its connection is open and no store
  call failed; and the bounds of the log and of the event queues.
\<close>

section \<open>The log\<close>

text \<open>The events put into the log by a run, whether still in it or not, and those whose store calls failed.\<close>

fun published :: "limits \<Rightarrow> (json \<Rightarrow> json \<Rightarrow> bool) \<Rightarrow> gw_step list \<Rightarrow> gateway \<Rightarrow> event list" where
  "published lm valid [] g = []"
| "published lm valid (st # sts) g =
     drop (length (gw_emits g)) (case st of Publish raw \<Rightarrow> gw_emits (publish lm valid raw g) | _ \<Rightarrow> [])
       @ published lm valid sts (gateway_step lm valid st g)"

fun dropped :: "limits \<Rightarrow> (json \<Rightarrow> json \<Rightarrow> bool) \<Rightarrow> gw_step list \<Rightarrow> gateway \<Rightarrow> event list" where
  "dropped lm valid [] g = []"
| "dropped lm valid (st # sts) g =
     (case st of StoreFailed k \<Rightarrow> take 1 (drop k (gw_emits g)) | _ \<Rightarrow> []) @ dropped lm valid sts (gateway_step lm valid st g)"

lemma published_append:
  "published lm valid (xs @ ys) g = published lm valid xs g @ published lm valid ys (gateway_run lm valid xs g)"
  by (induction xs arbitrary: g) (simp_all add: gateway_run_def)

lemma gateway_run_simps [simp]:
  "gateway_run lm valid [] g = g"
  "gateway_run lm valid (st # sts) g = gateway_run lm valid sts (gateway_step lm valid st g)"
  "gateway_run lm valid (xs @ ys) g = gateway_run lm valid ys (gateway_run lm valid xs g)"
  by (simp_all add: gateway_run_def)

lemma event_seq_public [simp]: "event_seq (public_event n raw) = n"
  by (simp add: event_seq_def public_event_def jget_def dict_get_def)

lemma last_n_append1: "last_n n (last_n n xs @ [y]) = last_n n (xs @ [y])"
proof (cases n)
  case (Suc m)
  have "length xs - (length xs - Suc m + m) + (length xs - Suc m) = length xs - m"
    by arith
  with Suc show ?thesis
    by (simp add: last_n_def)
qed (simp add: last_n_def)

lemma set_last_n: "set (last_n n xs) \<subseteq> set xs"
  by (auto simp: last_n_def dest: in_set_dropD)

lemma length_last_n: "length (last_n n xs) \<le> n"
  by (simp add: last_n_def)

text \<open>The log is the end of all published events, which are numbered in increasing order.\<close>

definition log_ok :: "limits \<Rightarrow> event list \<Rightarrow> gateway \<Rightarrow> bool" where
  "log_ok lm h g \<longleftrightarrow> gw_log g = last_n (lm_events lm) h \<and> sorted_wrt (<) (map event_seq h) \<and> (\<forall>e \<in> set h. event_seq e \<le> gw_seq g)"

lemma update_conn_sel [simp]:
  "gw_seq (update_conn i f g) = gw_seq g" "gw_log (update_conn i f g) = gw_log g" "gw_next (update_conn i f g) = gw_next g"
  "gw_emits (update_conn i f g) = gw_emits g" "gw_sends (update_conn i f g) = gw_sends g"
  by (simp_all add: update_conn_def)

lemma step_log:
  "(\<forall>raw. st \<noteq> Publish raw) \<Longrightarrow> gw_log (gateway_step lm valid st g) = gw_log g \<and> gw_seq (gateway_step lm valid st g) = gw_seq g"
  by (cases st) (auto simp: fan_out_def store_failed_def run_send_def subscribe_conn_def)

lemma log_ok_step:
  assumes "log_ok lm h g"
  shows "log_ok lm (h @ published lm valid [st] g) (gateway_step lm valid st g)"
proof (cases "\<exists>raw. st = Publish raw")
  case True
  then obtain raw where st: "st = Publish raw"
    by blast
  show ?thesis
    using assms by (auto simp: st log_ok_def publish_def Let_def last_n_append1 sorted_wrt_append less_Suc_eq_le)
next
  case False
  then have "published lm valid [st] g = []"
    by (cases st) auto
  then show ?thesis
    using False step_log [of st lm valid g] assms by (simp add: log_ok_def)
qed

lemma log_ok_run: "log_ok lm h g \<Longrightarrow> log_ok lm (h @ published lm valid sts g) (gateway_run lm valid sts g)"
proof (induction sts arbitrary: h g)
  case (Cons st sts)
  from Cons.IH [OF log_ok_step [OF Cons.prems, where valid = valid and st = st]] show ?case
    by simp
qed simp

lemma sorted_drop_in:
  assumes "sorted_wrt (<) (map event_seq h)" "e \<in> set h" "drop k h = x # r" "event_seq x \<le> event_seq e"
  shows "e \<in> set (drop k h)"
proof -
  define p where "p = take k h"
  have h: "h = p @ x # r"
    using assms(3) unfolding p_def by (metis append_take_drop_id)
  have "event_seq y < event_seq x" if "y \<in> set p" for y
    using assms(1) that unfolding h by (auto simp: sorted_wrt_append)
  from this [of e] have "e \<notin> set p"
    using assms(4) by auto
  then show ?thesis
    using assms(2,3) unfolding h by simp
qed

text \<open>When the replay is complete, the log still holds every event after the cursor.\<close>

lemma complete_replay:
  assumes log: "log_ok lm h g" and complete: "replay_complete same after g"
    and e: "e \<in> set h" "int (event_seq e) > after" "matches threads e"
  shows "e \<in> set (replay same after threads g)"
proof -
  let ?n = "length h - lm_events lm"
  have "e \<in> set (gw_log g)"
  proof (cases "gw_log g")
    case Nil
    then have "event_seq e > gw_seq g"
      using complete e(2) by (simp add: replay_complete_def first_seq_def)
    then show ?thesis
      using log e(1) by (auto simp: log_ok_def)
  next
    case (Cons x r)
    then have "event_seq x \<le> event_seq e"
      using complete e(2) by (simp add: replay_complete_def first_seq_def)
    then show ?thesis
      using log e(1) Cons sorted_drop_in [of h e ?n x r] by (simp add: log_ok_def last_n_def)
  qed
  then show ?thesis
    using complete e by (simp add: replay_def)
qed

section \<open>Delivery\<close>

lemma map_of_update_conn: "map_of (gw_conns (update_conn i f g)) j = map_option (\<lambda>c. if j = i then f c else c) (map_of (gw_conns g) j)"
  unfolding update_conn_def by (simp add: map_of_map_pairs [where f = "\<lambda>k c. if k = i then f c else c", simplified])

lemma map_of_filter_neq: "map_of (filter (\<lambda>(k, _). k \<noteq> j) xs) i = (if i = j then None else map_of xs i)"
  by (induction xs) auto

definition waits :: "gateway \<Rightarrow> nat \<Rightarrow> connection \<Rightarrow> event set" where
  "waits g i c = set (co_received c) \<union> set (co_queue c) \<union> {e. (i, e) \<in> set (gw_sends g)} \<union> set (gw_emits g)"

text \<open>Connection \<open>i\<close>, open since it subscribed, has or will have every event of \<open>h\<close> that concerns it.\<close>

definition served :: "nat \<Rightarrow> int \<Rightarrow> string list \<Rightarrow> event set \<Rightarrow> gateway \<Rightarrow> bool" where
  "served i after threads h g \<longleftrightarrow> i < gw_next g \<and> (\<forall>c. map_of (gw_conns g) i = Some c \<longrightarrow> \<not> co_closed c \<longrightarrow>
     co_subscribed c \<and> co_threads c = threads \<and> {e \<in> h. int (event_seq e) > after \<and> matches threads e} \<subseteq> waits g i c)"

definition resubscribes :: "nat \<Rightarrow> gw_step \<Rightarrow> bool" where
  "resubscribes i st \<longleftrightarrow> (case st of Subscribe _ _ _ j \<Rightarrow> j = i | _ \<Rightarrow> False)"

lemma set_remove_nth: "k < length xs \<Longrightarrow> set xs = insert (xs ! k) (set (take k xs @ drop (k + 1) xs))"
  by (metis Suc_eq_plus1 id_take_nth_drop list.simps(15) set_append Un_insert_right)

lemma send_event_open:
  "\<not> co_closed (send_event lm e c) \<Longrightarrow> \<not> co_closed c \<and> co_subscribed (send_event lm e c) = co_subscribed c
     \<and> co_threads (send_event lm e c) = co_threads c \<and> co_received (send_event lm e c) = co_received c
     \<and> set (co_queue c) \<subseteq> set (co_queue (send_event lm e c))
     \<and> (co_subscribed c \<and> matches (co_threads c) e \<longrightarrow> e \<in> set (co_queue (send_event lm e c)))"
  by (auto simp: send_event_def close_connection_def split: if_splits)

lemma write_frame_sel [simp]:
  "co_closed (write_frame c) = co_closed c" "co_subscribed (write_frame c) = co_subscribed c" "co_threads (write_frame c) = co_threads c"
  "set (co_received (write_frame c)) \<union> set (co_queue (write_frame c)) = set (co_received c) \<union> set (co_queue c)"
  by (auto simp: write_frame_def split: list.splits)

lemma served_step:
  assumes "served i after threads h g" "\<not> resubscribes i st"
  shows "served i after threads (h \<union> set (published lm valid [st] g) - set (dropped lm valid [st] g)) (gateway_step lm valid st g)"
proof (cases st)
  case (Publish raw)
  then show ?thesis
    using assms(1) by (auto simp: served_def waits_def publish_def Let_def)
next
  case (FanOut k)
  show ?thesis
  proof (cases "k < length (gw_emits g)")
    case True
    have "(i, gw_emits g ! k) \<in> set (gw_sends (fan_out k g))" if "map_of (gw_conns g) i = Some c" for c
      using map_of_SomeD [OF that] True by (auto simp: fan_out_def image_iff)
    moreover have "set (gw_emits g) = insert (gw_emits g ! k) (set (gw_emits (fan_out k g)))"
      using set_remove_nth [OF True] True by (simp add: fan_out_def)
    moreover have "set (gw_sends g) \<subseteq> set (gw_sends (fan_out k g))" "gw_conns (fan_out k g) = gw_conns g" "gw_next (fan_out k g) = gw_next g"
      by (auto simp: fan_out_def)
    ultimately show ?thesis
      using assms(1) FanOut unfolding served_def waits_def by (simp add: FanOut) blast
  qed (use assms(1) FanOut in \<open>simp add: fan_out_def\<close>)
next
  case (StoreFailed k)
  have "set (gw_emits g) \<subseteq> set (take 1 (drop k (gw_emits g))) \<union> set (gw_emits (store_failed k g))"
  proof (cases "k < length (gw_emits g)")
    case True
    then show ?thesis
      using set_remove_nth [OF True] by (simp add: store_failed_def take_Suc_conv_app_nth hd_drop_conv_nth take_Suc)
  qed (simp add: store_failed_def)
  then show ?thesis
    using assms(1) unfolding served_def waits_def StoreFailed by (simp add: store_failed_def) blast
next
  case (RunSend k)
  show ?thesis
  proof (cases "k < length (gw_sends g)")
    case True
    obtain j e where je: "gw_sends g ! k = (j, e)"
      by fastforce
    have sends: "set (gw_sends g) = insert (j, e) (set (gw_sends (run_send lm k g)))"
      using set_remove_nth [OF True] True je by (simp add: run_send_def)
    have sel: "gw_emits (run_send lm k g) = gw_emits g" "gw_next (run_send lm k g) = gw_next g"
      by (simp_all add: run_send_def)
    have conns: "map_of (gw_conns (run_send lm k g)) i = map_option (\<lambda>c. if i = j then send_event lm e c else c) (map_of (gw_conns g) i)"
      using True je by (simp add: run_send_def map_of_update_conn)
    have "served i after threads h (run_send lm k g)"
      unfolding served_def sel
    proof (intro conjI allI impI)
      show "i < gw_next g"
        using assms(1) by (simp add: served_def)
    next
      fix c' assume c': "map_of (gw_conns (run_send lm k g)) i = Some c'" "\<not> co_closed c'"
      then obtain c where c: "map_of (gw_conns g) i = Some c" "c' = (if i = j then send_event lm e c else c)"
        using conns by auto
      have old: "\<not> co_closed c"
        using c c' send_event_open by (auto split: if_splits)
      with assms(1) c(1) have srv: "co_subscribed c" "co_threads c = threads" "{e \<in> h. int (event_seq e) > after \<and> matches threads e} \<subseteq> waits g i c"
        by (auto simp: served_def)
      have mid: "co_subscribed c'" "co_threads c' = threads" "set (co_received c) \<union> set (co_queue c) \<subseteq> set (co_received c') \<union> set (co_queue c')"
          "i = j \<Longrightarrow> matches threads e \<Longrightarrow> e \<in> set (co_queue c')"
        using send_event_open [of lm e c] c' c srv by (auto split: if_splits)
      show "co_subscribed c'" "co_threads c' = threads"
        by (rule mid)+
      show "{e \<in> h. int (event_seq e) > after \<and> matches threads e} \<subseteq> waits (run_send lm k g) i c'"
      proof
        fix x assume x: "x \<in> {e \<in> h. int (event_seq e) > after \<and> matches threads e}"
        then have "x \<in> waits g i c" "matches threads x"
          using srv(3) by auto
        with sends mid(3,4) show "x \<in> waits (run_send lm k g) i c'"
          unfolding waits_def sel by auto
      qed
    qed
    then show ?thesis
      by (simp add: RunSend)
  qed (use assms(1) RunSend in \<open>simp add: run_send_def\<close>)
next
  case (Write j)
  have "served i after threads h (update_conn j write_frame g)"
    unfolding served_def update_conn_sel
  proof (intro conjI allI impI)
    show "i < gw_next g"
      using assms(1) by (simp add: served_def)
  next
    fix c' assume c': "map_of (gw_conns (update_conn j write_frame g)) i = Some c'" "\<not> co_closed c'"
    then obtain c where c: "map_of (gw_conns g) i = Some c" "c' = (if i = j then write_frame c else c)"
      by (auto simp: map_of_update_conn)
    have same: "waits (update_conn j write_frame g) i c' = waits g i c"
      unfolding waits_def c(2) update_conn_sel by (simp add: write_frame_sel(4))
    have "\<not> co_closed c"
      using c c' by (auto split: if_splits)
    with assms(1) c show "co_subscribed c'" "co_threads c' = threads"
      "{e \<in> h. int (event_seq e) > after \<and> matches threads e} \<subseteq> waits (update_conn j write_frame g) i c'"
      unfolding same served_def by auto
  qed
  then show ?thesis
    by (simp add: Write)
next
  case (Subscribe same a ts j)
  then have "j \<noteq> i"
    using assms(2) by (simp add: resubscribes_def)
  then have "served i after threads h (subscribe_conn same a ts j g)"
    using assms(1) by (simp add: served_def waits_def subscribe_conn_def map_of_update_conn option.map_ident)
  then show ?thesis
    by (simp add: Subscribe)
next
  case Accept
  then show ?thesis
    using assms(1) by (auto simp: served_def waits_def map_add_def split: option.splits)
next
  case (CloseConn j)
  then show ?thesis
    using assms(1) by (auto simp: served_def waits_def map_of_update_conn close_connection_def split: if_splits)
next
  case (Discard j)
  then show ?thesis
    using assms(1) by (auto simp: served_def waits_def map_of_filter_neq split: if_splits)
qed

lemma served_mono: "served i after threads h g \<Longrightarrow> h' \<subseteq> h \<Longrightarrow> served i after threads h' g"
  unfolding served_def by blast

lemma served_run:
  assumes "served i after threads h g" "\<forall>st \<in> set sts. \<not> resubscribes i st"
  shows "served i after threads (h \<union> set (published lm valid sts g) - set (dropped lm valid sts g)) (gateway_run lm valid sts g)"
  using assms
proof (induction sts arbitrary: h g)
  case (Cons st sts)
  let ?g = "gateway_step lm valid st g"
  let ?h = "h \<union> set (published lm valid [st] g) - set (dropped lm valid [st] g)"
  have "served i after threads (?h \<union> set (published lm valid sts ?g) - set (dropped lm valid sts ?g)) (gateway_run lm valid sts ?g)"
    using Cons.prems by (intro Cons.IH served_step) auto
  then show ?case
    unfolding gateway_run_simps by (rule served_mono) auto
qed (simp add: served_mono)

definition conns_below :: "gateway \<Rightarrow> bool" where
  "conns_below g \<longleftrightarrow> (\<forall>k \<in> fst ` set (gw_conns g). k < gw_next g)"

lemma update_conn_keys [simp]: "fst ` set (gw_conns (update_conn i f g)) = fst ` set (gw_conns g)"
  by (force simp: update_conn_def)

lemma conns_below_step: "conns_below g \<Longrightarrow> conns_below (gateway_step lm valid st g)"
proof (cases st)
  case (RunSend k)
  then show "conns_below g \<Longrightarrow> ?thesis"
    unfolding conns_below_def by (simp add: run_send_def) (simp add: update_conn_def image_iff split: prod.splits, fastforce)
next
  case (Discard i)
  then show "conns_below g \<Longrightarrow> ?thesis"
    by (auto simp: conns_below_def)
qed (auto simp: conns_below_def publish_def fan_out_def store_failed_def subscribe_conn_def Let_def simp del: image_Collect)

lemma conns_below_run: "conns_below g \<Longrightarrow> conns_below (gateway_run lm valid sts g)"
  by (induction sts arbitrary: g) (simp_all add: conns_below_step)

lemma served_subscribed:
  assumes "log_ok lm h g" "conns_below g" "replay_complete same after g" "map_of (gw_conns g) i = Some c"
  shows "served i after threads (set h) (subscribe_conn same after threads i g)"
proof -
  have "i < gw_next g"
    using assms(2) map_of_SomeD [OF assms(4)] by (force simp: conns_below_def)
  moreover have "{e \<in> set h. int (event_seq e) > after \<and> matches threads e} \<subseteq> set (replay same after threads g)"
    using complete_replay [OF assms(1,3)] by auto
  moreover have "c' = c\<lparr>co_subscribed := True, co_threads := threads, co_received := co_received c @ replay same after threads g\<rparr>"
    if "map_of (gw_conns (subscribe_conn same after threads i g)) i = Some c'" "\<not> co_closed c'" for c'
    using that assms(4) by (cases "co_closed c") (simp_all add: subscribe_conn_def map_of_update_conn)
  ultimately show ?thesis
    unfolding served_def waits_def by (auto simp: subscribe_conn_def)
qed

text \<open>C35. A client subscribes with a cursor and is told that the replay is complete. As long as its
  connection stays open and it does not subscribe anew, every event published before or after, with a
  number above the cursor and of a thread it asked for, has been received, is in its queue, or is still
  on its way (in the store calls or in a task), unless a store call of the event failed.\<close>

theorem no_event_lost:
  assumes "replay_complete same after (gateway_run lm valid pre new_gateway)"
    and "map_of (gw_conns (gateway_run lm valid pre new_gateway)) i \<noteq> None"
    and "steps = pre @ Subscribe same after threads i # post" and "\<forall>st \<in> set post. \<not> resubscribes i st"
    and "g = gateway_run lm valid steps new_gateway" and "map_of (gw_conns g) i = Some c" and "\<not> co_closed c"
    and "e \<in> set (published lm valid steps new_gateway)" and "e \<notin> set (dropped lm valid steps new_gateway)"
    and "int (event_seq e) > after" and "matches threads e"
  shows "e \<in> set (co_received c) \<or> e \<in> set (co_queue c) \<or> (i, e) \<in> set (gw_sends g) \<or> e \<in> set (gw_emits g)"
proof -
  let ?g0 = "gateway_run lm valid pre new_gateway"
  let ?h = "set (published lm valid pre new_gateway)"
  let ?g1 = "subscribe_conn same after threads i ?g0"
  obtain c0 where c0: "map_of (gw_conns ?g0) i = Some c0"
    using assms(2) by auto
  have dropped_append: "dropped lm valid (xs @ ys) g = dropped lm valid xs g @ dropped lm valid ys (gateway_run lm valid xs g)" for xs ys g
    by (induction xs arbitrary: g) (simp_all add: gateway_run_def)
  have "log_ok lm (published lm valid pre new_gateway) ?g0"
    using log_ok_run [of lm "[]" new_gateway valid pre] by (simp add: log_ok_def new_gateway_def last_n_def)
  moreover have "conns_below ?g0"
    by (rule conns_below_run) (simp add: conns_below_def new_gateway_def)
  ultimately have "served i after threads ?h ?g1"
    using assms(1) c0 by (rule served_subscribed)
  from served_run [OF this assms(4), of lm valid]
  have "served i after threads (?h \<union> set (published lm valid post ?g1) - set (dropped lm valid post ?g1)) g"
    by (simp add: assms(3,5))
  moreover have "e \<in> ?h \<union> set (published lm valid post ?g1) - set (dropped lm valid post ?g1)"
    using assms(8,9) by (simp add: assms(3) published_append dropped_append)
  ultimately show ?thesis
    using assms(6,7,10,11) unfolding served_def waits_def by blast
qed

definition wide :: limits where
  "wide = \<lparr>lm_events = 10, lm_queue = 4, lm_bytes = 10000\<rparr>"

definition thread_event :: event where
  "thread_event = event_dict ''t'' ''operation.started'' JNull (JStr ''a'') (JStr ''o'') (JObj [])"

definition system_event :: event where
  "system_event = event_dict ''t'' ''settings.updated'' JNull JNull JNull (JObj [])"

definition sample_pre :: "gw_step list" where
  "sample_pre = [Accept, Publish thread_event, FanOut 0, RunSend 0]"

definition sample_post :: "gw_step list" where
  "sample_post = [Publish system_event, FanOut 0, RunSend 0, Write 0]"

theorem no_event_lost_witness:
  "let g = gateway_run wide (\<lambda>_ _. True) (sample_pre @ Subscribe True 0 [''a''] 0 # sample_post) new_gateway in
   \<exists>c. map_of (gw_conns g) 0 = Some c \<and> map event_seq (co_received c) = [1, 2] \<and>
     (\<forall>e \<in> set (published wide (\<lambda>_ _. True) (sample_pre @ Subscribe True 0 [''a''] 0 # sample_post) new_gateway). e \<in> set (co_received c))"
proof -
  let ?steps = "sample_pre @ Subscribe True 0 [''a''] 0 # sample_post"
  let ?g = "gateway_run wide (\<lambda>_ _. True) ?steps new_gateway"
  have "let v = (\<lambda>_ _. True); g0 = gateway_run wide v sample_pre new_gateway;
      g = gateway_run wide v (Subscribe True 0 [''a''] 0 # sample_post) g0; es = gw_log g in
    (replay_complete True 0 g0, map_option co_closed (map_of (gw_conns g0) 0),
     map_option (\<lambda>c. (co_closed c, co_queue c, map event_seq (co_received c))) (map_of (gw_conns g) 0), gw_sends g, gw_emits g,
     list_all (\<lambda>e. int (event_seq e) > 0 \<and> matches [''a''] e) (published wide v ?steps new_gateway))
    = (True, Some False, Some (False, [], [1, 2]), [], [], True)"
    by code_simp
  then have pre: "replay_complete True 0 (gateway_run wide (\<lambda>_ _. True) sample_pre new_gateway)"
    "map_option co_closed (map_of (gw_conns (gateway_run wide (\<lambda>_ _. True) sample_pre new_gateway)) 0) = Some False"
    and final: "map_option (\<lambda>c. (co_closed c, co_queue c, map event_seq (co_received c))) (map_of (gw_conns ?g) 0) = Some (False, [], [1, 2])"
    "gw_sends ?g = []" "gw_emits ?g = []"
    "\<forall>e \<in> set (published wide (\<lambda>_ _. True) ?steps new_gateway). int (event_seq e) > 0 \<and> matches [''a''] e"
    by (simp_all only: Let_def prod.inject gateway_run_simps list_all_iff simp_thms) blast
  have once: "\<forall>st \<in> set sample_post. \<not> resubscribes 0 st" "dropped wide (\<lambda>_ _. True) ?steps new_gateway = []"
    by (simp_all add: sample_pre_def sample_post_def resubscribes_def)
  obtain c where c: "map_of (gw_conns ?g) 0 = Some c" "\<not> co_closed c" "co_queue c = []" "map event_seq (co_received c) = [1, 2]"
    using final(1) by auto
  have "e \<in> set (co_received c)" if e: "e \<in> set (published wide (\<lambda>_ _. True) ?steps new_gateway)" for e
    using no_event_lost [OF pre(1) _ refl once(1) refl c(1,2) e] pre(2) final once(2) c(3) e by auto
  with c show ?thesis
    by (auto simp: Let_def)
qed

text \<open>A system event passes a thread event that waits for the store: a client that saw the later number
  reconnects with it and is told the replay is complete, but it never gets the earlier event.\<close>

definition overtaking :: "gw_step list" where
  "overtaking = [Accept, Subscribe True 0 [] 0, Publish thread_event, Publish system_event, FanOut 1, RunSend 0, Write 0,
     FanOut 0, RunSend 0, CloseConn 0, Discard 0, Accept, Subscribe True 2 [] 1]"

lemma overtaken_event_missed:
  "let v = (\<lambda>_ _. True); g9 = gateway_run wide v (take 9 overtaking) new_gateway;
       g12 = gateway_run wide v (take 3 (drop 9 overtaking)) g9; g = gateway_run wide v (drop 12 overtaking) g12 in
   (map_option (map event_seq \<circ> co_received) (map_of (gw_conns g9) 0), map_option (map event_seq \<circ> co_queue) (map_of (gw_conns g9) 0),
    replay_complete True 2 g12, map_option co_received (map_of (gw_conns g) 1), gw_sends g, gw_emits g)
   = (Some [2], Some [1], True, Some [], [], [])"
  by code_simp

section \<open>Bounds\<close>

definition within_limits :: "limits \<Rightarrow> connection \<Rightarrow> bool" where
  "within_limits lm c \<longleftrightarrow> length (co_queue c) \<le> lm_queue lm \<and> (co_queue c \<noteq> [] \<longrightarrow> pending_bytes c \<le> lm_bytes lm)"

lemma frame_size_pos: "4 \<le> frame_size e"
  by (simp add: frame_size_def)

lemma frame_sizes_pos: "0 \<le> sum_list (map frame_size es)"
proof (induction es)
  case (Cons e es)
  then show ?case
    using frame_size_pos [of e] by simp
qed simp

lemma within_limits_updates:
  "within_limits lm c \<Longrightarrow> within_limits lm (send_event lm e c)" "within_limits lm c \<Longrightarrow> within_limits lm (write_frame c)"
  "within_limits lm (close_connection c)" "within_limits lm new_connection"
  "within_limits lm c \<Longrightarrow> within_limits lm (c\<lparr>co_subscribed := b, co_threads := ts, co_received := es\<rparr>)"
  by (auto simp: within_limits_def send_event_def write_frame_def close_connection_def new_connection_def pending_bytes_def split: list.splits)
    (smt (verit) frame_size_pos)

definition conns_within :: "limits \<Rightarrow> gateway \<Rightarrow> bool" where
  "conns_within lm g \<longleftrightarrow> (\<forall>(i, c) \<in> set (gw_conns g). within_limits lm c)"

lemma update_conn_within:
  "conns_within lm g \<Longrightarrow> (\<And>c. within_limits lm c \<Longrightarrow> within_limits lm (f c)) \<Longrightarrow> conns_within lm (update_conn j f g)"
  by (auto simp: update_conn_def conns_within_def)

lemma within_step:
  assumes "conns_within lm g"
  shows "conns_within lm (gateway_step lm valid st g)"
proof (cases st)
  case (RunSend k)
  have "conns_within lm (g\<lparr>gw_sends := xs\<rparr>)" for xs
    using assms by (simp add: conns_within_def)
  then show ?thesis
    using assms by (simp add: RunSend run_send_def update_conn_within within_limits_updates)
next
  case (Subscribe same a ts j)
  then show ?thesis
    using assms by (simp add: subscribe_conn_def update_conn_within within_limits_updates)
next
  case (Write j)
  then show ?thesis
    using assms by (simp add: update_conn_within within_limits_updates)
next
  case (CloseConn j)
  then show ?thesis
    using assms by (simp add: update_conn_within within_limits_updates)
qed (use assms in \<open>auto simp: conns_within_def publish_def fan_out_def store_failed_def Let_def within_limits_updates\<close>)

lemma within_run: "conns_within lm g \<Longrightarrow> conns_within lm (gateway_run lm valid sts g)"
  by (induction sts arbitrary: g) (simp_all add: within_step)

text \<open>C36. In every run the log holds at most its limit of events, numbered in increasing order up to the
  current number, and the event queue of every connection stays within its limits of frames and bytes: a
  client that stops reading is closed, not waited for.\<close>

theorem gateway_bounded:
  "length (gw_log (gateway_run lm valid steps new_gateway)) \<le> lm_events lm \<and>
   sorted_wrt (<) (map event_seq (gw_log (gateway_run lm valid steps new_gateway))) \<and>
   (\<forall>e \<in> set (gw_log (gateway_run lm valid steps new_gateway)). event_seq e \<le> gw_seq (gateway_run lm valid steps new_gateway)) \<and>
   (\<forall>(i, c) \<in> set (gw_conns (gateway_run lm valid steps new_gateway)).
      length (co_queue c) \<le> lm_queue lm \<and> (co_queue c \<noteq> [] \<longrightarrow> sum_list (map frame_size (co_queue c)) \<le> lm_bytes lm))"
proof -
  let ?g = "gateway_run lm valid steps new_gateway"
  let ?h = "published lm valid steps new_gateway"
  have log: "log_ok lm ?h ?g"
    using log_ok_run [of lm "[]" new_gateway valid steps] by (simp add: log_ok_def new_gateway_def last_n_def)
  have "sorted_wrt (<) (map event_seq (take k ?h) @ map event_seq (drop k ?h))" for k
    using log by (simp add: log_ok_def flip: map_append)
  then have "sorted_wrt (<) (map event_seq (gw_log ?g))"
    using log unfolding log_ok_def last_n_def sorted_wrt_append by metis
  moreover have "conns_within lm ?g"
    by (rule within_run) (simp add: conns_within_def new_gateway_def)
  moreover have "length (gw_log ?g) \<le> lm_events lm" "set (gw_log ?g) \<subseteq> set ?h" "\<forall>e \<in> set ?h. event_seq e \<le> gw_seq ?g"
    using log length_last_n set_last_n unfolding log_ok_def by metis+
  ultimately show ?thesis
    unfolding conns_within_def within_limits_def pending_bytes_def by blast
qed

definition queued :: "gw_step list" where
  "queued = [Accept, Subscribe True 0 [] 0, Publish system_event, FanOut 0, RunSend 0]"

theorem gateway_bounded_witness:
  "let g = gateway_run wide (\<lambda>_ _. True) queued new_gateway in
   (\<exists>e \<in> set (gw_log g). event_seq e \<le> gw_seq g) \<and>
   (\<exists>(i, c) \<in> set (gw_conns g). co_queue c \<noteq> [] \<and> length (co_queue c) \<le> 4 \<and> sum_list (map frame_size (co_queue c)) \<le> 10000)"
proof -
  let ?g = "gateway_run wide (\<lambda>_ _. True) queued new_gateway"
  have "let g = gateway_run wide (\<lambda>_ _. True) queued new_gateway in
      (map (\<lambda>(i, c). (i, co_queue c = [])) (gw_conns g), gw_log g = []) = ([(0, False)], False)"
    by code_simp
  then have "map (\<lambda>(i, c). (i, co_queue c = [])) (gw_conns ?g) = [(0, False)]" "gw_log ?g \<noteq> []"
    by (simp_all only: Let_def prod.inject simp_thms)
  then obtain c e where c: "(0, c) \<in> set (gw_conns ?g)" "co_queue c \<noteq> []" and e: "e \<in> set (gw_log ?g)"
    by (force simp: neq_Nil_conv)
  have "event_seq e \<le> gw_seq ?g" "length (co_queue c) \<le> 4 \<and> sum_list (map frame_size (co_queue c)) \<le> 10000"
    using gateway_bounded [of wide "\<lambda>_ _. True" queued] c e by (auto simp: wide_def)
  with c e show ?thesis
    unfolding Let_def by blast
qed

end
