(* ===== verification/OpenAIProps.thy ===== *)
theory OpenAIProps
  imports OpenAIProvider
begin

text \<open>
  What the OpenAI-compatible provider guarantees: reasoning tags are found wherever the pieces of the
  text end, the conversation it sends obeys the protocol of the service, the deltas it publishes are
  the message it ends with, and sending is bounded in attempts and pauses.
\<close>

section \<open>Reasoning tags\<close>

text \<open>The reference: the whole text, read once, with every character labelled.\<close>

function tagged :: "bool \<Rightarrow> string \<Rightarrow> (bool \<times> char) list" where
  "tagged b [] = []"
| "tagged b (c # cs) =
     (if starts_with (c # cs) (think_marker b) then tagged (\<not> b) (drop (length (think_marker b)) (c # cs))
      else (b, c) # tagged b cs)"
  by pat_completeness auto
termination
  by (relation "measure (\<lambda>(b, s). length s)") (auto simp: think_marker_def)

definition labelled :: "(string \<times> string) list \<Rightarrow> (bool \<times> char) list" where
  "labelled ps = concat (map (\<lambda>(k, s). map (Pair (k = ''thinking'')) s) ps)"

fun feed_all :: "string list \<Rightarrow> reasoning_parser \<Rightarrow> (string \<times> string) list" where
  "feed_all [] p = fst (finish_feed p)"
| "feed_all (s # ss) p = (let (ps, p') = feed s p in ps @ feed_all ss p')"

lemma labelled_simps [simp]:
  "labelled [] = []" "labelled (xs @ ys) = labelled xs @ labelled ys" "labelled (tagged_part b s) = map (Pair b) s"
  by (simp_all add: labelled_def tagged_part_def part_name_def)

lemma starts_with_append: "length t \<le> length s \<Longrightarrow> starts_with (s @ r) t = starts_with s t"
  by (simp add: starts_with_def)

lemma str_find_Some:
  "str_find s t = Some i \<Longrightarrow> starts_with (drop i s) t \<and> (\<forall>j < i. \<not> starts_with (drop j s) t)"
proof (induction s arbitrary: i)
  case (Cons c cs)
  then show ?case
    by (auto split: if_splits simp: drop_Cons' less_Suc_eq_0_disj)
qed (simp split: if_splits)

lemma str_find_None: "str_find s t = None \<Longrightarrow> t \<noteq> [] \<Longrightarrow> \<not> starts_with (drop j s) t"
proof (induction s arbitrary: j)
  case Nil
  then show ?case by (cases t) auto
next
  case (Cons c cs)
  then show ?case
    by (cases j) (auto split: if_splits)
qed

lemma tagged_plain:
  "n \<le> length s \<Longrightarrow> \<forall>j < n. \<not> starts_with (drop j s) (think_marker b) \<Longrightarrow>
   tagged b s = map (Pair b) (take n s) @ tagged b (drop n s)"
proof (induction n arbitrary: s)
  case (Suc n)
  then obtain c cs where s: "s = c # cs"
    by (cases s) auto
  have "\<not> starts_with s (think_marker b)" "\<forall>j < n. \<not> starts_with (drop j cs) (think_marker b)"
    using Suc.prems(2) s by (force, fastforce)
  with Suc.IH [of cs] Suc.prems(1) show ?case
    by (simp add: s)
qed simp

lemma tagged_marker: "starts_with s (think_marker b) \<Longrightarrow> tagged b s = tagged (\<not> b) (drop (length (think_marker b)) s)"
  by (cases s) (auto simp: think_marker_def)

lemma find_down:
  "(case find P (rev [1..<Suc k]) of Some n \<Rightarrow> n | None \<Rightarrow> 0) < l \<Longrightarrow> l \<le> k \<Longrightarrow> \<not> P l"
  "(case find P (rev [1..<Suc k]) of Some n \<Rightarrow> n | None \<Rightarrow> 0) \<le> k"
proof (induction k)
  case (Suc k)
  { case 1 with Suc show ?case by (cases "l = Suc k") (auto split: if_splits) }
  { case 2 with Suc show ?case by (auto split: if_splits) }
qed simp_all

lemma partial_suffix:
  "partial_marker_suffix v m < l \<Longrightarrow> l \<le> length v \<Longrightarrow> l < length m \<Longrightarrow> \<not> ends_with v (take l m)"
  "partial_marker_suffix v m \<le> length v" "m \<noteq> [] \<Longrightarrow> partial_marker_suffix v m < length m"
  using find_down [of "\<lambda>n. ends_with v (take n m)" "min (length v) (length m - 1)"]
  by (auto simp: partial_marker_suffix_def simp del: upt_Suc) (metis One_nat_def Suc_pred le_imp_less_Suc length_greater_0_conv)

lemma not_across:
  assumes "str_find buf m = None" "m \<noteq> []" "j < length buf - partial_marker_suffix buf m"
  shows "\<not> starts_with (drop j (buf @ rest)) m"
proof (cases "length m \<le> length buf - j")
  case True
  then show ?thesis
    using assms str_find_None [OF assms(1,2), of j] by (simp add: starts_with_append)
next
  case False
  show ?thesis
  proof
    let ?l = "length buf - j"
    assume "starts_with (drop j (buf @ rest)) m"
    then have "m = take (length m) (drop j buf @ rest)"
      using assms(3) by (simp add: starts_with_def)
    moreover have "take ?l (take (length m) (drop j buf @ rest)) = drop j buf"
      using False by simp
    ultimately have "take ?l m = drop j buf"
      by metis
    then have "ends_with buf (take ?l m)"
      using assms(3) by (simp add: ends_with_def)
    moreover have "partial_marker_suffix buf m < ?l"
      using assms(3) by simp
    ultimately show False
      using partial_suffix(1) [of buf m ?l] False by simp
  qed
qed

lemma feed_loop_tagged:
  "feed_loop b buf = (ps, b', buf') \<Longrightarrow>
   labelled ps @ tagged b' (buf' @ rest) = tagged b (buf @ rest) \<and> length buf' < length (think_marker b')"
proof (induction b buf arbitrary: ps rule: feed_loop.induct)
  case (1 b buf)
  let ?m = "think_marker b"
  show ?case
  proof (cases "buf = []")
    case False
    show ?thesis
    proof (cases "str_find buf ?m")
      case None
      let ?n = "length buf - partial_marker_suffix buf ?m"
      have "ps = tagged_part b (take ?n buf)" "b' = b" "buf' = drop ?n buf"
        using 1(2) False None by (auto simp: feed_loop.simps [of b buf] Let_def)
      moreover have "tagged b (buf @ rest) = map (Pair b) (take ?n (buf @ rest)) @ tagged b (drop ?n (buf @ rest))"
        using not_across [OF None] by (intro tagged_plain) simp_all
      moreover have "length (drop ?n buf) = partial_marker_suffix buf ?m"
        using partial_suffix(2) [of buf ?m] by simp
      ultimately show ?thesis
        using partial_suffix(3) [of ?m buf] by simp
    next
      case (Some i)
      let ?k = "i + length ?m"
      obtain qs where qs: "feed_loop (\<not> b) (drop ?k buf) = (qs, b', buf')" "ps = tagged_part b (take i buf) @ qs"
        using 1(2) False Some by (auto simp: feed_loop.simps [of b buf] Let_def split: prod.splits)
      have bound: "?k \<le> length buf"
        using str_find_bound [OF Some] .
      have "\<forall>j < i. \<not> starts_with (drop j (buf @ rest)) ?m"
        using str_find_Some [OF Some] bound by (simp add: starts_with_append)
      moreover have "starts_with (drop i (buf @ rest)) ?m"
        using str_find_Some [OF Some] bound by (simp add: starts_with_append)
      ultimately have "tagged b (buf @ rest) = map (Pair b) (take i buf) @ tagged (\<not> b) (drop ?k buf @ rest)"
        using tagged_plain [of i "buf @ rest" b] tagged_marker [of "drop i (buf @ rest)" b] bound by (simp add: add.commute)
      with 1(1) [OF False refl Some qs(1)] qs(2) show ?thesis
        by simp
    qed
  qed (use 1(2) in \<open>simp add: feed_loop.simps [of b "[]"] think_marker_def\<close>)
qed

lemma tagged_short: "length s < length (think_marker b) \<Longrightarrow> tagged b s = map (Pair b) s"
  using tagged_plain [of "length s" s b] starts_with_length [of _ "think_marker b"] by fastforce

text \<open>C38. However the text of an answer is cut into pieces, the reasoning parser publishes the text outside
  the tags as text and the text inside as thinking, exactly as one pass over the whole text labels it:
  no character is lost, doubled or mislabelled, even where a tag is cut.\<close>

theorem reasoning_any_pieces:
  "labelled (feed_all pieces new_reasoning) = tagged False (concat pieces)"
proof -
  have "labelled (feed_all pieces p) = tagged (rp_thinking p) (rp_buffer p @ concat pieces)"
    if "length (rp_buffer p) < length (think_marker (rp_thinking p))" for p
    using that
  proof (induction pieces arbitrary: p)
    case Nil
    then show ?case
      by (simp add: finish_feed_def tagged_short)
  next
    case (Cons s ss)
    obtain ps b' buf' where f: "feed_loop (rp_thinking p) (rp_buffer p @ s) = (ps, b', buf')"
      by (cases "feed_loop (rp_thinking p) (rp_buffer p @ s)") auto
    with feed_loop_tagged [OF f, of "concat ss"] Cons.IH [of "\<lparr>rp_buffer = buf', rp_thinking = b'\<rparr>"] show ?case
      by (simp add: feed_def)
  qed
  from this [of new_reasoning] show ?thesis
    by (simp add: new_reasoning_def think_marker_def)
qed

section \<open>The conversation sent\<close>

text \<open>
  The calls still open after a conversation on the wire, or \<open>None\<close> when it breaks the protocol: only
  the results of open calls may follow an assistant message with calls.
\<close>

definition wire_ids :: "(string, json) dict \<Rightarrow> string set" where
  "wire_ids d = (case jget d ''tool_calls'' of JList cs \<Rightarrow> (\<lambda>c. py_str (jget (obj_of c) ''id'')) ` set cs | _ \<Rightarrow> {})"

definition wire_step :: "json \<Rightarrow> string set option \<Rightarrow> string set option" where
  "wire_step j st = (case st of
      None \<Rightarrow> None
    | Some S \<Rightarrow> let d = obj_of j; role = jget d ''role'' in
        if role = JStr ''tool'' then Some (S - {py_str (jget d ''tool_call_id'')})
        else if S \<noteq> {} then None
        else if role = JStr ''assistant'' then Some (wire_ids d) else Some {})"

definition wire_open :: "json list \<Rightarrow> string set option" where
  "wire_open js = fold wire_step js (Some {})"

lemma wire_assistant: "wire_ids (obj_of (openai_message m rc (AssistantMessage a))) = call_ids a"
proof -
  have "jget (obj_of (openai_message m rc (AssistantMessage a))) ''tool_calls''
      = (if tool_calls a \<noteq> [] then JList (map wire_call (tool_calls a)) else JNull)"
    by (simp add: jget_def Let_def)
  then show ?thesis
    by (simp add: wire_ids_def call_ids_def image_image wire_call_def jget_def)
qed

lemma wire_message: "protocol_step x (Some S) \<noteq> None \<Longrightarrow> wire_step (openai_message m rc x) (Some S) = protocol_step x (Some S)"
proof (cases x)
  case (AssistantMessage a)
  assume "protocol_step x (Some S) \<noteq> None"
  moreover have "jget (obj_of (openai_message m rc (AssistantMessage a))) ''role'' = JStr ''assistant''"
    by (simp add: jget_def Let_def)
  ultimately show ?thesis
    using wire_assistant [of m rc a] by (auto simp: AssistantMessage wire_step_def Let_def split: if_splits)
qed (auto simp: wire_step_def jget_def split: if_splits)

lemma wire_results:
  "list_all is_tool_result ms \<Longrightarrow> \<exists>T. fold protocol_step ms (Some S) = Some T \<and> fold wire_step (map (openai_message m rc) ms) (Some S) = Some T"
proof (induction ms arbitrary: S)
  case (Cons x xs)
  then show ?case
    by (cases x) (auto simp: wire_step_def jget_def)
qed simp

lemma protocol_continues: "fold protocol_step (x # xs) st = Some T \<Longrightarrow> \<exists>U. protocol_step x st = Some U"
  by (cases "protocol_step x st") simp_all

lemma wire_follows:
  "fold protocol_step ms (Some S) = Some {} \<Longrightarrow> fold wire_step (openai_messages m rc ms) (Some S) = Some {}"
proof (induction m rc ms arbitrary: S rule: openai_messages.induct)
  case (2 m rc x xs)
  show ?case
  proof (cases "is_tool_result x")
    case False
    obtain U where U: "protocol_step x (Some S) = Some U"
      using protocol_continues 2(3) by blast
    then have "wire_step (openai_message m rc x) (Some S) = Some U"
      using wire_message [of x S m rc] by simp
    with 2(1) [of U] 2(3) U False show ?thesis
      by simp
  next
    case True
    let ?b = "x # takeWhile is_tool_result xs" and ?r = "dropWhile is_tool_result xs"
    have all: "list_all is_tool_result ?b"
      using True by (auto simp: list_all_iff dest: set_takeWhileD)
    obtain T where T: "fold protocol_step ?b (Some S) = Some T" "fold wire_step (map (openai_message m rc) ?b) (Some S) = Some T"
      using wire_results [OF all] by metis
    have "fold protocol_step (?b @ ?r) (Some S) = Some {}"
      using 2(3) by simp
    then have rest: "fold protocol_step ?r (Some T) = Some {}"
      by (simp only: fold_append comp_apply T(1))
    have "T = {}"
    proof (cases ?r)
      case (Cons y ys)
      then have "\<not> is_tool_result y"
        by (metis hd_dropWhile list.sel(1) list.distinct(1))
      moreover obtain U where "protocol_step y (Some T) = Some U"
        using rest protocol_continues Cons by metis
      ultimately show ?thesis
        by (cases y) (auto split: if_splits)
    next
      case Nil
      show ?thesis
        using rest [unfolded Nil] by simp
    qed
    then have "wire_step (observation images) (Some T) = Some {}" for images
      by (simp add: wire_step_def observation_def jget_def)
    moreover have "fold wire_step (openai_messages m rc ?r) (Some {}) = Some {}"
      using 2(2) [OF _ refl refl, of T] True rest \<open>T = {}\<close> by simp
    ultimately show ?thesis
      using True T(2) \<open>T = {}\<close> by (simp add: Let_def)
  qed
qed simp

lemma messages_sent_once: "subseq (map (openai_message m rc) ms) (openai_messages m rc ms)"
proof (induction m rc ms rule: openai_messages.induct)
  case (2 m rc x xs)
  show ?case
  proof (cases "is_tool_result x")
    case True
    let ?b = "x # takeWhile is_tool_result xs" and ?r = "dropWhile is_tool_result xs"
    have "subseq (map (openai_message m rc) ?r) (extra @ openai_messages m rc ?r)" for extra
      using 2(2) [OF _ refl refl] True by (simp add: subseq_drop_many)
    then have "subseq (map (openai_message m rc) (?b @ ?r)) (map (openai_message m rc) ?b @ extra @ openai_messages m rc ?r)" for extra
      by (simp only: map_append list_emb_append_mono [OF subseq_order.refl])
    then show ?thesis
      using True by (simp add: Let_def)
  qed (use 2 in simp)
qed simp


section \<open>Deltas and the final message\<close>

definition deltas :: "string \<Rightarrow> stream_event list \<Rightarrow> string" where
  "deltas ty es = concat (map se_delta (filter (\<lambda>e. se_type e = ty) es))"

definition call_deltas :: "int \<Rightarrow> stream_event list \<Rightarrow> string" where
  "call_deltas i es = concat (map se_delta (filter (\<lambda>e. se_tool_call_index e = Some i) es))"

definition call_indices :: "stream_event list \<Rightarrow> int list" where
  "call_indices es = sort (remdups (concat (map (\<lambda>e. case se_tool_call_index e of Some i \<Rightarrow> [i] | None \<Rightarrow> []) es)))"

definition delta_types :: "string list" where
  "delta_types = [''text_delta'', ''thinking_delta'', ''toolcall_delta'']"

definition part_of :: "string \<Rightarrow> stream_event list \<Rightarrow> (int, string) dict \<Rightarrow> bool" where
  "part_of ty es d \<longleftrightarrow> d = [] \<and> deltas ty es = [] \<or> d = [(0, deltas ty es)]"

definition collected :: "collector \<Rightarrow> bool" where
  "collected c \<longleftrightarrow> (\<exists>ds. co_events c = message_event ''start'' None # ds \<and> (\<forall>d \<in> set ds. se_type d \<in> set delta_types) \<and>
     part_of ''text_delta'' ds (co_text c) \<and> part_of ''thinking_delta'' ds (co_thinking c) \<and>
     distinct (map fst (co_calls c)) \<and> fst ` set (co_calls c) = set (call_indices ds) \<and>
     (\<forall>(i, cl) \<in> set (co_calls c). cl_arguments cl = call_deltas i ds))"

interpretation kept: state_preorder "\<lambda>s t. collected s \<longrightarrow> collected t"
  by unfold_locales auto

lemma deltas_snoc [simp]:
  "deltas ty (ds @ [e]) = deltas ty ds @ (if se_type e = ty then se_delta e else [])"
  "call_deltas i (ds @ [e]) = call_deltas i ds @ (if se_tool_call_index e = Some i then se_delta e else [])"
  "set (call_indices (ds @ [e])) = set (call_indices ds) \<union> set_option (se_tool_call_index e)"
  by (auto simp: deltas_def call_deltas_def call_indices_def split: option.splits)

lemma collected_part: "collected c \<Longrightarrow> collected (add_part kp c)"
  by (cases kp) (auto simp: collected_def add_part_def part_of_def stream_delta_def delta_types_def split: if_splits)

lemma collected_parts: "collected c \<Longrightarrow> collected (fold add_part ps c)"
  by (induction ps arbitrary: c) (simp_all add: collected_part)

lemma collected_update [simp]:
  "collected (c\<lparr>co_parser := p\<rparr>) = collected c" "collected (c\<lparr>co_finish := f\<rparr>) = collected c"
  "collected (c\<lparr>co_usage := u\<rparr>) = collected c" "collected (c\<lparr>co_saw_chunk := b\<rparr>) = collected c"
  by (simp_all add: collected_def)

lemma update_entries: "distinct (map fst d) \<Longrightarrow> set (AList.update k v d) \<subseteq> insert (k, v) {kv \<in> set d. fst kv \<noteq> k}"
  by (induction d) (auto simp: rev_image_eqI)

lemma collected_call: "steps (\<lambda>s t. collected s \<longrightarrow> collected t) (add_call raw)"
proof -
  have step: "collected (let st' = upd (dict_get (co_calls c) i \<lparr>cl_id = [], cl_name = [], cl_arguments = []\<rparr>)
      in c\<lparr>co_calls := AList.update i st' (co_calls c), co_events := co_events c @ [call_delta i args st']\<rparr>)"
    if c: "collected c" and upd: "\<And>st::call_state. cl_arguments (upd st) = cl_arguments st @ args" for c i args upd
  proof -
    obtain ds where ds: "co_events c = message_event ''start'' None # ds" "\<forall>d \<in> set ds. se_type d \<in> set delta_types"
      "part_of ''text_delta'' ds (co_text c)" "part_of ''thinking_delta'' ds (co_thinking c)"
      "distinct (map fst (co_calls c))" "fst ` set (co_calls c) = set (call_indices ds)"
      "\<forall>(i, cl) \<in> set (co_calls c). cl_arguments cl = call_deltas i ds"
      using c by (auto simp: collected_def)
    let ?st = "upd (dict_get (co_calls c) i \<lparr>cl_id = [], cl_name = [], cl_arguments = []\<rparr>)"
    let ?e = "call_delta i args ?st"
    have e: "se_type ?e = ''toolcall_delta''" "se_tool_call_index ?e = Some i" "se_delta ?e = args"
      by (simp_all add: call_delta_def)
    have old: "cl_arguments (dict_get (co_calls c) i \<lparr>cl_id = [], cl_name = [], cl_arguments = []\<rparr>) = call_deltas i ds"
    proof (cases "map_of (co_calls c) i")
      case None
      then have "i \<notin> set (call_indices ds)"
        using ds(6) by (simp add: map_of_eq_None_iff)
      then have "\<forall>e \<in> set ds. se_tool_call_index e \<noteq> Some i"
        by (fastforce simp: call_indices_def)
      then show ?thesis
        using None by (simp add: call_deltas_def)
    qed (use ds(7) in \<open>auto dest: map_of_SomeD\<close>)
    have "set (AList.update i ?st (co_calls c)) \<subseteq> insert (i, ?st) {kv \<in> set (co_calls c). fst kv \<noteq> i}"
      by (rule update_entries [OF ds(5)])
    then have "\<forall>(j, cl) \<in> set (AList.update i ?st (co_calls c)). cl_arguments cl = call_deltas j (ds @ [?e])"
      using ds(7) old upd e by fastforce
    then show ?thesis
      using ds(1-6) e unfolding collected_def Let_def
      by (intro exI [of _ "ds @ [?e]"]) (auto simp: part_of_def delta_types_def)
  qed
  have "collected (let st = dict_get (co_calls c) i \<lparr>cl_id = [], cl_name = [], cl_arguments = []\<rparr>;
         st' = \<lparr>cl_id = cl_id st @ a, cl_name = cl_name st @ b, cl_arguments = cl_arguments st @ args\<rparr>
      in c\<lparr>co_calls := AList.update i st' (co_calls c), co_events := co_events c @ [call_delta i args st']\<rparr>)"
    if "collected c" for c i args a b
    using step [OF that, of "\<lambda>st. \<lparr>cl_id = cl_id st @ a, cl_name = cl_name st @ b, cl_arguments = cl_arguments st @ args\<rparr>" args i]
    by (simp add: Let_def)
  then show ?thesis
    unfolding add_call_def Let_def by (intro kept.steps_rules) (simp_all add: Let_def)
qed

lemma collected_line: "steps (\<lambda>s t. collected s \<longrightarrow> collected t) (line_step pv m line)"
proof -
  have content: "collected c \<Longrightarrow> collected (add_content v c)" for v c
    by (auto simp: add_content_def collected_parts collected_part split: option.split prod.split)
  have choice: "steps (\<lambda>s t. collected s \<longrightarrow> collected t) (choice_step v)" for v
  proof -
    have "steps (\<lambda>s t. collected s \<longrightarrow> collected t) (case w of JStr s \<Rightarrow> if s \<noteq> [] then modifies (add_content s) else ret () | _ \<Rightarrow> ret ())" for w
      by (cases w) (simp_all add: kept.steps_ret kept.steps_modifies content)
    then show ?thesis
      unfolding choice_step_def Let_def
      by (intro kept.steps_rules collected_call) (simp_all add: collected_part)
  qed
  have "steps (\<lambda>s t. collected s \<longrightarrow> collected t) (chunk_step pv m v)" for v
    unfolding chunk_step_def Let_def by (intro kept.steps_rules choice) simp_all
  then show ?thesis
    unfolding line_step_def Let_def by (intro kept.steps_rules) simp_all
qed

lemma answer_outcome:
  "wp (read_answer pv m fresh now lines ending)
     (\<lambda>_ c. \<exists>c0 reason. collected c0 \<and> co_events c = co_events c0 @ [final_message fresh now m reason c0]) (\<lambda>_ _. True) (new_collector pv)"
proof -
  have "collected (new_collector pv)"
    by (simp add: collected_def new_collector_def part_of_def deltas_def call_indices_def)
  moreover have "wp (line_step pv m l) (\<lambda>_. collected) (\<lambda>_ _. True) c" if "collected c" for l c
    using collected_line [of pv m l] that unfolding steps_wp by (auto elim!: wp_mono allE)
  ultimately have "wp (for_each (line_step pv m) lines) (\<lambda>_. collected) (\<lambda>_ _. True) (new_collector pv)"
    by (intro wp_for_each)
  then show ?thesis
    unfolding read_answer_def wp_seqc
  proof (rule wp_mono)
    fix x c
    assume c: "collected c"
    let ?d = "case co_parser c of None \<Rightarrow> c | Some p \<Rightarrow> let (ps, p') = finish_feed p in fold add_part ps (c\<lparr>co_parser := Some p'\<rparr>)"
    have "collected ?d"
      using c by (auto simp: collected_parts split: option.split prod.split)
    then show "wp (case ending of Complete \<Rightarrow> ret () | TransportError why \<Rightarrow>
           throw (InferenceError ''transport'' (pv_name pv @ '' stream failed: '' @ why) True None) | OtherEnd x \<Rightarrow> throw x)
        (\<lambda>x. wp finish_parser (\<lambda>x. wp (reads (\<lambda>c. (co_saw_chunk c, co_finish c)))
           (\<lambda>x. wp (case x of (saw, fin) \<Rightarrow>
              if \<not> saw then throw (InferenceError ''invalid_response'' (pv_name pv @ '' stream ended without any chunks'') True None)
              else (case fin of
                  None \<Rightarrow> throw (InferenceError ''invalid_response'' (pv_name pv @ '' stream ended without finish_reason'') True None)
                | Some reason \<Rightarrow> modifies (\<lambda>c. c\<lparr>co_events := co_events c @ [final_message fresh now m reason c]\<rparr>)))
             (\<lambda>_ c. \<exists>c0 reason. collected c0 \<and> co_events c = co_events c0 @ [final_message fresh now m reason c0]) (\<lambda>_ _. True))
           (\<lambda>_ _. True)) (\<lambda>_ _. True)) (\<lambda>_ _. True) c"
      by (cases ending) (auto simp: finish_parser_def split: option.split)
  qed simp
qed

lemma sorted_calls:
  assumes "distinct (map fst d)" "fst ` set d = set (call_indices ds)" "\<forall>(i, cl) \<in> set d. cl_arguments cl = call_deltas i ds"
  shows "map (\<lambda>(i, cl). parse_tool_arguments (cl_arguments cl)) (sort_key fst d)
    = map (\<lambda>i. parse_tool_arguments (call_deltas i ds)) (call_indices ds)"
proof -
  have "map fst (sort_key fst d) = call_indices ds"
  proof (rule sorted_distinct_set_unique)
    show "distinct (map fst (sort_key fst d))"
      using assms(1) by (metis distinct_sort distinct_map set_sort)
  qed (use assms(2) in \<open>auto simp: call_indices_def\<close>)
  then have "map (\<lambda>i. parse_tool_arguments (call_deltas i ds)) (call_indices ds)
      = map (\<lambda>kv. parse_tool_arguments (call_deltas (fst kv) ds)) (sort_key fst d)"
    by (metis (no_types, lifting) list.map_comp map_cong comp_apply)
  also have "\<dots> = map (\<lambda>(i, cl). parse_tool_arguments (cl_arguments cl)) (sort_key fst d)"
    using assms(3) by (intro map_cong) auto
  finally show ?thesis
    by simp
qed

lemma assistant_text_append: "am_content a = xs @ ys @ zs \<Longrightarrow> assistant_text a
    = concat (concat (map text_of xs)) @ concat (concat (map text_of ys)) @ concat (concat (map text_of zs))"
proof -
  have "(case p of TextContent t \<Rightarrow> t | _ \<Rightarrow> []) = concat (text_of p)" for p
    by (cases p) simp_all
  then have "concat (map (\<lambda>p. case p of TextContent t \<Rightarrow> t | _ \<Rightarrow> []) xs) = concat (concat (map text_of xs))" for xs
    by (induction xs) simp_all
  then show "am_content a = xs @ ys @ zs \<Longrightarrow> assistant_text a
    = concat (concat (map text_of xs)) @ concat (concat (map text_of ys)) @ concat (concat (map text_of zs))"
    by (simp add: assistant_text_def)
qed

definition final_agrees :: "stream_event list \<Rightarrow> assistant_message \<Rightarrow> bool" where
  "final_agrees ds a \<longleftrightarrow> assistant_text a = deltas ''text_delta'' ds \<and>
     concat (concat (map thinking_of (am_content a))) = deltas ''thinking_delta'' ds \<and>
     map tc_arguments (tool_calls a) = map (\<lambda>i. parse_tool_arguments (call_deltas i ds)) (call_indices ds)"

lemma final_message_agrees:
  assumes "collected c" "co_events c = message_event ''start'' None # ds"
  shows "se_type (final_message fresh now m reason c) = ''error'' \<or>
    se_type (final_message fresh now m reason c) = ''done'' \<and>
    (\<exists>a. se_message (final_message fresh now m reason c) = Some a \<and> final_agrees ds a)"
proof (cases "reason \<in> {''stop'', ''tool_calls'', ''length''}")
  case True
  have c: "part_of ''text_delta'' ds (co_text c)" "part_of ''thinking_delta'' ds (co_thinking c)"
    and calls: "distinct (map fst (co_calls c))" "fst ` set (co_calls c) = set (call_indices ds)"
      "\<forall>(i, cl) \<in> set (co_calls c). cl_arguments cl = call_deltas i ds"
    using assms by (auto simp: collected_def)
  let ?cs = "map (\<lambda>(i, cl). ToolCall (if cl_id cl \<noteq> [] then cl_id cl else fresh i) (cl_name cl) (parse_tool_arguments (cl_arguments cl)))
     (sort_key fst (co_calls c))"
  obtain a where a: "se_message (final_message fresh now m reason c) = Some a" "am_content a = final_content fresh c"
    "se_type (final_message fresh now m reason c) = ''done''"
    using True by (auto simp: final_message_def message_event_def)
  have none: "concat (concat (map text_of ?cs)) = []" "concat (concat (map thinking_of ?cs)) = []"
    by (simp_all add: comp_def case_prod_unfold)
  have "tool_calls a = map (\<lambda>(i, cl). \<lparr>tc_id = (if cl_id cl \<noteq> [] then cl_id cl else fresh i), tc_name = cl_name cl,
      tc_arguments = parse_tool_arguments (cl_arguments cl)\<rparr>) (sort_key fst (co_calls c))"
    unfolding tool_calls_def a(2) final_content_def by (simp add: comp_def case_prod_unfold)
  then have "map tc_arguments (tool_calls a) = map (\<lambda>i. parse_tool_arguments (call_deltas i ds)) (call_indices ds)"
    using sorted_calls [OF calls] by (simp add: comp_def case_prod_unfold)
  moreover have "assistant_text a = deltas ''text_delta'' ds"
  proof -
    have "concat (concat (map text_of (if co_thinking c \<noteq> [] then [ThinkingContent (joined_parts (co_thinking c))] else []))) = []"
      by simp
    moreover have "concat (concat (map text_of (if co_text c \<noteq> [] then [TextContent (joined_parts (co_text c))] else []))) = deltas ''text_delta'' ds"
      using c(1) by (auto simp: part_of_def joined_parts_def)
    ultimately show ?thesis
      using assistant_text_append [OF a(2) [unfolded final_content_def]] none(1) by (simp only: append_Nil append_Nil2)
  qed
  moreover have "concat (concat (map thinking_of (am_content a))) = deltas ''thinking_delta'' ds"
  proof -
    have "concat (concat (map thinking_of (if co_text c \<noteq> [] then [TextContent (joined_parts (co_text c))] else []))) = []"
      by simp
    moreover have "concat (concat (map thinking_of (if co_thinking c \<noteq> [] then [ThinkingContent (joined_parts (co_thinking c))] else [])))
        = deltas ''thinking_delta'' ds"
      using c(2) by (auto simp: part_of_def joined_parts_def)
    ultimately show ?thesis
      using none(2) by (simp only: a(2) final_content_def map_append concat_append append_Nil append_Nil2)
  qed
  ultimately show ?thesis
    using a by (simp add: final_agrees_def)
qed (simp add: final_message_def message_event_def)

lemma stream_completed:
  assumes "xc_error (openai_stream pv model_id prepare date fresh now replies lines ending m ctx o') = None"
  shows "\<exists>c. xc_events (openai_stream pv model_id prepare date fresh now replies lines ending m ctx o') = co_events c \<and>
    read_answer pv m fresh now lines ending (new_collector pv) = (Inr (), c)"
proof -
  have key: "(pv_requires_key pv \<and> pv_api_key pv = []) = False"
    using assms by (auto simp: openai_stream_def failed_exchange_def)
  note stream = openai_stream_def [of pv model_id prepare date fresh now replies lines ending m ctx o', unfolded key if_False]
  obtain pl where pl: "openai_payload (pv_levels pv) (pv_requires_reasoning pv) m ctx o' = Inr pl"
    using assms by (cases "openai_payload (pv_levels pv) (pv_requires_reasoning pv) m ctx o'") (simp_all add: stream failed_exchange_def)
  obtain r l where l: "send_request pv date replies o' [] = (r, l)"
    by fastforce
  have r: "r = Inr ()"
    using assms pl l by (cases r) (simp_all add: stream failed_exchange_def Let_def)
  obtain r' c where c: "read_answer pv m fresh now lines ending (new_collector pv) = (r', c)"
    by fastforce
  have "r' = Inr ()"
    using assms pl l r c by (cases r') (simp_all add: stream Let_def)
  then show ?thesis
    using pl l r c by (simp add: stream Let_def)
qed

text \<open>C39. A stream that ends without an error published one start, then deltas only, then one final event; when
  that is the message, its text and its thinking are the deltas one after the other, and its tool
  calls, in the order of their indices, have the arguments the deltas of each index spell.\<close>

theorem streamed_message_agrees:
  assumes "xc_error (openai_stream pv model_id prepare date fresh now replies lines ending m ctx o') = None"
  shows "\<exists>ds final. xc_events (openai_stream pv model_id prepare date fresh now replies lines ending m ctx o')
      = message_event ''start'' None # ds @ [final] \<and> (\<forall>d \<in> set ds. se_type d \<in> set delta_types) \<and>
     (se_type final = ''error'' \<or> se_type final = ''done'' \<and> (\<exists>a. se_message final = Some a \<and> final_agrees ds a))"
proof -
  obtain c where c: "xc_events (openai_stream pv model_id prepare date fresh now replies lines ending m ctx o') = co_events c"
    "read_answer pv m fresh now lines ending (new_collector pv) = (Inr (), c)"
    using stream_completed [OF assms] by blast
  then obtain c0 reason where c0: "collected c0" "co_events c = co_events c0 @ [final_message fresh now m reason c0]"
    using answer_outcome [of pv m fresh now lines ending] by (auto simp: wp_def)
  obtain ds where ds: "co_events c0 = message_event ''start'' None # ds" "\<forall>d \<in> set ds. se_type d \<in> set delta_types"
    using c0(1) by (auto simp: collected_def)
  with final_message_agrees [OF c0(1) ds(1)] c(1) c0(2) show ?thesis
    by auto
qed

definition plain_provider :: provider where
  "plain_provider = \<lparr>pv_id = ''p'', pv_name = ''P'', pv_api_key = ''k'', pv_headers = [], pv_requires_key = True, pv_levels = [],
     pv_requires_reasoning = False, pv_reasoning_tags = False\<rparr>"

definition plain_model :: model_info where
  "plain_model = \<lparr>mi_id = ''p/m'', mi_name = ''m'', mi_provider = ''p'', mi_reasoning = False, mi_input = [''text''],
     mi_context_window = 100, mi_max_output_tokens = 10, mi_cost = []\<rparr>"

definition plain_options :: stream_options where
  "plain_options = \<lparr>so_timeout_ms = None, so_max_tokens = None, so_temperature = None, so_thinking_level = ''off'', so_max_retries = Some 0,
     so_base_delay_ms = 1, so_max_retry_delay_ms = 1, so_headers = [], so_metadata = []\<rparr>"

definition sample_chunk :: "json \<Rightarrow> json \<Rightarrow> string" where
  "sample_chunk delta reason = ''data: '' @ json_compact (JObj [(''choices'', JList [JObj [(''delta'', delta), (''finish_reason'', reason)]])])"

definition sample_lines :: "string list" where
  "sample_lines = [sample_chunk (JObj [(''content'', JStr ''b'')]) JNull,
     sample_chunk (JObj [(''tool_calls'', JList [JObj [(''function'', JObj [(''arguments'', JStr ''{}'')])]])]) (JStr ''stop'')]"

definition sample_exchange :: provider_call where
  "sample_exchange = openai_stream plain_provider request_model_id id (\<lambda>_. None) (\<lambda>_. []) 0 (\<lambda>_. Answer 200 [] None) sample_lines Complete
     plain_model \<lparr>ic_system_prompt = [], ic_messages = [], ic_tools = [], ic_session_id = []\<rparr> plain_options"

theorem streamed_message_agrees_witness:
  "\<exists>ds final a. xc_events sample_exchange = message_event ''start'' None # ds @ [final] \<and> se_message final = Some a \<and> final_agrees ds a \<and>
     map (\<lambda>d. (se_type d, se_delta d)) ds = [(''text_delta'', ''b''), (''toolcall_delta'', ''{}'')]"
proof -
  have "(xc_error sample_exchange, map (\<lambda>d. (se_type d, se_delta d)) (xc_events sample_exchange))
      = (None, [(''start'', []), (''text_delta'', ''b''), (''toolcall_delta'', ''{}''), (''done'', [])])"
    by code_simp
  then have ok: "xc_error sample_exchange = None" and es: "map (\<lambda>d. (se_type d, se_delta d)) (xc_events sample_exchange)
      = [(''start'', []), (''text_delta'', ''b''), (''toolcall_delta'', ''{}''), (''done'', [])]"
    by simp_all
  obtain ds final where f: "xc_events sample_exchange = message_event ''start'' None # ds @ [final]"
    "se_type final = ''error'' \<or> se_type final = ''done'' \<and> (\<exists>a. se_message final = Some a \<and> final_agrees ds a)"
    using streamed_message_agrees [OF ok [unfolded sample_exchange_def]] unfolding sample_exchange_def [symmetric] by blast
  with es have "map (\<lambda>d. (se_type d, se_delta d)) (ds @ [final])
      = [(''text_delta'', ''b''), (''toolcall_delta'', ''{}'')] @ [(''done'', [])]"
    by simp
  then have "map (\<lambda>d. (se_type d, se_delta d)) ds = [(''text_delta'', ''b''), (''toolcall_delta'', ''{}'')]"
    "se_type final = ''done''"
    unfolding map_append by (simp_all del: append.simps)
  with f show ?thesis
    by auto
qed

section \<open>Attempts and pauses\<close>

definition send_notes :: "sending_event list \<Rightarrow> (string \<times> nat) list" where
  "send_notes l = concat (map (\<lambda>e. case e of Notified st n d x \<Rightarrow> [(st, n)] | _ \<Rightarrow> []) l)"

definition sends :: "sending_event list \<Rightarrow> nat list" where
  "sends l = concat (map (\<lambda>e. case e of Sent n \<Rightarrow> [n] | _ \<Rightarrow> []) l)"

definition pauses :: "sending_event list \<Rightarrow> rat list" where
  "pauses l = concat (map (\<lambda>e. case e of Slept d \<Rightarrow> [d] | _ \<Rightarrow> []) l)"

lemma log_simps [simp]:
  "send_notes [] = []" "sends [] = []" "pauses [] = []"
  "send_notes (xs @ ys) = send_notes xs @ send_notes ys" "sends (xs @ ys) = sends xs @ sends ys" "pauses (xs @ ys) = pauses xs @ pauses ys"
  "send_notes (Notified st n d x # l) = (st, n) # send_notes l" "send_notes (Sent n # l) = send_notes l" "send_notes (Slept d # l) = send_notes l"
  "sends (Sent n # l) = n # sends l" "sends (Notified st n d x # l) = sends l" "sends (Slept d # l) = sends l"
  "pauses (Slept d # l) = d # pauses l" "pauses (Sent n # l) = pauses l" "pauses (Notified st n d x # l) = pauses l"
  by (simp_all add: send_notes_def sends_def pauses_def)

lemma round_half_even_le: "q \<le> of_int k \<Longrightarrow> round_half_even q \<le> k"
proof -
  assume "q \<le> of_int k"
  then have "\<lfloor>q\<rfloor> \<le> k" "\<lfloor>q\<rfloor> = k \<longrightarrow> q = of_int k"
    by (linarith, metis floor_correct order_antisym)
  then show "round_half_even q \<le> k"
    by (auto simp: round_half_even_def Let_def)
qed

lemma retry_delay_le: "retry_delay date ra n o' \<le> of_int (so_max_retry_delay_ms o') / 1000"
  by (auto simp: retry_delay_def backoff_def split: option.split)

text \<open>What a log says after \<open>k\<close> retries: the attempts, the announcements and the pauses.\<close>

definition retried :: "stream_options \<Rightarrow> nat \<Rightarrow> sending_event list \<Rightarrow> bool" where
  "retried o' k l \<longleftrightarrow> sends l = [0..<k] \<and> send_notes l = map (\<lambda>i. (''start'', Suc i)) [0..<k] \<and> length (pauses l) = k \<and>
     (\<forall>d \<in> set (pauses l). d \<le> of_int (so_max_retry_delay_ms o') / 1000)"

definition concluded :: "stream_options \<Rightarrow> nat \<Rightarrow> bool \<Rightarrow> sending_event list \<Rightarrow> bool" where
  "concluded o' k announced l \<longleftrightarrow> sends l = [0..<Suc k] \<and> length (pauses l) = k \<and>
     (\<forall>d \<in> set (pauses l). d \<le> of_int (so_max_retry_delay_ms o') / 1000) \<and>
     send_notes l = map (\<lambda>i. (''start'', Suc i)) [0..<k] @ (if k = 0 \<or> \<not> announced then [] else [(''end'', k)])"

lemma send_loop_outcome:
  "retried o' k l \<Longrightarrow> retrying = (0 < k) \<Longrightarrow> 0 < n \<Longrightarrow>
   \<exists>j < k + n. concluded o' j (\<forall>x. replies j \<noteq> Refused x) (snd (send_loop pv date replies o' n k retrying l)) \<and>
     (\<forall>x. replies j = Refused x \<longrightarrow> fst (send_loop pv date replies o' n k retrying l) = Inl x)"
proof (induction n arbitrary: k l retrying)
  case (Suc n)
  let ?max = "of_int (so_max_retry_delay_ms o') / 1000 :: rat"
  have again: "\<exists>j < k + Suc n. concluded o' j (\<forall>x. replies j \<noteq> Refused x) (snd (send_loop pv date replies o' n (k + 1) True l')) \<and>
      (\<forall>x. replies j = Refused x \<longrightarrow> fst (send_loop pv date replies o' n (k + 1) True l') = Inl x)"
    if "n \<noteq> 0" "d \<le> ?max" "l' = l @ [Sent k, Notified ''start'' (k + 1) e y, Slept d]" for d l' e y
    using Suc.IH [of "Suc k" l' True] Suc.prems(1) that
    by (simp add: retried_def)
  show ?case
  proof (cases "replies k")
    case (Refused x)
    with Suc.prems show ?thesis
      by (intro exI [of _ k]) (simp add: retried_def concluded_def comp_defs logs_def)
  next
    case (Broken why)
    show ?thesis
    proof (cases "n = 0")
      case True
      with Broken Suc.prems show ?thesis
        by (intro exI [of _ k]) (simp add: retried_def concluded_def comp_defs logs_def end_note_def)
    next
      case False
      have "backoff k o' \<le> ?max"
        by (simp add: backoff_def)
      with again [OF False this refl] False Broken show ?thesis
        by (simp add: comp_defs logs_def Let_def)
    qed
  next
    case (Answer st body ra)
    let ?ms = "round_half_even (retry_delay date ra k o' * 1000)"
    have "?ms \<le> so_max_retry_delay_ms o'"
      using retry_delay_le [of date ra k o'] by (intro round_half_even_le) (simp add: field_simps)
    then have "of_int ?ms / 1000 \<le> ?max"
      by (simp add: divide_right_mono)
    note more = again [OF _ this refl]
    show ?thesis
    proof (cases "st < 400 \<or> \<not> (retryable_status st \<and> \<not> quota_error (sanitize_body pv (take 4000 body))) \<or> n = 0")
      case True
      with Answer Suc.prems show ?thesis
        by (intro exI [of _ k]) (auto simp: retried_def concluded_def comp_defs logs_def end_note_def Let_def)
    next
      case False
      with more Answer show ?thesis
        by (simp add: comp_defs logs_def Let_def)
    qed
  qed
qed simp

text \<open>C40. A request is sent at most \<open>max_retries + 1\<close> times, every attempt after a pause no longer than the
  longest allowed, whatever the service names in its header; every retry is announced with its
  number, and unless the client itself fails the last one is concluded by one closing notice.\<close>

theorem sending_bounded:
  "\<exists>k < attempts o'. concluded o' k (\<forall>x. replies k \<noteq> Refused x) (snd (send_request pv date replies o' []))"
proof -
  have "0 < attempts o'"
    by (simp add: attempts_def)
  with send_loop_outcome [of o' 0 "[]" False "attempts o'" replies pv date] show ?thesis
    by (auto simp: send_request_def retried_def)
qed

section \<open>Listed models\<close>

definition usable_model :: "provider \<Rightarrow> found_model \<Rightarrow> bool" where
  "usable_model pv f \<longleftrightarrow> starts_with (fm_id f) (pv_id pv @ ''/'') \<and> fm_provider f = pv_id pv \<and> 1 \<le> fm_context_window f \<and>
     1 \<le> fm_max_output_tokens f \<and> fm_max_output_tokens f \<le> min DEFAULT_OUTPUT_CEILING (fm_context_window f)"

lemma listed_usable:
  assumes "listed_model pv d found = Inr found'" "list_all (usable_model pv) found" "distinct (map fm_id found)"
  shows "list_all (usable_model pv) found' \<and> distinct (map fm_id found')"
proof -
  have quarter: "trunc_rat (rat_of_int w * (1/4)) \<le> w" if "1 \<le> w" for w
  proof -
    have "\<lfloor>rat_of_int w * (1/4)\<rfloor> \<le> \<lfloor>rat_of_int w\<rfloor>"
      using that by (intro floor_mono) simp
    then show ?thesis
      using that by (simp add: trunc_rat_def)
  qed
  have bound: "max 1 (min DEFAULT_OUTPUT_CEILING (trunc_rat (rat_of_int (max 1 n) * (1/4)))) \<le> min DEFAULT_OUTPUT_CEILING (max 1 n)" for n
    using quarter [of "max 1 n"] by (simp add: DEFAULT_OUTPUT_CEILING_def)
  let ?raw = "dropWhile (\<lambda>c. c = CHR ''/'') (str_strip (str_or (jget d ''id'') []))"
  let ?id = "(pv_id pv @ ''/'') @ removeprefix ?raw (pv_id pv @ ''/'')"
  show ?thesis
  proof (cases "?raw = [] \<or> \<not> is_agent_capable_model ?raw (str_or (jget d ''name'') ?raw) d \<or> ?id \<in> fm_id ` set found")
    case False
    then have cond: "(?raw = [] \<or> \<not> is_agent_capable_model ?raw (str_or (jget d ''name'') ?raw) d \<or> ?id \<in> fm_id ` set found) = False"
      by blast
    obtain n where n: "found' = found @ [\<lparr>fm_id = ?id, fm_name = str_or (jget d ''name'') ?raw, fm_provider = pv_id pv,
        fm_reasoning = truthy (dict_get d ''reasoning'' (JBool False)),
        fm_input = (if truthy (jget d ''supports_image'') then [''text'', ''image''] else [''text'']), fm_context_window = max 1 n,
        fm_max_output_tokens = max 1 (min DEFAULT_OUTPUT_CEILING (trunc_rat (rat_of_int (max 1 n) * (1/4))))\<rparr>]"
      using assms(1) unfolding listed_model_def Let_def cond if_False
      by (elim bind_res_InrE) (rule that, drule sum.inject(2) [THEN iffD1], erule sym)
    have "usable_model pv (last found')"
      unfolding n usable_model_def using bound [of n] by (simp add: starts_with_def)
    then show ?thesis
      using assms(2,3) False by (simp add: n)
  qed (use assms in \<open>simp add: listed_model_def Let_def\<close>)
qed

lemma discovered_models_usable:
  "discover_models pv listing = Inr found \<Longrightarrow> found \<noteq> [] \<and> list_all (usable_model pv) found \<and> distinct (map fm_id found)"
proof -
  have "listed_models pv vs found = Inr found' \<Longrightarrow> list_all (usable_model pv) found \<Longrightarrow> distinct (map fm_id found)
      \<Longrightarrow> list_all (usable_model pv) found' \<and> distinct (map fm_id found')" for vs found found'
    by (induction pv vs found rule: listed_models.induct)
      (auto elim!: bind_res_InrE split: json.splits dest: listed_usable)
  from this [of _ "[]"] show "discover_models pv listing = Inr found \<Longrightarrow> ?thesis"
    by (auto simp: discover_models_def elim!: bind_res_InrE split: sum.splits json.splits if_splits)
qed

section \<open>A cut secret\<close>

text \<open>The body of an error is cut to 4,000 characters before the secrets are replaced in it: of a key across the
  cut all but its last character remain.\<close>

lemma cut_key_remains:
  "sanitize_body (plain_provider\<lparr>pv_api_key := ''sk-key''\<rparr>) (take 4000 (replicate 3995 CHR ''.'' @ ''sk-key''))
    = replicate 3995 CHR ''.'' @ ''sk-ke''"
proof -
  have "\<not> contains (replicate n CHR ''.'' @ ''sk-ke'') ''sk-key''" for n
    by (induction n) simp_all
  then show ?thesis
    by (simp add: sanitize_body_def plain_provider_def py_replace_id)
qed

end
