(* ===== verification/Spec2Isabelle.thy ===== *)
theory Spec2Isabelle
  imports RunProperties SessionAgent ToolTextProps ToolEditProps OperationProps LiveTimelineProps TimelineProps StoreOrder GatewayProps OpenAIProps
begin

text \<open>
  A verification development for the Aeloon runtime, the agent runtime under
  \<^verbatim>\<open>src/aeloon_runtime\<close>. File names below are relative to that directory.

  \<^bold>\<open>The program.\<close> A client asks the runtime for a turn in a session. The service
  (\<^verbatim>\<open>runtime/service.py\<close>) registers an operation, waits for the session's lock and builds an
  agent (\<^verbatim>\<open>runtime/agent.py\<close>). The agent runs the engine (\<^verbatim>\<open>core/runner.py\<close>): turns of a
  conversation with a model, in which the context is projected (\<^verbatim>\<open>core/inference_runtime.py\<close>), sent
  to a provider, and the tool calls of the answer are executed (\<^verbatim>\<open>core/tool_runtime.py\<close>), while a
  controller (\<^verbatim>\<open>core/control.py\<close>) accepts steering and follow-up input and cancellation. When the
  context nears its limit (\<^verbatim>\<open>core/context_stats.py\<close>, \<^verbatim>\<open>core/compaction.py\<close>) the agent
  summarises its older part (\<^verbatim>\<open>runtime/compaction.py\<close>, \<^verbatim>\<open>runtime/summarization.py\<close>). Everything
  is kept in an append-only tree of entries, one JSON line each (\<^verbatim>\<open>runtime/session.py\<close>). The events of
  the run become blocks of a turn, live and, from the file, in the timeline (\<^verbatim>\<open>runtime/service.py\<close>);
  they pass the gateway (\<^verbatim>\<open>runtime_server.py\<close>) into the projection store (\<^verbatim>\<open>store.py\<close>)
  and to the subscribed connections.

  \<^bold>\<open>Conventions.\<close> A Python exception is a value of type \<open>exn\<close> on the left of a sum
  (\<open>RtPrelude\<close>); a computation with state returns an error or a value, and the state it leaves in both
  cases (\<open>RunMonad\<close>). Dynamic values are \<open>json\<close> (\<open>PyValues\<close>), with Python's
  \<open>or\<close>, truth value, \<open>int()\<close> and \<open>str()\<close>; Python integers are \<open>int\<close>, floats exact
  fractions (\<open>rat\<close> or \<open>real\<close>), so binary rounding is not modelled. Text is a list of characters with
  code points up to 255, so the separators U+2028 and U+2029 of \<open>str.splitlines\<close> do not occur in it.
  Time, fresh identifiers, hash functions, providers, tools, hooks, listeners and file systems
  are arguments of the definitions; what is proved holds for every value of them unless a
  hypothesis says otherwise. An asynchronous function is a sequence of steps from one await to the
  next, and the schedule is an argument.

  \<^bold>\<open>The engine.\<close>
  \<open>CoreTypes\<close> (\<^verbatim>\<open>core/types.py\<close>) holds messages, contents, usage and their codec: reading a
  stored message back loses nothing.
  \<open>RunEvents\<close> (\<^verbatim>\<open>core/events.py\<close>) is the dispatcher with its sink, listeners and hooks: a
  broken listener is isolated.
  \<open>RunControl\<close> (\<^verbatim>\<open>core/control.py\<close>) holds the queues, modes, binding and cancellation:
  accepted input is delivered once and in order.
  \<open>Projection\<close> (\<open>normalize_inference_messages\<close>) and \<open>Inference\<close> (requests, streams and
  the retry loop of \<^verbatim>\<open>core/inference_runtime.py\<close>) show that no context violates the protocol of the
  providers, that a history is kept, and that retries are bounded.
  \<open>ContextOverflow\<close> holds the classification of overflow errors with its regular expressions.
  \<open>ToolCalls\<close> (\<^verbatim>\<open>core/tool_runtime.py\<close>) executes the calls under any schedule: one result and one
  pair of events for each.
  \<open>ContextStats\<close> (\<^verbatim>\<open>core/context_stats.py\<close>) estimates tokens, scales buckets to an exact total
  and clamps the compaction policy.
  \<open>AgentRun\<close> (\<^verbatim>\<open>core/runner.py\<close>) is the whole loop; it carries fuel, and
  the properties of \<open>RunProperties\<close> hold for every amount of it: the order of the events, the
  release of the controller, the bound on compactions, the contexts that are sent. The loop itself need not end, since
  a model may ask for tools for ever. The locales \<open>run_frame\<close> and \<open>full_run_frame\<close> state what one
  step of the loop owes a relation between states; they are interpreted for the event log, the
  compaction count and the contexts.

  \<^bold>\<open>Sessions.\<close>
  \<open>SessionTree\<close> and \<open>SessionState\<close> (\<^verbatim>\<open>runtime/session.py\<close>) hold entries, branches,
  contexts and every operation of a session in memory; \<open>SessionStats\<close>, \<open>SessionReach\<close> and
  \<open>SessionProps\<close> show, for every reachable session, that walks end, that the incremental
  statistics are those of a full scan and what a compaction leaves of the context.
  \<open>SessionFile\<close> is the log as text (with \<open>JsonText\<close>, \<open>json.dumps\<close> and \<open>json.loads\<close>,
  and \<open>PyText\<close>) and the repository; \<open>SessionFileProps\<close> shows the round trip and the cases in which it fails.
  \<open>CompactionPrep\<close> chooses the cut; \<open>Summarization\<close> builds the rolling requests, none longer
  than the window; \<open>SessionAgent\<close> composes them with navigation and explicit compaction.

  \<^bold>\<open>The service.\<close>
  \<open>Operations\<close> is the life of turns and session operations as steps; \<open>OperationProps\<close> proves
  exclusion, progress and the leaks of abandoned operations.
  \<open>TurnBlocks\<close> are the blocks of a running turn and \<open>Timeline\<close> those read from a file; their
  \<open>Props\<close> theories and \<open>LiveTimeline\<close>, \<open>LiveTimelineProps\<close> show typed blocks, a complete
  timeline, and that both views agree.
  \<open>Redaction\<close> (\<^verbatim>\<open>runtime/projection.py\<close>, \<^verbatim>\<open>config.py\<close>) is what leaves the runtime.
  \<open>ToolText\<close> and \<open>ToolEdit\<close> (\<^verbatim>\<open>tool/base.py\<close>, \<^verbatim>\<open>tool/filesystem.py\<close>, \<^verbatim>\<open>tool/shell.py\<close>)
  are the output limits, the read tool and the edit tool.

  \<^bold>\<open>The gateway.\<close>
  \<open>Store\<close> (\<^verbatim>\<open>store.py\<close>) holds the five tables with keys and cascades, the statements on them and the
  blobs; \<open>StoreProps\<close> and \<open>StoreOrder\<close> show integrity over any sequence of operations with failures,
  and the order of threads. \<open>Gateway\<close> (\<^verbatim>\<open>runtime_server.py\<close>) is the way of an event to the log,
  the store and the queues of the connections; \<open>GatewayProps\<close> shows that no event is lost, and bounds.

  \<^bold>\<open>Fuel and termination.\<close> The loop of a run (\<open>run_turns\<close>) carries fuel, since a model may ask
  for tools for ever; that it ran out is the value \<open>OutOfFuel\<close>, which no handler catches. The retry
  loop counts the iterations of its \<open>range\<close>. The walk along the parents of a session is a
  \<open>partial_function\<close>, undefined on a cycle; \<open>SessionProps\<close> proves that it returns in every
  reachable session. The JSON reader takes two units per character, proved enough for every
  document the runtime writes. A fork takes one clock value per message. The other loops end by
  structure or by a proved measure.

  \<^bold>\<open>Not modelled.\<close> The command line, configuration files (pydantic), sockets and TLS, HTTP
  conversations with providers and the cloud, images and documents (decoded by third-party
  libraries), processes, pseudo-terminals and git, prompt resources, logs for people, and the
  scripts, benchmarks and skills beside the runtime: these are input and output around the parts above, or
  code of other packages. JSON schemas are parameters.
\<close>

end
